(* ===== verification/Prelude.thy ===== *)
theory Prelude
  imports Main "HOL-Library.Char_ord" "HOL-Library.List_Lexorder" "HOL-Library.Sublist"
    "HOL-Library.Word" "HOL-Library.AList"
begin

text \<open>
  The shared vocabulary of the development: the Go types the components are written over
  (\<open>string\<close>, \<open>int64\<close>, \<open>error\<close>, pointers as options), the functions of the packages
  \<open>strings\<close>, \<open>strconv\<close>, \<open>errors\<close> and \<open>encoding/hex\<close> that the sources call, and
  the lemmas on lists, options and sums that every component uses.

  Conventions. A Go \<open>string\<close> is a list of bytes, so a HOL \<open>string\<close>. An \<open>int64\<close> is
  an \<open>int\<close>; where the source computes with it the result is reduced by \<open>wrap64\<close>. A
  pointer that may be nil is an \<open>option\<close>. A function that returns \<open>(T, error)\<close> returns
  \<open>err + T\<close>, with \<open>Inl\<close> for the error. State is passed and returned explicitly.
\<close>

section \<open>Collections of rules\<close>

named_theorems go_simps \<open>defining equations of the Go library functions\<close>
named_theorems invar_intros \<open>every operation keeps the invariant of its component\<close>

section \<open>Errors\<close>

text \<open>
  A Go \<open>error\<close> is a sentinel declared with \<open>errors.New\<close> (compared by identity; the texts
  of the sentinels in the sources are pairwise different), an opaque error of the runtime or
  of a driver, or \<open>fmt.Errorf("msg: %w", e)\<close>, which keeps the wrapped error.
\<close>

datatype err =
    Sentinel string
  | Opaque string
  | Wrap string err

type_synonym 'a result = "err + 'a"

fun err_Error :: "err \<Rightarrow> string" where
  "err_Error (Sentinel m) = m"
| "err_Error (Opaque m) = m"
| "err_Error (Wrap m e) = m @ '': '' @ err_Error e"

text \<open>\<open>errors.Is\<close>: the error itself or one it wraps.\<close>

fun errors_Is :: "err \<Rightarrow> err \<Rightarrow> bool" where
  "errors_Is (Wrap m e) t \<longleftrightarrow> Wrap m e = t \<or> errors_Is e t"
| "errors_Is e t \<longleftrightarrow> e = t"

text \<open>\<open>if err != nil { return fmt.Errorf("msg: %w", err) }\<close> around a fallible call.\<close>

fun wrap_err :: "string \<Rightarrow> 'a result \<times> 's \<Rightarrow> 'a result \<times> 's" where
  "wrap_err m (Inl e, s) = (Inl (Wrap m e), s)"
| "wrap_err m (Inr x, s) = (Inr x, s)"

lemma snd_wrap_err [simp]: "snd (wrap_err m r) = snd r"
  by (cases "(m, r)" rule: wrap_err.cases) auto

lemma wrap_err_Inr_iff [simp]: "wrap_err m r = (Inr x, s) \<longleftrightarrow> r = (Inr x, s)"
  by (cases "(m, r)" rule: wrap_err.cases) auto

lemma wrap_err_Inl_iff:
  "wrap_err m r = (Inl e, s) \<longleftrightarrow> (\<exists>e'. r = (Inl e', s) \<and> e = Wrap m e')"
  by (cases "(m, r)" rule: wrap_err.cases) auto

lemma fst_wrap_err_Inr [simp]: "fst (wrap_err m r) = Inr x \<longleftrightarrow> fst r = Inr x"
  by (cases "(m, r)" rule: wrap_err.cases) auto

text \<open>\<open>os.ErrNotExist\<close>; the text the system adds to it (operation and path) is left out.\<close>

definition ErrNotExist :: err where
  "ErrNotExist = Sentinel ''file does not exist''"

section \<open>Machine integers\<close>

text \<open>\<open>int64\<close> arithmetic wraps around at 64 bits, two's complement.\<close>

definition wrap64 :: "int \<Rightarrow> int" where
  "wrap64 x = (x + 9223372036854775808) mod 18446744073709551616 - 9223372036854775808"

definition is64 :: "int \<Rightarrow> bool" where
  "is64 x \<longleftrightarrow> - 9223372036854775808 \<le> x \<and> x < 9223372036854775808"

lemma is64_wrap64 [simp]: "is64 (wrap64 x)"
proof -
  have "0 \<le> (x + 9223372036854775808) mod 18446744073709551616"
    "(x + 9223372036854775808) mod 18446744073709551616 < 18446744073709551616"
    by (rule pos_mod_sign pos_mod_bound, simp)+
  then show ?thesis by (simp add: is64_def wrap64_def)
qed

lemma wrap64_id: "is64 x \<Longrightarrow> wrap64 x = x"
  by (simp add: is64_def wrap64_def)

text \<open>The explicit formula is the signed reading of the 64-bit word.\<close>

lemma wrap64_word: "wrap64 x = sint (word_of_int x :: 64 word)"
  by (simp add: wrap64_def sint_sbintrunc' signed_take_bit_eq_take_bit_shift take_bit_eq_mod)

text \<open>\<open>UnixNano\<close> of the zero \<open>time.Time\<close>, out of range of \<open>int64\<close> and wrapped.\<close>

definition zero_UnixNano :: int where
  "zero_UnixNano = wrap64 (- 62135596800 * 1000000000)"

section \<open>The package strings\<close>

definition HasPrefix :: "string \<Rightarrow> string \<Rightarrow> bool" where
  [go_simps]: "HasPrefix s p \<longleftrightarrow> prefix p s"

definition TrimPrefix :: "string \<Rightarrow> string \<Rightarrow> string" where
  [go_simps]: "TrimPrefix s p = (if HasPrefix s p then drop (length p) s else s)"

definition HasSuffix :: "string \<Rightarrow> string \<Rightarrow> bool" where
  [go_simps]: "HasSuffix s p \<longleftrightarrow> suffix p s"

definition TrimSuffix :: "string \<Rightarrow> string \<Rightarrow> string" where
  [go_simps]: "TrimSuffix s p = (if HasSuffix s p then take (length s - length p) s else s)"

lemma TrimPrefix_append [simp]: "TrimPrefix (p @ s) p = s"
  by (simp add: go_simps)

lemma TrimSuffix_append [simp]: "TrimSuffix (s @ p) p = s"
  by (simp add: go_simps suffix_def)

text \<open>\<open>strings.SplitN(s, sep, 2)\<close> for a one-character separator.\<close>

fun SplitN2 :: "char \<Rightarrow> string \<Rightarrow> string list" where
  "SplitN2 c s = (case dropWhile (\<lambda>x. x \<noteq> c) s of
       [] \<Rightarrow> [s]
     | _ # rest \<Rightarrow> [takeWhile (\<lambda>x. x \<noteq> c) s, rest])"

lemma SplitN2_no_sep: "c \<notin> set s \<Longrightarrow> SplitN2 c s = [s]"
proof -
  assume "c \<notin> set s"
  then have "dropWhile (\<lambda>x. x \<noteq> c) s = []" by (auto simp: dropWhile_eq_Nil_conv)
  then show ?thesis by (simp only: SplitN2.simps list.case)
qed

lemma SplitN2_sep: "c \<notin> set a \<Longrightarrow> SplitN2 c (a @ c # b) = [a, b]"
  by (simp add: dropWhile_append takeWhile_append)

declare SplitN2.simps [simp del]

text \<open>\<open>strings.ToLower\<close> on the hexadecimal names it is applied to.\<close>

definition to_lower_char :: "char \<Rightarrow> char" where
  "to_lower_char c = (if 65 \<le> (of_char c :: nat) \<and> (of_char c :: nat) \<le> 90
     then char_of ((of_char c :: nat) + 32) else c)"

definition ToLower :: "string \<Rightarrow> string" where
  "ToLower = map to_lower_char"

lemma to_lower_char_idem [simp]: "to_lower_char (to_lower_char c) = to_lower_char c"
  by (simp add: to_lower_char_def)

lemma ToLower_idem [simp]: "ToLower (ToLower s) = ToLower s"
  by (simp add: ToLower_def)

lemma length_ToLower [simp]: "length (ToLower s) = length s"
  by (simp add: ToLower_def)

section \<open>The package strconv\<close>

definition digit_char :: "nat \<Rightarrow> char" where
  "digit_char d = char_of (d + 48)"

fun show_nat :: "nat \<Rightarrow> string" where
  "show_nat n = (if n < 10 then [digit_char n] else show_nat (n div 10) @ [digit_char (n mod 10)])"

declare show_nat.simps [simp del]

text \<open>\<open>fmt.Sprint\<close> and \<open>strconv.FormatInt\<close> of an integer.\<close>

definition Sprint_int :: "int \<Rightarrow> string" where
  "Sprint_int i = (if i < 0 then CHR ''-'' # show_nat (nat (- i)) else show_nat (nat i))"

definition is_digit :: "char \<Rightarrow> bool" where
  "is_digit c \<longleftrightarrow> 48 \<le> (of_char c :: nat) \<and> (of_char c :: nat) \<le> 57"

fun parse_digits :: "nat \<Rightarrow> string \<Rightarrow> nat option" where
  "parse_digits acc [] = Some acc"
| "parse_digits acc (c # cs) =
     (if is_digit c then parse_digits (10 * acc + (of_char c - 48)) cs else None)"

text \<open>
  \<open>strconv.ParseInt(s, 10, 64)\<close>: an optional sign and at least one digit, and the value must
  fit \<open>int64\<close>.
\<close>

definition parse_unsigned :: "string \<Rightarrow> nat option" where
  "parse_unsigned s = (if s = [] then None else parse_digits 0 s)"

definition ParseInt :: "string \<Rightarrow> int result" where
  "ParseInt s =
     (let neg = (case s of c # _ \<Rightarrow> c = CHR ''-'' | [] \<Rightarrow> False);
          signed = (case s of c # _ \<Rightarrow> c = CHR ''-'' \<or> c = CHR ''+'' | [] \<Rightarrow> False)
      in case parse_unsigned (if signed then tl s else s) of
           None \<Rightarrow> Inl (Sentinel ''invalid syntax'')
         | Some n \<Rightarrow> (let v = (if neg then - int n else int n)
                      in if is64 v then Inr v else Inl (Sentinel ''value out of range'')))"

lemma of_char_digit_char [simp]: "d < 10 \<Longrightarrow> of_char (digit_char d) = d + 48"
  by (simp add: digit_char_def)

lemma is_digit_digit_char [simp]: "d < 10 \<Longrightarrow> is_digit (digit_char d)"
  by (simp add: is_digit_def)

lemma parse_digits_append:
  "parse_digits acc (xs @ ys) = (case parse_digits acc xs of None \<Rightarrow> None | Some a \<Rightarrow> parse_digits a ys)"
  by (induction xs arbitrary: acc) auto

lemma parse_digits_show_nat: "parse_digits 0 (show_nat n) = Some n"
proof (induction n rule: show_nat.induct)
  case (1 n)
  then show ?case
    by (subst show_nat.simps) (auto simp: parse_digits_append)
qed

lemma show_nat_nonempty [simp]: "show_nat n \<noteq> []"
  by (subst show_nat.simps) auto

lemma show_nat_digits: "c \<in> set (show_nat n) \<Longrightarrow> is_digit c"
proof (induction n rule: show_nat.induct)
  case (1 n)
  then show ?case
    by (subst (asm) show_nat.simps) (auto split: if_splits)
qed

lemma is_digit_not_sign [simp]: "\<not> is_digit (CHR ''-'')" "\<not> is_digit (CHR ''+'')"
  by (simp_all add: is_digit_def)

text \<open>Formatting and parsing an \<open>int64\<close> is the identity.\<close>

lemma ParseInt_Sprint_int: "is64 i \<Longrightarrow> ParseInt (Sprint_int i) = Inr i"
proof (cases "i < 0")
  case True
  assume "is64 i"
  with True show ?thesis
    by (simp add: ParseInt_def Sprint_int_def parse_unsigned_def parse_digits_show_nat)
next
  case False
  assume r: "is64 i"
  obtain c cs where s: "show_nat (nat i) = c # cs" by (cases "show_nat (nat i)") auto
  have "is_digit c" using show_nat_digits [of c "nat i"] s by simp
  then have "c \<noteq> CHR ''-''" "c \<noteq> CHR ''+''" using is_digit_not_sign by blast+
  moreover have "parse_digits 0 (c # cs) = Some (nat i)" using parse_digits_show_nat s by metis
  ultimately show ?thesis using False r
    by (simp add: ParseInt_def Sprint_int_def parse_unsigned_def s Let_def del: parse_digits.simps)
qed

section \<open>The package encoding/hex\<close>

type_synonym byte = "8 word"

definition hex_digit :: "nat \<Rightarrow> char" where
  "hex_digit d = (if d < 10 then char_of (d + 48) else char_of (d + 87))"

definition EncodeToString :: "byte list \<Rightarrow> string" where
  "EncodeToString bs = concat (map (\<lambda>b. [hex_digit (unat b div 16), hex_digit (unat b mod 16)]) bs)"

lemma length_EncodeToString: "length (EncodeToString bs) = 2 * length bs"
  by (induction bs) (auto simp: EncodeToString_def)

text \<open>An \<open>io.Reader\<close>: the bytes it delivers and the error it ends with, if any.\<close>

record reader =
  rd_data :: "byte list"
  rd_err :: "string option"

text \<open>The verb \<open>%q\<close> of \<open>fmt\<close>: \<open>strconv.Quote\<close>.\<close>

definition quote_char :: "char \<Rightarrow> string" where
  "quote_char c =
     (let n = (of_char c :: nat) in
      if n = 34 then [CHR 0x5C, CHR 0x22]
      else if n = 92 then [CHR 0x5C, CHR 0x5C]
      else if n = 7 then [CHR 0x5C, CHR ''a'']
      else if n = 8 then [CHR 0x5C, CHR ''b'']
      else if n = 12 then [CHR 0x5C, CHR ''f'']
      else if n = 10 then [CHR 0x5C, CHR ''n'']
      else if n = 13 then [CHR 0x5C, CHR ''r'']
      else if n = 9 then [CHR 0x5C, CHR ''t'']
      else if n = 11 then [CHR 0x5C, CHR ''v'']
      else if n < 32 \<or> n = 127 then [CHR 0x5C, CHR ''x'', hex_digit (n div 16), hex_digit (n mod 16)]
      else [c])"

definition Sprintf_q :: "string \<Rightarrow> string" where
  "Sprintf_q s = [CHR 0x22] @ concat (map quote_char s) @ [CHR 0x22]"

section \<open>Tables as lists of rows\<close>

text \<open>The last entry of a list that satisfies a predicate, as a Go map built by a loop keeps it.\<close>

definition find_last :: "('a \<Rightarrow> bool) \<Rightarrow> 'a list \<Rightarrow> 'a option" where
  "find_last P xs = List.find P (rev xs)"

text \<open>Tables are lists of rows; these are the generic facts on updating rows in place.\<close>

lemma find_Some_iff': "List.find P xs = Some x \<Longrightarrow> P x \<and> x \<in> set xs"
  by (induction xs) (auto split: if_splits)

lemma find_append: "List.find P (xs @ ys) = (case List.find P xs of None \<Rightarrow> List.find P ys | Some x \<Rightarrow> Some x)"
  by (induction xs) auto

lemma find_None_all: "List.find P xs = None \<longleftrightarrow> (\<forall>x \<in> set xs. \<not> P x)"
  by (induction xs) auto

text \<open>With a key that no two rows share, the row found by its key is the row.\<close>

lemma find_key:
  assumes "distinct (map k xs)" "x \<in> set xs"
  shows "List.find (\<lambda>y. k y = k x) xs = Some x"
  using assms by (induction xs) (auto simp: image_iff)

lemma find_key_iff:
  "distinct (map k xs) \<Longrightarrow> List.find (\<lambda>y. k y = a) xs = Some x \<longleftrightarrow> x \<in> set xs \<and> k x = a"
  using find_key [of k xs x] find_Some_iff' [of "\<lambda>y. k y = a" xs x] by auto

text \<open>
  \<open>INSERT ... ON CONFLICT(key) DO UPDATE\<close>: the row with the key of \<open>new\<close> is updated in
  place, or the new row is appended.
\<close>

definition upsert_row :: "('r \<Rightarrow> 'k) \<Rightarrow> 'r \<Rightarrow> ('r \<Rightarrow> 'r) \<Rightarrow> 'r list \<Rightarrow> 'r list" where
  "upsert_row key new upd rows =
     (if \<exists>r \<in> set rows. key r = key new
      then map (\<lambda>r. if key r = key new then upd r else r) rows
      else rows @ [new])"

lemma keys_update_rows:
  "(\<And>r. key (upd r) = key r) \<Longrightarrow>
     map key (map (\<lambda>r. if P r then upd r else r) rows) = map key rows"
  by (induction rows) auto

lemma distinct_upsert_row:
  assumes "\<And>r. key (upd r) = key r" "distinct (map key rows)"
  shows "distinct (map key (upsert_row key new upd rows))"
  using assms keys_update_rows [of key upd "\<lambda>r. key r = key new" rows]
  by (auto simp: upsert_row_def simp del: map_map)

lemma keys_upsert_row:
  assumes "\<And>r. key (upd r) = key r"
  shows "key ` set (upsert_row key new upd rows) = insert (key new) (key ` set rows)"
proof (cases "\<exists>r \<in> set rows. key r = key new")
  case True
  have "set (map key (map (\<lambda>r. if key r = key new then upd r else r) rows)) = set (map key rows)"
    by (simp only: keys_update_rows [of key upd, OF assms])
  then have "key ` set (upsert_row key new upd rows) = key ` set rows"
    using True by (simp only: upsert_row_def if_True set_map)
  moreover have "key new \<in> key ` set rows" using True by (metis imageI)
  ultimately show ?thesis by (simp add: insert_absorb)
next
  case False
  then show ?thesis by (auto simp: upsert_row_def)
qed

lemma find_upsert_row:
  assumes "\<And>r. key (upd r) = key r"
  shows "List.find (\<lambda>r. key r = k) (upsert_row key new upd rows) =
    (if k = key new
     then Some (case List.find (\<lambda>r. key r = k) rows of None \<Rightarrow> new | Some r \<Rightarrow> upd r)
     else List.find (\<lambda>r. key r = k) rows)"
proof -
  have upd: "List.find (\<lambda>r. key r = k) (map (\<lambda>r. if key r = key new then upd r else r) rows) =
      (if k = key new then map_option upd (List.find (\<lambda>r. key r = k) rows)
       else List.find (\<lambda>r. key r = k) rows)" for rows
    using assms by (induction rows) auto
  have none: "List.find (\<lambda>r. key r = key new) rows = None \<longleftrightarrow> \<not> (\<exists>r \<in> set rows. key r = key new)"
    by (simp add: find_None_all)
  show ?thesis
    by (cases "List.find (\<lambda>r. key r = key new) rows")
       (use none in \<open>auto simp: upsert_row_def upd find_append split: option.splits\<close>)
qed

text \<open>Restricting a table keeps the keys distinct.\<close>

lemma distinct_keys_filter: "distinct (map key rows) \<Longrightarrow> distinct (map key (filter P rows))"
  by (induction rows) auto

section \<open>Association lists\<close>

lemma list_all_update: "list_all P r \<Longrightarrow> P (k, v) \<Longrightarrow> list_all P (AList.update k v r)"
  by (induction r) auto

lemma list_all_delete: "list_all P r \<Longrightarrow> list_all P (AList.delete k r)"
  by (auto simp: list_all_iff AList.delete_eq)

end
