(* ===== verification/Proto.thy ===== *)
theory Proto
  imports Prelude
begin

text \<open>
  The wire protocol (\<open>internal/proto\<close>): the envelope, the message structs of
  \<open>messages.go\<close> and the codec of \<open>codec.go\<close>.

  A payload (\<open>json.RawMessage\<close>) is a JSON value; \<open>encoding/json\<close> is modelled between
  structs and JSON values, following the struct tags: \<open>omitempty\<close> drops a zero field, a
  missing key leaves the zero value, a repeated key is read last-wins, keys match up to ASCII
  case, \<open>null\<close> leaves a field as it is, a value of the wrong kind or a number outside
  \<open>int64\<close> is an error. The byte syntax of JSON is rendered (\<open>json_text\<close>), not parsed.
\<close>

section \<open>JSON values\<close>

datatype json =
    JNull
  | JBool bool
  | JNum int
  | JStr string
  | JArr "json list"
  | JObj "(string \<times> json) list"

subsection \<open>Rendering, with the escapes of encoding/json\<close>

definition hex4 :: "nat \<Rightarrow> string" where
  "hex4 n = [CHR ''0'', CHR ''0'', hex_digit (n div 16), hex_digit (n mod 16)]"

definition json_escape_char :: "char \<Rightarrow> string" where
  "json_escape_char c =
     (let n = (of_char c :: nat) in
      if n = 34 then [CHR 0x5C, CHR 0x22]
      else if n = 92 then [CHR 0x5C, CHR 0x5C]
      else if n = 8 then [CHR 0x5C, CHR ''b'']
      else if n = 12 then [CHR 0x5C, CHR ''f'']
      else if n = 10 then [CHR 0x5C, CHR ''n'']
      else if n = 13 then [CHR 0x5C, CHR ''r'']
      else if n = 9 then [CHR 0x5C, CHR ''t'']
      else if n < 32 \<or> n = 60 \<or> n = 62 \<or> n = 38 then [CHR 0x5C, CHR ''u''] @ hex4 n
      else [c])"

definition json_quote :: "string \<Rightarrow> string" where
  "json_quote s = [CHR 0x22] @ concat (map json_escape_char s) @ [CHR 0x22]"

fun join_with :: "string \<Rightarrow> string list \<Rightarrow> string" where
  "join_with sep [] = []"
| "join_with sep [x] = x"
| "join_with sep (x # y # xs) = x @ sep @ join_with sep (y # xs)"

fun json_text :: "json \<Rightarrow> string" where
  "json_text JNull = ''null''"
| "json_text (JBool b) = (if b then ''true'' else ''false'')"
| "json_text (JNum n) = Sprint_int n"
| "json_text (JStr s) = json_quote s"
| "json_text (JArr xs) = ''['' @ join_with '','' (map json_text xs) @ '']''"
| "json_text (JObj kvs) = ''{'' @ join_with '','' (map (\<lambda>(k, v). json_quote k @ '':'' @ json_text v) kvs) @ ''}''"

subsection \<open>Struct fields\<close>

text \<open>Encoding: a plain field, and a field tagged \<open>omitempty\<close>.\<close>

definition put :: "string \<Rightarrow> json \<Rightarrow> (string \<times> json) list" where
  "put k v = [(k, v)]"

definition put_str_omit :: "string \<Rightarrow> string \<Rightarrow> (string \<times> json) list" where
  "put_str_omit k s = (if s = [] then [] else [(k, JStr s)])"

definition put_num_omit :: "string \<Rightarrow> int \<Rightarrow> (string \<times> json) list" where
  "put_num_omit k n = (if n = 0 then [] else [(k, JNum n)])"

definition put_bool_omit :: "string \<Rightarrow> bool \<Rightarrow> (string \<times> json) list" where
  "put_bool_omit k b = (if b then [(k, JBool b)] else [])"

text \<open>Decoding: the last entry under the key; absent and \<open>null\<close> give the zero value.\<close>

definition key_eq :: "string \<Rightarrow> string \<Rightarrow> bool" where
  "key_eq a b \<longleftrightarrow> ToLower a = ToLower b"

definition json_err :: err where
  "json_err = Opaque ''json: cannot unmarshal''"

definition field :: "string \<Rightarrow> (string \<times> json) list \<Rightarrow> json" where
  "field k kvs = (case find_last (\<lambda>(k', v). key_eq k' k \<and> v \<noteq> JNull) kvs of
      None \<Rightarrow> JNull | Some (_, v) \<Rightarrow> v)"

fun as_str :: "json \<Rightarrow> string result" where
  "as_str JNull = Inr []"
| "as_str (JStr s) = Inr s"
| "as_str _ = Inl json_err"

fun as_num :: "json \<Rightarrow> int result" where
  "as_num JNull = Inr 0"
| "as_num (JNum n) = (if is64 n then Inr n else Inl json_err)"
| "as_num _ = Inl json_err"

fun as_bool :: "json \<Rightarrow> bool result" where
  "as_bool JNull = Inr False"
| "as_bool (JBool b) = Inr b"
| "as_bool _ = Inl json_err"

text \<open>Sequencing of fallible decoders (\<open>if err != nil { return err }\<close>).\<close>

definition rbind :: "'a result \<Rightarrow> ('a \<Rightarrow> 'b result) \<Rightarrow> 'b result" where
  "rbind r f = (case r of Inl e \<Rightarrow> Inl e | Inr x \<Rightarrow> f x)"

lemma rbind_simps [simp]: "rbind (Inl e) f = Inl e" "rbind (Inr x) f = f x"
  by (simp_all add: rbind_def)

fun rmap :: "('a \<Rightarrow> 'b result) \<Rightarrow> 'a list \<Rightarrow> 'b list result" where
  "rmap f [] = Inr []"
| "rmap f (x # xs) = rbind (f x) (\<lambda>y. rbind (rmap f xs) (\<lambda>ys. Inr (y # ys)))"

lemma rmap_map: "(\<And>x. x \<in> set xs \<Longrightarrow> f (g x) = Inr x) \<Longrightarrow> rmap f (map g xs) = Inr xs"
  by (induction xs) auto

text \<open>A JSON object is required; \<open>null\<close> decodes to the zero struct.\<close>

fun as_obj :: "json \<Rightarrow> (string \<times> json) list result" where
  "as_obj JNull = Inr []"
| "as_obj (JObj kvs) = Inr kvs"
| "as_obj _ = Inl json_err"

fun as_arr :: "json \<Rightarrow> json list result" where
  "as_arr JNull = Inr []"
| "as_arr (JArr xs) = Inr xs"
| "as_arr _ = Inl json_err"

section \<open>Message types\<close>

text \<open>The constants of \<open>messages.go\<close> and the protocol version of \<open>version.go\<close>.\<close>

definition TypeRegisterRequest :: string where "TypeRegisterRequest = ''register_request''"
definition TypeRegisterResponse :: string where "TypeRegisterResponse = ''register_response''"
definition TypeSubscribePair :: string where "TypeSubscribePair = ''subscribe_pair''"
definition TypeSubscribePairAck :: string where "TypeSubscribePairAck = ''subscribe_pair_ack''"
definition TypeFileChangedEvent :: string where "TypeFileChangedEvent = ''file_changed_event''"
definition TypeFileSyncCommand :: string where "TypeFileSyncCommand = ''file_sync_command''"
definition TypeFileSyncAck :: string where "TypeFileSyncAck = ''file_sync_ack''"
definition TypeListDirRequest :: string where "TypeListDirRequest = ''list_dir_request''"
definition TypeListDirResponse :: string where "TypeListDirResponse = ''list_dir_response''"
definition TypeListFilesRequest :: string where "TypeListFilesRequest = ''list_files_request''"
definition TypeListFilesResponse :: string where "TypeListFilesResponse = ''list_files_response''"
definition TypePing :: string where "TypePing = ''ping''"
definition TypePong :: string where "TypePong = ''pong''"

lemmas msg_type_defs = TypeRegisterRequest_def TypeRegisterResponse_def TypeSubscribePair_def
  TypeSubscribePairAck_def TypeFileChangedEvent_def TypeFileSyncCommand_def TypeFileSyncAck_def
  TypeListDirRequest_def TypeListDirResponse_def TypeListFilesRequest_def
  TypeListFilesResponse_def TypePing_def TypePong_def

definition ProtoVersion :: string where "ProtoVersion = ''1''"

section \<open>Message structs\<close>

record Envelope =
  Type :: string
  CorrelationID :: string
  Payload :: json

record RegisterRequest =
  rr_ClientID :: string
  rr_Hostname :: string
  rr_RootPath :: string
  rr_Version :: string
  rr_ProtoVersion :: string

record SubscribePair =
  sp_PairID :: string
  sp_Side :: string
  sp_RootSubpath :: string
  sp_Direction :: string

record FileChangedEvent =
  ev_PairID :: string
  ev_Side :: string
  ev_RelPath :: string
  ev_SHA256 :: string
  ev_Size :: int
  ev_ModTime :: int
  ev_Op :: string
  ev_IsDir :: bool

record FileSyncCommand =
  cmd_PairID :: string
  cmd_Side :: string
  cmd_RelPath :: string
  cmd_SHA256 :: string
  cmd_Op :: string
  cmd_NewRelPath :: string
  cmd_OriginatorClientID :: string

record FileSyncAck =
  ack_PairID :: string
  ack_Side :: string
  ack_RelPath :: string
  ack_SHA256 :: string
  ack_Status :: string
  ack_Error :: string

record ListFilesRequest =
  lfr_PairID :: string
  lfr_Side :: string

record FileSnapshot =
  sn_RelPath :: string
  sn_SHA256 :: string
  sn_Size :: int
  sn_ModTime :: int
  sn_IsDir :: bool

record ListDirRequest =
  ldr_RelPath :: string

record DirEntry =
  de_Name :: string
  de_IsDir :: bool
  de_Size :: int
  de_ModTime :: int

record ListDirResponse =
  ld_Entries :: "DirEntry list"
  ld_Error :: string

section \<open>MarshalPayload and UnmarshalPayload\<close>

text \<open>One encoder and one decoder per struct, field by field in the order of the tags.\<close>

definition enc_RegisterRequest :: "RegisterRequest \<Rightarrow> json" where
  "enc_RegisterRequest r = JObj
     (put ''client_id'' (JStr (rr_ClientID r)) @ put ''hostname'' (JStr (rr_Hostname r)) @
      put ''root_path'' (JStr (rr_RootPath r)) @ put ''version'' (JStr (rr_Version r)) @
      put ''proto_version'' (JStr (rr_ProtoVersion r)))"

definition dec_RegisterRequest :: "json \<Rightarrow> RegisterRequest result" where
  "dec_RegisterRequest j = rbind (as_obj j) (\<lambda>kvs.
     rbind (as_str (field ''client_id'' kvs)) (\<lambda>c.
     rbind (as_str (field ''hostname'' kvs)) (\<lambda>h.
     rbind (as_str (field ''root_path'' kvs)) (\<lambda>p.
     rbind (as_str (field ''version'' kvs)) (\<lambda>v.
     rbind (as_str (field ''proto_version'' kvs)) (\<lambda>pv.
       Inr \<lparr>rr_ClientID = c, rr_Hostname = h, rr_RootPath = p, rr_Version = v,
            rr_ProtoVersion = pv\<rparr>))))))"

definition enc_SubscribePair :: "SubscribePair \<Rightarrow> json" where
  "enc_SubscribePair s = JObj
     (put ''pair_id'' (JStr (sp_PairID s)) @ put ''side'' (JStr (sp_Side s)) @
      put ''root_subpath'' (JStr (sp_RootSubpath s)) @ put ''direction'' (JStr (sp_Direction s)))"

definition dec_SubscribePair :: "json \<Rightarrow> SubscribePair result" where
  "dec_SubscribePair j = rbind (as_obj j) (\<lambda>kvs.
     rbind (as_str (field ''pair_id'' kvs)) (\<lambda>p.
     rbind (as_str (field ''side'' kvs)) (\<lambda>s.
     rbind (as_str (field ''root_subpath'' kvs)) (\<lambda>r.
     rbind (as_str (field ''direction'' kvs)) (\<lambda>d.
       Inr \<lparr>sp_PairID = p, sp_Side = s, sp_RootSubpath = r, sp_Direction = d\<rparr>)))))"

definition enc_FileChangedEvent :: "FileChangedEvent \<Rightarrow> json" where
  "enc_FileChangedEvent e = JObj
     (put ''pair_id'' (JStr (ev_PairID e)) @ put ''side'' (JStr (ev_Side e)) @
      put ''rel_path'' (JStr (ev_RelPath e)) @ put_str_omit ''sha256'' (ev_SHA256 e) @
      put_num_omit ''size'' (ev_Size e) @ put ''mod_time'' (JNum (ev_ModTime e)) @
      put ''op'' (JStr (ev_Op e)) @ put_bool_omit ''is_dir'' (ev_IsDir e))"

definition dec_FileChangedEvent :: "json \<Rightarrow> FileChangedEvent result" where
  "dec_FileChangedEvent j = rbind (as_obj j) (\<lambda>kvs.
     rbind (as_str (field ''pair_id'' kvs)) (\<lambda>p.
     rbind (as_str (field ''side'' kvs)) (\<lambda>s.
     rbind (as_str (field ''rel_path'' kvs)) (\<lambda>r.
     rbind (as_str (field ''sha256'' kvs)) (\<lambda>h.
     rbind (as_num (field ''size'' kvs)) (\<lambda>n.
     rbind (as_num (field ''mod_time'' kvs)) (\<lambda>m.
     rbind (as_str (field ''op'' kvs)) (\<lambda>op.
     rbind (as_bool (field ''is_dir'' kvs)) (\<lambda>d.
       Inr \<lparr>ev_PairID = p, ev_Side = s, ev_RelPath = r, ev_SHA256 = h, ev_Size = n,
            ev_ModTime = m, ev_Op = op, ev_IsDir = d\<rparr>)))))))))"

definition enc_FileSyncCommand :: "FileSyncCommand \<Rightarrow> json" where
  "enc_FileSyncCommand c = JObj
     (put ''pair_id'' (JStr (cmd_PairID c)) @ put ''side'' (JStr (cmd_Side c)) @
      put ''rel_path'' (JStr (cmd_RelPath c)) @ put_str_omit ''sha256'' (cmd_SHA256 c) @
      put ''op'' (JStr (cmd_Op c)) @ put_str_omit ''new_rel_path'' (cmd_NewRelPath c) @
      put ''originator_client_id'' (JStr (cmd_OriginatorClientID c)))"

definition dec_FileSyncCommand :: "json \<Rightarrow> FileSyncCommand result" where
  "dec_FileSyncCommand j = rbind (as_obj j) (\<lambda>kvs.
     rbind (as_str (field ''pair_id'' kvs)) (\<lambda>p.
     rbind (as_str (field ''side'' kvs)) (\<lambda>s.
     rbind (as_str (field ''rel_path'' kvs)) (\<lambda>r.
     rbind (as_str (field ''sha256'' kvs)) (\<lambda>h.
     rbind (as_str (field ''op'' kvs)) (\<lambda>op.
     rbind (as_str (field ''new_rel_path'' kvs)) (\<lambda>n.
     rbind (as_str (field ''originator_client_id'' kvs)) (\<lambda>c.
       Inr \<lparr>cmd_PairID = p, cmd_Side = s, cmd_RelPath = r, cmd_SHA256 = h, cmd_Op = op,
            cmd_NewRelPath = n, cmd_OriginatorClientID = c\<rparr>))))))))"

definition enc_FileSyncAck :: "FileSyncAck \<Rightarrow> json" where
  "enc_FileSyncAck a = JObj
     (put ''pair_id'' (JStr (ack_PairID a)) @ put ''side'' (JStr (ack_Side a)) @
      put ''rel_path'' (JStr (ack_RelPath a)) @ put_str_omit ''sha256'' (ack_SHA256 a) @
      put ''status'' (JStr (ack_Status a)) @ put_str_omit ''error'' (ack_Error a))"

definition dec_FileSyncAck :: "json \<Rightarrow> FileSyncAck result" where
  "dec_FileSyncAck j = rbind (as_obj j) (\<lambda>kvs.
     rbind (as_str (field ''pair_id'' kvs)) (\<lambda>p.
     rbind (as_str (field ''side'' kvs)) (\<lambda>s.
     rbind (as_str (field ''rel_path'' kvs)) (\<lambda>r.
     rbind (as_str (field ''sha256'' kvs)) (\<lambda>h.
     rbind (as_str (field ''status'' kvs)) (\<lambda>st.
     rbind (as_str (field ''error'' kvs)) (\<lambda>e.
       Inr \<lparr>ack_PairID = p, ack_Side = s, ack_RelPath = r, ack_SHA256 = h, ack_Status = st,
            ack_Error = e\<rparr>)))))))"

definition enc_ListFilesRequest :: "ListFilesRequest \<Rightarrow> json" where
  "enc_ListFilesRequest r = JObj
     (put ''pair_id'' (JStr (lfr_PairID r)) @ put ''side'' (JStr (lfr_Side r)))"

definition dec_ListFilesRequest :: "json \<Rightarrow> ListFilesRequest result" where
  "dec_ListFilesRequest j = rbind (as_obj j) (\<lambda>kvs.
     rbind (as_str (field ''pair_id'' kvs)) (\<lambda>p.
     rbind (as_str (field ''side'' kvs)) (\<lambda>s.
       Inr \<lparr>lfr_PairID = p, lfr_Side = s\<rparr>)))"

definition enc_FileSnapshot :: "FileSnapshot \<Rightarrow> json" where
  "enc_FileSnapshot s = JObj
     (put ''rel_path'' (JStr (sn_RelPath s)) @ put_str_omit ''sha256'' (sn_SHA256 s) @
      put_num_omit ''size'' (sn_Size s) @ put ''mod_time'' (JNum (sn_ModTime s)) @
      put_bool_omit ''is_dir'' (sn_IsDir s))"

definition dec_FileSnapshot :: "json \<Rightarrow> FileSnapshot result" where
  "dec_FileSnapshot j = rbind (as_obj j) (\<lambda>kvs.
     rbind (as_str (field ''rel_path'' kvs)) (\<lambda>r.
     rbind (as_str (field ''sha256'' kvs)) (\<lambda>h.
     rbind (as_num (field ''size'' kvs)) (\<lambda>n.
     rbind (as_num (field ''mod_time'' kvs)) (\<lambda>m.
     rbind (as_bool (field ''is_dir'' kvs)) (\<lambda>d.
       Inr \<lparr>sn_RelPath = r, sn_SHA256 = h, sn_Size = n, sn_ModTime = m, sn_IsDir = d\<rparr>))))))"

text \<open>A \<open>ListFilesResponse\<close> is its list of entries.\<close>

definition enc_ListFilesResponse :: "FileSnapshot list \<Rightarrow> json" where
  "enc_ListFilesResponse es = JObj (put ''entries'' (JArr (map enc_FileSnapshot es)))"

definition dec_ListFilesResponse :: "json \<Rightarrow> FileSnapshot list result" where
  "dec_ListFilesResponse j = rbind (as_obj j) (\<lambda>kvs.
     rbind (as_arr (field ''entries'' kvs)) (rmap dec_FileSnapshot))"

section \<open>Round trips\<close>

lemma field_Nil [simp]: "field k [] = JNull"
  by (simp add: field_def find_last_def)

lemma field_append:
  "field k (xs @ ys) = (if field k ys = JNull then field k xs else field k ys)"
  by (auto simp: field_def find_last_def find_append split: option.splits dest: find_Some_iff')

lemma field_put [simp]: "field k (put k' v) = (if key_eq k' k then v else JNull)"
  by (auto simp: field_def find_last_def put_def)

lemma field_put_str_omit [simp]:
  "field k (put_str_omit k' s) = (if key_eq k' k \<and> s \<noteq> [] then JStr s else JNull)"
  by (auto simp: field_def find_last_def put_str_omit_def)

lemma field_put_num_omit [simp]:
  "field k (put_num_omit k' n) = (if key_eq k' k \<and> n \<noteq> 0 then JNum n else JNull)"
  by (auto simp: field_def find_last_def put_num_omit_def)

lemma field_put_bool_omit [simp]:
  "field k (put_bool_omit k' b) = (if key_eq k' k \<and> b then JBool b else JNull)"
  by (auto simp: field_def find_last_def put_bool_omit_def)

text \<open>The tags of the protocol are lower case, so two of them match only when they are equal.\<close>

lemma tag_lower:
  "ToLower ''client_id'' = ''client_id''"
  "ToLower ''direction'' = ''direction''"
  "ToLower ''entries'' = ''entries''"
  "ToLower ''error'' = ''error''"
  "ToLower ''hostname'' = ''hostname''"
  "ToLower ''is_dir'' = ''is_dir''"
  "ToLower ''mod_time'' = ''mod_time''"
  "ToLower ''new_rel_path'' = ''new_rel_path''"
  "ToLower ''op'' = ''op''"
  "ToLower ''originator_client_id'' = ''originator_client_id''"
  "ToLower ''pair_id'' = ''pair_id''"
  "ToLower ''proto_version'' = ''proto_version''"
  "ToLower ''rel_path'' = ''rel_path''"
  "ToLower ''root_path'' = ''root_path''"
  "ToLower ''root_subpath'' = ''root_subpath''"
  "ToLower ''sha256'' = ''sha256''"
  "ToLower ''side'' = ''side''"
  "ToLower ''size'' = ''size''"
  "ToLower ''status'' = ''status''"
  "ToLower ''version'' = ''version''"
  by (simp_all add: ToLower_def to_lower_char_def)

lemmas field_simps' = field_append key_eq_def tag_lower

lemma SubscribePair_roundtrip: "dec_SubscribePair (enc_SubscribePair s) = Inr s"
  by (simp add: enc_SubscribePair_def dec_SubscribePair_def field_simps')

lemma RegisterRequest_roundtrip: "dec_RegisterRequest (enc_RegisterRequest r) = Inr r"
  by (simp add: enc_RegisterRequest_def dec_RegisterRequest_def field_simps')

lemma ListFilesRequest_roundtrip: "dec_ListFilesRequest (enc_ListFilesRequest r) = Inr r"
  by (simp add: enc_ListFilesRequest_def dec_ListFilesRequest_def field_simps')

lemma FileSyncAck_roundtrip: "dec_FileSyncAck (enc_FileSyncAck a) = Inr a"
  by (simp add: enc_FileSyncAck_def dec_FileSyncAck_def field_simps')

lemma FileSyncCommand_roundtrip: "dec_FileSyncCommand (enc_FileSyncCommand c) = Inr c"
  by (simp add: enc_FileSyncCommand_def dec_FileSyncCommand_def field_simps')

lemma FileChangedEvent_roundtrip:
  "is64 (ev_Size e) \<Longrightarrow> is64 (ev_ModTime e) \<Longrightarrow>
     dec_FileChangedEvent (enc_FileChangedEvent e) = Inr e"
  by (simp add: enc_FileChangedEvent_def dec_FileChangedEvent_def field_simps')

lemma FileSnapshot_roundtrip:
  "is64 (sn_Size s) \<Longrightarrow> is64 (sn_ModTime s) \<Longrightarrow> dec_FileSnapshot (enc_FileSnapshot s) = Inr s"
  by (simp add: enc_FileSnapshot_def dec_FileSnapshot_def field_simps')

lemma ListFilesResponse_roundtrip:
  assumes "\<And>s. s \<in> set es \<Longrightarrow> is64 (sn_Size s) \<and> is64 (sn_ModTime s)"
  shows "dec_ListFilesResponse (enc_ListFilesResponse es) = Inr es"
  using assms
  by (simp add: enc_ListFilesResponse_def dec_ListFilesResponse_def field_simps' rmap_map
      FileSnapshot_roundtrip)

section \<open>Directory listings\<close>

definition enc_ListDirRequest :: "ListDirRequest \<Rightarrow> json" where
  "enc_ListDirRequest r = JObj (put ''rel_path'' (JStr (ldr_RelPath r)))"

definition dec_ListDirRequest :: "json \<Rightarrow> ListDirRequest result" where
  "dec_ListDirRequest j = rbind (as_obj j) (\<lambda>kvs.
     rbind (as_str (field ''rel_path'' kvs)) (\<lambda>r. Inr \<lparr>ldr_RelPath = r\<rparr>))"

definition enc_DirEntry :: "DirEntry \<Rightarrow> json" where
  "enc_DirEntry d = JObj
     (put ''name'' (JStr (de_Name d)) @ put ''is_dir'' (JBool (de_IsDir d)) @
      put_num_omit ''size'' (de_Size d) @ put_num_omit ''mod_time'' (de_ModTime d))"

definition dec_DirEntry :: "json \<Rightarrow> DirEntry result" where
  "dec_DirEntry j = rbind (as_obj j) (\<lambda>kvs.
     rbind (as_str (field ''name'' kvs)) (\<lambda>n.
     rbind (as_bool (field ''is_dir'' kvs)) (\<lambda>d.
     rbind (as_num (field ''size'' kvs)) (\<lambda>sz.
     rbind (as_num (field ''mod_time'' kvs)) (\<lambda>m.
       Inr \<lparr>de_Name = n, de_IsDir = d, de_Size = sz, de_ModTime = m\<rparr>)))))"

definition enc_ListDirResponse :: "ListDirResponse \<Rightarrow> json" where
  "enc_ListDirResponse r = JObj
     (put ''entries'' (JArr (map enc_DirEntry (ld_Entries r))) @ put_str_omit ''error'' (ld_Error r))"

definition dec_ListDirResponse :: "json \<Rightarrow> ListDirResponse result" where
  "dec_ListDirResponse j = rbind (as_obj j) (\<lambda>kvs.
     rbind (as_arr (field ''entries'' kvs)) (\<lambda>es.
     rbind (rmap dec_DirEntry es) (\<lambda>ds.
     rbind (as_str (field ''error'' kvs)) (\<lambda>e.
       Inr \<lparr>ld_Entries = ds, ld_Error = e\<rparr>))))"

lemma name_lower: "ToLower ''name'' = ''name''"
  by (simp add: ToLower_def to_lower_char_def)

lemma DirEntry_roundtrip: "is64 (de_Size d) \<Longrightarrow> is64 (de_ModTime d) \<Longrightarrow> dec_DirEntry (enc_DirEntry d) = Inr d"
  by (simp add: enc_DirEntry_def dec_DirEntry_def field_simps' name_lower)

lemma ListDirRequest_roundtrip: "dec_ListDirRequest (enc_ListDirRequest r) = Inr r"
  by (simp add: enc_ListDirRequest_def dec_ListDirRequest_def field_simps')

lemma ListDirResponse_roundtrip:
  assumes "\<And>d. d \<in> set (ld_Entries r) \<Longrightarrow> is64 (de_Size d) \<and> is64 (de_ModTime d)"
  shows "dec_ListDirResponse (enc_ListDirResponse r) = Inr r"
  using assms
  by (simp add: enc_ListDirResponse_def dec_ListDirResponse_def field_simps' rmap_map DirEntry_roundtrip)

section \<open>Registration responses\<close>

text \<open>
  A \<open>map[string]string\<close> is an association list with distinct keys. \<open>encoding/json\<close> writes it
  sorted by key; reading, a repeated key is last-wins and \<open>null\<close> gives the empty string.
\<close>

record RegisterResponse =
  rgr_OK :: bool
  rgr_ServerTime :: int
  rgr_Settings :: "(string \<times> string) list"
  rgr_Reason :: string

record SubscribePairAck =
  spa_PairID :: string
  spa_OK :: bool
  spa_Reason :: string

definition enc_str_map :: "(string \<times> string) list \<Rightarrow> json" where
  "enc_str_map m = JObj (map (\<lambda>(k, v). (k, JStr v)) (sort_key fst m))"

fun dec_str_map :: "(string \<times> string) list \<Rightarrow> (string \<times> json) list \<Rightarrow> (string \<times> string) list result" where
  "dec_str_map acc [] = Inr acc"
| "dec_str_map acc ((k, v) # kvs) = rbind (as_str v) (\<lambda>s. dec_str_map (AList.update k s acc) kvs)"

definition enc_RegisterResponse :: "RegisterResponse \<Rightarrow> json" where
  "enc_RegisterResponse r = JObj
     (put ''ok'' (JBool (rgr_OK r)) @ put ''server_time'' (JNum (rgr_ServerTime r)) @
      (if rgr_Settings r = [] then [] else put ''settings'' (enc_str_map (rgr_Settings r))) @
      put_str_omit ''reason'' (rgr_Reason r))"

definition dec_RegisterResponse :: "json \<Rightarrow> RegisterResponse result" where
  "dec_RegisterResponse j = rbind (as_obj j) (\<lambda>kvs.
     rbind (as_bool (field ''ok'' kvs)) (\<lambda>ok.
     rbind (as_num (field ''server_time'' kvs)) (\<lambda>t.
     rbind (as_obj (field ''settings'' kvs)) (\<lambda>ms.
     rbind (dec_str_map [] ms) (\<lambda>m.
     rbind (as_str (field ''reason'' kvs)) (\<lambda>r.
       Inr \<lparr>rgr_OK = ok, rgr_ServerTime = t, rgr_Settings = m, rgr_Reason = r\<rparr>))))))"

lemma response_lower:
  "ToLower ''ok'' = ''ok''" "ToLower ''server_time'' = ''server_time''"
  "ToLower ''settings'' = ''settings''" "ToLower ''reason'' = ''reason''"
  by (simp_all add: ToLower_def to_lower_char_def)

lemma update_fresh: "k \<notin> fst ` set m \<Longrightarrow> AList.update k v m = m @ [(k, v)]"
  by (induction m) auto

lemma dec_str_map_strs:
  "distinct (map fst (acc @ m)) \<Longrightarrow> dec_str_map acc (map (\<lambda>(k, v). (k, JStr v)) m) = Inr (acc @ m)"
  by (induction m arbitrary: acc) (auto simp: update_fresh)

lemma RegisterResponse_roundtrip:
  assumes "is64 (rgr_ServerTime r)" "distinct (map fst (rgr_Settings r))"
  shows "dec_RegisterResponse (enc_RegisterResponse r) = Inr (r\<lparr>rgr_Settings := sort_key fst (rgr_Settings r)\<rparr>)"
proof -
  have d: "distinct (map fst (sort_key fst (rgr_Settings r)))"
    using assms(2) by (simp add: distinct_map)
  show ?thesis using assms(1) dec_str_map_strs [of "[]" "sort_key fst (rgr_Settings r)"] d
    by (simp add: enc_RegisterResponse_def dec_RegisterResponse_def field_simps' response_lower enc_str_map_def)
qed

end
