(* ===== verification/Paths.thy ===== *)
theory Paths
  imports Proto
begin

text \<open>
  The functions of \<open>path/filepath\<close> that the client uses, on Unix paths: \<open>IsAbs\<close>,
  \<open>Clean\<close>, \<open>Join\<close>, \<open>Dir\<close>, \<open>Base\<close> and \<open>Rel\<close>. A path is split at its slashes;
  the components of a cleaned path are proper names, after leading \<open>..\<close> in a relative one.
\<close>

section \<open>Components\<close>

definition slash :: char where
  "slash = CHR ''/''"

fun split_path :: "string \<Rightarrow> string list" where
  "split_path [] = [[]]"
| "split_path (x # xs) = (if x = slash then [] # split_path xs
     else (case split_path xs of [] \<Rightarrow> [[x]] | y # ys \<Rightarrow> (x # y) # ys))"

definition join_path :: "string list \<Rightarrow> string" where
  "join_path cs = join_with ''/'' cs"

definition IsAbs :: "string \<Rightarrow> bool" where
  "IsAbs s \<longleftrightarrow> s \<noteq> [] \<and> hd s = slash"

text \<open>One component of \<open>Clean\<close>: the output is kept in reverse.\<close>

definition clean_step :: "bool \<Rightarrow> string \<Rightarrow> string list \<Rightarrow> string list" where
  "clean_step rooted c acc =
     (if c = [] \<or> c = ''.'' then acc
      else if c = ''..'' then
        (case acc of [] \<Rightarrow> if rooted then [] else [''..'']
         | x # xs \<Rightarrow> if x = ''..'' then ''..'' # acc else xs)
      else c # acc)"

definition clean_comps :: "bool \<Rightarrow> string list \<Rightarrow> string list" where
  "clean_comps rooted cs = rev (fold (clean_step rooted) cs [])"

definition Clean :: "string \<Rightarrow> string" where
  "Clean s = (let cs = clean_comps (IsAbs s) (split_path s) in
     if IsAbs s then ''/'' @ join_path cs else if cs = [] then ''.'' else join_path cs)"

definition Join :: "string \<Rightarrow> string \<Rightarrow> string" where
  "Join a b = (case filter (\<lambda>x. x \<noteq> []) [a, b] of [] \<Rightarrow> [] | xs \<Rightarrow> Clean (join_path xs))"

section \<open>Splitting and joining\<close>

definition proper :: "string \<Rightarrow> bool" where
  "proper c \<longleftrightarrow> c \<noteq> [] \<and> c \<noteq> ''.'' \<and> c \<noteq> ''..'' \<and> slash \<notin> set c"

definition no_slash :: "string \<Rightarrow> bool" where
  "no_slash c \<longleftrightarrow> slash \<notin> set c"

lemma proper_no_slash: "list_all proper cs \<Longrightarrow> list_all no_slash cs"
  by (auto simp: list_all_iff proper_def no_slash_def)

lemma join_path_simps [simp]:
  "join_path [] = []" "join_path [x] = x" "join_path (x # y # zs) = x @ slash # join_path (y # zs)"
  by (simp_all add: join_path_def slash_def)

lemma split_path_neq [simp]: "split_path s \<noteq> []"
  by (cases s) (auto split: list.splits)

lemma split_path_no_slash: "no_slash c \<Longrightarrow> split_path c = [c]"
  by (induction c) (auto simp: no_slash_def)

lemma split_path_sep: "no_slash c \<Longrightarrow> split_path (c @ slash # s) = c # split_path s"
  by (induction c) (auto simp: no_slash_def)

lemma split_path_append: "split_path (a @ slash # b) = split_path a @ split_path b"
  by (induction a) (auto split: list.splits)

lemma split_path_comps: "list_all no_slash (split_path s)"
  by (induction s) (auto simp: no_slash_def split: list.splits)

lemma split_join: "cs \<noteq> [] \<Longrightarrow> list_all no_slash cs \<Longrightarrow> split_path (join_path cs) = cs"
  by (induction cs rule: induct_list012) (auto simp: split_path_sep split_path_no_slash)

lemma hd_join_proper: "cs \<noteq> [] \<Longrightarrow> list_all proper cs \<Longrightarrow> \<not> IsAbs (join_path cs) \<and> join_path cs \<noteq> []"
  by (induction cs rule: induct_list012) (auto simp: IsAbs_def proper_def neq_Nil_conv)

lemma join_path_append:
  "as \<noteq> [] \<Longrightarrow> bs \<noteq> [] \<Longrightarrow> join_path (as @ bs) = join_path as @ slash # join_path bs"
proof (induction as rule: induct_list012)
  case (2 x)
  then show ?case by (cases bs) auto
qed auto

section \<open>Clean\<close>

lemma clean_step_proper: "proper c \<Longrightarrow> clean_step r c acc = c # acc"
  by (simp add: clean_step_def proper_def)

lemma fold_clean_proper: "list_all proper cs \<Longrightarrow> fold (clean_step r) cs acc = rev cs @ acc"
  by (induction cs arbitrary: acc) (auto simp: clean_step_proper)

lemma clean_comps_proper: "list_all proper cs \<Longrightarrow> clean_comps r cs = cs"
  by (simp add: clean_comps_def fold_clean_proper)

lemma clean_step_rooted: "no_slash c \<Longrightarrow> list_all proper acc \<Longrightarrow> list_all proper (clean_step True c acc)"
  by (auto simp: clean_step_def proper_def no_slash_def split: list.splits)

lemma clean_comps_rooted_proper: "list_all no_slash cs \<Longrightarrow> list_all proper (clean_comps True cs)"
proof -
  have "list_all no_slash cs \<Longrightarrow> list_all proper acc \<Longrightarrow> list_all proper (fold (clean_step True) cs acc)" for acc
    by (induction cs arbitrary: acc) (auto simp: clean_step_rooted)
  from this [of "[]"] show "list_all no_slash cs \<Longrightarrow> list_all proper (clean_comps True cs)"
    by (simp add: clean_comps_def)
qed

text \<open>A relative path that is a list of proper names is its own cleaned form.\<close>

definition rel_path :: "string list \<Rightarrow> string" where
  "rel_path cs = (if cs = [] then ''.'' else join_path cs)"

lemma split_rel_path: "list_all proper cs \<Longrightarrow> split_path (rel_path cs) = (if cs = [] then [''.''] else cs)"
  using split_join [of cs] split_path_no_slash [of "''.''"] proper_no_slash [of cs]
  by (simp add: rel_path_def no_slash_def slash_def)

lemma rel_path_not_abs: "list_all proper cs \<Longrightarrow> \<not> IsAbs (rel_path cs) \<and> rel_path cs \<noteq> []"
  using hd_join_proper [of cs] by (cases "cs = []") (simp_all add: rel_path_def, simp add: IsAbs_def slash_def)

lemma clean_dot: "list_all proper as \<Longrightarrow> clean_comps r (as @ [''.'']) = as"
  by (simp add: clean_comps_def fold_clean_proper clean_step_def)

lemma Clean_rel_path: "list_all proper cs \<Longrightarrow> Clean (rel_path cs) = rel_path cs"
  using clean_dot [of "[]" False]
  by (simp add: Clean_def rel_path_not_abs split_rel_path clean_comps_proper) (simp add: rel_path_def)

lemma rel_path_inject:
  assumes "list_all proper as" "list_all proper bs"
  shows "rel_path as = rel_path bs \<longleftrightarrow> as = bs"
proof
  assume "rel_path as = rel_path bs"
  then have e: "(if as = [] then [''.''] else as) = (if bs = [] then [''.''] else bs)"
    using split_rel_path [OF assms(1)] split_rel_path [OF assms(2)] by metis
  have "cs \<noteq> [''.'']" if "list_all proper cs" for cs using that by (auto simp: proper_def)
  then show "as = bs" using e assms by (metis (full_types))
qed simp

lemma Join_rel_path:
  assumes "list_all proper as" "list_all proper bs" "as \<noteq> []"
  shows "Join (rel_path as) (rel_path bs) = rel_path (as @ bs)"
proof -
  let ?bs = "if bs = [] then [''.''] else bs"
  let ?s = "join_path (as @ ?bs)"
  have s: "?s = rel_path as @ slash # rel_path bs"
    using assms(3) join_path_append [of as ?bs] by (simp add: rel_path_def)
  have j: "Join (rel_path as) (rel_path bs) = Clean ?s"
    using rel_path_not_abs [OF assms(1)] rel_path_not_abs [OF assms(2)] by (simp add: Join_def s)
  have abs: "\<not> IsAbs ?s" using rel_path_not_abs [OF assms(1)] unfolding s by (auto simp: IsAbs_def)
  have "list_all no_slash (as @ ?bs)"
    using proper_no_slash [OF assms(1)] proper_no_slash [OF assms(2)] by (simp add: no_slash_def slash_def)
  then have "split_path ?s = as @ ?bs" using split_join [of "as @ ?bs"] assms(3) by simp
  moreover have "clean_comps False (as @ ?bs) = as @ bs"
    using assms clean_dot [OF assms(1)] clean_comps_proper [of "as @ bs"] by simp
  ultimately have "Clean ?s = rel_path (as @ bs)"
    by (simp only: Clean_def abs Let_def if_False rel_path_def)
  then show ?thesis by (simp only: j)
qed

end
