(* ===== verification/ClientFS.thy ===== *)
theory ClientFS
  imports Paths
begin

text \<open>
  The file system the client works on, with symbolic links: the calls of \<open>os\<close> and
  \<open>path/filepath\<close> that \<open>internal/clientfs/jail.go\<close> makes. An absolute cleaned path is the list
  of its components (\<open>abs_path\<close> prints it). A lookup below a refused path fails with a
  permission error; the \<open>k\<close>-th call that would change the file system fails if \<open>cs_fail k\<close> is
  set. The system adds its operation and path to the text of an error, which is left out here.
\<close>

section \<open>Nodes and lookups\<close>

type_synonym apath = "string list"

datatype kind = Dir int | File "byte list" | Link string | Special

record node =
  n_kind :: kind
  n_mtime :: int

record cfs =
  cs_nodes :: "(apath \<times> node) list"
  cs_deny :: "apath list"
  cs_fail :: "nat \<Rightarrow> string option"
  cs_time :: "nat \<Rightarrow> int"
  cs_calls :: nat

definition EACCES :: err where "EACCES = Sentinel ''permission denied''"
definition ENOTDIR :: err where "ENOTDIR = Sentinel ''not a directory''"
definition ELOOP :: err where "ELOOP = Sentinel ''too many levels of symbolic links''"
definition EISDIR :: err where "EISDIR = Sentinel ''is a directory''"
definition EEXIST :: err where "EEXIST = Sentinel ''file exists''"
definition ENOTEMPTY :: err where "ENOTEMPTY = Sentinel ''directory not empty''"
definition EINVAL :: err where "EINVAL = Sentinel ''invalid argument''"

lemmas errno_defs = EACCES_def ENOTDIR_def ELOOP_def EISDIR_def EEXIST_def ENOTEMPTY_def EINVAL_def ErrNotExist_def

definition abs_path :: "apath \<Rightarrow> string" where
  "abs_path cs = ''/'' @ join_path cs"

fun is_dir :: "kind \<Rightarrow> bool" where
  "is_dir (Dir _) = True"
| "is_dir _ = False"

fun is_link :: "kind \<Rightarrow> bool" where
  "is_link (Link _) = True"
| "is_link _ = False"

fun node_size :: "kind \<Rightarrow> int" where
  "node_size (Dir n) = n"
| "node_size (File d) = int (length d)"
| "node_size (Link l) = int (length l)"
| "node_size Special = 0"

text \<open>One component looked up in a directory; the root directory always exists.\<close>

definition lookup :: "cfs \<Rightarrow> apath \<Rightarrow> node result" where
  "lookup f p = (if p \<in> set (cs_deny f) then Inl EACCES
     else if p = [] then Inr \<lparr>n_kind = Dir 0, n_mtime = 0\<rparr>
     else case map_of (cs_nodes f) p of None \<Rightarrow> Inl ErrNotExist | Some n \<Rightarrow> Inr n)"

section \<open>Following a path\<close>

text \<open>
  The walk over a path, from the directory \<open>dest\<close> already reached: a link is replaced by its
  target in front of what is left, an absolute target starts again from the root directory.
  \<open>flw\<close> says whether a link that is the last component is followed, \<open>create\<close> whether
  the last component may be missing, \<open>n\<close> how many links may still be followed.
\<close>

function walk :: "cfs \<Rightarrow> bool \<Rightarrow> bool \<Rightarrow> nat \<Rightarrow> apath \<Rightarrow> string list \<Rightarrow> apath result" where
  "walk f flw create n dest [] = Inr dest"
| "walk f flw create n dest (c # todo) =
     (if c = [] \<or> c = ''.'' then walk f flw create n dest todo
      else if c = ''..'' then walk f flw create n (butlast dest) todo
      else case lookup f (dest @ [c]) of
        Inl e \<Rightarrow> if create \<and> e = ErrNotExist \<and> todo = [] then Inr (dest @ [c]) else Inl e
      | Inr nd \<Rightarrow> (case n_kind nd of
          Link l \<Rightarrow>
            if todo = [] \<and> \<not> flw then Inr (dest @ [c])
            else if n = 0 then Inl ELOOP
            else walk f flw create (n - 1) (if IsAbs l then [] else dest) (split_path l @ todo)
        | Dir _ \<Rightarrow> walk f flw create n (dest @ [c]) todo
        | _ \<Rightarrow> if todo = [] then Inr (dest @ [c]) else Inl ENOTDIR))"
  by pat_completeness auto

termination
  by (relation "measures [\<lambda>(f, flw, create, n, dest, todo). n, \<lambda>(f, flw, create, n, dest, todo). length todo]") auto

text \<open>\<open>filepath.EvalSymlinks\<close> follows at most 255 links, the system 40.\<close>

definition EvalSymlinks :: "cfs \<Rightarrow> apath \<Rightarrow> apath result" where
  "EvalSymlinks f p = walk f True False 255 [] p"

definition namei :: "bool \<Rightarrow> bool \<Rightarrow> cfs \<Rightarrow> apath \<Rightarrow> apath result" where
  "namei flw create f p = walk f flw create 40 [] p"

section \<open>System calls\<close>

definition os_stat :: "bool \<Rightarrow> cfs \<Rightarrow> apath \<Rightarrow> node result" where
  "os_stat flw f p = (case namei flw False f p of Inl e \<Rightarrow> Inl e | Inr q \<Rightarrow> lookup f q)"

abbreviation os_Lstat :: "cfs \<Rightarrow> apath \<Rightarrow> node result" where
  "os_Lstat \<equiv> os_stat False"

abbreviation os_StatF :: "cfs \<Rightarrow> apath \<Rightarrow> node result" where
  "os_StatF \<equiv> os_stat True"

text \<open>An open file is the path the system reached.\<close>

definition os_Open :: "cfs \<Rightarrow> apath \<Rightarrow> apath result" where
  "os_Open f p = (case namei True False f p of Inl e \<Rightarrow> Inl e
     | Inr q \<Rightarrow> (case lookup f q of Inl e \<Rightarrow> Inl e | Inr _ \<Rightarrow> Inr q))"

definition child_of :: "apath \<Rightarrow> apath \<Rightarrow> bool" where
  "child_of d p \<longleftrightarrow> p \<noteq> [] \<and> butlast p = d"

definition children :: "cfs \<Rightarrow> apath \<Rightarrow> (apath \<times> node) list" where
  "children f d = filter (\<lambda>(p, n). child_of d p) (cs_nodes f)"

text \<open>\<open>os.ReadDir\<close> sorts by name.\<close>

definition os_ReadDir :: "cfs \<Rightarrow> apath \<Rightarrow> (string \<times> node) list result" where
  "os_ReadDir f p = (case os_Open f p of Inl e \<Rightarrow> Inl e
     | Inr q \<Rightarrow> (case lookup f q of
         Inl e \<Rightarrow> Inl e
       | Inr nd \<Rightarrow> if is_dir (n_kind nd)
                   then Inr (sort_key fst (map (\<lambda>(r, n). (last r, n)) (children f q)))
                   else Inl ENOTDIR))"

definition sys_call :: "cfs \<Rightarrow> unit result \<times> cfs" where
  "sys_call f = (case cs_fail f (cs_calls f) of
       Some m \<Rightarrow> (Inl (Opaque m), f\<lparr>cs_calls := Suc (cs_calls f)\<rparr>)
     | None \<Rightarrow> (Inr (), f\<lparr>cs_calls := Suc (cs_calls f)\<rparr>))"

definition put_node :: "apath \<Rightarrow> kind \<Rightarrow> cfs \<Rightarrow> cfs" where
  "put_node p k f = f\<lparr>cs_nodes := AList.update p \<lparr>n_kind = k, n_mtime = cs_time f (cs_calls f)\<rparr> (cs_nodes f)\<rparr>"

definition drop_node :: "apath \<Rightarrow> cfs \<Rightarrow> cfs" where
  "drop_node p f = f\<lparr>cs_nodes := AList.delete p (cs_nodes f)\<rparr>"

definition os_Mkdir :: "apath \<Rightarrow> cfs \<Rightarrow> unit result \<times> cfs" where
  "os_Mkdir p f = (case namei False True f p of
       Inl e \<Rightarrow> (Inl e, f)
     | Inr q \<Rightarrow> (case lookup f q of
         Inr _ \<Rightarrow> (Inl EEXIST, f)
       | Inl e \<Rightarrow> if e \<noteq> ErrNotExist then (Inl e, f)
           else (case sys_call f of (Inl e, f1) \<Rightarrow> (Inl e, f1) | (Inr _, f1) \<Rightarrow> (Inr (), put_node q (Dir 0) f1))))"

lemma length_butlast_less: "butlast p \<noteq> [] \<Longrightarrow> length (butlast p) < length p"
  by (cases p) auto

text \<open>\<open>os.MkdirAll\<close>: the parents first; a directory that appeared meanwhile is no error.\<close>

function os_MkdirAll :: "apath \<Rightarrow> cfs \<Rightarrow> unit result \<times> cfs" where
  "os_MkdirAll p f = (case os_StatF f p of
       Inr nd \<Rightarrow> if is_dir (n_kind nd) then (Inr (), f) else (Inl ENOTDIR, f)
     | Inl _ \<Rightarrow>
         (case (if butlast p \<noteq> [] then os_MkdirAll (butlast p) f else (Inr (), f)) of
           (Inl e, f1) \<Rightarrow> (Inl e, f1)
         | (Inr _, f1) \<Rightarrow>
             (case os_Mkdir p f1 of
               (Inr _, f2) \<Rightarrow> (Inr (), f2)
             | (Inl e, f2) \<Rightarrow>
                 (case os_Lstat f2 p of
                   Inr nd \<Rightarrow> if is_dir (n_kind nd) then (Inr (), f2) else (Inl e, f2)
                 | Inl _ \<Rightarrow> (Inl e, f2)))))"
  by pat_completeness auto

termination
  by (relation "measure (\<lambda>(p, f). length p)") (auto simp: length_butlast_less simp del: length_butlast)

declare os_MkdirAll.simps [simp del]

text \<open>\<open>OpenFile\<close> with \<open>O_CREATE|O_TRUNC|O_WRONLY\<close>.\<close>

definition os_OpenCreate :: "apath \<Rightarrow> cfs \<Rightarrow> apath result \<times> cfs" where
  "os_OpenCreate p f = (case namei True True f p of
       Inl e \<Rightarrow> (Inl e, f)
     | Inr q \<Rightarrow> (case lookup f q of
         Inr nd \<Rightarrow> if is_dir (n_kind nd) then (Inl EISDIR, f)
           else (case sys_call f of (Inl e, f1) \<Rightarrow> (Inl e, f1)
                 | (Inr _, f1) \<Rightarrow> (Inr q, case n_kind nd of File _ \<Rightarrow> put_node q (File []) f1 | _ \<Rightarrow> f1))
       | Inl e \<Rightarrow> if e \<noteq> ErrNotExist then (Inl e, f)
           else (case sys_call f of (Inl e, f1) \<Rightarrow> (Inl e, f1) | (Inr _, f1) \<Rightarrow> (Inr q, put_node q (File []) f1))))"

text \<open>\<open>Write\<close> on a file opened by \<open>os_OpenCreate\<close>: the bytes are appended.\<close>

definition os_Write :: "apath \<Rightarrow> byte list \<Rightarrow> cfs \<Rightarrow> unit result \<times> cfs" where
  "os_Write q bs f = (case sys_call f of
       (Inl e, f1) \<Rightarrow> (Inl e, f1)
     | (Inr _, f1) \<Rightarrow> (Inr (), case lookup f1 q of
          Inr nd \<Rightarrow> (case n_kind nd of File d \<Rightarrow> put_node q (File (d @ bs)) f1 | _ \<Rightarrow> f1)
        | Inl _ \<Rightarrow> f1))"

text \<open>\<open>os.Remove\<close>: a file or an empty directory; a link itself, not its target.\<close>

definition os_RemoveF :: "apath \<Rightarrow> cfs \<Rightarrow> unit result \<times> cfs" where
  "os_RemoveF p f = (case namei False False f p of
       Inl e \<Rightarrow> (Inl e, f)
     | Inr q \<Rightarrow> (case lookup f q of
         Inl e \<Rightarrow> (Inl e, f)
       | Inr nd \<Rightarrow> if is_dir (n_kind nd) \<and> children f q \<noteq> [] then (Inl ENOTEMPTY, f)
                   else (case sys_call f of (Inl e, f1) \<Rightarrow> (Inl e, f1) | (Inr _, f1) \<Rightarrow> (Inr (), drop_node q f1))))"

text \<open>Moving a node with everything below it.\<close>

definition move_path :: "apath \<Rightarrow> apath \<Rightarrow> apath \<Rightarrow> apath" where
  "move_path p q r = (if prefix p r then q @ drop (length p) r else r)"

definition move_node :: "apath \<Rightarrow> apath \<Rightarrow> cfs \<Rightarrow> cfs" where
  "move_node p q f = f\<lparr>cs_nodes := map (\<lambda>(r, n). (move_path p q r, n)) (AList.delete q (cs_nodes f))\<rparr>"

text \<open>
  \<open>os.Rename\<close>: Go refuses to replace a directory; the system refuses to put a directory on a
  file or below itself.
\<close>

definition sys_rename :: "apath \<Rightarrow> apath \<Rightarrow> cfs \<Rightarrow> unit result \<times> cfs" where
  "sys_rename p q f =
     (case namei False False f p of
        Inl e \<Rightarrow> (Inl e, f)
      | Inr p' \<Rightarrow> (case lookup f p' of
          Inl e \<Rightarrow> (Inl e, f)
        | Inr nd \<Rightarrow> (case namei False True f q of
            Inl e \<Rightarrow> (Inl e, f)
          | Inr q' \<Rightarrow>
              if p' = q' then (Inr (), f)
              else if is_dir (n_kind nd) \<and> prefix p' q' then (Inl EINVAL, f)
              else if is_dir (n_kind nd) \<and> \<not> isl (lookup f q') then (Inl ENOTDIR, f)
              else (case sys_call f of (Inl e, f1) \<Rightarrow> (Inl e, f1) | (Inr _, f1) \<Rightarrow> (Inr (), move_node p' q' f1)))))"

definition os_RenameF :: "apath \<Rightarrow> apath \<Rightarrow> cfs \<Rightarrow> unit result \<times> cfs" where
  "os_RenameF p q f =
     (case os_Lstat f q of
        Inr nd \<Rightarrow> if is_dir (n_kind nd) then (case os_Lstat f p of Inl e \<Rightarrow> (Inl e, f) | Inr _ \<Rightarrow> (Inl EEXIST, f))
                  else sys_rename p q f
      | Inl _ \<Rightarrow> sys_rename p q f)"

section \<open>Real paths\<close>

text \<open>
  A real directory path has a directory at every non-empty prefix; the last component of a real
  path may be any node but a link.
\<close>

definition dir_at :: "cfs \<Rightarrow> apath \<Rightarrow> bool" where
  "dir_at f p \<longleftrightarrow> (\<exists>nd. lookup f p = Inr nd \<and> is_dir (n_kind nd))"

definition real_dir :: "cfs \<Rightarrow> apath \<Rightarrow> bool" where
  "real_dir f p \<longleftrightarrow> (\<forall>q. prefix q p \<longrightarrow> q = [] \<or> dir_at f q)"

definition real :: "cfs \<Rightarrow> apath \<Rightarrow> bool" where
  "real f p \<longleftrightarrow> real_dir f (butlast p) \<and> (p = [] \<or> (\<exists>nd. lookup f p = Inr nd \<and> \<not> is_link (n_kind nd)))"

lemma real_dir_Nil [simp]: "real_dir f []"
  by (simp add: real_dir_def)

lemma real_dir_snoc: "real_dir f (p @ [c]) \<longleftrightarrow> real_dir f p \<and> dir_at f (p @ [c])"
  by (auto simp: real_dir_def prefix_snoc)

lemma real_dir_butlast: "real_dir f p \<Longrightarrow> real_dir f (butlast p)"
  by (cases p rule: rev_cases) (auto simp: real_dir_snoc)

lemma real_snoc: "real f (p @ [c]) \<longleftrightarrow> real_dir f p \<and> (\<exists>nd. lookup f (p @ [c]) = Inr nd \<and> \<not> is_link (n_kind nd))"
  by (simp add: real_def)

lemma dir_at_not_link: "dir_at f p \<Longrightarrow> \<exists>nd. lookup f p = Inr nd \<and> \<not> is_link (n_kind nd)"
  by (auto simp: dir_at_def elim!: is_dir.elims)

lemma real_dir_real: "real_dir f p \<Longrightarrow> real f p"
  by (cases p rule: rev_cases) (auto simp: real_dir_snoc real_snoc dir_at_not_link real_def)

text \<open>The walk reaches proper names only, and with links followed it ends at a real path.\<close>

lemma walk_proper:
  "list_all proper dest \<Longrightarrow> list_all no_slash todo \<Longrightarrow> walk f flw create n dest todo = Inr q \<Longrightarrow> list_all proper q"
proof (induction f flw create n dest todo rule: walk.induct)
  case (2 f flw create n dest c todo)
  show ?case
  proof (cases "c = [] \<or> c = ''.'' \<or> c = ''..''")
    case True
    then show ?thesis using 2 by (auto simp: list_all_iff dest!: in_set_butlastD split: if_splits)
  next
    case False
    then have "proper c" using "2.prems"(2) by (simp add: proper_def no_slash_def)
    then have c: "list_all proper (dest @ [c])" using "2.prems"(1) by simp
    show ?thesis
      using 2 False c split_path_comps
      by (auto split: sum.splits kind.splits if_splits)
  qed
qed simp

lemma walk_real:
  "real_dir f dest \<Longrightarrow> walk f True False n dest todo = Inr q \<Longrightarrow> real f q"
proof (induction f True False n dest todo rule: walk.induct)
  case (2 f n dest c todo)
  show ?case
  proof (cases "c = [] \<or> c = ''.'' \<or> c = ''..''")
    case True
    then show ?thesis using 2 by (auto simp: real_dir_butlast split: if_splits)
  next
    case False
    then show ?thesis using 2
      by (auto simp: real_dir_snoc dir_at_def real_snoc split: sum.splits kind.splits if_splits)
  qed
qed (simp add: real_dir_real)

lemma walk_dirs:
  "list_all proper cs \<Longrightarrow> (\<And>q. prefix q cs \<Longrightarrow> q \<noteq> [] \<Longrightarrow> dir_at f (dest @ q)) \<Longrightarrow>
   walk f flw create n dest (cs @ rest) = walk f flw create n (dest @ cs) rest"
proof (induction cs arbitrary: dest)
  case (Cons c cs)
  have d: "dir_at f (dest @ [c])" using Cons.prems(2) [of "[c]"] by simp
  have "walk f flw create n (dest @ [c]) (cs @ rest) = walk f flw create n ((dest @ [c]) @ cs) rest"
  proof (rule Cons.IH)
    show "list_all proper cs" using Cons.prems(1) by simp
    fix q assume "prefix q cs" "q \<noteq> []"
    then show "dir_at f ((dest @ [c]) @ q)" using Cons.prems(2) [of "c # q"] by simp
  qed
  with d Cons.prems(1) show ?case
    by (auto simp: dir_at_def proper_def elim!: is_dir.elims)
qed simp

lemma walk_real_dir: "real_dir f p \<Longrightarrow> list_all proper p \<Longrightarrow> walk f flw create n [] (p @ rest) = walk f flw create n p rest"
  using walk_dirs [of p f "[]" flw create n rest] by (auto simp: real_dir_def)

text \<open>Every walk of a real path, whatever its mode, ends at the path itself.\<close>

lemma walk_real_id:
  assumes "real f p" "list_all proper p"
  shows "walk f flw create n [] p = Inr p"
proof (cases p rule: rev_cases)
  case (snoc d c)
  from assms snoc have r: "real_dir f d" "list_all proper d" "proper c"
    and "\<exists>nd. lookup f (d @ [c]) = Inr nd \<and> \<not> is_link (n_kind nd)" by (auto simp: real_snoc)
  then have "walk f flw create n d [c] = Inr (d @ [c])"
    by (auto simp: proper_def split: kind.splits)
  with walk_real_dir [OF r(1,2), of flw create n "[c]"] snoc show ?thesis by simp
qed simp

lemma namei_real: "real f p \<Longrightarrow> list_all proper p \<Longrightarrow> namei flw create f p = Inr p"
  by (simp add: namei_def walk_real_id)

text \<open>A missing last component of a real directory is where a creating walk ends.\<close>

lemma namei_create:
  assumes "real_dir f d" "list_all proper d" "proper c" "lookup f (d @ [c]) = Inl ErrNotExist"
  shows "namei flw True f (d @ [c]) = Inr (d @ [c])"
  using assms walk_real_dir [OF assms(1,2), of flw True 40 "[c]"]
  by (simp add: namei_def proper_def)

lemma EvalSymlinks_real: "EvalSymlinks f p = Inr q \<Longrightarrow> real f q"
  unfolding EvalSymlinks_def by (rule walk_real) auto

lemma EvalSymlinks_proper: "EvalSymlinks f p = Inr q \<Longrightarrow> list_all no_slash p \<Longrightarrow> list_all proper q"
  unfolding EvalSymlinks_def by (rule walk_proper [rotated 2]) auto

lemma lookup_root: "[] \<notin> set (cs_deny f) \<Longrightarrow> \<exists>nd. lookup f [] = Inr nd"
  by (auto simp: lookup_def split: option.splits)

lemma real_exists: "real f p \<Longrightarrow> [] \<notin> set (cs_deny f) \<Longrightarrow> \<exists>nd. lookup f p = Inr nd"
  by (cases "p = []") (auto simp: real_def lookup_root)

end
