(* ===== verification/Jail.thy ===== *)
theory Jail
  imports ClientFS
begin

text \<open>
  The jail that confines the client to its root directory (\<open>internal/clientfs/jail.go\<close>,
  \<open>errors.go\<close>): every operation resolves its relative path, checks that the result is below the
  root and calls the system on it. The root is an absolute path without links, kept as its
  components.
\<close>

section \<open>Operations\<close>

definition ErrPathEscape :: err where
  "ErrPathEscape = Sentinel ''clientfs: path escapes jail root''"

definition ErrUnsupportedFileType :: err where
  "ErrUnsupportedFileType = Sentinel ''clientfs: unsupported file type''"

text \<open>The kinds in \<open>unsupportedModeMask\<close>.\<close>

fun unsupportedModeMask :: "kind \<Rightarrow> bool" where
  "unsupportedModeMask (Link _) = True"
| "unsupportedModeMask Special = True"
| "unsupportedModeMask _ = False"

record Jail =
  jail_root :: apath

text \<open>\<open>filepath.Clean(filepath.Join(root, rel))\<close>, as components (see \<open>cleaned_Join\<close>).\<close>

definition cleaned :: "apath \<Rightarrow> string \<Rightarrow> apath" where
  "cleaned root rel = clean_comps True (root @ split_path rel)"

text \<open>\<open>filepath.Abs\<close> resolves against the working directory.\<close>

definition jail_New :: "cfs \<Rightarrow> apath \<Rightarrow> string \<Rightarrow> Jail result" where
  "jail_New f cwd root =
     (let ab = (if IsAbs root then cleaned [] root else cleaned cwd root) in
      case EvalSymlinks f ab of
        Inl e \<Rightarrow> Inl (Wrap ''clientfs: root does not exist'' e)
      | Inr r \<Rightarrow> (case os_StatF f r of
          Inl e \<Rightarrow> Inl (Wrap ''clientfs: stat root'' e)
        | Inr nd \<Rightarrow> if \<not> is_dir (n_kind nd) then Inl (Opaque (''clientfs: root is not a directory: '' @ abs_path r))
                    else Inr \<lparr>jail_root = r\<rparr>))"

text \<open>\<open>Dir\<close> and \<open>Base\<close> of an absolute path are all but the last and the last component.\<close>

function resolveNonExistent :: "cfs \<Rightarrow> apath \<Rightarrow> apath result" where
  "resolveNonExistent f p =
     (if p = [] then Inl (Opaque (''no existing ancestor found for '' @ abs_path p))
      else case EvalSymlinks f (butlast p) of
        Inr rp \<Rightarrow> Inr (rp @ [last p])
      | Inl _ \<Rightarrow> (case resolveNonExistent f (butlast p) of
          Inl e \<Rightarrow> Inl e
        | Inr rp \<Rightarrow> Inr (rp @ [last p])))"
  by pat_completeness auto

termination by (relation "measure (\<lambda>(f, p). length p)") auto

declare resolveNonExistent.simps [simp del]

text \<open>\<open>filepath.Rel\<close> of two absolute paths: up from the base, then down to the target.\<close>

fun strip_common :: "apath \<Rightarrow> apath \<Rightarrow> apath \<times> apath" where
  "strip_common (a # as) (b # bs) = (if a = b then strip_common as bs else (a # as, b # bs))"
| "strip_common as bs = (as, bs)"

definition Rel :: "apath \<Rightarrow> apath \<Rightarrow> string" where
  "Rel base targ = (case strip_common base targ of (as, bs) \<Rightarrow> rel_path (replicate (length as) ''..'' @ bs))"

definition checkUnderRoot :: "Jail \<Rightarrow> apath \<Rightarrow> apath result" where
  "checkUnderRoot j rp = (let rel = Rel (jail_root j) rp in
     if rel = ''..'' \<or> HasPrefix rel ''../'' then Inl ErrPathEscape else Inr rp)"

definition jail_Resolve :: "cfs \<Rightarrow> Jail \<Rightarrow> string \<Rightarrow> apath result" where
  "jail_Resolve f j rel =
     (if IsAbs rel then Inl ErrPathEscape
      else let cl = cleaned (jail_root j) rel in
        case EvalSymlinks f cl of
          Inr rp \<Rightarrow> checkUnderRoot j rp
        | Inl _ \<Rightarrow> (case resolveNonExistent f cl of
            Inl e \<Rightarrow> Inl (Wrap ''clientfs: resolve failed'' e)
          | Inr rp \<Rightarrow> checkUnderRoot j rp))"

definition resolveChecked :: "cfs \<Rightarrow> Jail \<Rightarrow> string \<Rightarrow> apath result" where
  "resolveChecked f j rel =
     (if IsAbs rel then Inl ErrPathEscape
      else case os_Lstat f (cleaned (jail_root j) rel) of
        Inr nd \<Rightarrow> if unsupportedModeMask (n_kind nd) then Inl ErrUnsupportedFileType else jail_Resolve f j rel
      | Inl _ \<Rightarrow> jail_Resolve f j rel)"

definition jail_Open :: "cfs \<Rightarrow> Jail \<Rightarrow> string \<Rightarrow> apath result" where
  "jail_Open f j rel = (case resolveChecked f j rel of Inl e \<Rightarrow> Inl e | Inr p \<Rightarrow> os_Open f p)"

definition jail_Stat :: "cfs \<Rightarrow> Jail \<Rightarrow> string \<Rightarrow> node result" where
  "jail_Stat f j rel = (case resolveChecked f j rel of Inl e \<Rightarrow> Inl e | Inr p \<Rightarrow> os_StatF f p)"

definition jail_ReadDir :: "cfs \<Rightarrow> Jail \<Rightarrow> string \<Rightarrow> (string \<times> node) list result" where
  "jail_ReadDir f j rel = (case jail_Resolve f j rel of Inl e \<Rightarrow> Inl e | Inr p \<Rightarrow> os_ReadDir f p)"

definition jail_Create :: "Jail \<Rightarrow> string \<Rightarrow> cfs \<Rightarrow> apath result \<times> cfs" where
  "jail_Create j rel f = (case jail_Resolve f j rel of
       Inl e \<Rightarrow> (Inl e, f)
     | Inr p \<Rightarrow> (case os_MkdirAll (butlast p) f of
         (Inl e, f1) \<Rightarrow> (Inl (Wrap ''clientfs: mkdirall'' e), f1)
       | (Inr _, f1) \<Rightarrow> os_OpenCreate p f1))"

definition jail_Rename :: "Jail \<Rightarrow> string \<Rightarrow> string \<Rightarrow> cfs \<Rightarrow> unit result \<times> cfs" where
  "jail_Rename j oldRel newRel f = (case jail_Resolve f j oldRel of
       Inl e \<Rightarrow> (Inl e, f)
     | Inr oldPath \<Rightarrow> (case jail_Resolve f j newRel of
         Inl e \<Rightarrow> (Inl e, f)
       | Inr newPath \<Rightarrow> os_RenameF oldPath newPath f))"

definition jail_Remove :: "Jail \<Rightarrow> string \<Rightarrow> cfs \<Rightarrow> unit result \<times> cfs" where
  "jail_Remove j rel f = (case jail_Resolve f j rel of Inl e \<Rightarrow> (Inl e, f) | Inr p \<Rightarrow> os_RemoveF p f)"

definition jail_MkdirAll :: "Jail \<Rightarrow> string \<Rightarrow> cfs \<Rightarrow> unit result \<times> cfs" where
  "jail_MkdirAll j rel f = (case jail_Resolve f j rel of Inl e \<Rightarrow> (Inl e, f) | Inr p \<Rightarrow> os_MkdirAll p f)"

section \<open>The path handed to the system\<close>

lemma split_abs_path: "list_all no_slash cs \<Longrightarrow> split_path (abs_path cs) = [] # (if cs = [] then [[]] else cs)"
  using split_join [of cs] by (simp add: abs_path_def slash_def)

lemma IsAbs_abs_path [simp]: "IsAbs (abs_path cs)"
  by (simp add: IsAbs_def abs_path_def slash_def)

lemma clean_comps_skip: "clean_comps True ([] # cs) = clean_comps True cs"
  by (simp add: clean_comps_def clean_step_def)

lemma Clean_abs_path: "list_all proper cs \<Longrightarrow> Clean (abs_path cs) = abs_path cs"
  by (simp add: Clean_def split_abs_path proper_no_slash clean_comps_skip clean_comps_proper abs_path_def [symmetric])
    (simp add: clean_comps_def clean_step_def abs_path_def)

lemma cleaned_proper: "list_all proper root \<Longrightarrow> list_all proper (cleaned root rel)"
  unfolding cleaned_def by (rule clean_comps_rooted_proper) (simp add: proper_no_slash split_path_comps)

text \<open>\<open>cleaned\<close> is what the code computes on strings.\<close>

lemma cleaned_Join:
  assumes "list_all proper root"
  shows "Clean (Join (abs_path root) rel) = abs_path (cleaned root rel)"
proof -
  have ns: "list_all no_slash root" by (rule proper_no_slash [OF assms])
  have "Join (abs_path root) rel = abs_path (cleaned root rel)"
  proof (cases "rel = []")
    case True
    have "cleaned root [] = root" using assms
      by (simp add: cleaned_def clean_comps_def fold_clean_proper clean_step_def)
    moreover have "Join (abs_path root) [] = Clean (abs_path root)" by (simp add: Join_def abs_path_def)
    ultimately show ?thesis using True assms by (simp add: Clean_abs_path)
  next
    case False
    have "clean_comps True (split_path (abs_path root @ slash # rel)) = cleaned root rel"
      using ns by (simp add: split_path_append split_abs_path clean_comps_skip cleaned_def)
    moreover have "IsAbs (abs_path root @ slash # rel)" by (simp add: IsAbs_def abs_path_def slash_def)
    moreover have "Join (abs_path root) rel = Clean (abs_path root @ slash # rel)"
      using False by (simp add: Join_def abs_path_def)
    ultimately show ?thesis by (simp add: Clean_def abs_path_def)
  qed
  then show ?thesis using cleaned_proper [OF assms] by (simp add: Clean_abs_path)
qed

section \<open>The check against the root\<close>

lemma strip_common_prefix: "strip_common as bs = ([], ts) \<longleftrightarrow> bs = as @ ts"
  by (induction as bs rule: strip_common.induct) auto

lemma strip_common_snd: "list_all P bs \<Longrightarrow> list_all P (snd (strip_common as bs))"
  by (induction as bs rule: strip_common.induct) auto

lemma dotdot_rel_path: "rel_path (''..'' # cs) = ''..'' \<or> HasPrefix (rel_path (''..'' # cs)) ''../''"
  by (cases cs) (auto simp: rel_path_def HasPrefix_def slash_def)

lemma proper_rel_path:
  assumes "list_all proper cs"
  shows "rel_path cs \<noteq> ''..'' \<and> \<not> HasPrefix (rel_path cs) ''../''"
proof -
  have ne: "split_path (rel_path cs) \<noteq> ''..'' # xs" for xs
    using assms by (auto simp: split_rel_path proper_def split: if_splits)
  have "split_path ''..'' = [''..'']" by (rule split_path_no_slash) (simp add: no_slash_def slash_def)
  moreover have "split_path (''../'' @ z) = ''..'' # split_path z" for z
    using split_path_append [of "''..''" z] \<open>split_path ''..'' = [''..'']\<close> by (simp add: slash_def)
  ultimately show ?thesis using ne unfolding HasPrefix_def prefix_def by metis
qed

text \<open>The string test on the relative path is the prefix relation on components.\<close>

lemma checkUnderRoot_prefix:
  assumes "list_all proper rp"
  shows "checkUnderRoot j rp = (if prefix (jail_root j) rp then Inr rp else Inl ErrPathEscape)"
proof (cases "strip_common (jail_root j) rp")
  case (Pair as bs)
  have bs: "list_all proper bs" using strip_common_snd [OF assms, of "jail_root j"] Pair by simp
  show ?thesis
  proof (cases as)
    case Nil
    with Pair have "prefix (jail_root j) rp" by (simp add: strip_common_prefix prefix_def)
    then show ?thesis using Nil Pair proper_rel_path [OF bs] by (simp add: checkUnderRoot_def Rel_def)
  next
    case (Cons a as')
    have "\<not> prefix (jail_root j) rp"
    proof
      assume "prefix (jail_root j) rp"
      then obtain ts where "rp = jail_root j @ ts" by (auto simp: prefix_def)
      then show False using Cons Pair by (simp flip: strip_common_prefix)
    qed
    then show ?thesis using Cons Pair dotdot_rel_path [of "replicate (length as') ''..'' @ bs"]
      by (auto simp: checkUnderRoot_def Rel_def Let_def)
  qed
qed

lemma resolveNonExistent_some:
  "p \<noteq> [] \<Longrightarrow> \<exists>q. resolveNonExistent f p = Inr q"
proof (induction f p rule: resolveNonExistent.induct)
  case (1 f p)
  show ?case
  proof (cases "EvalSymlinks f (butlast p)")
    case (Inl e)
    then have "butlast p \<noteq> []" by (auto simp: EvalSymlinks_def)
    with 1 Inl show ?thesis by (subst resolveNonExistent.simps) auto
  qed (use 1 in \<open>subst resolveNonExistent.simps, simp\<close>)
qed

lemma resolveNonExistent_proper:
  "list_all proper p \<Longrightarrow> resolveNonExistent f p = Inr q \<Longrightarrow> list_all proper q"
proof (induction f p arbitrary: q rule: resolveNonExistent.induct)
  case (1 f p)
  have ne: "p \<noteq> []" using "1.prems"(2) by (auto simp: resolveNonExistent.simps)
  then have p: "p \<noteq> []" "list_all proper (butlast p)" "proper (last p)" using "1.prems"(1)
    by (auto simp: list_all_iff dest: in_set_butlastD)
  show ?case
  proof (cases "EvalSymlinks f (butlast p)")
    case (Inr rp)
    then have "list_all proper rp" using EvalSymlinks_proper proper_no_slash [OF p(2)] by blast
    then show ?thesis using "1.prems"(2) Inr p by (subst (asm) resolveNonExistent.simps) auto
  next
    case (Inl e)
    with "1.prems"(2) p(1) obtain rp where "resolveNonExistent f (butlast p) = Inr rp" "q = rp @ [last p]"
      by (subst (asm) resolveNonExistent.simps) (auto split: sum.splits)
    with "1.IH" [OF p(1) Inl p(2)] p(3) show ?thesis by simp
  qed
qed

lemma jail_Resolve_Inr:
  assumes "list_all proper (jail_root j)" "jail_Resolve f j rel = Inr p"
  shows "prefix (jail_root j) p \<and> list_all proper p \<and> \<not> IsAbs rel"
proof -
  have cl: "list_all proper (cleaned (jail_root j) rel)" by (rule cleaned_proper [OF assms(1)])
  obtain rp where rp: "checkUnderRoot j rp = Inr p" "list_all proper rp"
    using assms(2) EvalSymlinks_proper [OF _ proper_no_slash [OF cl]] resolveNonExistent_proper [OF cl]
    by (auto simp: jail_Resolve_def Let_def split: if_splits sum.splits)
  then show ?thesis using assms(2) checkUnderRoot_prefix [OF rp(2), of j]
    by (auto simp: jail_Resolve_def split: if_splits)
qed

lemma jail_Resolve_Inl:
  assumes "list_all proper (jail_root j)" "jail_Resolve f j rel = Inl e"
  shows "e = ErrPathEscape"
proof -
  let ?cl = "cleaned (jail_root j) rel"
  have cl: "list_all proper ?cl" by (rule cleaned_proper [OF assms(1)])
  have "\<exists>q. resolveNonExistent f ?cl = Inr q" if "EvalSymlinks f ?cl = Inl x" for x
    using resolveNonExistent_some [of ?cl f] that by (cases "?cl = []") (auto simp: EvalSymlinks_def)
  then show ?thesis
    using assms(2) EvalSymlinks_proper [OF _ proper_no_slash [OF cl]] resolveNonExistent_proper [OF cl]
    by (fastforce simp: jail_Resolve_def Let_def checkUnderRoot_prefix split: if_splits sum.splits)
qed

section \<open>Paths without links\<close>

definition link_free :: "cfs \<Rightarrow> apath \<Rightarrow> bool" where
  "link_free f p \<longleftrightarrow> (\<forall>q nd. prefix q p \<longrightarrow> lookup f q = Inr nd \<longrightarrow> \<not> is_link (n_kind nd))"

lemma link_free_prefix: "link_free f p \<Longrightarrow> prefix q p \<Longrightarrow> link_free f q"
  by (auto simp: link_free_def dest: prefix_order.trans)

lemma link_free_butlast: "link_free f p \<Longrightarrow> link_free f (butlast p)"
  using link_free_prefix prefixeq_butlast by blast

text \<open>On such a path no walk leaves the path.\<close>

lemma walk_link_free:
  "link_free f (dest @ cs) \<Longrightarrow> list_all proper cs \<Longrightarrow> walk f flw create n dest cs = Inr q \<Longrightarrow> q = dest @ cs"
proof (induction cs arbitrary: dest)
  case (Cons c cs)
  have "\<not> is_link (n_kind nd)" if "lookup f (dest @ [c]) = Inr nd" for nd
    using Cons.prems(1) that unfolding link_free_def
    by (metis append_Cons append_Nil prefix_order.order_refl prefixI same_prefix_prefix append.assoc)
  then show ?case using Cons.prems Cons.IH [of "dest @ [c]"]
    by (auto simp: proper_def split: sum.splits kind.splits if_splits)
qed simp

lemma namei_link_free: "link_free f p \<Longrightarrow> list_all proper p \<Longrightarrow> namei flw create f p = Inr q \<Longrightarrow> q = p"
  using walk_link_free [of f "[]" p] by (simp add: namei_def)

lemma EvalSymlinks_link_free: "link_free f p \<Longrightarrow> list_all proper p \<Longrightarrow> EvalSymlinks f p = Inr q \<Longrightarrow> q = p"
  using walk_link_free [of f "[]" p] by (simp add: EvalSymlinks_def)

lemma resolveNonExistent_link_free:
  "link_free f p \<Longrightarrow> list_all proper p \<Longrightarrow> resolveNonExistent f p = Inr q \<Longrightarrow> q = p"
proof (induction f p arbitrary: q rule: resolveNonExistent.induct)
  case (1 f p)
  have ne: "p \<noteq> []" using "1.prems"(3) by (auto simp: resolveNonExistent.simps)
  have b: "link_free f (butlast p)" "list_all proper (butlast p)" using "1.prems"(1,2)
    by (auto simp: list_all_iff link_free_butlast dest: in_set_butlastD)
  show ?case
  proof (cases "EvalSymlinks f (butlast p)")
    case (Inr rp)
    then have "rp = butlast p" using EvalSymlinks_link_free [OF b] by blast
    then show ?thesis using "1.prems"(3) Inr ne by (subst (asm) resolveNonExistent.simps) auto
  next
    case (Inl e)
    with "1.prems"(3) ne obtain rp where "resolveNonExistent f (butlast p) = Inr rp" "q = rp @ [last p]"
      by (subst (asm) resolveNonExistent.simps) (auto split: sum.splits)
    with "1.IH" [OF ne Inl b] ne show ?thesis by simp
  qed
qed

lemma jail_Resolve_link_free:
  assumes "list_all proper (jail_root j)" "link_free f (cleaned (jail_root j) rel)"
  shows "jail_Resolve f j rel = (if \<not> IsAbs rel \<and> prefix (jail_root j) (cleaned (jail_root j) rel)
     then Inr (cleaned (jail_root j) rel) else Inl ErrPathEscape)"
proof -
  let ?cl = "cleaned (jail_root j) rel"
  have cl: "list_all proper ?cl" by (rule cleaned_proper [OF assms(1)])
  have 1: "\<exists>q. resolveNonExistent f ?cl = Inr q" if "EvalSymlinks f ?cl = Inl x" for x
    using resolveNonExistent_some [of ?cl f] that by (cases "?cl = []") (auto simp: EvalSymlinks_def)
  show ?thesis
    using 1 EvalSymlinks_link_free [OF assms(2) cl] resolveNonExistent_link_free [OF assms(2) cl]
      checkUnderRoot_prefix [OF cl, of j]
    by (cases "EvalSymlinks f ?cl") (fastforce simp: jail_Resolve_def Let_def)+
qed

section \<open>What the system calls change\<close>

lemma lookup_put_node:
  "lookup (put_node p k f) q = (if q = p \<and> p \<noteq> [] \<and> p \<notin> set (cs_deny f)
     then Inr \<lparr>n_kind = k, n_mtime = cs_time f (cs_calls f)\<rparr> else lookup f q)"
  by (auto simp: put_node_def lookup_def update_conv')

lemma lookup_drop_node: "q \<noteq> p \<Longrightarrow> lookup (drop_node p f) q = lookup f q"
  by (simp add: drop_node_def lookup_def delete_conv')

lemma sys_call_cases:
  obtains (ok) f1 where "sys_call f = (Inr (), f1)" "cs_nodes f1 = cs_nodes f" "cs_deny f1 = cs_deny f"
  | (fail) m f1 where "sys_call f = (Inl (Opaque m), f1)" "cs_nodes f1 = cs_nodes f" "cs_deny f1 = cs_deny f"
  by (cases "cs_fail f (cs_calls f)") (auto simp: sys_call_def)

lemma lookup_cong: "cs_nodes f' = cs_nodes f \<Longrightarrow> cs_deny f' = cs_deny f \<Longrightarrow> lookup f' = lookup f"
  by (auto simp: lookup_def fun_eq_iff)

section \<open>Confinement\<close>

text \<open>No node below the root is a link; the directories above the root are real.\<close>

definition no_links :: "apath \<Rightarrow> cfs \<Rightarrow> bool" where
  "no_links root f \<longleftrightarrow> list_all (\<lambda>(r, n). prefix root r \<longrightarrow> \<not> is_link (n_kind n)) (cs_nodes f)"

definition jail_inv :: "apath \<Rightarrow> cfs \<Rightarrow> bool" where
  "jail_inv root f \<longleftrightarrow> list_all proper root \<and> real_dir f (butlast root) \<and> no_links root f"

text \<open>A change that stays below the root.\<close>

definition confined :: "apath \<Rightarrow> cfs \<Rightarrow> cfs \<Rightarrow> bool" where
  "confined root f f' \<longleftrightarrow> cs_deny f' = cs_deny f \<and> (\<forall>q. \<not> prefix root q \<longrightarrow> lookup f' q = lookup f q) \<and>
     (no_links root f \<longrightarrow> no_links root f')"

lemma confined_refl [simp, intro]: "confined root f f"
  by (simp add: confined_def)

lemma confined_trans: "confined root f g \<Longrightarrow> confined root g h \<Longrightarrow> confined root f h"
  by (simp add: confined_def)

lemma prefix_butlast_not: "prefix q (butlast root) \<Longrightarrow> q \<noteq> [] \<Longrightarrow> \<not> prefix root q"
  by (metis butlast.simps(1) length_butlast_less prefix_bot.bot_least prefix_length_le prefix_Nil prefix_order.trans linorder_not_le)

lemma confined_inv:
  assumes "jail_inv root f" "confined root f f'"
  shows "jail_inv root f'"
proof -
  have "dir_at f' q" if "prefix q (butlast root)" "q \<noteq> []" for q
    using assms prefix_butlast_not [OF that] that
    by (auto simp: jail_inv_def confined_def real_dir_def dir_at_def)
  then show ?thesis using assms by (auto simp: jail_inv_def confined_def real_dir_def)
qed

lemma sys_call_confined: "sys_call f = (r, f1) \<Longrightarrow> confined root f f1"
  by (rule sys_call_cases [of f]) (auto simp: confined_def no_links_def lookup_def)

lemma put_node_confined:
  assumes "prefix root p" "\<not> is_link k"
  shows "confined root f (put_node p k f)"
proof -
  have "no_links root f \<Longrightarrow> no_links root (put_node p k f)"
    using assms by (auto simp: no_links_def put_node_def intro!: list_all_update)
  then show ?thesis using assms by (auto simp: confined_def lookup_put_node) (simp add: put_node_def)
qed

lemma drop_node_confined:
  assumes "prefix root p"
  shows "confined root f (drop_node p f)"
proof -
  have "lookup (drop_node p f) q = lookup f q" if "\<not> prefix root q" for q
    using assms that by (intro lookup_drop_node) auto
  then show ?thesis by (simp add: confined_def no_links_def drop_node_def list_all_delete)
qed

lemma map_of_map_key:
  assumes "\<And>r. g r = x \<longleftrightarrow> r = x"
  shows "map_of (map (\<lambda>(r, n). (g r, n)) l) x = map_of l x"
proof (induction l)
  case (Cons y l)
  have "x = g (fst y) \<longleftrightarrow> x = fst y" using assms [of "fst y"] by metis
  with Cons show ?case by (cases y) (simp only: list.map prod.case map_of.simps fun_upd_apply fst_conv snd_conv)
qed simp

lemma move_node_confined:
  assumes "prefix root p" "prefix root q"
  shows "confined root f (move_node p q f)"
proof -
  have key: "move_path p q r = x \<longleftrightarrow> r = x" if "\<not> prefix root x" for r x
    using assms that by (auto simp: move_path_def dest: prefix_order.trans)
  have "lookup (move_node p q f) x = lookup f x" if "\<not> prefix root x" for x
  proof -
    have "map_of (cs_nodes (move_node p q f)) x = map_of (AList.delete q (cs_nodes f)) x"
      unfolding move_node_def by (simp add: map_of_map_key [OF key [OF that]])
    moreover have "x \<noteq> q" using assms(2) that by auto
    ultimately show ?thesis by (simp add: lookup_def delete_conv') (simp add: move_node_def)
  qed
  moreover have "prefix root r" if "prefix root (move_path p q r)" for r
    using that assms by (auto simp: move_path_def split: if_splits dest: prefix_order.trans)
  then have "no_links root f \<Longrightarrow> no_links root (move_node p q f)"
    by (fastforce simp: no_links_def move_node_def list_all_iff AList.delete_eq)
  ultimately show ?thesis by (simp add: confined_def move_node_def)
qed

lemma prefix_or_above: "prefix q p \<Longrightarrow> prefix root p \<Longrightarrow> prefix root q \<or> prefix q (butlast root)"
  using prefix_same_cases [of q p root] by (cases root rule: rev_cases) auto

lemma jail_inv_link_free:
  assumes inv: "jail_inv root f" and p: "prefix root p \<or> prefix p (butlast root)"
  shows "link_free f p"
  unfolding link_free_def
proof (intro allI impI)
  fix q nd
  assume q: "prefix q p" and l: "lookup f q = Inr nd"
  show "\<not> is_link (n_kind nd)"
  proof (cases "q = []")
    case True
    then show ?thesis using l by (auto simp: lookup_def split: if_splits)
  next
    case False
    show ?thesis
    proof (cases "prefix root q")
      case True
      have "(q, nd) \<in> set (cs_nodes f)"
        using l False by (auto simp: lookup_def map_of_SomeD split: if_splits option.splits)
      then show ?thesis using inv True by (auto simp: jail_inv_def no_links_def list_all_iff)
    next
      case F: False
      then have "prefix q (butlast root)" using p q prefix_or_above by (metis prefix_order.trans)
      then have "dir_at f q" using inv False by (auto simp: jail_inv_def real_dir_def)
      then show ?thesis using l dir_at_not_link [of f q] by auto
    qed
  qed
qed

lemma above_exists:
  assumes "jail_inv root f" "prefix p (butlast root)" "lookup f p = Inl e"
  shows "e \<noteq> ErrNotExist"
  using assms by (cases "p = []") (auto simp: jail_inv_def real_dir_def dir_at_def lookup_def errno_defs split: if_splits)

text \<open>Every system call the jail makes on a path below the root is confined.\<close>

lemma sys_then_confined:
  assumes "sys_call f = (r, f1)"
  shows "confined root f f1"
    and "prefix root p \<Longrightarrow> \<not> is_link k \<Longrightarrow> confined root f (put_node p k f1)"
    and "prefix root p \<Longrightarrow> confined root f (drop_node p f1)"
    and "prefix root p \<Longrightarrow> prefix root q \<Longrightarrow> confined root f (move_node p q f1)"
  using confined_trans [OF sys_call_confined [OF assms]] sys_call_confined [OF assms]
    put_node_confined drop_node_confined move_node_confined by blast+

lemma os_Mkdir_confined:
  assumes inv: "jail_inv root f" and p: "prefix root p \<or> prefix p (butlast root)" "list_all proper p"
  shows "confined root f (snd (os_Mkdir p f))"
proof (cases "namei False True f p")
  case (Inr q)
  then have q: "q = p" using namei_link_free [OF jail_inv_link_free [OF inv p(1)] p(2)] by blast
  show ?thesis
  proof (cases "lookup f p")
    case (Inl e)
    show ?thesis
    proof (cases "e = ErrNotExist")
      case True
      then have "prefix root p" using above_exists [OF inv _ Inl] p(1) by blast
      then show ?thesis using Inr q Inl True
        by (auto simp: os_Mkdir_def split: prod.splits sum.splits intro: sys_then_confined)
    qed (use Inr q Inl in \<open>simp add: os_Mkdir_def\<close>)
  qed (use Inr q in \<open>simp add: os_Mkdir_def\<close>)
qed (simp add: os_Mkdir_def)

lemma os_MkdirAll_confined:
  "jail_inv root f \<Longrightarrow> prefix root p \<or> prefix p (butlast root) \<Longrightarrow> list_all proper p \<Longrightarrow>
   confined root f (snd (os_MkdirAll p f))"
proof (induction p f rule: os_MkdirAll.induct)
  case (1 p f)
  have b: "prefix root (butlast p) \<or> prefix (butlast p) (butlast root)" "list_all proper (butlast p)"
    using "1.prems"(2,3) prefixeq_butlast [of p] prefix_or_above [of "butlast p" p root]
    by (auto simp: list_all_iff dest: in_set_butlastD intro: prefix_order.trans)
  obtain r1 f1 where m: "(if butlast p \<noteq> [] then os_MkdirAll (butlast p) f else (Inr (), f)) = (r1, f1)"
    by (meson surj_pair)
  show ?case
  proof (cases "os_StatF f p")
    case (Inl e)
    have c1: "confined root f f1"
    proof (cases "butlast p = []")
      case False
      then show ?thesis using "1.IH" [OF Inl False "1.prems"(1) b] m by simp
    qed (use m in \<open>simp\<close>)
    have "confined root f1 (snd (os_Mkdir p f1))"
      by (rule os_Mkdir_confined [OF confined_inv [OF "1.prems"(1) c1] "1.prems"(2,3)])
    with c1 have "confined root f (snd (os_Mkdir p f1))" by (rule confined_trans)
    then show ?thesis using Inl m c1
      by (subst os_MkdirAll.simps) (auto split: sum.splits prod.splits)
  qed (subst os_MkdirAll.simps, simp)
qed

lemma os_OpenCreate_confined:
  assumes inv: "jail_inv root f" and p: "prefix root p" "list_all proper p"
  shows "confined root f (snd (os_OpenCreate p f))"
proof (cases "namei True True f p")
  case (Inr q)
  then have "q = p" using namei_link_free [OF jail_inv_link_free [OF inv disjI1 [OF p(1)]] p(2)] by blast
  then show ?thesis using Inr p(1)
    by (auto simp: os_OpenCreate_def split: sum.splits prod.splits kind.splits intro: sys_then_confined)
qed (simp add: os_OpenCreate_def)

lemma os_RemoveF_confined:
  assumes inv: "jail_inv root f" and p: "prefix root p" "list_all proper p"
  shows "confined root f (snd (os_RemoveF p f))"
proof (cases "namei False False f p")
  case (Inr q)
  then have "q = p" using namei_link_free [OF jail_inv_link_free [OF inv disjI1 [OF p(1)]] p(2)] by blast
  then show ?thesis using Inr p(1)
    by (auto simp: os_RemoveF_def split: sum.splits prod.splits intro: sys_then_confined)
qed (simp add: os_RemoveF_def)

lemma sys_rename_confined:
  assumes inv: "jail_inv root f" and p: "prefix root p" "list_all proper p" and q: "prefix root q" "list_all proper q"
  shows "confined root f (snd (sys_rename p q f))"
proof -
  have pp: "prefix root p'" if "namei False c f p = Inr p'" for p' c
    using namei_link_free [OF jail_inv_link_free [OF inv disjI1 [OF p(1)]] p(2) that] p(1) by simp
  have qq: "prefix root q'" if "namei False c f q = Inr q'" for q' c
    using namei_link_free [OF jail_inv_link_free [OF inv disjI1 [OF q(1)]] q(2) that] q(1) by simp
  show ?thesis
    by (auto simp: sys_rename_def split: sum.splits prod.splits intro: sys_then_confined pp qq)
qed

lemma os_RenameF_confined:
  assumes "jail_inv root f" "prefix root p" "list_all proper p" "prefix root q" "list_all proper q"
  shows "confined root f (snd (os_RenameF p q f))"
  using sys_rename_confined [OF assms] by (auto simp: os_RenameF_def split: sum.splits)

lemma os_Write_confined: "prefix root q \<Longrightarrow> confined root f (snd (os_Write q bs f))"
  by (auto simp: os_Write_def split: sum.splits prod.splits kind.splits intro: sys_then_confined)

section \<open>The operations as steps\<close>

datatype jop = JCreate string "byte list" | JRename string string | JRemove string | JMkdirAll string

text \<open>A created file is written to through its handle.\<close>

fun jail_step :: "Jail \<Rightarrow> jop \<Rightarrow> cfs \<Rightarrow> cfs" where
  "jail_step j (JCreate rel bs) f = (case jail_Create j rel f of (Inl e, f1) \<Rightarrow> f1 | (Inr q, f1) \<Rightarrow> snd (os_Write q bs f1))"
| "jail_step j (JRename a b) f = snd (jail_Rename j a b f)"
| "jail_step j (JRemove rel) f = snd (jail_Remove j rel f)"
| "jail_step j (JMkdirAll rel) f = snd (jail_MkdirAll j rel f)"

lemma namei_below: "jail_inv root f \<Longrightarrow> prefix root p \<Longrightarrow> list_all proper p \<Longrightarrow> namei flw create f p = Inr q \<Longrightarrow> q = p"
  using namei_link_free jail_inv_link_free by blast

lemma jail_Create_confined:
  assumes inv: "jail_inv (jail_root j) f"
  shows "confined (jail_root j) f (snd (jail_Create j rel f))"
    and "fst (jail_Create j rel f) = Inr q \<Longrightarrow> prefix (jail_root j) q"
proof -
  let ?r = "jail_root j"
  have "confined ?r f (snd (jail_Create j rel f)) \<and> (fst (jail_Create j rel f) = Inr q \<longrightarrow> prefix ?r q)"
  proof (cases "jail_Resolve f j rel")
    case (Inr p)
    then have p: "prefix ?r p" "list_all proper p" using jail_Resolve_Inr inv by (auto simp: jail_inv_def)
    obtain r1 f1 where m: "os_MkdirAll (butlast p) f = (r1, f1)" by (meson surj_pair)
    have b: "prefix ?r (butlast p) \<or> prefix (butlast p) (butlast ?r)" "list_all proper (butlast p)"
      using p prefixeq_butlast [of p] prefix_or_above [of "butlast p" p ?r]
      by (auto simp: list_all_iff dest: in_set_butlastD)
    have c1: "confined ?r f f1" using os_MkdirAll_confined [OF inv b] m by simp
    note inv1 = confined_inv [OF inv c1]
    have "q = p" if "fst (os_OpenCreate p f1) = Inr q"
      using that namei_below [OF inv1 p, of True True]
      by (auto simp: os_OpenCreate_def split: sum.splits prod.splits if_splits kind.splits)
    then show ?thesis
      using Inr m c1 p confined_trans [OF c1 os_OpenCreate_confined [OF inv1 p]]
      by (auto simp: jail_Create_def split: sum.splits)
  qed (simp add: jail_Create_def)
  then show "confined ?r f (snd (jail_Create j rel f))"
    and "fst (jail_Create j rel f) = Inr q \<Longrightarrow> prefix ?r q" by auto
qed

lemma jail_step_confined:
  assumes inv: "jail_inv (jail_root j) f"
  shows "confined (jail_root j) f (jail_step j x f)"
proof -
  have r: "prefix (jail_root j) p \<and> list_all proper p" if "jail_Resolve f j rel = Inr p" for rel p
    using jail_Resolve_Inr [OF _ that] inv by (simp add: jail_inv_def)
  show ?thesis
  proof (cases x)
    case (JCreate rel bs)
    show ?thesis
    proof (cases "jail_Create j rel f")
      case (Pair r1 f1)
      have c: "confined (jail_root j) f f1" using jail_Create_confined(1) [OF inv, of rel] Pair by simp
      show ?thesis
      proof (cases r1)
        case (Inr q)
        then have "prefix (jail_root j) q" using jail_Create_confined(2) [OF inv, of rel q] Pair by simp
        from confined_trans [OF c os_Write_confined [OF this, of f1 bs]] show ?thesis
          using JCreate Pair Inr by simp
      qed (use JCreate Pair c in \<open>simp\<close>)
    qed
  next
    case (JRename a b)
    then show ?thesis using r os_RenameF_confined [OF inv]
      by (auto simp: jail_Rename_def split: sum.splits)
  next
    case (JRemove rel)
    then show ?thesis using r os_RemoveF_confined [OF inv]
      by (auto simp: jail_Remove_def split: sum.splits)
  next
    case (JMkdirAll rel)
    then show ?thesis using r os_MkdirAll_confined [OF inv]
      by (auto simp: jail_MkdirAll_def split: sum.splits)
  qed
qed

lemma jail_steps_confined: "jail_inv (jail_root j) f \<Longrightarrow> confined (jail_root j) f (fold (jail_step j) xs f)"
proof (induction xs arbitrary: f)
  case (Cons x xs)
  have c: "confined (jail_root j) f (jail_step j x f)" by (rule jail_step_confined [OF Cons.prems])
  show ?case using confined_trans [OF c Cons.IH [OF confined_inv [OF Cons.prems c]]] by simp
qed simp

lemma jail_New_root:
  assumes "jail_New f cwd root = Inr j" "list_all proper cwd"
  shows "list_all proper (jail_root j) \<and> real_dir f (jail_root j)"
proof -
  define ab where "ab = (if IsAbs root then cleaned [] root else cleaned cwd root)"
  have ab: "list_all proper ab" using cleaned_proper [OF assms(2)] cleaned_proper [of "[]"] by (simp add: ab_def)
  obtain nd where e: "EvalSymlinks f ab = Inr (jail_root j)" and nd: "os_StatF f (jail_root j) = Inr nd" "is_dir (n_kind nd)"
    using assms(1) by (auto simp: jail_New_def ab_def [symmetric] split: sum.splits if_splits)
  have r: "real f (jail_root j)" "list_all proper (jail_root j)"
    using EvalSymlinks_real [OF e] EvalSymlinks_proper [OF e proper_no_slash [OF ab]] by simp_all
  have "lookup f (jail_root j) = Inr nd" using nd(1) namei_real [OF r] by (simp add: os_stat_def)
  then show ?thesis using r nd(2)
    by (cases "jail_root j" rule: rev_cases) (auto simp: real_snoc real_dir_snoc dir_at_def)
qed

section \<open>Properties\<close>

definition demo_fs :: cfs where
  "demo_fs = \<lparr>cs_nodes = [([''home''], \<lparr>n_kind = Dir 0, n_mtime = 0\<rparr>), ([''home'', ''u''], \<lparr>n_kind = Dir 0, n_mtime = 0\<rparr>),
       ([''home'', ''u'', ''a''], \<lparr>n_kind = File [1, 2], n_mtime = 5\<rparr>), ([''etc''], \<lparr>n_kind = Dir 0, n_mtime = 0\<rparr>),
       ([''l''], \<lparr>n_kind = Link ''home/u'', n_mtime = 0\<rparr>)],
     cs_deny = [], cs_fail = (\<lambda>k. None), cs_time = int, cs_calls = 0\<rparr>"

definition demo_jail :: Jail where
  "demo_jail = \<lparr>jail_root = [''home'', ''u'']\<rparr>"

lemma demo_New: "jail_New demo_fs [] ''/l'' = Inr demo_jail"
  by code_simp

text \<open>
  C32. The jail confines every change: from a file system without links below the root that \<open>New\<close>
  accepted, after any sequence of creations with writes, renames, removals and directory creations
  through the jail, with any relative paths (absolute ones and ones with dots included) and any failing
  calls, every path that is not below the root is as it was.
\<close>

theorem jail_confines_changes:
  assumes "jail_New f cwd root = Inr j" "list_all proper cwd" "no_links (jail_root j) f"
    and "\<not> prefix (jail_root j) q"
  shows "lookup (fold (jail_step j) ops f) q = lookup f q"
proof -
  have "jail_inv (jail_root j) f" using jail_New_root [OF assms(1,2)] assms(3)
    by (auto simp: jail_inv_def real_dir_butlast)
  from jail_steps_confined [OF this, of ops] show ?thesis using assms(4) by (simp add: confined_def)
qed

theorem jail_confines_changes_witness:
  "lookup (fold (jail_step demo_jail) [JCreate ''../../etc/x'' [7], JCreate ''b/c'' [8], JRename ''a'' ''../a'', JRemove ''/etc'']
      demo_fs) [''etc'', ''x''] = Inl ErrNotExist"
  by (subst jail_confines_changes [OF demo_New])
    (simp_all add: demo_jail_def demo_fs_def no_links_def lookup_def)

text \<open>
  \<open>Resolve\<close> is total and safe with any links: it fails only with \<open>ErrPathEscape\<close>, never because
  no ancestor could be found, and a path it returns is below the root.
\<close>

theorem Resolve_confined:
  assumes "list_all proper (jail_root j)"
  shows "case jail_Resolve f j rel of Inl e \<Rightarrow> e = ErrPathEscape | Inr p \<Rightarrow> prefix (jail_root j) p"
  using jail_Resolve_Inl [OF assms] jail_Resolve_Inr [OF assms] by (auto split: sum.splits)

theorem Resolve_confined_witness:
  "jail_Resolve demo_fs demo_jail ''x/../../v'' = Inl ErrPathEscape"
proof -
  have "case jail_Resolve demo_fs demo_jail ''x/../../v'' of Inl e \<Rightarrow> e = ErrPathEscape | Inr p \<Rightarrow> prefix (jail_root demo_jail) p"
    by (rule Resolve_confined) code_simp
  moreover have "isl (jail_Resolve demo_fs demo_jail ''x/../../v'')" by code_simp
  ultimately show ?thesis by (auto simp: isl_def)
qed

text \<open>
  A file that exists is opened where it really is or not at all: the name the jail hands to the system
  has no link left in it, so the system opens exactly that file, and if the links lead out of the
  root the open is refused. A name that is itself a link or a special file is refused first.
\<close>

theorem Open_exact:
  assumes "list_all proper (jail_root j)" "\<not> IsAbs rel" "[] \<notin> set (cs_deny f)"
    and "EvalSymlinks f (cleaned (jail_root j) rel) = Inr p"
  shows "jail_Open f j rel =
    (case os_Lstat f (cleaned (jail_root j) rel) of
       Inr nd \<Rightarrow> if unsupportedModeMask (n_kind nd) then Inl ErrUnsupportedFileType
                 else if prefix (jail_root j) p then Inr p else Inl ErrPathEscape
     | Inl _ \<Rightarrow> if prefix (jail_root j) p then Inr p else Inl ErrPathEscape)"
proof -
  have p: "real f p" "list_all proper p"
    using EvalSymlinks_real [OF assms(4)] EvalSymlinks_proper [OF assms(4)] proper_no_slash cleaned_proper [OF assms(1)]
    by blast+
  have "os_Open f p = Inr p" using real_exists [OF p(1) assms(3)] namei_real [OF p] by (auto simp: os_Open_def)
  moreover have "jail_Resolve f j rel = (if prefix (jail_root j) p then Inr p else Inl ErrPathEscape)"
    using assms(2,4) checkUnderRoot_prefix [OF p(2), of j] by (simp add: jail_Resolve_def)
  ultimately show ?thesis using assms(2)
    by (simp add: jail_Open_def resolveChecked_def split: sum.splits)
qed

theorem Open_exact_witness:
  "jail_Open demo_fs demo_jail ''./x/../a'' = Inr [''home'', ''u'', ''a'']"
  by (subst Open_exact [of _ _ _ "[''home'', ''u'', ''a'']"]) code_simp+

text \<open>
  Where no link is on the cleaned path, \<open>Resolve\<close> is the cleaned path if that is below the root and
  \<open>ErrPathEscape\<close> otherwise, whether the file, its directory or none of it exists.
\<close>

theorem Resolve_plain:
  assumes "list_all proper (jail_root j)" "link_free f (cleaned (jail_root j) rel)"
  shows "jail_Resolve f j rel = (if \<not> IsAbs rel \<and> prefix (jail_root j) (cleaned (jail_root j) rel)
     then Inr (cleaned (jail_root j) rel) else Inl ErrPathEscape)"
  by (rule jail_Resolve_link_free [OF assms])

theorem Resolve_plain_witness:
  "jail_Resolve demo_fs demo_jail ''d/./e/f'' = Inr [''home'', ''u'', ''d'', ''e'', ''f'']"
proof -
  have inv: "jail_inv [''home'', ''u''] demo_fs"
    using jail_New_root [OF demo_New] real_dir_butlast [of demo_fs "[''home'', ''u'']"]
    by (simp add: jail_inv_def demo_jail_def) (simp add: no_links_def demo_fs_def)
  have c: "cleaned [''home'', ''u''] ''d/./e/f'' = [''home'', ''u'', ''d'', ''e'', ''f'']" by code_simp
  have "link_free demo_fs (cleaned (jail_root demo_jail) ''d/./e/f'')"
    by (rule jail_inv_link_free [OF inv]) (simp add: demo_jail_def c)
  from Resolve_plain [OF _ this] show ?thesis using inv
    by (simp add: demo_jail_def c jail_inv_def) (simp add: IsAbs_def slash_def)
qed

text \<open>
  The check does not cover a link with a missing target: such a link below the root resolves to
  itself, and \<open>Create\<close> makes the file where the link points, outside the root.
\<close>

theorem Create_dangling_escapes:
  "let f = demo_fs\<lparr>cs_nodes := ([''home'', ''u'', ''x''], \<lparr>n_kind = Link ''/etc/passwd'', n_mtime = 0\<rparr>) # cs_nodes demo_fs\<rparr>
   in jail_Resolve f demo_jail ''x'' = Inr [''home'', ''u'', ''x''] \<and>
      fst (jail_Create demo_jail ''x'' f) = Inr [''etc'', ''passwd''] \<and>
      lookup (snd (jail_Create demo_jail ''x'' f)) [''etc'', ''passwd''] = Inr \<lparr>n_kind = File [], n_mtime = 1\<rparr>"
  by code_simp

end
