(* ===== verification/LwwRegister.thy ===== *)
theory LwwRegister
  imports Prelude "HOL-Library.Multiset"
begin

text \<open>
  The contract of the file-state table that the synchronisation engine relies on: a family of
  last-writer-wins registers. A write is kept when its stamp is strictly newer than the stored
  one. The locale states the law of one write; what follows for sequences of writes (stamps only
  grow, the newest write wins, the order of arrival does not matter) is proved once here.
\<close>

definition lww_join :: "('f \<Rightarrow> int) \<Rightarrow> 'f option \<Rightarrow> 'f \<Rightarrow> 'f option" where
  "lww_join stamp old new = (case old of
       None \<Rightarrow> Some new
     | Some g \<Rightarrow> if stamp new > stamp g then Some new else Some g)"

lemma lww_join_simps [simp]:
  "lww_join stamp None f = Some f"
  "stamp f > stamp g \<Longrightarrow> lww_join stamp (Some g) f = Some f"
  "\<not> stamp f > stamp g \<Longrightarrow> lww_join stamp (Some g) f = Some g"
  by (simp_all add: lww_join_def)

text \<open>
  The register after a sequence of writes holds one of the writes or its old content, with a
  stamp that none of them exceeds.
\<close>

lemma foldl_lww_join:
  assumes "foldl (lww_join stamp) old fs = r"
  shows "(r = None \<longleftrightarrow> old = None \<and> fs = [])
    \<and> (\<forall>g. r = Some g \<longrightarrow> g \<in> set_option old \<union> set fs
         \<and> (\<forall>x \<in> set_option old \<union> set fs. stamp x \<le> stamp g))"
  using assms
proof (induction fs arbitrary: old)
  case Nil
  then show ?case by auto
next
  case (Cons f fs)
  from Cons.prems have "foldl (lww_join stamp) (lww_join stamp old f) fs = r" by simp
  note IH = Cons.IH [OF this]
  show ?case
  proof (cases old)
    case None
    with IH show ?thesis by auto
  next
    case (Some g)
    show ?thesis
    proof (cases "stamp f > stamp g")
      case True
      with IH Some show ?thesis by fastforce
    next
      case False
      with IH Some show ?thesis by fastforce
    qed
  qed
qed

text \<open>Exactly which write it holds: the first of those with the greatest stamp.\<close>

lemma foldl_lww_join_first:
  assumes "foldl (lww_join stamp) old fs = Some g"
  shows "\<exists>ys zs. (case old of None \<Rightarrow> [] | Some r \<Rightarrow> [r]) @ fs = ys @ g # zs \<and>
    (\<forall>y \<in> set ys. stamp y < stamp g) \<and> (\<forall>z \<in> set zs. stamp z \<le> stamp g)"
  using assms
proof (induction fs arbitrary: g rule: rev_induct)
  case Nil
  then have "(case old of None \<Rightarrow> [] | Some r \<Rightarrow> [r]) @ [] = [] @ g # []" by simp
  then show ?case by fastforce
next
  case (snoc f fs)
  let ?o = "case old of None \<Rightarrow> [] | Some r \<Rightarrow> [r]"
  show ?case
  proof (cases "foldl (lww_join stamp) old fs")
    case None
    then have "old = None \<and> fs = []" "f = g" using foldl_lww_join [OF None] snoc.prems by auto
    then show ?thesis by (intro exI [of _ "[]"]) simp
  next
    case (Some h)
    obtain ys zs where hz: "?o @ fs = ys @ h # zs" "\<forall>y \<in> set ys. stamp y < stamp h" "\<forall>z \<in> set zs. stamp z \<le> stamp h"
      using snoc.IH [OF Some] by blast
    show ?thesis
    proof (cases "stamp f > stamp h")
      case True
      then have "g = f" using snoc.prems Some by simp
      moreover have "\<forall>y \<in> set (ys @ h # zs). stamp y < stamp f" using hz(2,3) True by fastforce
      ultimately show ?thesis using hz(1) by (intro exI [of _ "ys @ h # zs"] exI [of _ "[]"]) (simp flip: append_assoc)
    next
      case False
      then have "g = h" using snoc.prems Some by simp
      then show ?thesis using hz False by (intro exI [of _ ys] exI [of _ "zs @ [f]"]) (auto simp flip: append_assoc)
    qed
  qed
qed

lemma first_max_unique:
  fixes stamp :: "'f \<Rightarrow> int"
  assumes "ys @ g # zs = ys' @ g' # zs'" "\<forall>y \<in> set ys. stamp y < stamp g" "\<forall>z \<in> set zs. stamp z \<le> stamp g"
    and "\<forall>y \<in> set ys'. stamp y < stamp g'" "\<forall>z \<in> set zs'. stamp z \<le> stamp g'"
  shows "g = g'"
proof -
  consider "length ys < length ys'" | "length ys = length ys'" | "length ys' < length ys" by linarith
  then show ?thesis
  proof cases
    case 1
    then have "g \<in> set ys'" using arg_cong [OF assms(1), of "\<lambda>l. l ! length ys"]
      by (simp add: nth_append split: if_splits)
    moreover have "g' \<in> set (ys @ g # zs)" using assms(1) by simp
    ultimately show ?thesis using assms(2-4) by force
  next
    case 2
    then show ?thesis using assms(1) by simp
  next
    case 3
    then have "ys ! length ys' = g'" using arg_cong [OF assms(1), of "\<lambda>l. l ! length ys'"] by (simp add: nth_append)
    then have "g' \<in> set ys" using 3 nth_mem [of "length ys'" ys] by simp
    moreover have "g \<in> set (ys' @ g' # zs')" using assms(1) by (metis in_set_conv_decomp)
    ultimately show ?thesis using assms(2,4,5) by force
  qed
qed

locale lww_register =
  fixes upsert :: "'f \<Rightarrow> 'd \<Rightarrow> 'd"
    and lookup :: "'k \<Rightarrow> 'd \<Rightarrow> 'f option"
    and key :: "'f \<Rightarrow> 'k"
    and stamp :: "'f \<Rightarrow> int"
    and accepts :: "'f \<Rightarrow> 'd \<Rightarrow> bool"
  assumes lookup_upsert: "accepts f d \<Longrightarrow>
      lookup k (upsert f d) = (if k = key f then lww_join stamp (lookup k d) f else lookup k d)"
    and accepts_upsert: "accepts f d \<Longrightarrow> accepts g (upsert f d) \<longleftrightarrow> accepts g d"
begin

lemma lookup_writes:
  assumes "\<And>f. f \<in> set fs \<Longrightarrow> accepts f d"
  shows "lookup k (fold upsert fs d) = foldl (lww_join stamp) (lookup k d) (filter (\<lambda>f. key f = k) fs)"
  using assms
proof (induction fs arbitrary: d)
  case Nil
  then show ?case by simp
next
  case (Cons f fs)
  have f: "accepts f d" using Cons.prems by simp
  have "\<And>g. g \<in> set fs \<Longrightarrow> accepts g (upsert f d)"
    using Cons.prems f by (simp add: accepts_upsert)
  from Cons.IH [OF this] show ?case
    using f by (auto simp: lookup_upsert)
qed

text \<open>The newest write wins, and a register never goes back in time.\<close>

lemma writes_winner:
  assumes "\<And>f. f \<in> set fs \<Longrightarrow> accepts f d" "f \<in> set fs" "key f = k"
  shows "\<exists>g. lookup k (fold upsert fs d) = Some g \<and> stamp f \<le> stamp g
    \<and> (\<forall>h \<in> set_option (lookup k d). stamp h \<le> stamp g)
    \<and> g \<in> set_option (lookup k d) \<union> {x \<in> set fs. key x = k}"
proof -
  let ?r = "lookup k (fold upsert fs d)" and ?fs = "filter (\<lambda>f. key f = k) fs"
  have r: "foldl (lww_join stamp) (lookup k d) ?fs = ?r"
    using lookup_writes [of fs d k] assms(1) by simp
  note J = foldl_lww_join [OF r]
  have "f \<in> set ?fs" using assms by simp
  then obtain g where "?r = Some g" using J by (cases ?r) (auto simp: filter_empty_conv)
  with J \<open>f \<in> set ?fs\<close> show ?thesis by auto
qed

text \<open>After any writes a register holds the first of the newest ones.\<close>

lemma writes_first_newest:
  assumes "\<And>f. f \<in> set fs \<Longrightarrow> accepts f d"
    and "ws = (case lookup k d of None \<Rightarrow> [] | Some r \<Rightarrow> [r]) @ filter (\<lambda>f. key f = k) fs"
  shows "lookup k (fold upsert fs d) = Some g \<longleftrightarrow>
     (\<exists>ys zs. ws = ys @ g # zs \<and> (\<forall>y \<in> set ys. stamp y < stamp g) \<and> (\<forall>z \<in> set zs. stamp z \<le> stamp g))"
proof -
  have r: "lookup k (fold upsert fs d) = foldl (lww_join stamp) (lookup k d) (filter (\<lambda>f. key f = k) fs)"
    by (rule lookup_writes) (rule assms(1))
  show ?thesis
  proof
    assume "lookup k (fold upsert fs d) = Some g"
    then show "\<exists>ys zs. ws = ys @ g # zs \<and> (\<forall>y \<in> set ys. stamp y < stamp g) \<and> (\<forall>z \<in> set zs. stamp z \<le> stamp g)"
      unfolding assms(2) by (intro foldl_lww_join_first) (simp add: r)
  next
    assume "\<exists>ys zs. ws = ys @ g # zs \<and> (\<forall>y \<in> set ys. stamp y < stamp g) \<and> (\<forall>z \<in> set zs. stamp z \<le> stamp g)"
    then obtain ys zs where g: "ws = ys @ g # zs" "\<forall>y \<in> set ys. stamp y < stamp g" "\<forall>z \<in> set zs. stamp z \<le> stamp g" by blast
    have "lookup k (fold upsert fs d) \<noteq> None"
      using foldl_lww_join [OF r [symmetric]] g(1) assms(2) by (auto split: option.splits)
    then obtain h where h: "lookup k (fold upsert fs d) = Some h" by blast
    obtain ys' zs' where h': "ws = ys' @ h # zs'" "\<forall>y \<in> set ys'. stamp y < stamp h" "\<forall>z \<in> set zs'. stamp z \<le> stamp h"
      using foldl_lww_join_first [of stamp "lookup k d" "filter (\<lambda>f. key f = k) fs" h] h r unfolding assms(2) by metis
    have "g = h" by (rule first_max_unique [of ys g zs ys' h zs' stamp]) (use g h' in simp_all)
    then show "lookup k (fold upsert fs d) = Some g" using h by simp
  qed
qed

text \<open>Writes with different stamps can arrive in any order.\<close>

lemma writes_commute:
  assumes "\<And>f. f \<in> set fs \<Longrightarrow> accepts f d" "mset fs = mset gs"
    and "inj_on stamp (set_option (lookup k d) \<union> {x \<in> set fs. key x = k})"
  shows "lookup k (fold upsert fs d) = lookup k (fold upsert gs d)"
proof -
  let ?F = "filter (\<lambda>f. key f = k) fs" and ?G = "filter (\<lambda>f. key f = k) gs"
  have sets: "set gs = set fs" using assms(2) by (metis mset_eq_setD)
  have nil: "?F = [] \<longleftrightarrow> ?G = []" using sets by (simp add: filter_empty_conv)
  have f: "foldl (lww_join stamp) (lookup k d) ?F = lookup k (fold upsert fs d)"
    using lookup_writes [of fs d k] assms(1) by simp
  have g: "foldl (lww_join stamp) (lookup k d) ?G = lookup k (fold upsert gs d)"
    using lookup_writes [of gs d k] assms(1) sets by simp
  note JF = foldl_lww_join [OF f] and JG = foldl_lww_join [OF g]
  show ?thesis
  proof (cases "lookup k (fold upsert fs d)")
    case None
    then show ?thesis using JF JG nil by auto
  next
    case (Some a)
    then have "lookup k (fold upsert gs d) \<noteq> None" using JF JG nil by auto
    then obtain b where b: "lookup k (fold upsert gs d) = Some b" by auto
    have "a \<in> set_option (lookup k d) \<union> set ?F" "b \<in> set_option (lookup k d) \<union> set ?F"
      "stamp a \<le> stamp b" "stamp b \<le> stamp a"
      using JF JG Some b sets by auto
    then have "a = b" using assms(3) by (auto dest: inj_onD)
    with Some b show ?thesis by simp
  qed
qed

end

end
