(* ===== verification/Store.thy ===== *)
theory Store
  imports Proto LwwRegister
begin

text \<open>
  The persistence layer (\<open>internal/server/store\<close>): the structs of \<open>store.go\<close>, the tables
  that \<open>migrations/*.sql\<close> create, and every method of \<open>sqlite.go\<close>.

  A table is a list of rows in rowid order; the columns that hold booleans and times as
  integers are represented by the Go value they are read back as. Each statement of the source
  is a function on the database, written from its SQL text: conflict clauses, \<open>WHERE\<close>
  guards, foreign keys (\<open>foreign_keys(on)\<close>) with their cascades, \<open>ORDER BY\<close> (ties in
  rowid order) and \<open>LIMIT\<close>. A statement can also fail in the driver: \<open>sqlerr k\<close> is the
  error text of the \<open>k\<close>-th statement, if it fails. \<open>clock\<close> gives the successive readings of
  \<open>time.Now().UnixNano()\<close>.
\<close>

section \<open>Structs and tables\<close>

record Client =
  c_ID :: string
  c_DisplayName :: string
  c_Hostname :: string
  c_RootPath :: string
  c_Version :: string
  c_ProtoVersion :: string
  c_Status :: string
  c_LastSeen :: int
  c_CreatedAt :: int
  c_UpdatedAt :: int
  c_Etag :: int

record SyncPair =
  p_ID :: string
  p_Name :: string
  p_ClientAID :: string
  p_PathA :: string
  p_ClientBID :: string
  p_PathB :: string
  p_Direction :: string
  p_Enabled :: bool
  p_CreatedAt :: int
  p_UpdatedAt :: int
  p_Etag :: int

record FileState =
  fs_PairID :: string
  fs_Side :: string
  fs_RelPath :: string
  fs_SHA256 :: "string option"
  fs_Size :: "int option"
  fs_ModTime :: "int option"
  fs_ServerModTime :: int
  fs_Op :: string
  fs_IsDir :: bool

record SyncRun =
  sr_ID :: int
  sr_PairID :: string
  sr_SrcClientID :: string
  sr_DstClientID :: string
  sr_RelPath :: string
  sr_SHA256 :: "string option"
  sr_Bytes :: int
  sr_Status :: string
  sr_Error :: "string option"
  sr_StartedAt :: int
  sr_FinishedAt :: int

record AuditEntry =
  au_TS :: int
  au_Kind :: string
  au_ClientID :: "string option"
  au_PairID :: "string option"
  au_RelPath :: "string option"
  au_Detail :: "string option"

record Setting =
  se_Key :: string
  se_Value :: string
  se_UpdatedAt :: int

record database =
  clients :: "Client list"
  sync_pairs :: "SyncPair list"
  file_state :: "FileState list"
  sync_runs :: "SyncRun list"
  run_seq :: int
  audit_log :: "AuditEntry list"
  settings :: "Setting list"

text \<open>The primary key of \<open>file_state\<close>.\<close>

type_synonym fskey = "string \<times> string \<times> string"

definition fs_key :: "FileState \<Rightarrow> fskey" where
  "fs_key f = (fs_PairID f, fs_Side f, fs_RelPath f)"

text \<open>The store handle: the database and its environment.\<close>

record st =
  db :: database
  clock :: "nat \<Rightarrow> int"
  ticks :: nat
  sqlerr :: "nat \<Rightarrow> string option"
  stmts :: nat

text \<open>\<open>time.Now().UnixNano()\<close>\<close>

definition Now :: "'z st_scheme \<Rightarrow> int \<times> 'z st_scheme" where
  "Now w = (clock w (ticks w), w\<lparr>ticks := Suc (ticks w)\<rparr>)"

text \<open>\<open>ExecContext\<close> and \<open>QueryContext\<close> of one statement.\<close>

definition exec :: "(database \<Rightarrow> 'a result \<times> database) \<Rightarrow> 'z st_scheme \<Rightarrow> 'a result \<times> 'z st_scheme" where
  "exec f w = (case sqlerr w (stmts w) of
       Some m \<Rightarrow> (Inl (Opaque m), w\<lparr>stmts := Suc (stmts w)\<rparr>)
     | None \<Rightarrow> (case f (db w) of (r, d) \<Rightarrow> (r, w\<lparr>stmts := Suc (stmts w), db := d\<rparr>)))"

definition query :: "(database \<Rightarrow> 'a) \<Rightarrow> 'z st_scheme \<Rightarrow> 'a result \<times> 'z st_scheme" where
  "query f = exec (\<lambda>d. (Inr (f d), d))"

section \<open>Sentinels\<close>

definition ErrNoRows :: err where
  "ErrNoRows = Sentinel ''sql: no rows in result set''"

definition ErrEtagMismatch :: err where
  "ErrEtagMismatch = Sentinel ''store: etag mismatch''"

definition ErrForeignKey :: err where
  "ErrForeignKey = Opaque ''constraint failed: FOREIGN KEY constraint failed (787)''"

section \<open>Row scanners\<close>

text \<open>
  \<open>QueryRow(...).Scan\<close> reports \<open>sql.ErrNoRows\<close> when there is no row; the scanners wrap
  it. The \<open>scanXs\<close> loops append row after row.
\<close>

definition scan_row :: "string \<Rightarrow> 'r option \<Rightarrow> 'r result" where
  "scan_row m row = (case row of None \<Rightarrow> Inl (Wrap m ErrNoRows) | Some r \<Rightarrow> Inr r)"

definition scanClient :: "Client option \<Rightarrow> Client result" where
  "scanClient = scan_row ''scan client''"

definition scanPair :: "SyncPair option \<Rightarrow> SyncPair result" where
  "scanPair = scan_row ''scan pair''"

definition scanFileState :: "FileState option \<Rightarrow> FileState result" where
  "scanFileState = scan_row ''scan file state''"

text \<open>A single-row query: the driver's error surfaces through \<open>Scan\<close>, wrapped the same way.\<close>

definition query_row ::
  "(database \<Rightarrow> 'r option) \<Rightarrow> string \<Rightarrow> ('r option \<Rightarrow> 'r result) \<Rightarrow> 'z st_scheme \<Rightarrow> 'r result \<times> 'z st_scheme" where
  "query_row f m scan w = (case query f w of
       (Inl e, w') \<Rightarrow> (Inl (Wrap m e), w')
     | (Inr row, w') \<Rightarrow> (scan row, w'))"

section \<open>Open\<close>

text \<open>\<open>SELECT MAX(server_mod_time) FROM file_state\<close>: NULL on an empty table.\<close>

definition max_smt :: "database \<Rightarrow> int option" where
  "max_smt d = (if file_state d = [] then None else Some (Max (set (map fs_ServerModTime (file_state d)))))"

definition checkMonotonic :: "'z st_scheme \<Rightarrow> unit result \<times> 'z st_scheme" where
  "checkMonotonic w = (case query max_smt w of
       (Inl e, w1) \<Rightarrow> (Inl (Wrap ''monotonic check failed'' e), w1)
     | (Inr None, w1) \<Rightarrow> (Inr (), w1)
     | (Inr (Some m), w1) \<Rightarrow>
         (case Now w1 of (t, w2) \<Rightarrow>
            if t < m
            then (case Now w2 of (t', w3) \<Rightarrow>
              (Inl (Opaque (''system clock regression detected: now='' @ Sprint_int t' @
                 '', max_server_mod_time='' @ Sprint_int m @
                 ''. axion server cannot start with backwards clock to preserve LWW correctness'')), w3))
            else (Inr (), w2)))"

section \<open>Clients\<close>

definition upsert_client_sql :: "Client \<Rightarrow> database \<Rightarrow> unit result \<times> database" where
  "upsert_client_sql c d =
     (Inr (), d\<lparr>clients := upsert_row c_ID c
        (\<lambda>r. r\<lparr>c_DisplayName := c_DisplayName c, c_Hostname := c_Hostname c,
               c_RootPath := c_RootPath c, c_Version := c_Version c,
               c_ProtoVersion := c_ProtoVersion c, c_Status := c_Status c,
               c_LastSeen := c_LastSeen c, c_UpdatedAt := c_UpdatedAt c,
               c_Etag := c_Etag r + 1\<rparr>) (clients d)\<rparr>)"

definition UpsertClient :: "Client \<Rightarrow> 'z st_scheme \<Rightarrow> unit result \<times> 'z st_scheme" where
  "UpsertClient c w = wrap_err ''upsert client'' (exec (upsert_client_sql c) w)"

definition find_client :: "string \<Rightarrow> database \<Rightarrow> Client option" where
  "find_client cid d = List.find (\<lambda>r. c_ID r = cid) (clients d)"

definition GetClient :: "string \<Rightarrow> 'z st_scheme \<Rightarrow> Client result \<times> 'z st_scheme" where
  "GetClient cid = query_row (find_client cid) ''scan client'' scanClient"

definition ListClients :: "'z st_scheme \<Rightarrow> Client list result \<times> 'z st_scheme" where
  "ListClients w = wrap_err ''list clients'' (query (\<lambda>d. sort_key c_CreatedAt (clients d)) w)"

definition update_client_rows :: "(Client \<Rightarrow> bool) \<Rightarrow> (Client \<Rightarrow> Client) \<Rightarrow> database \<Rightarrow> nat result \<times> database" where
  "update_client_rows P f d =
     (Inr (length (filter P (clients d))),
      d\<lparr>clients := map (\<lambda>r. if P r then f r else r) (clients d)\<rparr>)"

definition UpdateClientStatus :: "string \<Rightarrow> string \<Rightarrow> int \<Rightarrow> 'z st_scheme \<Rightarrow> unit result \<times> 'z st_scheme" where
  "UpdateClientStatus cid status lastSeen w =
     (case Now w of (t, w1) \<Rightarrow>
        (case wrap_err ''update client status''
           (exec (update_client_rows (\<lambda>r. c_ID r = cid)
             (\<lambda>r. r\<lparr>c_Status := status, c_LastSeen := lastSeen, c_UpdatedAt := t\<rparr>)) w1) of
           (Inl e, w2) \<Rightarrow> (Inl e, w2)
         | (Inr _, w2) \<Rightarrow> (Inr (), w2)))"

definition UpdateClientDisplayName :: "string \<Rightarrow> string \<Rightarrow> int \<Rightarrow> 'z st_scheme \<Rightarrow> int result \<times> 'z st_scheme" where
  "UpdateClientDisplayName cid displayName expectedEtag w =
     (case Now w of (t, w1) \<Rightarrow>
        (case exec (update_client_rows (\<lambda>r. c_ID r = cid \<and> c_Etag r = expectedEtag)
             (\<lambda>r. r\<lparr>c_DisplayName := displayName, c_Etag := c_Etag r + 1, c_UpdatedAt := t\<rparr>)) w1 of
           (Inl e, w2) \<Rightarrow> (Inl (Wrap ''update client display name'' e), w2)
         | (Inr n, w2) \<Rightarrow>
             if n = 0 then (Inl ErrEtagMismatch, w2)
             else (case query_row (find_client cid) ''fetch new etag'' (scan_row ''fetch new etag'') w2 of
                (Inl e, w3) \<Rightarrow> (Inl e, w3)
              | (Inr c, w3) \<Rightarrow> (Inr (c_Etag c), w3))))"

text \<open>
  \<open>DELETE FROM clients\<close> with \<open>ON DELETE CASCADE\<close>: the pairs that name the client on
  either side go, and with them their file states and runs. The audit log has no foreign key.
\<close>

definition delete_pairs_where :: "(SyncPair \<Rightarrow> bool) \<Rightarrow> database \<Rightarrow> database" where
  "delete_pairs_where P d =
     (let dead = p_ID ` set (filter P (sync_pairs d)) in
      d\<lparr>sync_pairs := filter (\<lambda>p. \<not> P p) (sync_pairs d),
        file_state := filter (\<lambda>f. fs_PairID f \<notin> dead) (file_state d),
        sync_runs := filter (\<lambda>r. sr_PairID r \<notin> dead) (sync_runs d)\<rparr>)"

definition delete_client_sql :: "string \<Rightarrow> database \<Rightarrow> unit result \<times> database" where
  "delete_client_sql cid d =
     (Inr (), (delete_pairs_where (\<lambda>p. p_ClientAID p = cid \<or> p_ClientBID p = cid) d)
        \<lparr>clients := filter (\<lambda>c. c_ID c \<noteq> cid) (clients d)\<rparr>)"

definition DeleteClient :: "string \<Rightarrow> 'z st_scheme \<Rightarrow> unit result \<times> 'z st_scheme" where
  "DeleteClient cid w = wrap_err ''delete client'' (exec (delete_client_sql cid) w)"

section \<open>Sync pairs\<close>

text \<open>
  The conflict clause does not name \<open>client_a_id\<close> and \<open>client_b_id\<close>: an update keeps the
  stored clients, and the foreign keys are checked on insertion only.
\<close>

definition upsert_pair_sql :: "SyncPair \<Rightarrow> database \<Rightarrow> unit result \<times> database" where
  "upsert_pair_sql p d =
     (if (\<exists>r \<in> set (sync_pairs d). p_ID r = p_ID p)
         \<or> (p_ClientAID p \<in> c_ID ` set (clients d) \<and> p_ClientBID p \<in> c_ID ` set (clients d))
      then (Inr (), d\<lparr>sync_pairs := upsert_row p_ID p
        (\<lambda>r. r\<lparr>p_Name := p_Name p, p_PathA := p_PathA p, p_PathB := p_PathB p,
               p_Direction := p_Direction p, p_Enabled := p_Enabled p,
               p_UpdatedAt := p_UpdatedAt p, p_Etag := p_Etag r + 1\<rparr>) (sync_pairs d)\<rparr>)
      else (Inl ErrForeignKey, d))"

definition UpsertPair :: "SyncPair \<Rightarrow> 'z st_scheme \<Rightarrow> unit result \<times> 'z st_scheme" where
  "UpsertPair p w = wrap_err ''upsert pair'' (exec (upsert_pair_sql p) w)"

definition find_pair :: "string \<Rightarrow> database \<Rightarrow> SyncPair option" where
  "find_pair pid d = List.find (\<lambda>r. p_ID r = pid) (sync_pairs d)"

definition GetPair :: "string \<Rightarrow> 'z st_scheme \<Rightarrow> SyncPair result \<times> 'z st_scheme" where
  "GetPair pid = query_row (find_pair pid) ''scan pair'' scanPair"

definition ListPairs :: "'z st_scheme \<Rightarrow> SyncPair list result \<times> 'z st_scheme" where
  "ListPairs w = wrap_err ''list pairs'' (query (\<lambda>d. sort_key p_CreatedAt (sync_pairs d)) w)"

definition pairs_for_client :: "string \<Rightarrow> database \<Rightarrow> SyncPair list" where
  "pairs_for_client cid d =
     sort_key p_CreatedAt (filter (\<lambda>p. p_ClientAID p = cid \<or> p_ClientBID p = cid) (sync_pairs d))"

definition ListPairsForClient :: "string \<Rightarrow> 'z st_scheme \<Rightarrow> SyncPair list result \<times> 'z st_scheme" where
  "ListPairsForClient cid w = wrap_err ''list pairs for client'' (query (pairs_for_client cid) w)"

definition delete_pair_sql :: "string \<Rightarrow> database \<Rightarrow> unit result \<times> database" where
  "delete_pair_sql pid d = (Inr (), delete_pairs_where (\<lambda>p. p_ID p = pid) d)"

definition DeletePair :: "string \<Rightarrow> 'z st_scheme \<Rightarrow> unit result \<times> 'z st_scheme" where
  "DeletePair pid w = wrap_err ''delete pair'' (exec (delete_pair_sql pid) w)"

section \<open>File states\<close>

text \<open>
  \<open>upsertFileStateSQL\<close>: on a conflict the row is replaced only when the new
  \<open>server_mod_time\<close> is strictly greater. The foreign key is checked on insertion.
\<close>

definition do_update_fs :: "FileState \<Rightarrow> FileState \<Rightarrow> FileState" where
  "do_update_fs f r =
     (if fs_ServerModTime f > fs_ServerModTime r
      then r\<lparr>fs_SHA256 := fs_SHA256 f, fs_Size := fs_Size f, fs_ModTime := fs_ModTime f,
             fs_ServerModTime := fs_ServerModTime f, fs_Op := fs_Op f, fs_IsDir := fs_IsDir f\<rparr>
      else r)"

definition upsert_file_state_sql :: "FileState \<Rightarrow> database \<Rightarrow> unit result \<times> database" where
  "upsert_file_state_sql f d =
     (if (\<exists>r \<in> set (file_state d). fs_key r = fs_key f) \<or> fs_PairID f \<in> p_ID ` set (sync_pairs d)
      then (Inr (), d\<lparr>file_state := upsert_row fs_key f (do_update_fs f) (file_state d)\<rparr>)
      else (Inl ErrForeignKey, d))"

definition UpsertFileState :: "FileState \<Rightarrow> 'z st_scheme \<Rightarrow> unit result \<times> 'z st_scheme" where
  "UpsertFileState f w = wrap_err ''upsert file state'' (exec (upsert_file_state_sql f) w)"

definition find_file_state :: "fskey \<Rightarrow> database \<Rightarrow> FileState option" where
  "find_file_state k d = List.find (\<lambda>r. fs_key r = k) (file_state d)"

definition GetFileState :: "string \<Rightarrow> string \<Rightarrow> string \<Rightarrow> 'z st_scheme \<Rightarrow> FileState result \<times> 'z st_scheme" where
  "GetFileState pid side rel = query_row (find_file_state (pid, side, rel)) ''scan file state'' scanFileState"

definition file_states_of :: "string \<Rightarrow> string \<Rightarrow> database \<Rightarrow> FileState list" where
  "file_states_of pid side d =
     sort_key fs_RelPath (filter (\<lambda>f. fs_PairID f = pid \<and> fs_Side f = side) (file_state d))"

definition ListFileStates :: "string \<Rightarrow> string \<Rightarrow> 'z st_scheme \<Rightarrow> FileState list result \<times> 'z st_scheme" where
  "ListFileStates pid side w = wrap_err ''list file states'' (query (file_states_of pid side) w)"

definition DeleteFileState :: "string \<Rightarrow> string \<Rightarrow> string \<Rightarrow> 'z st_scheme \<Rightarrow> unit result \<times> 'z st_scheme" where
  "DeleteFileState pid side rel w = wrap_err ''delete file state''
     (exec (\<lambda>d. (Inr (), d\<lparr>file_state := filter (\<lambda>f. fs_key f \<noteq> (pid, side, rel)) (file_state d)\<rparr>)) w)"

section \<open>Sync runs\<close>

text \<open>\<open>INTEGER PRIMARY KEY AUTOINCREMENT\<close>: the next identifier, never one used before.\<close>

definition insert_run_sql :: "SyncRun \<Rightarrow> database \<Rightarrow> int result \<times> database" where
  "insert_run_sql r d =
     (if sr_PairID r \<in> p_ID ` set (sync_pairs d)
      then (Inr (run_seq d + 1),
            d\<lparr>sync_runs := sync_runs d @ [r\<lparr>sr_ID := run_seq d + 1\<rparr>], run_seq := run_seq d + 1\<rparr>)
      else (Inl ErrForeignKey, d))"

definition InsertSyncRun :: "SyncRun \<Rightarrow> 'z st_scheme \<Rightarrow> int result \<times> 'z st_scheme" where
  "InsertSyncRun r w = wrap_err ''insert sync run'' (exec (insert_run_sql r) w)"

text \<open>\<open>ORDER BY ... DESC LIMIT n\<close>; a negative limit is no limit.\<close>

definition limit_rows :: "int \<Rightarrow> 'a list \<Rightarrow> 'a list" where
  "limit_rows n xs = (if n < 0 then xs else take (nat n) xs)"

definition recent_runs :: "string \<Rightarrow> int \<Rightarrow> database \<Rightarrow> SyncRun list" where
  "recent_runs pid n d = limit_rows n (sort_key (\<lambda>r. - sr_StartedAt r)
     (if pid = [] then sync_runs d else filter (\<lambda>r. sr_PairID r = pid) (sync_runs d)))"

definition ListRecentSyncRuns :: "string \<Rightarrow> int \<Rightarrow> 'z st_scheme \<Rightarrow> SyncRun list result \<times> 'z st_scheme" where
  "ListRecentSyncRuns pid n w = wrap_err ''list recent sync runs'' (query (recent_runs pid n) w)"

section \<open>Audit log and settings\<close>

definition AppendAuditLog :: "AuditEntry \<Rightarrow> 'z st_scheme \<Rightarrow> unit result \<times> 'z st_scheme" where
  "AppendAuditLog e w = wrap_err ''append audit log''
     (exec (\<lambda>d. (Inr (), d\<lparr>audit_log := audit_log d @ [e]\<rparr>)) w)"

definition ListRecentAuditLog :: "int \<Rightarrow> 'z st_scheme \<Rightarrow> AuditEntry list result \<times> 'z st_scheme" where
  "ListRecentAuditLog n w = wrap_err ''list recent audit log''
     (query (\<lambda>d. limit_rows n (sort_key (\<lambda>e. - au_TS e) (audit_log d))) w)"

definition find_setting :: "string \<Rightarrow> database \<Rightarrow> Setting option" where
  "find_setting k d = List.find (\<lambda>s. se_Key s = k) (settings d)"

definition GetSetting :: "string \<Rightarrow> 'z st_scheme \<Rightarrow> string result \<times> 'z st_scheme" where
  "GetSetting k w =
     (case query_row (find_setting k) (''get setting '' @ Sprintf_q k)
             (scan_row (''get setting '' @ Sprintf_q k)) w of
        (Inl e, w') \<Rightarrow> (Inl e, w')
      | (Inr s, w') \<Rightarrow> (Inr (se_Value s), w'))"

definition SetSetting :: "string \<Rightarrow> string \<Rightarrow> 'z st_scheme \<Rightarrow> unit result \<times> 'z st_scheme" where
  "SetSetting k v w =
     (case Now w of (t, w1) \<Rightarrow>
        wrap_err (''set setting '' @ Sprintf_q k)
          (exec (\<lambda>d. (Inr (), d\<lparr>settings := upsert_row se_Key
              \<lparr>se_Key = k, se_Value = v, se_UpdatedAt = t\<rparr>
              (\<lambda>r. r\<lparr>se_Value := v, se_UpdatedAt := t\<rparr>) (settings d)\<rparr>)) w1))"

text \<open>The map the rows are collected in, as an association list.\<close>

definition LoadAllSettings :: "'z st_scheme \<Rightarrow> (string \<times> string) list result \<times> 'z st_scheme" where
  "LoadAllSettings w = wrap_err ''load all settings''
     (query (\<lambda>d. fold (\<lambda>s. AList.update (se_Key s) (se_Value s)) (settings d) []) w)"

section \<open>Integrity\<close>

text \<open>Primary keys are unique, foreign keys resolve, run identifiers were handed out.\<close>

definition keys_ok :: "database \<Rightarrow> bool" where
  "keys_ok d \<longleftrightarrow>
     distinct (map c_ID (clients d)) \<and> distinct (map p_ID (sync_pairs d)) \<and>
     distinct (map fs_key (file_state d)) \<and> distinct (map sr_ID (sync_runs d)) \<and>
     distinct (map se_Key (settings d)) \<and> (\<forall>r \<in> set (sync_runs d). sr_ID r \<le> run_seq d)"

definition client_ids :: "database \<Rightarrow> string set" where
  "client_ids d = c_ID ` set (clients d)"

definition pair_ids :: "database \<Rightarrow> string set" where
  "pair_ids d = p_ID ` set (sync_pairs d)"

definition refs_ok :: "database \<Rightarrow> bool" where
  "refs_ok d \<longleftrightarrow>
     p_ClientAID ` set (sync_pairs d) \<subseteq> client_ids d \<and>
     p_ClientBID ` set (sync_pairs d) \<subseteq> client_ids d \<and>
     fs_PairID ` set (file_state d) \<subseteq> pair_ids d \<and> sr_PairID ` set (sync_runs d) \<subseteq> pair_ids d"

definition wf_db :: "database \<Rightarrow> bool" where
  "wf_db d \<longleftrightarrow> keys_ok d \<and> refs_ok d"

text \<open>The mutating methods of the store, as operations of one machine.\<close>

datatype store_op =
    OpUpsertClient Client
  | OpUpdateClientStatus string string int
  | OpUpdateClientDisplayName string string int
  | OpDeleteClient string
  | OpUpsertPair SyncPair
  | OpDeletePair string
  | OpUpsertFileState FileState
  | OpDeleteFileState string string string
  | OpInsertSyncRun SyncRun
  | OpAppendAuditLog AuditEntry
  | OpSetSetting string string

fun store_step :: "store_op \<Rightarrow> 'z st_scheme \<Rightarrow> 'z st_scheme" where
  "store_step (OpUpsertClient c) w = snd (UpsertClient c w)"
| "store_step (OpUpdateClientStatus i s t) w = snd (UpdateClientStatus i s t w)"
| "store_step (OpUpdateClientDisplayName i n e) w = snd (UpdateClientDisplayName i n e w)"
| "store_step (OpDeleteClient i) w = snd (DeleteClient i w)"
| "store_step (OpUpsertPair p) w = snd (UpsertPair p w)"
| "store_step (OpDeletePair i) w = snd (DeletePair i w)"
| "store_step (OpUpsertFileState f) w = snd (UpsertFileState f w)"
| "store_step (OpDeleteFileState i s r) w = snd (DeleteFileState i s r w)"
| "store_step (OpInsertSyncRun r) w = snd (InsertSyncRun r w)"
| "store_step (OpAppendAuditLog e) w = snd (AppendAuditLog e w)"
| "store_step (OpSetSetting k v) w = snd (SetSetting k v w)"

subsection \<open>Statements\<close>

lemma Now_simps [simp]:
  "db (snd (Now w)) = db w" "sqlerr (snd (Now w)) = sqlerr w" "stmts (snd (Now w)) = stmts w"
  "clock (snd (Now w)) = clock w" "fst (Now w) = clock w (ticks w)" "ticks (snd (Now w)) = Suc (ticks w)"
  by (simp_all add: Now_def)

lemma exec_env [simp]:
  "clock (snd (exec f w)) = clock w" "ticks (snd (exec f w)) = ticks w" "sqlerr (snd (exec f w)) = sqlerr w"
  by (simp_all add: exec_def split: option.splits prod.splits)

lemma db_exec:
  "db (snd (exec f w)) = (case sqlerr w (stmts w) of None \<Rightarrow> snd (f (db w)) | Some _ \<Rightarrow> db w)"
  by (simp add: exec_def split: option.splits prod.splits)

lemma db_query [simp]: "db (snd (query f w)) = db w"
  by (simp add: query_def db_exec split: option.splits)

lemma query_env [simp]:
  "clock (snd (query f w)) = clock w" "ticks (snd (query f w)) = ticks w" "sqlerr (snd (query f w)) = sqlerr w"
  by (simp_all add: query_def)

lemma snd_query_row: "snd (query_row f m sc w) = snd (query f w)"
  by (simp add: query_row_def split: prod.splits sum.splits)

lemma query_row_env [simp]:
  "db (snd (query_row f m sc w)) = db w"
  "clock (snd (query_row f m sc w)) = clock w" "ticks (snd (query_row f m sc w)) = ticks w"
  "sqlerr (snd (query_row f m sc w)) = sqlerr w"
  by (simp_all add: snd_query_row)

lemma query_row_db: "query_row f m sc w = (r, w') \<Longrightarrow> db w' = db w"
  using query_row_env(1) [of f m sc w] by simp

lemma exec_wf: "(\<And>d. wf_db d \<Longrightarrow> wf_db (snd (f d))) \<Longrightarrow> wf_db (db w) \<Longrightarrow> wf_db (db (snd (exec f w)))"
  by (simp add: db_exec split: option.splits)

subsection \<open>Each statement keeps the tables well-formed\<close>

lemma wf_upsert_client: "wf_db d \<Longrightarrow> wf_db (snd (upsert_client_sql c d))"
  by (auto simp: wf_db_def keys_ok_def refs_ok_def client_ids_def pair_ids_def
      upsert_client_sql_def keys_upsert_row intro!: distinct_upsert_row)

lemma wf_update_client_rows:
  assumes "\<And>r. c_ID (f r) = c_ID r" "wf_db d"
  shows "wf_db (snd (update_client_rows P f d))"
proof -
  let ?rows = "map (\<lambda>r. if P r then f r else r) (clients d)"
  have k: "map c_ID ?rows = map c_ID (clients d)" by (rule keys_update_rows) (rule assms(1))
  then have i: "c_ID ` set ?rows = c_ID ` set (clients d)" by (metis list.set_map)
  have "keys_ok (d\<lparr>clients := ?rows\<rparr>)" using assms(2) k
    by (simp add: wf_db_def keys_ok_def del: map_map list.map_comp)
  moreover have "refs_ok (d\<lparr>clients := ?rows\<rparr>)" using assms(2) i
    by (simp add: wf_db_def refs_ok_def client_ids_def pair_ids_def del: set_map image_comp)
  ultimately show ?thesis by (simp add: wf_db_def update_client_rows_def)
qed

lemma image_survives: "x \<in> k ` A \<Longrightarrow> x \<notin> k ` {y \<in> A. P y} \<Longrightarrow> x \<in> k ` {y \<in> A. \<not> P y}"
  by auto

lemma wf_delete_pairs_where:
  assumes "wf_db d"
  shows "wf_db (delete_pairs_where P d)"
proof -
  have "keys_ok (delete_pairs_where P d)" using assms
    by (simp add: wf_db_def keys_ok_def delete_pairs_where_def Let_def distinct_keys_filter)
  moreover have "refs_ok (delete_pairs_where P d)" using assms
    by (auto simp: wf_db_def refs_ok_def client_ids_def pair_ids_def delete_pairs_where_def Let_def
        intro!: image_survives)
  ultimately show ?thesis by (simp add: wf_db_def)
qed

lemma wf_delete_client:
  assumes "wf_db d"
  shows "wf_db (snd (delete_client_sql cid d))"
proof -
  let ?e = "delete_pairs_where (\<lambda>p. p_ClientAID p = cid \<or> p_ClientBID p = cid) d"
  let ?f = "?e\<lparr>clients := filter (\<lambda>c. c_ID c \<noteq> cid) (clients d)\<rparr>"
  have wf: "wf_db ?e" using assms by (rule wf_delete_pairs_where)
  have c: "clients ?e = clients d" by (simp add: delete_pairs_where_def Let_def)
  have A: "cid \<notin> p_ClientAID ` set (sync_pairs ?e)" and B: "cid \<notin> p_ClientBID ` set (sync_pairs ?e)"
    by (auto simp: delete_pairs_where_def Let_def)
  have ids: "client_ids ?f = client_ids ?e - {cid}" by (auto simp: client_ids_def c)
  have pids: "pair_ids ?f = pair_ids ?e" by (simp add: pair_ids_def)
  have "keys_ok ?f" using wf by (simp add: wf_db_def keys_ok_def c distinct_keys_filter)
  moreover have "refs_ok ?f" using wf A B
    unfolding wf_db_def refs_ok_def ids pids by (simp add: subset_Diff_insert)
  ultimately show ?thesis by (simp add: wf_db_def delete_client_sql_def)
qed

text \<open>
  A column the conflict clause does not change keeps its range, if the new value is in range
  or the row exists already.
\<close>

lemma image_upsert_row:
  assumes "\<And>r. g (upd r) = g r" "g ` set rows \<subseteq> S" "(\<exists>r \<in> set rows. key r = key new) \<or> g new \<in> S"
  shows "g ` set (upsert_row key new upd rows) \<subseteq> S"
  using assms by (auto simp: upsert_row_def)

lemma wf_upsert_pair:
  assumes "wf_db d"
  shows "wf_db (snd (upsert_pair_sql p d))"
proof -
  let ?upd = "\<lambda>r. r\<lparr>p_Name := p_Name p, p_PathA := p_PathA p, p_PathB := p_PathB p,
               p_Direction := p_Direction p, p_Enabled := p_Enabled p,
               p_UpdatedAt := p_UpdatedAt p, p_Etag := p_Etag r + 1\<rparr>"
  let ?e = "d\<lparr>sync_pairs := upsert_row p_ID p ?upd (sync_pairs d)\<rparr>"
  have keys: "keys_ok ?e" using assms
    by (simp add: wf_db_def keys_ok_def distinct_upsert_row)
  have pids: "pair_ids ?e = insert (p_ID p) (pair_ids d)" by (simp add: pair_ids_def keys_upsert_row)
  have refs: "refs_ok ?e" if ok: "(\<exists>r \<in> set (sync_pairs d). p_ID r = p_ID p)
      \<or> (p_ClientAID p \<in> client_ids d \<and> p_ClientBID p \<in> client_ids d)"
  proof -
    have "(\<exists>r \<in> set (sync_pairs d). p_ID r = p_ID p) \<or> p_ClientAID p \<in> client_ids d"
      using ok by blast
    then have "p_ClientAID ` set (sync_pairs ?e) \<subseteq> client_ids d"
      using assms by (simp add: wf_db_def refs_ok_def image_upsert_row)
    moreover have "(\<exists>r \<in> set (sync_pairs d). p_ID r = p_ID p) \<or> p_ClientBID p \<in> client_ids d"
      using ok by blast
    then have "p_ClientBID ` set (sync_pairs ?e) \<subseteq> client_ids d"
      using assms by (simp add: wf_db_def refs_ok_def image_upsert_row)
    ultimately show ?thesis using assms unfolding wf_db_def refs_ok_def pids
      by (auto simp: client_ids_def)
  qed
  show ?thesis using assms keys refs by (auto simp: upsert_pair_sql_def wf_db_def client_ids_def)
qed

lemma do_update_fs_key [simp]: "fs_key (do_update_fs f r) = fs_key r" "fs_PairID (do_update_fs f r) = fs_PairID r"
  by (simp_all add: do_update_fs_def fs_key_def)

lemma wf_upsert_file_state:
  assumes "wf_db d"
  shows "wf_db (snd (upsert_file_state_sql f d))"
proof -
  let ?e = "d\<lparr>file_state := upsert_row fs_key f (do_update_fs f) (file_state d)\<rparr>"
  have keys: "keys_ok ?e" using assms
    by (simp add: wf_db_def keys_ok_def distinct_upsert_row)
  have refs: "refs_ok ?e" if ok: "(\<exists>r \<in> set (file_state d). fs_key r = fs_key f) \<or> fs_PairID f \<in> pair_ids d"
  proof -
    have "fs_PairID ` set (file_state ?e) \<subseteq> pair_ids d"
      using assms ok by (simp add: wf_db_def refs_ok_def image_upsert_row)
    then show ?thesis using assms by (auto simp: wf_db_def refs_ok_def client_ids_def pair_ids_def)
  qed
  show ?thesis using assms keys refs by (auto simp: upsert_file_state_sql_def wf_db_def pair_ids_def)
qed

lemma wf_insert_run: "wf_db d \<Longrightarrow> wf_db (snd (insert_run_sql r d))"
  by (fastforce simp: wf_db_def keys_ok_def refs_ok_def client_ids_def pair_ids_def insert_run_sql_def)

text \<open>All the mutating methods keep the tables well-formed, whatever the driver reports.\<close>

lemma wf_UpdateClientStatus: "wf_db (db w) \<Longrightarrow> wf_db (db (snd (UpdateClientStatus i s t w)))"
proof -
  assume "wf_db (db w)"
  let ?u = "exec (update_client_rows (\<lambda>r. c_ID r = i)
      (\<lambda>r. r\<lparr>c_Status := s, c_LastSeen := t, c_UpdatedAt := clock w (ticks w)\<rparr>)) (snd (Now w))"
  have "wf_db (db (snd ?u))"
    by (rule exec_wf) (simp_all add: wf_update_client_rows \<open>wf_db (db w)\<close>)
  moreover have "snd (UpdateClientStatus i s t w) = snd ?u"
    by (cases ?u; cases "fst ?u") (simp_all add: UpdateClientStatus_def Now_def)
  ultimately show ?thesis by simp
qed

lemma wf_UpdateClientDisplayName:
  "wf_db (db w) \<Longrightarrow> wf_db (db (snd (UpdateClientDisplayName i n e w)))"
proof -
  assume "wf_db (db w)"
  let ?u = "exec (update_client_rows (\<lambda>r. c_ID r = i \<and> c_Etag r = e)
      (\<lambda>r. r\<lparr>c_DisplayName := n, c_Etag := c_Etag r + 1, c_UpdatedAt := clock w (ticks w)\<rparr>)) (snd (Now w))"
  have "wf_db (db (snd ?u))"
    by (rule exec_wf) (simp_all add: wf_update_client_rows \<open>wf_db (db w)\<close>)
  moreover have "db (snd (UpdateClientDisplayName i n e w)) = db (snd ?u)"
    by (auto simp: UpdateClientDisplayName_def Now_def split: prod.splits sum.splits dest: query_row_db)
  ultimately show ?thesis by simp
qed

lemma wf_upsert_setting:
  "wf_db d \<Longrightarrow> (\<And>r. se_Key (upd r) = se_Key r) \<Longrightarrow> wf_db (d\<lparr>settings := upsert_row se_Key new upd (settings d)\<rparr>)"
  by (simp add: wf_db_def keys_ok_def refs_ok_def client_ids_def pair_ids_def distinct_upsert_row)

lemma wf_audit: "wf_db (d\<lparr>audit_log := a\<rparr>) = wf_db d"
  by (simp add: wf_db_def keys_ok_def refs_ok_def client_ids_def pair_ids_def)

lemma wf_filter_file_state: "wf_db d \<Longrightarrow> wf_db (d\<lparr>file_state := filter P (file_state d)\<rparr>)"
  by (auto simp: wf_db_def keys_ok_def refs_ok_def client_ids_def pair_ids_def distinct_keys_filter)

lemma wf_store_step: "wf_db (db w) \<Longrightarrow> wf_db (db (store_step x w))"
proof (cases x)
  case (OpSetSetting k v)
  assume wf: "wf_db (db w)"
  have "wf_db (db (snd (exec (\<lambda>d. (Inr (), d\<lparr>settings := upsert_row se_Key
              \<lparr>se_Key = k, se_Value = v, se_UpdatedAt = clock w (ticks w)\<rparr>
              (\<lambda>r. r\<lparr>se_Value := v, se_UpdatedAt := clock w (ticks w)\<rparr>) (settings d)\<rparr>)) (snd (Now w)))))"
    by (rule exec_wf) (simp_all add: wf wf_upsert_setting)
  then show ?thesis by (simp add: OpSetSetting SetSetting_def Now_def)
qed (simp_all add: UpsertClient_def DeleteClient_def UpsertPair_def DeletePair_def UpsertFileState_def
    DeleteFileState_def InsertSyncRun_def AppendAuditLog_def delete_pair_sql_def exec_wf
    wf_UpdateClientStatus wf_UpdateClientDisplayName wf_upsert_client wf_delete_client wf_upsert_pair
    wf_delete_pairs_where wf_upsert_file_state wf_insert_run wf_audit wf_filter_file_state)

lemma wf_store_run: "wf_db (db w) \<Longrightarrow> wf_db (db (fold store_step xs w))"
  by (induction xs arbitrary: w) (auto intro: wf_store_step)

section \<open>The file-state table is a family of last-writer-wins registers\<close>

definition upsert_fs :: "FileState \<Rightarrow> database \<Rightarrow> database" where
  "upsert_fs f d = snd (upsert_file_state_sql f d)"

definition accepts_fs :: "FileState \<Rightarrow> database \<Rightarrow> bool" where
  "accepts_fs f d \<longleftrightarrow> fs_PairID f \<in> pair_ids d"

lemma do_update_fs_same_key:
  assumes "fs_key r = fs_key f"
  shows "do_update_fs f r = (if fs_ServerModTime f > fs_ServerModTime r then f else r)"
  using assms by (cases r; cases f) (simp add: fs_key_def do_update_fs_def)

lemma find_upsert_fs:
  assumes "accepts_fs f d"
  shows "find_file_state k (upsert_fs f d) =
    (if k = fs_key f then lww_join fs_ServerModTime (find_file_state k d) f else find_file_state k d)"
proof -
  have "find_file_state k (upsert_fs f d) =
      List.find (\<lambda>r. fs_key r = k) (upsert_row fs_key f (do_update_fs f) (file_state d))"
    using assms by (simp add: find_file_state_def upsert_fs_def upsert_file_state_sql_def accepts_fs_def
        pair_ids_def)
  also have "\<dots> = (if k = fs_key f
      then Some (case find_file_state k d of None \<Rightarrow> f | Some r \<Rightarrow> do_update_fs f r)
      else find_file_state k d)"
    by (simp add: find_upsert_row find_file_state_def)
  finally show ?thesis
    by (auto simp: lww_join_def find_file_state_def do_update_fs_same_key split: option.splits
        dest!: find_Some_iff')
qed

interpretation fsreg: lww_register upsert_fs find_file_state fs_key fs_ServerModTime accepts_fs
proof (standard, goal_cases)
  case (1 f d k)
  then show ?case by (rule find_upsert_fs)
next
  case (2 f d g)
  then show ?case
    by (simp add: accepts_fs_def upsert_fs_def upsert_file_state_sql_def pair_ids_def)
qed

text \<open>A run of \<open>UpsertFileState\<close> on a store whose driver does not fail.\<close>

definition run_upserts :: "FileState list \<Rightarrow> 'z st_scheme \<Rightarrow> 'z st_scheme" where
  "run_upserts fs w = fold (\<lambda>f w. snd (UpsertFileState f w)) fs w"

lemma db_UpsertFileState:
  "sqlerr w (stmts w) = None \<Longrightarrow> db (snd (UpsertFileState f w)) = upsert_fs f (db w)"
  by (simp add: UpsertFileState_def db_exec upsert_fs_def)

lemma UpsertFileState_env [simp]:
  "sqlerr (snd (UpsertFileState f w)) = sqlerr w" "clock (snd (UpsertFileState f w)) = clock w"
  "ticks (snd (UpsertFileState f w)) = ticks w"
  by (simp_all add: UpsertFileState_def)

lemma db_run_upserts:
  "(\<And>k. sqlerr w k = None) \<Longrightarrow> db (run_upserts fs w) = fold upsert_fs fs (db w)"
  by (induction fs arbitrary: w) (simp_all add: run_upserts_def db_UpsertFileState)

section \<open>What the store promises\<close>

definition empty_db :: database where
  "empty_db = \<lparr>clients = [], sync_pairs = [], file_state = [], sync_runs = [], run_seq = 0, audit_log = [], settings = []\<rparr>"

definition sample_client :: "string \<Rightarrow> Client" where
  "sample_client cid = \<lparr>c_ID = cid, c_DisplayName = ''d'', c_Hostname = ''h'', c_RootPath = ''/r'', c_Version = ''1'',
     c_ProtoVersion = ''1'', c_Status = ''online'', c_LastSeen = 1, c_CreatedAt = 1, c_UpdatedAt = 1, c_Etag = 1\<rparr>"

definition sample_pair :: SyncPair where
  "sample_pair = \<lparr>p_ID = ''p1'', p_Name = ''n'', p_ClientAID = ''ca'', p_PathA = ''x'', p_ClientBID = ''cb'', p_PathB = ''y'',
     p_Direction = ''a_to_b'', p_Enabled = True, p_CreatedAt = 1, p_UpdatedAt = 1, p_Etag = 1\<rparr>"

definition sample_state :: "string \<Rightarrow> int \<Rightarrow> FileState" where
  "sample_state sha t = \<lparr>fs_PairID = ''p1'', fs_Side = ''a'', fs_RelPath = ''f'', fs_SHA256 = Some sha, fs_Size = None,
     fs_ModTime = None, fs_ServerModTime = t, fs_Op = ''write'', fs_IsDir = False\<rparr>"

definition sample_db :: database where
  "sample_db = empty_db\<lparr>clients := [sample_client ''ca'', sample_client ''cb''], sync_pairs := [sample_pair],
     file_state := [sample_state ''h0'' 5]\<rparr>"

definition sample_store :: "database \<Rightarrow> st" where
  "sample_store d = \<lparr>db = d, clock = (\<lambda>k. 100 + int k), ticks = 0, sqlerr = (\<lambda>_. None), stmts = 0\<rparr>"

lemmas sample_defs = empty_db_def sample_client_def sample_pair_def sample_state_def sample_db_def sample_store_def

lemma sample_wf: "wf_db (db (sample_store sample_db))"
  by (simp add: sample_defs wf_db_def keys_ok_def refs_ok_def client_ids_def pair_ids_def)

text \<open>
  C14. The database stays consistent under every sequence of store operations, whichever statements the
  driver fails: primary keys are unique, every pair names existing clients, every file state and
  run names an existing pair, and run identifiers are never reused.
\<close>

theorem store_stays_consistent:
  assumes "wf_db (db w)"
  shows "wf_db (db (fold store_step ops w))"
  using assms by (rule wf_store_run)

theorem store_stays_consistent_witness:
  "wf_db (db (fold store_step [OpDeleteClient ''cb'', OpUpsertFileState (sample_state ''h1'' 9)] (sample_store sample_db)))"
  by (rule store_stays_consistent [OF sample_wf])

text \<open>
  C16. The file-state table is a family of last-writer-wins registers, one per pair, side and path: after any
  sequence of updates of existing pairs, on a driver that does not fail, the row of a key is the one with the
  greatest stamp among the row it had and the updates of this key, the first of them when several carry this
  stamp; updates of other keys do not matter. So the order of arrival only matters between equal stamps.
\<close>

theorem file_states_last_writer_wins:
  assumes "\<And>k. sqlerr w k = None" "\<And>f. f \<in> set fs \<Longrightarrow> fs_PairID f \<in> pair_ids (db w)"
    and "writes = (case find_file_state k (db w) of None \<Rightarrow> [] | Some r \<Rightarrow> [r]) @ filter (\<lambda>f. fs_key f = k) fs"
  shows "find_file_state k (db (run_upserts fs w)) = Some g \<longleftrightarrow>
     (\<exists>ys zs. writes = ys @ g # zs \<and> (\<forall>y \<in> set ys. fs_ServerModTime y < fs_ServerModTime g) \<and>
        (\<forall>z \<in> set zs. fs_ServerModTime z \<le> fs_ServerModTime g))"
  using fsreg.writes_first_newest [of fs "db w" writes k g] assms by (simp add: db_run_upserts accepts_fs_def)

theorem file_states_last_writer_wins_witness:
  "find_file_state (''p1'', ''a'', ''f'') (db (run_upserts [sample_state ''h1'' 9, sample_state ''h2'' 7, sample_state ''h3'' 9] (sample_store sample_db)))
     = Some (sample_state ''h1'' 9)"
proof -
  let ?fs = "[sample_state ''h1'' 9, sample_state ''h2'' 7, sample_state ''h3'' 9]" and ?w = "sample_store sample_db"
  have w: "sqlerr ?w k = None" "f \<in> set ?fs \<Longrightarrow> fs_PairID f \<in> pair_ids (db ?w)" for k f
    by (auto simp: sample_defs pair_ids_def)
  have "(case find_file_state (''p1'', ''a'', ''f'') (db ?w) of None \<Rightarrow> [] | Some r \<Rightarrow> [r]) @ filter (\<lambda>f. fs_key f = (''p1'', ''a'', ''f'')) ?fs =
      [sample_state ''h0'' 5] @ sample_state ''h1'' 9 # [sample_state ''h2'' 7, sample_state ''h3'' 9]"
    by (simp add: sample_defs find_file_state_def fs_key_def)
  from file_states_last_writer_wins [OF w this [symmetric], of "sample_state ''h1'' 9"] show ?thesis
    by (simp only:, intro exI [of _ "[sample_state ''h0'' 5]"] exI [of _ "[sample_state ''h2'' 7, sample_state ''h3'' 9]"])
      (simp add: sample_state_def)
qed

text \<open>
  File states are last-writer-wins registers: for updates of existing pairs with pairwise different
  stamps, the stored row does not depend on the order in which the updates arrive, so a delayed
  or reordered update cannot change the outcome.
\<close>

theorem UpsertFileState_order_independent:
  assumes "\<And>k. sqlerr w k = None" "\<And>f. f \<in> set fs \<Longrightarrow> fs_PairID f \<in> pair_ids (db w)" "mset fs = mset gs"
    and "inj_on fs_ServerModTime (set_option (find_file_state k (db w)) \<union> {x \<in> set fs. fs_key x = k})"
  shows "find_file_state k (db (run_upserts fs w)) = find_file_state k (db (run_upserts gs w))"
  using fsreg.writes_commute [of fs "db w" gs k] assms by (simp add: db_run_upserts accepts_fs_def)

theorem UpsertFileState_order_independent_witness:
  "find_file_state (''p1'', ''a'', ''f'') (db (run_upserts [sample_state ''h1'' 7, sample_state ''h2'' 9] (sample_store sample_db)))
 = find_file_state (''p1'', ''a'', ''f'') (db (run_upserts [sample_state ''h2'' 9, sample_state ''h1'' 7] (sample_store sample_db)))"
  by (rule UpsertFileState_order_independent)
    (auto simp: sample_defs pair_ids_def find_file_state_def fs_key_def intro!: inj_onI)

text \<open>
  A file state never goes back in time: after any updates of existing pairs the row is the old one or
  one of the updates, and no update and no earlier row has a greater stamp.
\<close>

theorem UpsertFileState_newest_wins:
  assumes "\<And>k. sqlerr w k = None" "\<And>f. f \<in> set fs \<Longrightarrow> fs_PairID f \<in> pair_ids (db w)"
    and "f \<in> set fs" "fs_key f = k"
  shows "\<exists>g. find_file_state k (db (run_upserts fs w)) = Some g \<and> fs_ServerModTime f \<le> fs_ServerModTime g
    \<and> (\<forall>h \<in> set_option (find_file_state k (db w)). fs_ServerModTime h \<le> fs_ServerModTime g)
    \<and> g \<in> set_option (find_file_state k (db w)) \<union> {x \<in> set fs. fs_key x = k}"
  using fsreg.writes_winner [of fs "db w" f k] assms by (simp add: db_run_upserts accepts_fs_def)

theorem UpsertFileState_newest_wins_witness:
  "\<exists>g. find_file_state (''p1'', ''a'', ''f'') (db (run_upserts [sample_state ''h1'' 9, sample_state ''h2'' 7] (sample_store sample_db))) = Some g
     \<and> 9 \<le> fs_ServerModTime g"
proof -
  have "\<exists>g. find_file_state (''p1'', ''a'', ''f'') (db (run_upserts [sample_state ''h1'' 9, sample_state ''h2'' 7] (sample_store sample_db))) = Some g
     \<and> fs_ServerModTime (sample_state ''h1'' 9) \<le> fs_ServerModTime g
     \<and> (\<forall>h \<in> set_option (find_file_state (''p1'', ''a'', ''f'') (db (sample_store sample_db))). fs_ServerModTime h \<le> fs_ServerModTime g)
     \<and> g \<in> set_option (find_file_state (''p1'', ''a'', ''f'') (db (sample_store sample_db)))
         \<union> {x \<in> set [sample_state ''h1'' 9, sample_state ''h2'' 7]. fs_key x = (''p1'', ''a'', ''f'')}"
    by (rule UpsertFileState_newest_wins) (auto simp: sample_defs pair_ids_def fs_key_def)
  then show ?thesis by (auto simp: sample_state_def)
qed

text \<open>The display name of a client is guarded by its etag.\<close>

lemma find_client_update:
  assumes "\<And>r. c_ID (f r) = c_ID r"
  shows "find_client cid (snd (update_client_rows P f d)) = map_option (\<lambda>r. if P r then f r else r) (find_client cid d)"
proof -
  have "List.find (\<lambda>r. c_ID r = cid) (map (\<lambda>r. if P r then f r else r) xs)
      = map_option (\<lambda>r. if P r then f r else r) (List.find (\<lambda>r. c_ID r = cid) xs)" for xs
    using assms by (induction xs) auto
  then show ?thesis by (simp add: find_client_def update_client_rows_def)
qed

lemma UpdateClientDisplayName_ok:
  assumes "\<And>k. sqlerr w k = None" "find_client cid (db w) = Some c"
  shows "c_Etag c = e \<Longrightarrow> \<exists>w'. UpdateClientDisplayName cid n e w = (Inr (e + 1), w') \<and>
      find_client cid (db w') = Some (c\<lparr>c_DisplayName := n, c_Etag := e + 1, c_UpdatedAt := clock w (ticks w)\<rparr>)
      \<and> sqlerr w' = sqlerr w"
    and "c_Etag c \<noteq> e \<Longrightarrow> keys_ok (db w) \<Longrightarrow> \<exists>w'. UpdateClientDisplayName cid n e w = (Inl ErrEtagMismatch, w') \<and> db w' = db w"
proof -
  let ?P = "\<lambda>r. c_ID r = cid \<and> c_Etag r = e"
  let ?f = "\<lambda>r. r\<lparr>c_DisplayName := n, c_Etag := c_Etag r + 1, c_UpdatedAt := clock w (ticks w)\<rparr>"
  have c: "c_ID c = cid" "c \<in> set (clients (db w))"
    using assms(2) by (auto simp: find_client_def dest!: find_Some_iff')
  show "\<exists>w'. UpdateClientDisplayName cid n e w = (Inr (e + 1), w') \<and>
      find_client cid (db w') = Some (c\<lparr>c_DisplayName := n, c_Etag := e + 1, c_UpdatedAt := clock w (ticks w)\<rparr>)
      \<and> sqlerr w' = sqlerr w" if "c_Etag c = e"
  proof -
    have "filter ?P (clients (db w)) \<noteq> []" using c that by (auto simp: filter_empty_conv)
    moreover have "find_client cid (snd (update_client_rows ?P ?f (db w))) = Some (?f c)"
      using find_client_update [of ?f cid ?P "db w"] assms(2) c that by simp
    ultimately show ?thesis using assms(1) that
      by (simp add: UpdateClientDisplayName_def Now_def exec_def query_row_def query_def scan_row_def
          update_client_rows_def)
  qed
  show "\<exists>w'. UpdateClientDisplayName cid n e w = (Inl ErrEtagMismatch, w') \<and> db w' = db w"
    if "c_Etag c \<noteq> e" "keys_ok (db w)"
  proof -
    have "r = c" if "r \<in> set (clients (db w))" "c_ID r = cid" for r
      using that c \<open>keys_ok (db w)\<close> by (auto simp: keys_ok_def distinct_map dest: inj_onD)
    then have none: "filter ?P (clients (db w)) = []" using that by (auto simp: filter_empty_conv)
    then have "map (\<lambda>r. if ?P r then ?f r else r) (clients (db w)) = clients (db w)"
      by (intro map_idI) (auto simp: filter_empty_conv)
    with none show ?thesis using assms(1)
      by (simp add: UpdateClientDisplayName_def Now_def exec_def update_client_rows_def)
  qed
qed

text \<open>
  No lost update of a display name: of two editors that read the same etag, the first one's name is
  stored with the next etag, and the second one gets \<open>ErrEtagMismatch\<close> and changes nothing.
\<close>

theorem display_name_no_lost_update:
  assumes "\<And>k. sqlerr w k = None" "wf_db (db w)" "find_client cid (db w) = Some c"
  shows "\<exists>w1 w2. UpdateClientDisplayName cid n1 (c_Etag c) w = (Inr (c_Etag c + 1), w1) \<and>
     UpdateClientDisplayName cid n2 (c_Etag c) w1 = (Inl ErrEtagMismatch, w2) \<and> db w2 = db w1 \<and>
     map_option c_DisplayName (find_client cid (db w2)) = Some n1"
proof -
  obtain w1 where w1: "UpdateClientDisplayName cid n1 (c_Etag c) w = (Inr (c_Etag c + 1), w1)"
    "find_client cid (db w1) = Some (c\<lparr>c_DisplayName := n1, c_Etag := c_Etag c + 1, c_UpdatedAt := clock w (ticks w)\<rparr>)"
    "sqlerr w1 = sqlerr w"
    using UpdateClientDisplayName_ok(1) [OF assms(1,3) refl] by blast
  have "keys_ok (db w1)"
    using wf_UpdateClientDisplayName [OF assms(2), of cid n1 "c_Etag c"] w1(1) by (simp add: wf_db_def)
  moreover have "\<And>k. sqlerr w1 k = None" using assms(1) w1(3) by simp
  ultimately obtain w2 where "UpdateClientDisplayName cid n2 (c_Etag c) w1 = (Inl ErrEtagMismatch, w2)" "db w2 = db w1"
    using UpdateClientDisplayName_ok(2) [OF _ w1(2), of "c_Etag c" n2] by auto
  then show ?thesis using w1 by auto
qed

theorem display_name_no_lost_update_witness:
  "\<exists>w1 w2. UpdateClientDisplayName ''ca'' ''x'' 1 (sample_store sample_db) = (Inr 2, w1) \<and>
     UpdateClientDisplayName ''ca'' ''y'' 1 w1 = (Inl ErrEtagMismatch, w2)"
  using display_name_no_lost_update [OF _ sample_wf, of "''ca''" "sample_client ''ca''" "''x''" "''y''"]
  by (auto simp: sample_defs find_client_def)

text \<open>
  Deleting a client removes what depends on it and nothing else: afterwards the client, every pair
  that named it on either side and the file states and runs of those pairs are gone, and all the
  other clients, pairs, states and runs are still there.
\<close>

theorem DeleteClient_cascade:
  assumes "sqlerr w (stmts w) = None" "DeleteClient cid w = (r, w')"
  shows "r = Inr () \<and> cid \<notin> client_ids (db w') \<and> client_ids (db w') = client_ids (db w) - {cid} \<and>
    set (sync_pairs (db w')) = {p \<in> set (sync_pairs (db w)). p_ClientAID p \<noteq> cid \<and> p_ClientBID p \<noteq> cid} \<and>
    (let dead = {p_ID p | p. p \<in> set (sync_pairs (db w)) \<and> (p_ClientAID p = cid \<or> p_ClientBID p = cid)} in
       set (file_state (db w')) = {f \<in> set (file_state (db w)). fs_PairID f \<notin> dead} \<and>
       set (sync_runs (db w')) = {x \<in> set (sync_runs (db w)). sr_PairID x \<notin> dead})"
proof -
  have w': "r = Inr ()" "db w' = snd (delete_client_sql cid (db w))"
    using assms by (auto simp: DeleteClient_def exec_def delete_client_sql_def)
  show ?thesis
    by (auto simp: w' delete_client_sql_def delete_pairs_where_def client_ids_def Let_def)
qed

theorem DeleteClient_cascade_witness:
  "client_ids (db (snd (DeleteClient ''cb'' (sample_store sample_db)))) = {''ca''} \<and>
   set (sync_pairs (db (snd (DeleteClient ''cb'' (sample_store sample_db))))) = {}"
proof -
  let ?w = "sample_store sample_db"
  have "sqlerr ?w (stmts ?w) = None" by (simp add: sample_store_def)
  note c = DeleteClient_cascade [OF this, of "''cb''", OF prod.collapse [symmetric]]
  have "client_ids (db ?w) - {''cb''} = {''ca''}" by (auto simp: sample_defs client_ids_def)
  moreover have "{p \<in> set (sync_pairs (db ?w)). p_ClientAID p \<noteq> ''cb'' \<and> p_ClientBID p \<noteq> ''cb''} = {}"
    by (simp add: sample_defs)
  ultimately show ?thesis using c by metis
qed

text \<open>
  The server refuses to start on a clock that went back: the check succeeds exactly when the clock
  reading is not before any stored stamp (or there is none), so the stamps it will hand out are
  not older than what the table holds.
\<close>

theorem checkMonotonic_correct:
  assumes "sqlerr w (stmts w) = None"
  shows "(\<exists>w'. checkMonotonic w = (Inr (), w')) \<longleftrightarrow>
     (\<forall>f \<in> set (file_state (db w)). fs_ServerModTime f \<le> clock w (ticks w))"
proof (cases "file_state (db w) = []")
  case True
  then show ?thesis using assms by (simp add: checkMonotonic_def query_def exec_def max_smt_def)
next
  case False
  let ?m = "Max (set (map fs_ServerModTime (file_state (db w))))"
  have m: "?m \<le> clock w (ticks w) \<longleftrightarrow> (\<forall>f \<in> set (file_state (db w)). fs_ServerModTime f \<le> clock w (ticks w))"
    using False by (simp add: Max_le_iff)
  have "(\<exists>w'. checkMonotonic w = (Inr (), w')) \<longleftrightarrow> ?m \<le> clock w (ticks w)"
    using False assms by (auto simp: checkMonotonic_def query_def exec_def max_smt_def Now_def simp del: Max_less_iff Max_le_iff Max_ge_iff Max_gr_iff split: if_splits)
  then show ?thesis unfolding m .
qed

theorem checkMonotonic_correct_witness:
  "\<exists>w'. checkMonotonic (sample_store sample_db) = (Inr (), w')"
  using checkMonotonic_correct [of "sample_store sample_db"] by (simp add: sample_defs)

end
