(* ===== verification/Blobstore.thy ===== *)
theory Blobstore
  imports Store "HOL-Library.Product_Lexorder"
begin

text \<open>
  The content-addressed blob store on the local file system
  (\<open>internal/server/blobstore\<close>: \<open>store.go\<close>, \<open>fs.go\<close>) and its garbage collector
  (\<open>gc.go\<close>).

  A file below \<open>root/blobs\<close> is addressed by its directory and its name. Every call of the
  operating system may fail: \<open>oserr k\<close> is the error of the \<open>k\<close>-th call, if it fails, and
  \<open>short k\<close> the number of bytes a failing copy has written. SHA-256 is an argument \<open>H\<close> from
  contents to digests: what is proved here holds for every hash function. A reader is the bytes it
  delivers and the error it ends with, if any. \<open>Put\<close> and \<open>PutRange\<close> hold a mutex, so one call
  is one step.
\<close>

section \<open>The file system below the root\<close>

type_synonym bpath = "string \<times> string"

record bfile =
  f_data :: "byte list"
  f_mtime :: int

record bstore =
  files :: "(bpath \<times> bfile) list"
  bclock :: "nat \<Rightarrow> int"
  bticks :: nat
  oserr :: "nat \<Rightarrow> string option"
  short :: "nat \<Rightarrow> nat"
  oscalls :: nat

definition os_call :: "bstore \<Rightarrow> unit result \<times> bstore" where
  "os_call w = (case oserr w (oscalls w) of
       Some m \<Rightarrow> (Inl (Opaque m), w\<lparr>oscalls := Suc (oscalls w)\<rparr>)
     | None \<Rightarrow> (Inr (), w\<lparr>oscalls := Suc (oscalls w)\<rparr>))"

definition os_Stat :: "bpath \<Rightarrow> bstore \<Rightarrow> bfile result \<times> bstore" where
  "os_Stat p w = (case os_call w of
       (Inl e, w1) \<Rightarrow> (Inl e, w1)
     | (Inr _, w1) \<Rightarrow> (case map_of (files w1) p of None \<Rightarrow> (Inl ErrNotExist, w1) | Some f \<Rightarrow> (Inr f, w1)))"

definition os_Remove :: "bpath \<Rightarrow> bstore \<Rightarrow> unit result \<times> bstore" where
  "os_Remove p w = (case os_call w of
       (Inl e, w1) \<Rightarrow> (Inl e, w1)
     | (Inr _, w1) \<Rightarrow> (case map_of (files w1) p of
          None \<Rightarrow> (Inl ErrNotExist, w1)
        | Some _ \<Rightarrow> (Inr (), w1\<lparr>files := AList.delete p (files w1)\<rparr>)))"

definition os_Rename :: "bpath \<Rightarrow> bpath \<Rightarrow> bstore \<Rightarrow> unit result \<times> bstore" where
  "os_Rename p q w = (case os_call w of
       (Inl e, w1) \<Rightarrow> (Inl e, w1)
     | (Inr _, w1) \<Rightarrow> (case map_of (files w1) p of
          None \<Rightarrow> (Inl ErrNotExist, w1)
        | Some f \<Rightarrow> (Inr (), w1\<lparr>files := AList.update q f (AList.delete p (files w1))\<rparr>)))"

text \<open>\<open>OpenFile\<close> with \<open>O_CREATE|O_WRONLY\<close>, with and without \<open>O_TRUNC\<close>.\<close>

definition set_file :: "bpath \<Rightarrow> byte list \<Rightarrow> bstore \<Rightarrow> bstore" where
  "set_file p data w = w\<lparr>files := AList.update p \<lparr>f_data = data, f_mtime = bclock w (bticks w)\<rparr> (files w),
     bticks := Suc (bticks w)\<rparr>"

definition os_OpenTrunc :: "bpath \<Rightarrow> bstore \<Rightarrow> unit result \<times> bstore" where
  "os_OpenTrunc p w = (case os_call w of
       (Inl e, w1) \<Rightarrow> (Inl e, w1) | (Inr _, w1) \<Rightarrow> (Inr (), set_file p [] w1))"

definition os_OpenWrite :: "bpath \<Rightarrow> bstore \<Rightarrow> unit result \<times> bstore" where
  "os_OpenWrite p w = (case os_call w of
       (Inl e, w1) \<Rightarrow> (Inl e, w1)
     | (Inr _, w1) \<Rightarrow> (Inr (), if map_of (files w1) p = None then set_file p [] w1 else w1))"

text \<open>Writing at an offset: a gap is filled with zeros; nothing written leaves the file alone.\<close>

definition write_at :: "nat \<Rightarrow> byte list \<Rightarrow> byte list \<Rightarrow> byte list" where
  "write_at off new old = (if new = [] then old else
     take off (old @ replicate (off - length old) 0) @ new @ drop (off + length new) old)"

section \<open>Names\<close>

definition ErrNotFound :: err where "ErrNotFound = Sentinel ''blobstore: not found''"
definition ErrSizeMismatch :: err where "ErrSizeMismatch = Sentinel ''blobstore: size mismatch''"
definition ErrSHAMismatch :: err where "ErrSHAMismatch = Sentinel ''blobstore: sha256 mismatch''"
definition ErrIncomplete :: err where "ErrIncomplete = Sentinel ''blobstore: write incomplete''"
definition ErrInvalidSHA :: err where "ErrInvalidSHA = Sentinel ''blobstore: invalid sha format''"

definition is_hex :: "char \<Rightarrow> bool" where
  "is_hex c \<longleftrightarrow> (CHR ''0'' \<le> c \<and> c \<le> CHR ''9'') \<or> (CHR ''a'' \<le> c \<and> c \<le> CHR ''f'') \<or> (CHR ''A'' \<le> c \<and> c \<le> CHR ''F'')"

definition validateSHA :: "string \<Rightarrow> unit result" where
  "validateSHA sha = (if length sha \<noteq> 64 then Inl ErrInvalidSHA
     else if list_all is_hex sha then Inr () else Inl ErrInvalidSHA)"

definition blob_path :: "string \<Rightarrow> bpath" where
  "blob_path sha = (take 2 sha, sha)"

definition partialPath :: "string \<Rightarrow> bpath" where
  "partialPath sha = (take 2 sha, sha @ ''.partial'')"

definition ensureDir :: "string \<Rightarrow> bstore \<Rightarrow> unit result \<times> bstore" where
  "ensureDir sha = os_call"

section \<open>Operations\<close>

definition copyWithHash ::
  "(byte list \<Rightarrow> byte list) \<Rightarrow> bpath \<Rightarrow> nat \<Rightarrow> reader \<Rightarrow> bstore \<Rightarrow> int \<times> byte list \<times> err option \<times> bstore" where
  "copyWithHash H p off r w = (case os_call w of
       (Inl e, w1) \<Rightarrow>
         (let new = take (short w (oscalls w)) (rd_data r); old = (case map_of (files w1) p of None \<Rightarrow> [] | Some f \<Rightarrow> f_data f)
          in (int (length new), H new, Some e, set_file p (write_at off new old) w1))
     | (Inr _, w1) \<Rightarrow>
         (let old = (case map_of (files w1) p of None \<Rightarrow> [] | Some f \<Rightarrow> f_data f)
          in (int (length (rd_data r)), H (rd_data r), map_option Opaque (rd_err r),
              set_file p (write_at off (rd_data r) old) w1)))"

definition hashFile :: "(byte list \<Rightarrow> byte list) \<Rightarrow> bpath \<Rightarrow> bstore \<Rightarrow> byte list result \<times> bstore" where
  "hashFile H p w = (case os_Stat p w of
       (Inl e, w1) \<Rightarrow> (Inl e, w1)
     | (Inr f, w1) \<Rightarrow> (case os_call w1 of
          (Inl e, w2) \<Rightarrow> (Inl e, w2) | (Inr _, w2) \<Rightarrow> (Inr (H (f_data f)), w2)))"

definition Has :: "string \<Rightarrow> bstore \<Rightarrow> bool result \<times> bstore" where
  "Has sha w = (case validateSHA sha of
       Inl e \<Rightarrow> (Inl e, w)
     | Inr _ \<Rightarrow> (case os_Stat (blob_path sha) w of
          (Inr _, w1) \<Rightarrow> (Inr True, w1)
        | (Inl e, w1) \<Rightarrow> if errors_Is e ErrNotExist then (Inr False, w1) else (Inl (Wrap ''blobstore: stat'' e), w1)))"

definition blob_Stat :: "string \<Rightarrow> bstore \<Rightarrow> (int \<times> int) result \<times> bstore" where
  "blob_Stat sha w = (case validateSHA sha of
       Inl e \<Rightarrow> (Inl e, w)
     | Inr _ \<Rightarrow> (case os_Stat (blob_path sha) w of
          (Inr f, w1) \<Rightarrow> (Inr (int (length (f_data f)), f_mtime f), w1)
        | (Inl e, w1) \<Rightarrow> if errors_Is e ErrNotExist then (Inl ErrNotFound, w1) else (Inl (Wrap ''blobstore: stat'' e), w1)))"

text \<open>The last step of both writers: move the verified file into place, or clean up.\<close>

definition commit_partial :: "string \<Rightarrow> bstore \<Rightarrow> unit result \<times> bstore" where
  "commit_partial sha w = (case os_Rename (partialPath sha) (blob_path sha) w of
       (Inl e, w1) \<Rightarrow> (Inl (Wrap ''blobstore: rename'' e), snd (os_Remove (partialPath sha) w1))
     | (Inr _, w1) \<Rightarrow> (Inr (), w1))"

definition Put :: "(byte list \<Rightarrow> byte list) \<Rightarrow> string \<Rightarrow> reader \<Rightarrow> int \<Rightarrow> bstore \<Rightarrow> unit result \<times> bstore" where
  "Put H sha r expectedSize w = (case validateSHA sha of
       Inl e \<Rightarrow> (Inl e, w)
     | Inr _ \<Rightarrow> (case os_Stat (blob_path sha) w of
       (Inr _, w1) \<Rightarrow> (Inr (), w1)
     | (Inl _, w1) \<Rightarrow> (case ensureDir sha w1 of
       (Inl e, w2) \<Rightarrow> (Inl (Wrap ''blobstore: mkdir'' e), w2)
     | (Inr _, w2) \<Rightarrow> (case os_OpenTrunc (partialPath sha) w2 of
       (Inl e, w3) \<Rightarrow> (Inl (Wrap ''blobstore: open partial'' e), w3)
     | (Inr _, w3) \<Rightarrow> (case copyWithHash H (partialPath sha) 0 r w3 of (written, digest, copyErr, w4) \<Rightarrow>
       (case os_call w4 of (closeErr, w5) \<Rightarrow>
       (case copyErr of Some e \<Rightarrow> (Inl (Wrap ''blobstore: copy'' e), snd (os_Remove (partialPath sha) w5))
     | None \<Rightarrow> (case closeErr of Inl e \<Rightarrow> (Inl (Wrap ''blobstore: close partial'' e), snd (os_Remove (partialPath sha) w5))
     | Inr _ \<Rightarrow>
         if expectedSize > 0 \<and> written \<noteq> expectedSize then (Inl ErrSizeMismatch, snd (os_Remove (partialPath sha) w5))
         else if EncodeToString digest \<noteq> ToLower sha then (Inl ErrSHAMismatch, snd (os_Remove (partialPath sha) w5))
         else commit_partial sha w5))))))))"

definition PutRange :: "(byte list \<Rightarrow> byte list) \<Rightarrow> string \<Rightarrow> int \<Rightarrow> reader \<Rightarrow> int \<Rightarrow> bstore \<Rightarrow> unit result \<times> bstore" where
  "PutRange H sha offset r totalSize w = (case validateSHA sha of
       Inl e \<Rightarrow> (Inl e, w)
     | Inr _ \<Rightarrow> (case ensureDir sha w of
       (Inl e, w1) \<Rightarrow> (Inl (Wrap ''blobstore: mkdir'' e), w1)
     | (Inr _, w1) \<Rightarrow> (case os_OpenWrite (partialPath sha) w1 of
       (Inl e, w2) \<Rightarrow> (Inl (Wrap ''blobstore: open partial'' e), w2)
     | (Inr _, w2) \<Rightarrow> (case (if offset < 0 then (Inl (Opaque ''invalid argument''), w2) else os_call w2) of
       (Inl e, w3) \<Rightarrow> (Inl (Wrap ''blobstore: seek'' e), snd (os_call w3))
     | (Inr _, w3) \<Rightarrow> (case copyWithHash H (partialPath sha) (nat offset) r w3 of (written, _, copyErr, w4) \<Rightarrow>
       (case os_call w4 of (closeErr, w5) \<Rightarrow>
       (case copyErr of Some e \<Rightarrow> (Inl (Wrap ''blobstore: copy'' e), w5)
     | None \<Rightarrow> (case closeErr of Inl e \<Rightarrow> (Inl (Wrap ''blobstore: close partial'' e), w5)
     | Inr _ \<Rightarrow>
         (let currentSize = wrap64 (offset + written) in
          if currentSize < totalSize then (Inl ErrIncomplete, w5)
          else if currentSize \<noteq> totalSize then (Inl ErrSizeMismatch, snd (os_Remove (partialPath sha) w5))
          else (case hashFile H (partialPath sha) w5 of
            (Inl e, w6) \<Rightarrow> (Inl (Wrap ''blobstore: hash partial'' e), w6)
          | (Inr digest, w6) \<Rightarrow>
              if EncodeToString digest \<noteq> ToLower sha then (Inl ErrSHAMismatch, snd (os_Remove (partialPath sha) w6))
              else commit_partial sha w6))))))))))"

definition Get :: "string \<Rightarrow> bstore \<Rightarrow> byte list result \<times> bstore" where
  "Get sha w = (case validateSHA sha of
       Inl e \<Rightarrow> (Inl e, w)
     | Inr _ \<Rightarrow> (case os_Stat (blob_path sha) w of
          (Inr f, w1) \<Rightarrow> (Inr (f_data f), w1)
        | (Inl e, w1) \<Rightarrow> if errors_Is e ErrNotExist then (Inl ErrNotFound, w1) else (Inl (Wrap ''blobstore: open'' e), w1)))"

definition GetRange :: "string \<Rightarrow> int \<Rightarrow> int \<Rightarrow> bstore \<Rightarrow> byte list result \<times> bstore" where
  "GetRange sha offset len w = (case validateSHA sha of
       Inl e \<Rightarrow> (Inl e, w)
     | Inr _ \<Rightarrow> (case os_Stat (blob_path sha) w of
          (Inl e, w1) \<Rightarrow> if errors_Is e ErrNotExist then (Inl ErrNotFound, w1) else (Inl (Wrap ''blobstore: open'' e), w1)
        | (Inr f, w1) \<Rightarrow> (case (if offset < 0 then (Inl (Opaque ''invalid argument''), w1) else os_call w1) of
             (Inl e, w2) \<Rightarrow> (Inl (Wrap ''blobstore: seek'' e), w2)
           | (Inr _, w2) \<Rightarrow>
               if len < 0 then (Inr (drop (nat offset) (f_data f)), w2)
               else (Inr (take (nat len) (drop (nat offset) (f_data f))), w2))))"

definition blob_Delete :: "string \<Rightarrow> bstore \<Rightarrow> unit result \<times> bstore" where
  "blob_Delete sha w = (case validateSHA sha of
       Inl e \<Rightarrow> (Inl e, w)
     | Inr _ \<Rightarrow> (case os_Remove (blob_path sha) w of
          (Inr _, w1) \<Rightarrow> (Inr (), w1)
        | (Inl e, w1) \<Rightarrow> if errors_Is e ErrNotExist then (Inl ErrNotFound, w1) else (Inl (Wrap ''blobstore: remove'' e), w1)))"

record BlobInfo =
  bi_SHA :: string
  bi_Size :: int
  bi_CreatedAt :: int

text \<open>\<open>WalkDir\<close> visits the directories and the files in lexical order.\<close>

definition blob_List :: "bstore \<Rightarrow> BlobInfo list result \<times> bstore" where
  "blob_List w = (case os_call w of
       (Inl e, w1) \<Rightarrow> (Inl (Wrap ''blobstore: walkdir'' e), w1)
     | (Inr _, w1) \<Rightarrow> (Inr (map (\<lambda>(p, f). \<lparr>bi_SHA = snd p, bi_Size = int (length (f_data f)), bi_CreatedAt = f_mtime f\<rparr>)
          (filter (\<lambda>(p, f). \<not> HasSuffix (snd p) ''.partial'') (sort_key fst (files w1)))), w1))"

section \<open>Garbage collection\<close>

text \<open>\<open>ctx k\<close> is the error of the context at the \<open>k\<close>-th iteration, if it is done.\<close>

fun gc_loop :: "(nat \<Rightarrow> err option) \<Rightarrow> nat \<Rightarrow> string set \<Rightarrow> int \<Rightarrow> BlobInfo list \<Rightarrow> nat \<Rightarrow> bstore \<Rightarrow> (nat \<times> err option) \<times> bstore" where
  "gc_loop ctx k refs cutoff [] deleted w = ((deleted, None), w)"
| "gc_loop ctx k refs cutoff (b # bs) deleted w = (case ctx k of
       Some e \<Rightarrow> ((deleted, Some e), w)
     | None \<Rightarrow>
         if bi_SHA b \<in> refs then gc_loop ctx (Suc k) refs cutoff bs deleted w
         else if bi_CreatedAt b > cutoff then gc_loop ctx (Suc k) refs cutoff bs deleted w
         else (case blob_Delete (bi_SHA b) w of
              (Inl _, w1) \<Rightarrow> gc_loop ctx (Suc k) refs cutoff bs deleted w1
            | (Inr _, w1) \<Rightarrow> gc_loop ctx (Suc k) refs cutoff bs (Suc deleted) w1))"

definition GC :: "(nat \<Rightarrow> err option) \<Rightarrow> string set \<Rightarrow> int \<Rightarrow> bstore \<Rightarrow> (nat \<times> err option) \<times> bstore" where
  "GC ctx refs olderThan w =
     (let cutoff = bclock w (bticks w) - olderThan; w0 = w\<lparr>bticks := Suc (bticks w)\<rparr> in
      case blob_List w0 of
        (Inl e, w1) \<Rightarrow> ((0, Some e), w1)
      | (Inr blobs, w1) \<Rightarrow> gc_loop ctx 0 refs cutoff blobs 0 w1)"

definition state_shas :: "FileState list \<Rightarrow> string set" where
  "state_shas fs = set (filter (\<lambda>h. h \<noteq> []) (List.map_filter fs_SHA256 fs))"

lemma mem_state_shas: "h \<in> state_shas fs \<longleftrightarrow> h \<noteq> [] \<and> Some h \<in> fs_SHA256 ` set fs"
  unfolding state_shas_def by (induction fs) (auto split: option.splits)

fun collect_pairs :: "SyncPair list \<Rightarrow> string set \<Rightarrow> 'z st_scheme \<Rightarrow> string set result \<times> 'z st_scheme" where
  "collect_pairs [] refs w = (Inr refs, w)"
| "collect_pairs (p # ps) refs w =
     (case ListFileStates (p_ID p) ''a'' w of
        (Inl e, w1) \<Rightarrow> (Inl e, w1)
      | (Inr as, w1) \<Rightarrow>
     (case ListFileStates (p_ID p) ''b'' w1 of
        (Inl e, w2) \<Rightarrow> (Inl e, w2)
      | (Inr bs, w2) \<Rightarrow> collect_pairs ps (refs \<union> state_shas as \<union> state_shas bs) w2))"

definition collectReferencedSHAs :: "'z st_scheme \<Rightarrow> string set result \<times> 'z st_scheme" where
  "collectReferencedSHAs w = (case ListPairs w of
       (Inl e, w1) \<Rightarrow> (Inl e, w1) | (Inr ps, w1) \<Rightarrow> collect_pairs ps {} w1)"

text \<open>One tick of \<open>RunGCLoop\<close>.\<close>

definition gc_tick :: "(nat \<Rightarrow> err option) \<Rightarrow> int \<Rightarrow> 'z st_scheme \<Rightarrow> bstore \<Rightarrow> 'z st_scheme \<times> bstore" where
  "gc_tick ctx maxAge w b = (case collectReferencedSHAs w of
       (Inl _, w1) \<Rightarrow> (w1, b)
     | (Inr refs, w1) \<Rightarrow> (w1, snd (GC ctx refs maxAge b)))"

section \<open>The abstraction: the finished blobs\<close>

definition is_partial :: "bpath \<Rightarrow> bool" where
  "is_partial p \<longleftrightarrow> HasSuffix (snd p) ''.partial''"

definition blobs :: "bstore \<Rightarrow> bpath \<rightharpoonup> bfile" where
  "blobs w p = (if is_partial p then None else map_of (files w) p)"

lemma valid_not_partial: "validateSHA sha = Inr u \<Longrightarrow> \<not> HasSuffix sha ''.partial''"
proof
  assume v: "validateSHA sha = Inr u" and "HasSuffix sha ''.partial''"
  then obtain xs where "sha = xs @ ''.partial''" by (auto simp: HasSuffix_def suffix_def)
  with v have "is_hex (CHR ''.'')" by (simp add: validateSHA_def split: if_splits)
  then show False by (simp add: is_hex_def less_eq_char_def)
qed

lemma partial_simps [simp]:
  "is_partial (partialPath sha)"
  "validateSHA sha = Inr u \<Longrightarrow> \<not> is_partial (blob_path sha)"
  using valid_not_partial [of sha u] by (auto simp: is_partial_def partialPath_def blob_path_def HasSuffix_def suffix_def)

lemma path_neq: "validateSHA sha = Inr u \<Longrightarrow> blob_path sha \<noteq> partialPath sha"
  by (auto simp: blob_path_def partialPath_def)

lemma os_call_files: "os_call w = (r, w') \<Longrightarrow> files w' = files w"
  by (auto simp: os_call_def split: option.splits)

lemma os_call_blobs: "os_call w = (r, w') \<Longrightarrow> blobs w' = blobs w"
  by (simp add: blobs_def fun_eq_iff os_call_files)

lemma blobs_cong: "files w' = files w \<Longrightarrow> blobs w' = blobs w"
  by (simp add: blobs_def fun_eq_iff)

lemma os_Stat_files: "os_Stat p w = (r, w') \<Longrightarrow> files w' = files w"
  by (auto simp: os_Stat_def split: prod.splits sum.splits option.splits dest: os_call_files)

lemma os_Stat_Inr: "os_Stat p w = (Inr f, w') \<Longrightarrow> map_of (files w) p = Some f"
  by (auto simp: os_Stat_def split: prod.splits sum.splits option.splits dest: os_call_files)

lemma blobs_set_file: "is_partial p \<Longrightarrow> blobs (set_file p d w) = blobs w"
  by (auto simp: blobs_def fun_eq_iff set_file_def update_conv')

lemma os_Remove_blobs: "is_partial p \<Longrightarrow> blobs (snd (os_Remove p w)) = blobs w"
  by (auto simp: os_Remove_def blobs_def fun_eq_iff delete_conv' split: prod.splits sum.splits option.splits
      dest: os_call_files)

lemma os_OpenTrunc_blobs: "is_partial p \<Longrightarrow> os_OpenTrunc p w = (r, w') \<Longrightarrow> blobs w' = blobs w"
  by (auto simp: os_OpenTrunc_def blobs_set_file split: prod.splits sum.splits dest: os_call_blobs)

lemma os_OpenWrite_blobs: "is_partial p \<Longrightarrow> os_OpenWrite p w = (r, w') \<Longrightarrow> blobs w' = blobs w"
  by (auto simp: os_OpenWrite_def blobs_set_file split: prod.splits sum.splits if_splits dest: os_call_blobs)

lemma copyWithHash_blobs: "is_partial p \<Longrightarrow> copyWithHash H p off r w = (n, d, e, w') \<Longrightarrow> blobs w' = blobs w"
  by (auto simp: copyWithHash_def blobs_set_file Let_def split: prod.splits sum.splits dest: os_call_blobs)

lemma hashFile_files: "hashFile H p w = (r, w') \<Longrightarrow> files w' = files w"
  by (auto simp: hashFile_def split: prod.splits sum.splits dest!: os_Stat_files os_call_files)

lemma hashFile_Inr: "hashFile H p w = (Inr d, w') \<Longrightarrow> \<exists>f. map_of (files w) p = Some f \<and> d = H (f_data f)"
  by (auto simp: hashFile_def split: prod.splits sum.splits dest!: os_Stat_Inr)

lemmas blob_frames = os_call_blobs os_Remove_blobs os_OpenTrunc_blobs os_OpenWrite_blobs copyWithHash_blobs

text \<open>Committing moves the partial file into place, or changes no blob.\<close>

lemma commit_partial_blobs:
  assumes "validateSHA sha = Inr u" "commit_partial sha w = (r, w')"
  shows "(isl r \<and> blobs w' = blobs w) \<or>
     (\<exists>f. r = Inr () \<and> map_of (files w) (partialPath sha) = Some f \<and> blobs w' = (blobs w)(blob_path sha \<mapsto> f))"
proof -
  obtain r1 w1 where o1: "os_Rename (partialPath sha) (blob_path sha) w = (r1, w1)" by fastforce
  show ?thesis
  proof (cases r1)
    case (Inl e)
    then have "files w1 = files w"
      using o1 by (auto simp: os_Rename_def split: prod.splits sum.splits option.splits dest: os_call_files)
    then have "blobs w1 = blobs w" by (simp add: blobs_def fun_eq_iff)
    then show ?thesis using Inl assms(2) o1 by (auto simp: commit_partial_def os_Remove_blobs)
  next
    case (Inr x)
    then obtain f where "map_of (files w) (partialPath sha) = Some f"
      "files w1 = AList.update (blob_path sha) f (AList.delete (partialPath sha) (files w))"
      using o1 by (auto simp: os_Rename_def split: prod.splits sum.splits option.splits dest: os_call_files)
    moreover from this have "blobs w1 = (blobs w)(blob_path sha \<mapsto> f)"
      using assms(1) by (auto simp: blobs_def fun_eq_iff update_conv' delete_conv')
    ultimately show ?thesis using Inr assms(2) o1 by (auto simp: commit_partial_def)
  qed
qed

text \<open>
  A writer either changes no blob, or succeeds and stores under the name of the hash a file whose
  contents have that hash.
\<close>

definition stores :: "(byte list \<Rightarrow> byte list) \<Rightarrow> string \<Rightarrow> unit result \<Rightarrow> bstore \<Rightarrow> bstore \<Rightarrow> bool" where
  "stores H sha r w w' \<longleftrightarrow> blobs w' = blobs w \<or>
     (\<exists>f. r = Inr () \<and> validateSHA sha = Inr () \<and> EncodeToString (H (f_data f)) = ToLower sha \<and>
        blobs w' = (blobs w)(blob_path sha \<mapsto> f))"

lemma stores_refl: "stores H sha r w w"
  by (simp add: stores_def)

lemma commit_stores:
  assumes "validateSHA sha = Inr u" "commit_partial sha w = (r, w')" "blobs w = blobs w0"
    and "\<And>f. map_of (files w) (partialPath sha) = Some f \<Longrightarrow> EncodeToString (H (f_data f)) = ToLower sha"
  shows "stores H sha r w0 w'"
  using commit_partial_blobs [OF assms(1,2)] assms(1,3,4) by (auto simp: stores_def)

lemma truncated_copy:
  assumes "os_OpenTrunc p w = (Inr x, w1)" "copyWithHash H p 0 r w1 = (n, d, None, w2)" "map_of (files w2) p = Some f"
  shows "f_data f = rd_data r \<and> d = H (rd_data r)"
proof -
  obtain t where "map_of (files w1) p = Some \<lparr>f_data = [], f_mtime = t\<rparr>"
    using assms(1) by (auto simp: os_OpenTrunc_def set_file_def update_conv' split: prod.splits sum.splits)
  then show ?thesis using assms(2,3)
    by (auto simp: copyWithHash_def set_file_def update_conv' write_at_def Let_def
        split: prod.splits sum.splits if_splits dest!: os_call_files)
qed

lemma Put_stores: "Put H sha r n w = (res, w') \<Longrightarrow> stores H sha res w w'"
proof (cases "validateSHA sha")
  case (Inl e)
  assume "Put H sha r n w = (res, w')"
  then show ?thesis using Inl by (simp add: Put_def stores_refl)
next
  case (Inr u)
  assume put: "Put H sha r n w = (res, w')"
  let ?p = "partialPath sha"
  obtain r1 w1 where 1: "os_Stat (blob_path sha) w = (r1, w1)" by fastforce
  obtain r2 w2 where 2: "ensureDir sha w1 = (r2, w2)" by fastforce
  obtain r3 w3 where 3: "os_OpenTrunc ?p w2 = (r3, w3)" by fastforce
  obtain n4 d4 e4 w4 where 4: "copyWithHash H ?p 0 r w3 = (n4, d4, e4, w4)" by (metis prod_cases4)
  obtain r5 w5 where 5: "os_call w4 = (r5, w5)" by fastforce
  have b1: "blobs w1 = blobs w" using os_Stat_files [OF 1] by (simp add: blobs_def fun_eq_iff)
  then have b2: "blobs w2 = blobs w" using 2 by (simp add: ensureDir_def os_call_blobs)
  then have b3: "blobs w3 = blobs w" using os_OpenTrunc_blobs [OF _ 3] by simp
  then have b4: "blobs w4 = blobs w" using copyWithHash_blobs [OF _ 4] by simp
  then have b5: "blobs w5 = blobs w" using os_call_blobs [OF 5] by simp
  have f5: "EncodeToString (H (f_data f)) = EncodeToString d4"
    if "r3 = Inr x" "e4 = None" "map_of (files w5) ?p = Some f" for f x
    using truncated_copy [of ?p w2 x w3 H r n4 d4 w4 f] 3 4 os_call_files [OF 5] that by simp
  show ?thesis
  proof (cases "r1 = Inr (projr r1) \<or> r2 = Inl (projl r2) \<or> r3 = Inl (projl r3)")
    case True
    then show ?thesis using put Inr 1 2 3 b1 b2 b3
      by (cases r1; cases r2; cases r3) (auto simp: Put_def stores_def)
  next
    case False
    then obtain x1 x2 x3 where r: "r1 = Inl x1" "r2 = Inr x2" "r3 = Inr x3" by (cases r1; cases r2; cases r3) auto
    have rest: "(case e4 of Some e \<Rightarrow> (Inl (Wrap ''blobstore: copy'' e), snd (os_Remove ?p w5))
       | None \<Rightarrow> (case r5 of Inl e \<Rightarrow> (Inl (Wrap ''blobstore: close partial'' e), snd (os_Remove ?p w5))
       | Inr _ \<Rightarrow> if n > 0 \<and> n4 \<noteq> n then (Inl ErrSizeMismatch, snd (os_Remove ?p w5))
           else if EncodeToString d4 \<noteq> ToLower sha then (Inl ErrSHAMismatch, snd (os_Remove ?p w5))
           else commit_partial sha w5)) = (res, w')"
      using put Inr 1 2 3 4 5 r by (simp add: Put_def)
    have "commit_partial sha w5 = (res, w') \<and> EncodeToString d4 = ToLower sha \<and> e4 = None \<or> blobs w' = blobs w"
      using rest b5 os_Remove_blobs [of ?p w5] by (auto split: option.splits sum.splits if_splits)
    then show ?thesis
    proof
      assume c: "commit_partial sha w5 = (res, w') \<and> EncodeToString d4 = ToLower sha \<and> e4 = None"
      then show ?thesis using commit_stores [OF Inr _ b5, of res w' H] f5 [OF r(3)] by auto
    qed (simp add: stores_def)
  qed
qed

lemma copyWithHash_all: "copyWithHash H p off r w = (n, d, None, w') \<Longrightarrow> n = int (length (rd_data r))"
  by (auto simp: copyWithHash_def Let_def split: prod.splits sum.splits)

text \<open>A \<open>Put\<close> that succeeds for a new name has stored all of the body, which has the announced length.\<close>

lemma Put_exact:
  assumes "Put H sha r n w = (Inr (), w')" "map_of (files w) (blob_path sha) = None"
  shows "\<exists>f. blobs w' (blob_path sha) = Some f \<and> f_data f = rd_data r \<and> EncodeToString (H (rd_data r)) = ToLower sha \<and>
    (n > 0 \<longrightarrow> int (length (rd_data r)) = n)"
proof -
  let ?p = "partialPath sha"
  obtain u where v: "validateSHA sha = Inr u" using assms(1) by (cases "validateSHA sha") (simp_all add: Put_def)
  obtain r1 w1 where 1: "os_Stat (blob_path sha) w = (r1, w1)" by fastforce
  obtain r2 w2 where 2: "ensureDir sha w1 = (r2, w2)" by fastforce
  obtain r3 w3 where 3: "os_OpenTrunc ?p w2 = (r3, w3)" by fastforce
  obtain n4 d4 e4 w4 where 4: "copyWithHash H ?p 0 r w3 = (n4, d4, e4, w4)" by (metis prod_cases4)
  obtain r5 w5 where 5: "os_call w4 = (r5, w5)" by fastforce
  obtain x1 where "r1 = Inl x1" using os_Stat_Inr [of "blob_path sha" w _ w1] 1 assms(2) by (cases r1) auto
  then obtain x2 x3 where r: "r1 = Inl x1" "r2 = Inr x2" "r3 = Inr x3"
    using assms(1) v 1 2 3 by (cases r2; cases r3) (auto simp: Put_def)
  have "(case e4 of Some e \<Rightarrow> (Inl (Wrap ''blobstore: copy'' e), snd (os_Remove ?p w5))
     | None \<Rightarrow> (case r5 of Inl e \<Rightarrow> (Inl (Wrap ''blobstore: close partial'' e), snd (os_Remove ?p w5))
     | Inr _ \<Rightarrow> if n > 0 \<and> n4 \<noteq> n then (Inl ErrSizeMismatch, snd (os_Remove ?p w5))
         else if EncodeToString d4 \<noteq> ToLower sha then (Inl ErrSHAMismatch, snd (os_Remove ?p w5))
         else commit_partial sha w5)) = (Inr (), w')"
    using assms(1) v 1 2 3 4 5 r by (simp add: Put_def)
  then have c: "e4 = None" "n > 0 \<longrightarrow> n4 = n" "EncodeToString d4 = ToLower sha" "commit_partial sha w5 = (Inr (), w')"
    by (auto split: option.splits sum.splits if_splits)
  obtain f where f: "map_of (files w5) ?p = Some f" "blobs w' = (blobs w5)(blob_path sha \<mapsto> f)"
    using commit_partial_blobs [OF v c(4)] by auto
  have "f_data f = rd_data r \<and> d4 = H (rd_data r)"
    using truncated_copy [of ?p w2 x3 w3 H r n4 d4 w4 f] 3 4 os_call_files [OF 5] r(3) c(1) f(1) by simp
  then show ?thesis using f(2) c(2,3) copyWithHash_all [OF 4 [unfolded c(1)]] by auto
qed

lemma PutRange_stores: "PutRange H sha offset r tsize w = (res, w') \<Longrightarrow> stores H sha res w w'"
proof (cases "validateSHA sha")
  case (Inl e)
  assume "PutRange H sha offset r tsize w = (res, w')"
  then show ?thesis using Inl by (simp add: PutRange_def stores_refl)
next
  case (Inr u)
  assume put: "PutRange H sha offset r tsize w = (res, w')"
  let ?p = "partialPath sha"
  obtain r1 w1 where 1: "ensureDir sha w = (r1, w1)" by fastforce
  obtain r2 w2 where 2: "os_OpenWrite ?p w1 = (r2, w2)" by fastforce
  obtain r3 w3 where 3: "(if offset < 0 then (Inl (Opaque ''invalid argument''), w2) else os_call w2) = (r3, w3)" by fastforce
  obtain n4 d4 e4 w4 where 4: "copyWithHash H ?p (nat offset) r w3 = (n4, d4, e4, w4)" by (metis prod_cases4)
  obtain r5 w5 where 5: "os_call w4 = (r5, w5)" by fastforce
  obtain r6 w6 where 6: "hashFile H ?p w5 = (r6, w6)" by fastforce
  have b1: "blobs w1 = blobs w" using 1 by (simp add: ensureDir_def os_call_blobs)
  then have b2: "blobs w2 = blobs w" using os_OpenWrite_blobs [OF _ 2] by simp
  then have b3: "blobs w3 = blobs w" using 3 os_call_blobs by (auto split: if_splits)
  then have b4: "blobs w4 = blobs w" using copyWithHash_blobs [OF _ 4] by simp
  then have b5: "blobs w5 = blobs w" using os_call_blobs [OF 5] by simp
  then have b6: "blobs w6 = blobs w" using blobs_cong [OF hashFile_files [OF 6]] by simp
  show ?thesis
  proof (cases "r1 = Inl (projl r1) \<or> r2 = Inl (projl r2) \<or> r3 = Inl (projl r3)")
    case True
    have "blobs (snd (os_call w3)) = blobs w" using b3 os_call_blobs [of w3] by (cases "os_call w3") simp
    then show ?thesis using True put Inr 1 2 3 b1 b2 by (cases r1; cases r2; cases r3) (auto simp: PutRange_def stores_def)
  next
    case False
    then obtain x1 x2 x3 where r: "r1 = Inr x1" "r2 = Inr x2" "r3 = Inr x3" by (cases r1; cases r2; cases r3) auto
    have rest: "(case e4 of Some e \<Rightarrow> (Inl (Wrap ''blobstore: copy'' e), w5)
     | None \<Rightarrow> (case r5 of Inl e \<Rightarrow> (Inl (Wrap ''blobstore: close partial'' e), w5)
     | Inr _ \<Rightarrow>
         if wrap64 (offset + n4) < tsize then (Inl ErrIncomplete, w5)
         else if wrap64 (offset + n4) \<noteq> tsize then (Inl ErrSizeMismatch, snd (os_Remove ?p w5))
         else (case r6 of Inl e \<Rightarrow> (Inl (Wrap ''blobstore: hash partial'' e), w6)
          | Inr digest \<Rightarrow> if EncodeToString digest \<noteq> ToLower sha then (Inl ErrSHAMismatch, snd (os_Remove ?p w6))
              else commit_partial sha w6))) = (res, w')"
      using put [unfolded PutRange_def Inr 1 sum.case prod.case r]
      by (simp only: 2 3 4 5 6 r sum.case prod.case Let_def)
    have "(\<exists>d. r6 = Inr d \<and> commit_partial sha w6 = (res, w') \<and> EncodeToString d = ToLower sha) \<or> blobs w' = blobs w"
      using rest b5 b6 os_Remove_blobs [of ?p w5] os_Remove_blobs [of ?p w6]
      by (auto split: option.splits sum.splits if_splits)
    then show ?thesis
    proof
      assume "\<exists>d. r6 = Inr d \<and> commit_partial sha w6 = (res, w') \<and> EncodeToString d = ToLower sha"
      then obtain d where d: "r6 = Inr d" "commit_partial sha w6 = (res, w')" "EncodeToString d = ToLower sha" by blast
      have "EncodeToString (H (f_data f)) = ToLower sha" if "map_of (files w6) ?p = Some f" for f
        using hashFile_Inr [of H ?p w5 d w6] 6 d hashFile_files [OF 6] that by auto
      then show ?thesis using commit_stores [OF Inr d(2) b6] by blast
    qed (simp add: stores_def)
  qed
qed

section \<open>Integrity\<close>

definition blob_ok :: "(byte list \<Rightarrow> byte list) \<Rightarrow> bstore \<Rightarrow> bool" where
  "blob_ok H w \<longleftrightarrow> (\<forall>p f. blobs w p = Some f \<longrightarrow> validateSHA (snd p) = Inr () \<and> p = blob_path (snd p) \<and>
     EncodeToString (H (f_data f)) = ToLower (snd p))"

datatype blob_op = BPut string reader int | BPutRange string int reader int | BDelete string | BGC "nat \<Rightarrow> err option" "string set" int

fun blob_step :: "(byte list \<Rightarrow> byte list) \<Rightarrow> blob_op \<Rightarrow> bstore \<Rightarrow> bstore" where
  "blob_step H (BPut sha r n) w = snd (Put H sha r n w)"
| "blob_step H (BPutRange sha off r n) w = snd (PutRange H sha off r n w)"
| "blob_step H (BDelete sha) w = snd (blob_Delete sha w)"
| "blob_step H (BGC ctx refs age) w = snd (GC ctx refs age w)"

lemma stores_blob_ok: "stores H sha r w w' \<Longrightarrow> blob_ok H w \<Longrightarrow> blob_ok H w'"
  by (auto simp: stores_def blob_ok_def blob_path_def split: if_splits)

text \<open>Deletions only remove.\<close>

lemma blob_Delete_blobs: "blob_Delete sha w = (r, w') \<Longrightarrow> blobs w' = blobs w \<or> (r = Inr () \<and> blobs w' = (blobs w)(blob_path sha := None))"
  by (auto simp: blob_Delete_def os_Remove_def blobs_def fun_eq_iff delete_conv'
      split: sum.splits prod.splits option.splits if_splits dest!: os_call_files)

lemma gc_loop_blobs: "gc_loop ctx k refs cutoff bs n w = (r, w') \<Longrightarrow> blobs w' \<subseteq>\<^sub>m blobs w"
proof (induction ctx k refs cutoff bs n w rule: gc_loop.induct)
  case (2 ctx k refs cutoff b bs n w)
  obtain r1 w1 where d: "blob_Delete (bi_SHA b) w = (r1, w1)" by fastforce
  then have "blobs w1 \<subseteq>\<^sub>m blobs w" using blob_Delete_blobs by (fastforce simp: map_le_def)
  with 2 d show ?case by (auto split: option.splits if_splits sum.splits intro: map_le_trans)
qed simp

lemma GC_blobs: "GC ctx refs age w = (r, w') \<Longrightarrow> blobs w' \<subseteq>\<^sub>m blobs w"
proof -
  assume gc: "GC ctx refs age w = (r, w')"
  obtain x w1 where l: "blob_List (w\<lparr>bticks := Suc (bticks w)\<rparr>) = (x, w1)" by fastforce
  then have "blobs w1 = blobs w"
    by (auto simp: blob_List_def blobs_def fun_eq_iff split: prod.splits sum.splits dest!: os_call_files)
  then show ?thesis using gc l by (auto simp: GC_def Let_def split: sum.splits dest: gc_loop_blobs)
qed

lemma blob_ok_mono: "blobs w' \<subseteq>\<^sub>m blobs w \<Longrightarrow> blob_ok H w \<Longrightarrow> blob_ok H w'"
proof -
  assume le: "blobs w' \<subseteq>\<^sub>m blobs w" and ok: "blob_ok H w"
  have "blobs w p = Some f" if "blobs w' p = Some f" for p f
    using le that by (metis domI map_le_def)
  then show ?thesis using ok unfolding blob_ok_def by blast
qed

lemma blob_ok_step: "blob_ok H w \<Longrightarrow> blob_ok H (blob_step H x w)"
proof (cases x)
  case (BPut sha r n)
  then show "blob_ok H w \<Longrightarrow> ?thesis" using stores_blob_ok [OF Put_stores [OF prod.collapse [symmetric]]] by simp
next
  case (BPutRange sha off r n)
  then show "blob_ok H w \<Longrightarrow> ?thesis" using stores_blob_ok [OF PutRange_stores [OF prod.collapse [symmetric]]] by simp
next
  case (BDelete sha)
  have "blobs (snd (blob_Delete sha w)) \<subseteq>\<^sub>m blobs w"
    using blob_Delete_blobs [OF prod.collapse [symmetric], of sha w] by (auto simp: map_le_def split: if_splits)
  then show "blob_ok H w \<Longrightarrow> ?thesis" using BDelete blob_ok_mono by simp
next
  case (BGC ctx refs age)
  then show "blob_ok H w \<Longrightarrow> ?thesis" using blob_ok_mono [OF GC_blobs [OF prod.collapse [symmetric]]] by simp
qed

lemma blob_ok_run: "blob_ok H w \<Longrightarrow> blob_ok H (fold (blob_step H) xs w)"
  by (induction xs arbitrary: w) (auto intro: blob_ok_step)

section \<open>What the blob store promises\<close>

definition empty_store :: "bstore" where
  "empty_store = \<lparr>files = [], bclock = int, bticks = 0, oserr = (\<lambda>_. None), short = (\<lambda>_. 0), oscalls = 0\<rparr>"

lemma Get_Inr: "Get sha w = (Inr d, w') \<Longrightarrow> validateSHA sha = Inr () \<and> (\<exists>f. blobs w (blob_path sha) = Some f \<and> f_data f = d)"
  using partial_simps(2) [of sha]
  by (auto simp: Get_def blobs_def split: sum.splits prod.splits if_splits dest!: os_Stat_Inr)

text \<open>
  C22. The store never serves corrupt data: starting from an empty directory, after any sequence of
  complete and partial uploads, deletions and collections, with any calls of the operating system
  failing and any copies cut short, whatever \<open>Get\<close> returns for a hash has that hash.
\<close>

theorem blob_integrity:
  assumes "files w = []" "Get sha (fold (blob_step H) ops w) = (Inr data, w')"
  shows "EncodeToString (H data) = ToLower sha"
proof -
  have "blob_ok H w" using assms(1) by (simp add: blob_ok_def blobs_def)
  then have "blob_ok H (fold (blob_step H) ops w)" by (rule blob_ok_run)
  then show ?thesis using Get_Inr [OF assms(2)] by (auto simp: blob_ok_def blob_path_def)
qed

text \<open>A file system that does not fail.\<close>

definition os_ok :: "bstore \<Rightarrow> bool" where
  "os_ok w \<longleftrightarrow> (\<forall>k. oserr w k = None)"

lemma os_call_ok: "os_ok w \<Longrightarrow> os_call w = (Inr (), w\<lparr>oscalls := Suc (oscalls w)\<rparr>)"
  by (simp add: os_call_def os_ok_def)

lemma os_ok_simps [simp]:
  "os_ok (w\<lparr>oscalls := n\<rparr>) = os_ok w" "os_ok (w\<lparr>files := fs\<rparr>) = os_ok w" "os_ok (set_file p d w) = os_ok w"
  by (simp_all add: os_ok_def set_file_def)

lemma files_set_file [simp]: "map_of (files (set_file p d w)) = (map_of (files w))(p \<mapsto> \<lparr>f_data = d, f_mtime = bclock w (bticks w)\<rparr>)"
  by (simp add: set_file_def update_conv')

lemma commit_ok:
  assumes "os_ok w" "map_of (files w) (partialPath sha) = Some f"
  shows "\<exists>w'. commit_partial sha w = (Inr (), w') \<and> os_ok w' \<and>
    map_of (files w') = (map_of (files w))(partialPath sha := None, blob_path sha \<mapsto> f)"
  using assms by (simp add: commit_partial_def os_Rename_def os_call_ok update_conv' delete_conv')

lemma Put_ok:
  assumes "os_ok w" "validateSHA sha = Inr ()" "map_of (files w) (blob_path sha) = None"
    and "rd_err r = None" "EncodeToString (H (rd_data r)) = ToLower sha" "n > 0 \<longrightarrow> n = int (length (rd_data r))"
  shows "\<exists>w' f. Put H sha r n w = (Inr (), w') \<and> os_ok w' \<and> f_data f = rd_data r \<and>
     map_of (files w') = (map_of (files w))(partialPath sha := None, blob_path sha \<mapsto> f)"
proof -
  let ?p = "partialPath sha"
  define w3 where "w3 = set_file ?p [] (w\<lparr>oscalls := Suc (Suc (Suc (oscalls w)))\<rparr>)"
  define w5 where "w5 = (set_file ?p (rd_data r) (w3\<lparr>oscalls := Suc (oscalls w3)\<rparr>))\<lparr>oscalls := Suc (Suc (oscalls w3))\<rparr>"
  have 3: "os_ok w3" "map_of (files w3) = (map_of (files w))(?p \<mapsto> \<lparr>f_data = [], f_mtime = bclock w (bticks w)\<rparr>)"
    using assms(1) by (simp_all add: w3_def)
  have put: "Put H sha r n w = commit_partial sha w5"
    using assms 3 path_neq [OF assms(2)]
    by (simp add: Put_def os_Stat_def os_call_ok ensureDir_def os_OpenTrunc_def copyWithHash_def
        w3_def [symmetric] write_at_def Let_def w5_def cong: if_cong)
       (auto simp: w3_def set_file_def os_call_def os_ok_def)
  have "os_ok w5" "map_of (files w5) = (map_of (files w))(?p \<mapsto> \<lparr>f_data = rd_data r, f_mtime = bclock w3 (bticks w3)\<rparr>)"
    using 3 by (auto simp: w5_def)
  from commit_ok [OF this(1), of sha "\<lparr>f_data = rd_data r, f_mtime = bclock w3 (bticks w3)\<rparr>"] this(2)
  obtain w' where "commit_partial sha w5 = (Inr (), w')" "os_ok w'"
    "map_of (files w') = (map_of (files w))(?p := None, blob_path sha \<mapsto> \<lparr>f_data = rd_data r, f_mtime = bclock w3 (bticks w3)\<rparr>)"
    by auto
  then show ?thesis unfolding put by (metis bfile.select_convs(1))
qed

lemma Get_ok:
  "os_ok w \<Longrightarrow> validateSHA sha = Inr () \<Longrightarrow> map_of (files w) (blob_path sha) = Some f \<Longrightarrow> \<exists>w'. Get sha w = (Inr (f_data f), w')"
  by (simp add: Get_def os_Stat_def os_call_ok)

text \<open>
  An uploaded blob can be read back: on a working file system, uploading contents under their hash
  succeeds, and \<open>Get\<close> then returns these contents; uploading it again, with any contents, changes
  nothing.
\<close>

theorem Put_Get:
  assumes "os_ok w" "validateSHA sha = Inr ()" "map_of (files w) (blob_path sha) = None"
    and "rd_err r = None" "EncodeToString (H (rd_data r)) = ToLower sha" "n > 0 \<longrightarrow> n = int (length (rd_data r))"
  shows "\<exists>w1 w2 w3. Put H sha r n w = (Inr (), w1) \<and> Get sha w1 = (Inr (rd_data r), w2) \<and>
     Put H sha r' n' w1 = (Inr (), w3) \<and> files w3 = files w1"
proof -
  obtain w1 f where w1: "Put H sha r n w = (Inr (), w1)" "os_ok w1" "f_data f = rd_data r"
    "map_of (files w1) = (map_of (files w))(partialPath sha := None, blob_path sha \<mapsto> f)"
    using Put_ok [of w sha r H n, OF assms] by blast
  have "map_of (files w1) (blob_path sha) = Some f" using w1(4) by simp
  moreover from this obtain w3 where "Put H sha r' n' w1 = (Inr (), w3)" "files w3 = files w1"
    using w1(2) assms(2) by (auto simp: Put_def os_Stat_def os_call_ok)
  ultimately show ?thesis using w1 Get_ok [OF w1(2) assms(2)] by metis
qed

definition toy_hash :: "byte list \<Rightarrow> byte list" where
  "toy_hash xs = replicate 31 0 @ [of_nat (length xs)]"

definition toy_sha :: "nat \<Rightarrow> string" where
  "toy_sha n = EncodeToString (toy_hash (replicate n 0))"

lemma toy_sha_3: "toy_sha 3 = replicate 63 (CHR ''0'') @ ''3''"
  by code_simp

lemma toy_valid: "validateSHA (toy_sha 3) = Inr ()" "ToLower (toy_sha 3) = toy_sha 3"
  by code_simp+

lemma toy_hash_3: "EncodeToString (toy_hash [a, b, c]) = toy_sha 3"
  by (simp add: toy_sha_def toy_hash_def)

theorem Put_Get_witness:
  "\<exists>w1 w2. Put toy_hash (toy_sha 3) \<lparr>rd_data = [1, 2, 3], rd_err = None\<rparr> 3 empty_store = (Inr (), w1) \<and>
     Get (toy_sha 3) w1 = (Inr [1, 2, 3], w2)"
proof -
  have "os_ok empty_store" "map_of (files empty_store) (blob_path (toy_sha 3)) = None"
    by (simp_all add: os_ok_def empty_store_def)
  from Put_Get [OF this(1) toy_valid(1) this(2), of "\<lparr>rd_data = [1, 2, 3], rd_err = None\<rparr>" toy_hash 3
      "\<lparr>rd_data = [], rd_err = None\<rparr>" 0]
  show ?thesis by (auto simp: toy_hash_3 toy_valid(2))
qed

theorem blob_integrity_witness:
  "\<exists>w'. Get (toy_sha 3) (fold (blob_step toy_hash) [BPut (toy_sha 3) \<lparr>rd_data = [1, 2, 3], rd_err = None\<rparr> 3] empty_store)
       = (Inr [1, 2, 3], w') \<and> EncodeToString (toy_hash [1, 2, 3]) = ToLower (toy_sha 3)"
proof -
  have "os_ok empty_store" "map_of (files empty_store) (blob_path (toy_sha 3)) = None"
    by (simp_all add: os_ok_def empty_store_def)
  from Put_ok [OF this(1) toy_valid(1) this(2), of "\<lparr>rd_data = [1, 2, 3], rd_err = None\<rparr>" toy_hash 3]
  obtain w1 f where w1: "Put toy_hash (toy_sha 3) \<lparr>rd_data = [1, 2, 3], rd_err = None\<rparr> 3 empty_store = (Inr (), w1)"
    "os_ok w1" "f_data f = [1, 2, 3]" "map_of (files w1) (blob_path (toy_sha 3)) = Some f"
    by (auto simp: toy_hash_3 toy_valid(2))
  then obtain w' where g: "Get (toy_sha 3) (fold (blob_step toy_hash) [BPut (toy_sha 3) \<lparr>rd_data = [1, 2, 3], rd_err = None\<rparr> 3] empty_store)
       = (Inr [1, 2, 3], w')"
    using Get_ok [OF w1(2) toy_valid(1) w1(4)] by auto
  have "files empty_store = []" by (simp add: empty_store_def)
  from blob_integrity [OF this g] g show ?thesis by blast
qed

text \<open>
  A failed upload is harmless: when \<open>Put\<close> or \<open>PutRange\<close> reports any error (a wrong size or hash,
  an incomplete range, a failing call), every finished blob is what it was before.
\<close>

theorem failed_upload_harmless:
  assumes "Put H sha r n w = (Inl e, w1)" "PutRange H sha' off r' n' w = (Inl e', w2)"
  shows "blobs w1 = blobs w \<and> blobs w2 = blobs w"
  using Put_stores [OF assms(1)] PutRange_stores [OF assms(2)] by (simp add: stores_def)

theorem failed_upload_harmless_witness:
  "blobs (snd (Put toy_hash ''zz'' \<lparr>rd_data = [1], rd_err = None\<rparr> 1 empty_store)) = blobs empty_store \<and>
   blobs (snd (PutRange toy_hash ''zz'' 0 \<lparr>rd_data = [1], rd_err = None\<rparr> 2 empty_store)) = blobs empty_store"
proof -
  have "Put toy_hash ''zz'' \<lparr>rd_data = [1], rd_err = None\<rparr> 1 empty_store = (Inl ErrInvalidSHA, empty_store)"
    "PutRange toy_hash ''zz'' 0 \<lparr>rd_data = [1], rd_err = None\<rparr> 2 empty_store = (Inl ErrInvalidSHA, empty_store)"
    by (simp_all add: Put_def PutRange_def validateSHA_def)
  from failed_upload_harmless [OF this] this show ?thesis by simp
qed

section \<open>Resumable uploads\<close>

definition partial_data :: "string \<Rightarrow> bstore \<Rightarrow> byte list" where
  "partial_data sha w = (case map_of (files w) (partialPath sha) of None \<Rightarrow> [] | Some f \<Rightarrow> f_data f)"

lemma write_at_end: "write_at (length old) new old = old @ new"
  by (simp add: write_at_def)

text \<open>One range that continues the partial file: the state in which its size and hash are checked.\<close>

lemma PutRange_append:
  assumes "os_ok w" "validateSHA sha = Inr ()" "rd_err r = None"
    and "is64 (int (length (partial_data sha w)) + int (length (rd_data r)))"
  shows "\<exists>w5 f. os_ok w5 \<and> f_data f = partial_data sha w @ rd_data r \<and>
     map_of (files w5) = (map_of (files w))(partialPath sha \<mapsto> f) \<and>
     PutRange H sha (int (length (partial_data sha w))) r tsize w =
       (if int (length (f_data f)) < tsize then (Inl ErrIncomplete, w5)
        else if int (length (f_data f)) \<noteq> tsize then (Inl ErrSizeMismatch, snd (os_Remove (partialPath sha) w5))
        else (case hashFile H (partialPath sha) w5 of
            (Inl e, w6) \<Rightarrow> (Inl (Wrap ''blobstore: hash partial'' e), w6)
          | (Inr digest, w6) \<Rightarrow>
              if EncodeToString digest \<noteq> ToLower sha then (Inl ErrSHAMismatch, snd (os_Remove (partialPath sha) w6))
              else commit_partial sha w6))"
proof -
  let ?p = "partialPath sha" and ?old = "partial_data sha w"
  obtain w2 where w2: "os_OpenWrite ?p (w\<lparr>oscalls := Suc (oscalls w)\<rparr>) = (Inr (), w2)" "os_ok w2"
    "map_of (files w2) = (map_of (files w))(?p \<mapsto> the (map_of (files w2) ?p))"
    "partial_data sha w2 = ?old" "map_of (files w2) ?p \<noteq> None"
    using assms(1) by (cases "map_of (files w) ?p") (auto simp: os_OpenWrite_def os_call_ok partial_data_def fun_eq_iff)
  define w4 where "w4 = set_file ?p (?old @ rd_data r) (w2\<lparr>oscalls := Suc (Suc (oscalls w2))\<rparr>)"
  define f where "f = \<lparr>f_data = ?old @ rd_data r, f_mtime = bclock w2 (bticks w2)\<rparr>"
  have c: "copyWithHash H ?p (length ?old) r (w2\<lparr>oscalls := Suc (oscalls w2)\<rparr>) =
      (int (length (rd_data r)), H (rd_data r), None, w4)"
    using w2(2,4,5) assms(3) by (auto simp: copyWithHash_def os_call_ok Let_def w4_def write_at_end partial_data_def split: option.splits)
  have ok4: "os_ok w4" using w2(2) by (simp add: w4_def)
  let ?w5 = "w4\<lparr>oscalls := Suc (oscalls w4)\<rparr>"
  have m: "map_of (files ?w5) = (map_of (files w))(?p \<mapsto> f)"
    unfolding w4_def using w2(3) by (simp add: f_def fun_eq_iff)
  have sz: "wrap64 (int (length ?old) + int (length (rd_data r))) = int (length (f_data f))"
    using assms(4) by (simp add: wrap64_id f_def)
  have "PutRange H sha (int (length ?old)) r tsize w =
       (if int (length (f_data f)) < tsize then (Inl ErrIncomplete, ?w5)
        else if int (length (f_data f)) \<noteq> tsize then (Inl ErrSizeMismatch, snd (os_Remove ?p ?w5))
        else (case hashFile H ?p ?w5 of
            (Inl e, w6) \<Rightarrow> (Inl (Wrap ''blobstore: hash partial'' e), w6)
          | (Inr digest, w6) \<Rightarrow>
              if EncodeToString digest \<noteq> ToLower sha then (Inl ErrSHAMismatch, snd (os_Remove ?p w6))
              else commit_partial sha w6))"
    unfolding PutRange_def assms(2) sum.case prod.case ensureDir_def os_call_ok [OF assms(1)] w2(1) os_call_ok [OF w2(2)]
    using c sz by (simp add: os_call_ok [OF ok4] Let_def)
  moreover have "os_ok ?w5" "f_data f = ?old @ rd_data r" using ok4 by (simp_all add: f_def)
  ultimately show ?thesis using m by blast
qed

fun put_chunks :: "(byte list \<Rightarrow> byte list) \<Rightarrow> string \<Rightarrow> int \<Rightarrow> int \<Rightarrow> byte list list \<Rightarrow> bstore \<Rightarrow> unit result list \<times> bstore" where
  "put_chunks H sha tsize off [] w = ([], w)"
| "put_chunks H sha tsize off (c # cs) w =
     (case PutRange H sha off \<lparr>rd_data = c, rd_err = None\<rparr> tsize w of (r, w1) \<Rightarrow>
     (case put_chunks H sha tsize (off + int (length c)) cs w1 of (rs, w2) \<Rightarrow> (r # rs, w2)))"

lemma PutRange_last:
  assumes "os_ok w" "validateSHA sha = Inr ()" "rd_err r = None" "is64 tsize"
    and "tsize = int (length (partial_data sha w @ rd_data r))"
    and "EncodeToString (H (partial_data sha w @ rd_data r)) = ToLower sha"
  shows "\<exists>w' f. PutRange H sha (int (length (partial_data sha w))) r tsize w = (Inr (), w') \<and> os_ok w' \<and>
     f_data f = partial_data sha w @ rd_data r \<and>
     map_of (files w') = (map_of (files w))(partialPath sha := None, blob_path sha \<mapsto> f)"
proof -
  obtain w5 f where f: "os_ok w5" "f_data f = partial_data sha w @ rd_data r"
    "map_of (files w5) = (map_of (files w))(partialPath sha \<mapsto> f)"
    and put: "PutRange H sha (int (length (partial_data sha w))) r tsize w =
       (case hashFile H (partialPath sha) w5 of
            (Inl e, w6) \<Rightarrow> (Inl (Wrap ''blobstore: hash partial'' e), w6)
          | (Inr digest, w6) \<Rightarrow>
              if EncodeToString digest \<noteq> ToLower sha then (Inl ErrSHAMismatch, snd (os_Remove (partialPath sha) w6))
              else commit_partial sha w6)"
    using PutRange_append [OF assms(1-3), of H tsize] assms(4,5) by auto
  let ?w6 = "w5\<lparr>oscalls := Suc (Suc (oscalls w5))\<rparr>"
  have "hashFile H (partialPath sha) w5 = (Inr (H (f_data f)), ?w6)"
    using f(1,3) by (simp add: hashFile_def os_Stat_def os_call_ok)
  then have "PutRange H sha (int (length (partial_data sha w))) r tsize w = commit_partial sha ?w6"
    using put f(2) assms(6) by simp
  moreover obtain w' where "commit_partial sha ?w6 = (Inr (), w')" "os_ok w'"
    "map_of (files w') = (map_of (files ?w6))(partialPath sha := None, blob_path sha \<mapsto> f)"
    using commit_ok [of ?w6 sha f] f(1,3) by auto
  ultimately show ?thesis using f(2,3) by auto
qed

lemma PutRange_middle:
  assumes "os_ok w" "validateSHA sha = Inr ()" "rd_err r = None" "is64 tsize"
    and "int (length (partial_data sha w @ rd_data r)) < tsize"
  shows "\<exists>w'. PutRange H sha (int (length (partial_data sha w))) r tsize w = (Inl ErrIncomplete, w') \<and> os_ok w' \<and>
     partial_data sha w' = partial_data sha w @ rd_data r"
proof -
  have "is64 (int (length (partial_data sha w)) + int (length (rd_data r)))"
    using assms(4,5) by (simp add: is64_def)
  from PutRange_append [OF assms(1-3) this, of H tsize] show ?thesis
    using assms(5) by (auto simp: partial_data_def)
qed

lemma put_chunks_ok:
  assumes "os_ok w" "validateSHA sha = Inr ()" "is64 tsize" "c \<noteq> []"
    and "tsize = int (length (partial_data sha w @ concat cs @ c))"
    and "EncodeToString (H (partial_data sha w @ concat cs @ c)) = ToLower sha"
  shows "\<exists>w' f. put_chunks H sha tsize (int (length (partial_data sha w))) (cs @ [c]) w =
       (replicate (length cs) (Inl ErrIncomplete) @ [Inr ()], w') \<and> os_ok w' \<and>
     f_data f = partial_data sha w @ concat cs @ c \<and>
     map_of (files w') (blob_path sha) = Some f \<and> map_of (files w') (partialPath sha) = None"
  using assms
proof (induction cs arbitrary: w)
  case Nil
  then show ?case
    using PutRange_last [of w sha "\<lparr>rd_data = c, rd_err = None\<rparr>" tsize H] path_neq [OF assms(2)] by fastforce
next
  case (Cons d cs)
  have lt: "int (length (partial_data sha w @ rd_data \<lparr>rd_data = d, rd_err = None\<rparr>)) < tsize"
    using Cons.prems(4,5) by (cases c) auto
  obtain w1 where w1: "PutRange H sha (int (length (partial_data sha w))) \<lparr>rd_data = d, rd_err = None\<rparr> tsize w = (Inl ErrIncomplete, w1)"
    "os_ok w1" "partial_data sha w1 = partial_data sha w @ d"
    using PutRange_middle [OF Cons.prems(1,2) _ Cons.prems(3) lt, of H] by auto
  obtain w' f where w': "put_chunks H sha tsize (int (length (partial_data sha w1))) (cs @ [c]) w1 =
       (replicate (length cs) (Inl ErrIncomplete) @ [Inr ()], w')" "os_ok w'"
     "f_data f = partial_data sha w1 @ concat cs @ c"
     "map_of (files w') (blob_path sha) = Some f" "map_of (files w') (partialPath sha) = None"
    using Cons.IH [OF w1(2) Cons.prems(2-4)] Cons.prems(5,6) w1(3) by auto
  have "put_chunks H sha tsize (int (length (partial_data sha w))) ((d # cs) @ [c]) w =
      (replicate (length (d # cs)) (Inl ErrIncomplete) @ [Inr ()], w')"
    using w1(1,3) w'(1) by simp
  then show ?case using w' w1(3) by (intro exI [of _ w'] exI [of _ f]) simp
qed

text \<open>
  C23. A resumed upload equals a whole one: sending a blob as consecutive ranges, however it is cut, gives
  \<open>ErrIncomplete\<close> for every range but the last and success for the last, and \<open>Get\<close> then
  returns the concatenation; the partial file is gone.
\<close>

theorem chunked_upload:
  assumes "os_ok w" "validateSHA sha = Inr ()" "map_of (files w) (partialPath sha) = None"
    and "c \<noteq> []" "is64 (int (length (concat cs @ c)))" "EncodeToString (H (concat cs @ c)) = ToLower sha"
  shows "\<exists>w' w''. put_chunks H sha (int (length (concat cs @ c))) 0 (cs @ [c]) w =
       (replicate (length cs) (Inl ErrIncomplete) @ [Inr ()], w') \<and>
     Get sha w' = (Inr (concat cs @ c), w'') \<and> map_of (files w') (partialPath sha) = None"
proof -
  have p: "partial_data sha w = []" using assms(3) by (simp add: partial_data_def)
  obtain w' f where "put_chunks H sha (int (length (concat cs @ c))) 0 (cs @ [c]) w =
       (replicate (length cs) (Inl ErrIncomplete) @ [Inr ()], w')" "os_ok w'" "f_data f = concat cs @ c"
     "map_of (files w') (blob_path sha) = Some f" "map_of (files w') (partialPath sha) = None"
    using put_chunks_ok [OF assms(1,2,5,4), of cs H] assms(6) p by auto
  then show ?thesis using Get_ok [of w' sha f] assms(2) by auto
qed

theorem chunked_upload_witness:
  "\<exists>w' w''. put_chunks toy_hash (toy_sha 3) 3 0 [[1, 2], [3]] empty_store = ([Inl ErrIncomplete, Inr ()], w') \<and>
     Get (toy_sha 3) w' = (Inr [1, 2, 3], w'')"
proof -
  have "os_ok empty_store" "map_of (files empty_store) (partialPath (toy_sha 3)) = None"
    by (simp_all add: os_ok_def empty_store_def)
  from chunked_upload [OF this(1) toy_valid(1) this(2), of "[3]" "[[1, 2]]" toy_hash]
  show ?thesis by (auto simp: toy_hash_3 toy_valid(2) is64_def simp del: put_chunks.simps)
qed

end
