(* ===== verification/Http.thy ===== *)
theory Http
  imports Blobstore Paths
begin

text \<open>
  The HTTP interface of the server (\<open>internal/server/http\<close>): the middleware
  (\<open>middleware.go\<close>) and the blob handlers (\<open>blobs.go\<close>). A request is what \<open>net/http\<close>
  delivers to a handler, a response what the handler writes; the values the middleware stores in the
  context of a request are fields of it. Header names are in canonical form. \<open>rq_Form\<close> is the form in
  the body of a request, as far as it can be parsed (\<open>r.PostForm\<close>; empty for methods without a body
  form), and \<open>rq_FormErr\<close> the error \<open>ParseForm\<close> reports. A handler works on the
  database and a second component, which for the blob handlers is the blob store.
\<close>

section \<open>Requests and responses\<close>

record httpreq =
  rq_Method :: string
  rq_URL :: string
  rq_Query :: "(string \<times> string) list"
  rq_Header :: "(string \<times> string) list"
  rq_Cookies :: "(string \<times> string) list"
  rq_Form :: "(string \<times> string) list"
  rq_FormErr :: "string option"
  rq_BasicAuth :: "(string \<times> string) option"
  rq_ContentLength :: int
  rq_Body :: reader
  rq_ctxClientID :: string
  rq_ctxCSRF :: string

datatype rbody = NoBody | Bytes "byte list" | Json json | Text string

record httpresp =
  rs_Status :: int
  rs_Header :: "(string \<times> string) list"
  rs_Body :: rbody

type_synonym 's handler = "httpreq \<Rightarrow> 's \<Rightarrow> httpresp \<times> 's"

definition Get_value :: "string \<Rightarrow> (string \<times> string) list \<Rightarrow> string" where
  "Get_value k kvs = (case map_of kvs k of None \<Rightarrow> [] | Some v \<Rightarrow> v)"

text \<open>\<open>r.URL.Path\<close>: what follows the scheme and the host.\<close>

definition url_path :: "string \<Rightarrow> string" where
  "url_path u = (if IsAbs u then u else case SplitN2 (CHR '':'') u of
       [scheme, rest] \<Rightarrow> dropWhile (\<lambda>c. c \<noteq> slash) (TrimPrefix rest ''//'')
     | _ \<Rightarrow> u)"

definition status_only :: "int \<Rightarrow> httpresp" where
  "status_only c = \<lparr>rs_Status = c, rs_Header = [], rs_Body = NoBody\<rparr>"

text \<open>\<open>http.Error\<close>\<close>

definition http_Error :: "string \<Rightarrow> int \<Rightarrow> httpresp" where
  "http_Error m c = \<lparr>rs_Status = c, rs_Header = [(''Content-Type'', ''text/plain; charset=utf-8''), (''X-Content-Type-Options'', ''nosniff'')], rs_Body = Text (m @ [CHR 10])\<rparr>"

definition writeError :: "int \<Rightarrow> err \<Rightarrow> httpresp" where
  "writeError code e = \<lparr>rs_Status = code, rs_Header = [(''Content-Type'', ''application/json'')],
     rs_Body = Json (JObj [(''error'', JStr (err_Error e))])\<rparr>"

section \<open>Middleware\<close>

definition extractBearer :: "string \<Rightarrow> string" where
  "extractBearer header = (if \<not> HasPrefix header ''Bearer '' then [] else TrimPrefix header ''Bearer '')"

text \<open>An audit entry with a kind and, where the source gives them, a client and a detail.\<close>

definition audit_now :: "string \<Rightarrow> string option \<Rightarrow> string option \<Rightarrow> 'z st_scheme \<Rightarrow> 'z st_scheme" where
  "audit_now kind cid detail w = (case Now w of (now, w1) \<Rightarrow>
     snd (AppendAuditLog \<lparr>au_TS = now, au_Kind = kind, au_ClientID = cid, au_PairID = None, au_RelPath = None, au_Detail = detail\<rparr> w1))"

definition AuthBearer :: "string \<Rightarrow> ('z st_scheme \<times> 'b) handler \<Rightarrow> ('z st_scheme \<times> 'b) handler" where
  "AuthBearer psk nxt r s =
     (if extractBearer (Get_value ''Authorization'' (rq_Header r)) \<noteq> psk
      then (http_Error ''unauthorized'' 401, (audit_now ''psk_auth_failed'' None None (fst s), snd s))
      else nxt r s)"

definition AuthBearerWithClientID :: "string \<Rightarrow> ('z st_scheme \<times> 'b) handler \<Rightarrow> ('z st_scheme \<times> 'b) handler" where
  "AuthBearerWithClientID psk nxt r s =
     (if extractBearer (Get_value ''Authorization'' (rq_Header r)) \<noteq> psk
      then (http_Error ''unauthorized'' 401, (audit_now ''psk_auth_failed'' None None (fst s), snd s))
      else nxt (r\<lparr>rq_ctxClientID := Get_value ''X-Axion-Client-Id'' (rq_Header r)\<rparr>) s)"

definition ClientIDFromContext :: "httpreq \<Rightarrow> string" where
  "ClientIDFromContext r = rq_ctxClientID r"

definition protoVersionCompatible :: "string \<Rightarrow> string \<Rightarrow> bool" where
  "protoVersionCompatible client server =
     (let cmajor = hd (SplitN2 (CHR ''.'') client); smajor = hd (SplitN2 (CHR ''.'') server)
      in cmajor = smajor \<and> cmajor \<noteq> [])"

definition ProtoVersionHeader :: "('z st_scheme \<times> 'b) handler \<Rightarrow> ('z st_scheme \<times> 'b) handler" where
  "ProtoVersionHeader nxt r s =
     (if \<not> protoVersionCompatible (Get_value ''Axion-Proto-Version'' (rq_Header r)) ProtoVersion
      then (http_Error ''proto version mismatch'' 426, (audit_now ''proto_version_mismatch'' None None (fst s), snd s))
      else nxt r s)"

definition basic_challenge :: httpresp where
  "basic_challenge = (http_Error ''Unauthorized'' 401)
     \<lparr>rs_Header := [(''Www-Authenticate'', ''Basic realm='' @ [CHR 0x22] @ ''axion admin'' @ [CHR 0x22]),
                    (''Content-Type'', ''text/plain; charset=utf-8''), (''X-Content-Type-Options'', ''nosniff'')]\<rparr>"

definition BasicAuth :: "string \<Rightarrow> string \<Rightarrow> 's handler \<Rightarrow> 's handler" where
  "BasicAuth adminUser adminPassword nxt =
     (if adminUser = [] \<or> adminPassword = [] then nxt
      else (\<lambda>r s. case rq_BasicAuth r of
          None \<Rightarrow> (basic_challenge, s)
        | Some (user, pass) \<Rightarrow>
            if user \<noteq> adminUser \<or> pass \<noteq> adminPassword then (basic_challenge, s) else nxt r s))"

text \<open>The random bytes of a new token are an argument; a response may set the cookie.\<close>

definition csrfCookieName :: string where "csrfCookieName = ''axion_csrf''"
definition csrfHeaderName :: string where "csrfHeaderName = ''X-Csrf-Token''"
definition csrfFormField :: string where "csrfFormField = ''_csrf''"

definition readOrIssueToken :: "byte list \<Rightarrow> httpreq \<Rightarrow> string \<times> (string \<times> string) list" where
  "readOrIssueToken rnd r = (case map_of (rq_Cookies r) csrfCookieName of
       Some v \<Rightarrow> if v \<noteq> [] then (v, []) else
         (EncodeToString rnd, [(''Set-Cookie'', csrfCookieName @ ''='' @ EncodeToString rnd)])
     | None \<Rightarrow> (EncodeToString rnd, [(''Set-Cookie'', csrfCookieName @ ''='' @ EncodeToString rnd)]))"

definition CSRF :: "byte list \<Rightarrow> 's handler \<Rightarrow> 's handler" where
  "CSRF rnd nxt r s =
     (case readOrIssueToken rnd r of (token, hs) \<Rightarrow>
      let r1 = r\<lparr>rq_ctxCSRF := token\<rparr>;
          add = (\<lambda>(resp, s'). (resp\<lparr>rs_Header := hs @ rs_Header resp\<rparr>, s'))
      in if rq_Method r1 \<in> {''GET'', ''HEAD'', ''OPTIONS''} then add (nxt r1 s)
         else (let h = Get_value csrfHeaderName (rq_Header r1);
                   submitted = (if h \<noteq> [] then h else if rq_FormErr r1 = None then Get_value csrfFormField (rq_Form r1) else [])
               in if submitted = [] \<or> submitted \<noteq> token then add (http_Error ''CSRF token mismatch'' 403, s)
                  else add (nxt r1 s)))"

definition CSRFTokenFromContext :: "httpreq \<Rightarrow> string" where
  "CSRFTokenFromContext r = rq_ctxCSRF r"

section \<open>Range headers\<close>

definition parseRangeHeader :: "string \<Rightarrow> (int \<times> int) result" where
  "parseRangeHeader header =
     (if \<not> HasPrefix header ''bytes='' then Inl (Opaque (''unsupported range unit: '' @ Sprintf_q header))
      else case SplitN2 (CHR ''-'') (TrimPrefix header ''bytes='') of
        [p0, p1] \<Rightarrow> (case ParseInt p0 of
            Inl e \<Rightarrow> Inl (Wrap ''invalid range offset'' e)
          | Inr offset \<Rightarrow>
              if p1 = [] then Inr (offset, - 1)
              else (case ParseInt p1 of
                 Inl e \<Rightarrow> Inl (Wrap ''invalid range end'' e)
               | Inr en \<Rightarrow> Inr (offset, wrap64 (wrap64 (en - offset) + 1))))
      | _ \<Rightarrow> Inl (Opaque (''invalid range: '' @ Sprintf_q header)))"

definition parseContentRange :: "string \<Rightarrow> (int \<times> int) result" where
  "parseContentRange header =
     (if \<not> HasPrefix header ''bytes '' then Inl (Opaque (''unsupported content-range unit: '' @ Sprintf_q header))
      else case SplitN2 slash (TrimPrefix header ''bytes '') of
        [rangePart, totalPart] \<Rightarrow> (case SplitN2 (CHR ''-'') rangePart of
            [p0, p1] \<Rightarrow> (case ParseInt p0 of
                Inl e \<Rightarrow> Inl (Wrap ''invalid content-range offset'' e)
              | Inr offset \<Rightarrow> (case ParseInt totalPart of
                  Inl e \<Rightarrow> Inl (Wrap ''invalid content-range total'' e)
                | Inr tsize \<Rightarrow> Inr (offset, tsize)))
          | _ \<Rightarrow> Inl (Opaque (''invalid content-range range: '' @ Sprintf_q header)))
      | _ \<Rightarrow> Inl (Opaque (''invalid content-range: '' @ Sprintf_q header)))"

section \<open>Blobs\<close>

record BlobsHandler =
  maxFileSizeBytes :: int
  perClientQuota :: int

fun add_sizes :: "FileState list \<Rightarrow> int \<Rightarrow> int" where
  "add_sizes [] tot = tot"
| "add_sizes (s # ss) tot = add_sizes ss (case fs_Size s of None \<Rightarrow> tot | Some n \<Rightarrow> wrap64 (tot + n))"

fun usage_loop :: "string \<Rightarrow> SyncPair list \<Rightarrow> int \<Rightarrow> 'z st_scheme \<Rightarrow> int result \<times> 'z st_scheme" where
  "usage_loop cid [] tot w = (Inr tot, w)"
| "usage_loop cid (p # ps) tot w =
     (case ListFileStates (p_ID p) (if p_ClientBID p = cid then ''b'' else ''a'') w of
        (Inl e, w1) \<Rightarrow> (Inl e, w1)
      | (Inr states, w1) \<Rightarrow> usage_loop cid ps (add_sizes states tot) w1)"

definition computeClientUsage :: "string \<Rightarrow> 'z st_scheme \<Rightarrow> int result \<times> 'z st_scheme" where
  "computeClientUsage cid w = (case ListPairsForClient cid w of
       (Inl e, w1) \<Rightarrow> (Inl e, w1)
     | (Inr pairs, w1) \<Rightarrow> usage_loop cid pairs 0 w1)"

text \<open>An error of the system wraps \<open>ENOSPC\<close>.\<close>

definition isDiskFullError :: "err \<Rightarrow> bool" where
  "isDiskFullError e = errors_Is e (Opaque ''no space left on device'')"

definition auditQuotaExceeded :: "string \<Rightarrow> string \<Rightarrow> int \<Rightarrow> int \<Rightarrow> int \<Rightarrow> 'z st_scheme \<Rightarrow> 'z st_scheme" where
  "auditQuotaExceeded cid sha used requested lim = audit_now ''quota_exceeded'' (Some cid)
     (Some (json_text (JObj [(''limit'', JNum lim), (''requested'', JNum requested), (''sha'', JStr sha), (''used'', JNum used)])))"

definition auditDiskFull :: "string \<Rightarrow> string \<Rightarrow> 'z st_scheme \<Rightarrow> 'z st_scheme" where
  "auditDiskFull cid sha = audit_now ''disk_full'' (Some cid)
     (Some (''{'' @ [CHR 0x22] @ ''sha'' @ [CHR 0x22] @ '':'' @ Sprintf_q sha @ ''}''))"

definition handleHEAD :: "string \<Rightarrow> ('z st_scheme \<times> bstore) \<Rightarrow> httpresp \<times> ('z st_scheme \<times> bstore)" where
  "handleHEAD sha s = (case Has sha (snd s) of
       (Inl e, b1) \<Rightarrow> (writeError 400 e, (fst s, b1))
     | (Inr False, b1) \<Rightarrow> (status_only 404, (fst s, b1))
     | (Inr True, b1) \<Rightarrow> (case blob_Stat sha b1 of (r, b2) \<Rightarrow>
         ((status_only 200)\<lparr>rs_Header := [(''Content-Length'', Sprint_int (case r of Inr (n, _) \<Rightarrow> n | Inl _ \<Rightarrow> 0))]\<rparr>, (fst s, b2))))"

definition handlePutError :: "err \<Rightarrow> string \<Rightarrow> string \<Rightarrow> ('z st_scheme \<times> bstore) \<Rightarrow> httpresp \<times> ('z st_scheme \<times> bstore)" where
  "handlePutError e cid sha s =
     (if errors_Is e ErrSHAMismatch \<or> errors_Is e ErrSizeMismatch then (writeError 422 e, s)
      else if errors_Is e ErrIncomplete then (writeError 206 e, s)
      else if isDiskFullError e then (writeError 507 e, (auditDiskFull cid sha (fst s), snd s))
      else (writeError 500 e, s))"

definition handlePUT ::
  "(byte list \<Rightarrow> byte list) \<Rightarrow> BlobsHandler \<Rightarrow> httpreq \<Rightarrow> string \<Rightarrow> ('z st_scheme \<times> bstore) \<Rightarrow> httpresp \<times> ('z st_scheme \<times> bstore)" where
  "handlePUT H h r sha s =
     (let clientID = ClientIDFromContext r; contentLength = rq_ContentLength r in
      if contentLength \<le> 0 then (writeError 411 (Opaque ''Content-Length required''), s)
      else if contentLength > maxFileSizeBytes h then
        (writeError 413 (Opaque (''file too large: size='' @ Sprint_int contentLength @ '' limit='' @ Sprint_int (maxFileSizeBytes h))), s)
      else (case computeClientUsage clientID (fst s) of
        (Inl e, w1) \<Rightarrow> (writeError 500 e, (w1, snd s))
      | (Inr used, w1) \<Rightarrow>
          if wrap64 (used + contentLength) > perClientQuota h then
            (writeError 507 (Opaque (''quota exceeded: used='' @ Sprint_int used @ '' limit='' @ Sprint_int (perClientQuota h))),
             (auditQuotaExceeded clientID sha used contentLength (perClientQuota h) w1, snd s))
          else (let cr = Get_value ''Content-Range'' (rq_Header r) in
            if cr \<noteq> [] then
              (case parseContentRange cr of
                 Inl e \<Rightarrow> (writeError 400 e, (w1, snd s))
               | Inr (offset, totalSize) \<Rightarrow>
                   (case PutRange H sha offset (rq_Body r) totalSize (snd s) of
                      (Inl e, b1) \<Rightarrow> handlePutError e clientID sha (w1, b1)
                    | (Inr _, b1) \<Rightarrow> (status_only 201, (w1, b1))))
            else
              (case Put H sha (rq_Body r) contentLength (snd s) of
                 (Inl e, b1) \<Rightarrow> handlePutError e clientID sha (w1, b1)
               | (Inr _, b1) \<Rightarrow> (status_only 201, (w1, b1))))))"

definition handleGET :: "httpreq \<Rightarrow> string \<Rightarrow> ('z st_scheme \<times> bstore) \<Rightarrow> httpresp \<times> ('z st_scheme \<times> bstore)" where
  "handleGET r sha s =
     (let rangeHeader = Get_value ''Range'' (rq_Header r) in
      if rangeHeader = [] then
        (case Get sha (snd s) of
           (Inl e, b1) \<Rightarrow> if errors_Is e ErrNotFound then (status_only 404, (fst s, b1)) else (writeError 500 e, (fst s, b1))
         | (Inr rc, b1) \<Rightarrow> (case blob_Stat sha b1 of (sr, b2) \<Rightarrow>
             (\<lparr>rs_Status = 200, rs_Header = [(''Content-Length'', Sprint_int (case sr of Inr (n, _) \<Rightarrow> n | Inl _ \<Rightarrow> 0)),
                 (''Content-Type'', ''application/octet-stream'')], rs_Body = Bytes rc\<rparr>, (fst s, b2))))
      else (case parseRangeHeader rangeHeader of
        Inl e \<Rightarrow> (writeError 416 e, s)
      | Inr (offset, len) \<Rightarrow>
          (case GetRange sha offset len (snd s) of
             (Inl e, b1) \<Rightarrow> if errors_Is e ErrNotFound then (status_only 404, (fst s, b1)) else (writeError 500 e, (fst s, b1))
           | (Inr rc, b1) \<Rightarrow> (case blob_Stat sha b1 of (sr, b2) \<Rightarrow>
               (let size = (case sr of Inr (n, _) \<Rightarrow> n | Inl _ \<Rightarrow> 0);
                    en = (if len < 0 then wrap64 (size - 1) else wrap64 (wrap64 (offset + len) - 1))
                in (\<lparr>rs_Status = 206, rs_Header = [(''Content-Type'', ''application/octet-stream''),
                      (''Content-Range'', ''bytes '' @ Sprint_int offset @ ''-'' @ Sprint_int en @ ''/'' @ Sprint_int size)] @
                      (if len \<ge> 0 then [(''Content-Length'', Sprint_int len)] else []),
                      rs_Body = Bytes rc\<rparr>, (fst s, b2)))))))"

definition blobs_ServeHTTP :: "(byte list \<Rightarrow> byte list) \<Rightarrow> BlobsHandler \<Rightarrow> ('z st_scheme \<times> bstore) handler" where
  "blobs_ServeHTTP H h r s =
     (let sha = TrimPrefix (url_path (rq_URL r)) ''/v1/blobs/'' in
      if sha = [] then (writeError 400 (Opaque ''sha required''), s)
      else if rq_Method r = ''HEAD'' then handleHEAD sha s
      else if rq_Method r = ''PUT'' then handlePUT H h r sha s
      else if rq_Method r = ''GET'' then handleGET r sha s
      else (status_only 405, s))"

text \<open>The route \<open>/v1/blobs/\<close> of \<open>NewRouter\<close>; \<open>AccessLog\<close> only logs.\<close>

definition blobs_route :: "(byte list \<Rightarrow> byte list) \<Rightarrow> string \<Rightarrow> BlobsHandler \<Rightarrow> ('z st_scheme \<times> bstore) handler" where
  "blobs_route H psk h = AuthBearerWithClientID psk (blobs_ServeHTTP H h)"

section \<open>The quota\<close>

text \<open>What a client is charged: the sizes of the files of its side of every pair it belongs to.\<close>

definition size_of :: "FileState \<Rightarrow> int" where
  "size_of s = (case fs_Size s of None \<Rightarrow> 0 | Some n \<Rightarrow> n)"

definition client_states :: "string \<Rightarrow> database \<Rightarrow> SyncPair list \<Rightarrow> FileState list" where
  "client_states cid d ps = concat (map (\<lambda>p. file_states_of (p_ID p) (if p_ClientBID p = cid then ''b'' else ''a'') d) ps)"

definition client_usage :: "string \<Rightarrow> database \<Rightarrow> int" where
  "client_usage cid d = sum_list (map size_of (client_states cid d (pairs_for_client cid d)))"

lemma add_sizes_append: "add_sizes (xs @ ys) tot = add_sizes ys (add_sizes xs tot)"
  by (induction xs arbitrary: tot) auto

lemma add_sizes_sum:
  "0 \<le> tot \<Longrightarrow> list_all (\<lambda>s. 0 \<le> size_of s) ss \<Longrightarrow> tot + sum_list (map size_of ss) < 9223372036854775808 \<Longrightarrow>
   add_sizes ss tot = tot + sum_list (map size_of ss)"
proof (induction ss arbitrary: tot)
  case (Cons s ss)
  have "0 \<le> sum_list (map size_of ss)" using Cons.prems(2) by (auto simp: list_all_iff intro!: sum_list_nonneg)
  then have "wrap64 (tot + size_of s) = tot + size_of s" using Cons.prems
    by (intro wrap64_id) (auto simp: is64_def)
  then have "add_sizes (s # ss) tot = add_sizes ss (tot + size_of s)"
    by (auto simp: size_of_def split: option.splits)
  then show ?case using Cons.IH [of "tot + size_of s"] Cons.prems by auto
qed simp

lemma query_db: "query f w = (r, w') \<Longrightarrow> db w' = db w \<and> (\<forall>x. r = Inr x \<longrightarrow> x = f (db w))"
  by (auto simp: query_def exec_def split: option.splits)

lemma list_query_db: "wrap_err m (query f w) = (r, w') \<Longrightarrow> db w' = db w \<and> (\<forall>x. r = Inr x \<longrightarrow> x = f (db w))"
  by (cases "query f w"; cases "fst (query f w)") (auto dest: query_db)

lemma usage_loop_sum:
  "usage_loop cid ps tot w = (r, w') \<Longrightarrow>
   db w' = db w \<and> (\<forall>t. r = Inr t \<longrightarrow> t = add_sizes (client_states cid (db w) ps) tot)"
proof (induction ps arbitrary: tot w)
  case (Cons p ps)
  obtain r1 w1 where l: "ListFileStates (p_ID p) (if p_ClientBID p = cid then ''b'' else ''a'') w = (r1, w1)"
    by (meson surj_pair)
  note q = list_query_db [OF l [unfolded ListFileStates_def]]
  show ?case
  proof (cases r1)
    case (Inr states)
    then have u: "usage_loop cid ps (add_sizes states tot) w1 = (r, w')" using Cons.prems l by simp
    from Cons.IH [OF u] q Inr show ?thesis by (simp add: client_states_def add_sizes_append)
  qed (use Cons.prems l q in \<open>auto\<close>)
qed (auto simp: client_states_def)

lemma computeClientUsage_sum:
  assumes "computeClientUsage cid w = (r, w')"
  shows "db w' = db w \<and> (\<forall>t. r = Inr t \<longrightarrow> t = add_sizes (client_states cid (db w) (pairs_for_client cid (db w))) 0)"
proof -
  obtain r1 w1 where l: "ListPairsForClient cid w = (r1, w1)" by (meson surj_pair)
  note q = list_query_db [OF l [unfolded ListPairsForClient_def]]
  show ?thesis using assms l q usage_loop_sum [of cid _ 0 w1 r w']
    by (cases r1) (auto simp: computeClientUsage_def)
qed

lemma computeClientUsage_exact:
  assumes "computeClientUsage cid w = (Inr t, w')" "list_all (\<lambda>s. 0 \<le> size_of s) (file_state (db w))"
    and "client_usage cid (db w) < 9223372036854775808"
  shows "t = client_usage cid (db w)"
proof -
  have "list_all (\<lambda>s. 0 \<le> size_of s) (client_states cid (db w) ps)" for ps
    using assms(2) by (auto simp: client_states_def file_states_of_def list_all_iff)
  then show ?thesis using computeClientUsage_sum [OF assms(1)] add_sizes_sum [of 0] assms(3)
    by (simp add: client_usage_def)
qed

lemma handlePutError_status: "rs_Status (fst (handlePutError e cid sha s)) \<noteq> 201"
  by (simp add: handlePutError_def writeError_def)

lemma handlePUT_created:
  assumes "handlePUT H h r sha s = (resp, s')" "rs_Status resp = 201"
  shows "\<exists>used w1. computeClientUsage (rq_ctxClientID r) (fst s) = (Inr used, w1) \<and>
     0 < rq_ContentLength r \<and> rq_ContentLength r \<le> maxFileSizeBytes h \<and>
     wrap64 (used + rq_ContentLength r) \<le> perClientQuota h \<and> fst s' = w1"
proof -
  have ne: "handlePutError e cid sha' t \<noteq> (resp, s')" for e cid sha' and t :: "'a st_scheme \<times> bstore"
    using handlePutError_status [of e cid sha' t] assms(2) by (metis fst_conv)
  obtain cr w1 where c: "computeClientUsage (rq_ctxClientID r) (fst s) = (cr, w1)" by (meson surj_pair)
  show ?thesis
  proof (cases cr)
    case (Inl e)
    then show ?thesis using assms c
      by (auto simp: handlePUT_def Let_def ClientIDFromContext_def writeError_def split: if_splits)
  next
    case (Inr used)
    have g: "0 < rq_ContentLength r" "rq_ContentLength r \<le> maxFileSizeBytes h"
      "wrap64 (used + rq_ContentLength r) \<le> perClientQuota h"
      using assms c Inr by (auto simp: handlePUT_def Let_def ClientIDFromContext_def writeError_def split: if_splits)
    have "fst s' = w1" using assms c Inr g
      by (auto simp: handlePUT_def Let_def ClientIDFromContext_def writeError_def ne
          split: if_splits sum.splits prod.splits)
    with c Inr g show ?thesis by simp
  qed
qed

lemma handlePUT_whole:
  assumes "handlePUT H h r sha s = (resp, s')" "rs_Status resp = 201" "Get_value ''Content-Range'' (rq_Header r) = []"
  shows "Put H sha (rq_Body r) (rq_ContentLength r) (snd s) = (Inr (), snd s')"
proof -
  have ne: "handlePutError e cid sha' t \<noteq> (resp, s')" for e cid sha' and t :: "'a st_scheme \<times> bstore"
    using handlePutError_status [of e cid sha' t] assms(2) by (metis fst_conv)
  show ?thesis using assms
    by (auto simp: handlePUT_def Let_def ClientIDFromContext_def writeError_def ne split: if_splits sum.splits prod.splits)
qed

section \<open>Properties\<close>

text \<open>
  C33. The limits hold for a file that is uploaded in one request: when the server accepts it, its announced
  length is positive and at most the maximum file size, the client's files with it stay within the quota (as
  long as the recorded sizes are not negative and the sum fits 64 bits), and what is stored under a new hash
  has this length and this hash. A request with a range is checked in the same way, but with the
  length of its own part only, so that a file sent in parts is not bounded
  (\<open>ranges_exceed_limits\<close>).
\<close>

theorem quota_enforced:
  assumes "handlePUT H h r sha s = (resp, s')" "rs_Status resp = 201"
    and "list_all (\<lambda>x. 0 \<le> size_of x) (file_state (db (fst s)))"
    and "client_usage (rq_ctxClientID r) (db (fst s)) + rq_ContentLength r < 9223372036854775808"
  shows "0 < rq_ContentLength r \<and> rq_ContentLength r \<le> maxFileSizeBytes h \<and>
     client_usage (rq_ctxClientID r) (db (fst s)) + rq_ContentLength r \<le> perClientQuota h \<and>
     (Get_value ''Content-Range'' (rq_Header r) = [] \<and> map_of (files (snd s)) (blob_path sha) = None \<longrightarrow>
       (\<exists>f. blobs (snd s') (blob_path sha) = Some f \<and> int (length (f_data f)) = rq_ContentLength r \<and>
          EncodeToString (H (f_data f)) = ToLower sha))"
proof -
  obtain used w1 where u: "computeClientUsage (rq_ctxClientID r) (fst s) = (Inr used, w1)" "0 < rq_ContentLength r"
    "rq_ContentLength r \<le> maxFileSizeBytes h" "wrap64 (used + rq_ContentLength r) \<le> perClientQuota h"
    using handlePUT_created [OF assms(1,2)] by blast
  have "used = client_usage (rq_ctxClientID r) (db (fst s))"
    using computeClientUsage_exact [OF u(1) assms(3)] assms(4) u(2) by simp
  moreover have "0 \<le> client_usage (rq_ctxClientID r) (db (fst s))"
    using assms(3) unfolding client_usage_def client_states_def file_states_of_def
    by (intro sum_list_nonneg) (auto simp: list_all_iff)
  ultimately have "wrap64 (used + rq_ContentLength r) = used + rq_ContentLength r"
    using assms(4) u(2) by (intro wrap64_id) (simp add: is64_def)
  moreover have "\<exists>f. blobs (snd s') (blob_path sha) = Some f \<and> int (length (f_data f)) = rq_ContentLength r \<and>
      EncodeToString (H (f_data f)) = ToLower sha"
    if "Get_value ''Content-Range'' (rq_Header r) = []" "map_of (files (snd s)) (blob_path sha) = None"
    using Put_exact [OF handlePUT_whole [OF assms(1,2) that(1)] that(2)] u(2) by auto
  ultimately show ?thesis using u \<open>used = _\<close> by simp
qed

definition demo_req :: "string \<Rightarrow> string \<Rightarrow> byte list \<Rightarrow> httpreq" where
  "demo_req meth sha body = \<lparr>rq_Method = meth, rq_URL = ''http://srv:8765/v1/blobs/'' @ sha, rq_Query = [],
     rq_Header = [(''X-Axion-Client-Id'', ''ca''), (''Authorization'', ''Bearer k'')], rq_Cookies = [], rq_Form = [], rq_FormErr = None,
     rq_BasicAuth = None, rq_ContentLength = int (length body), rq_Body = \<lparr>rd_data = body, rd_err = None\<rparr>,
     rq_ctxClientID = ''ca'', rq_ctxCSRF = []\<rparr>"

definition demo_limits :: BlobsHandler where
  "demo_limits = \<lparr>maxFileSizeBytes = 100, perClientQuota = 1000\<rparr>"

lemma demo_put: "fst (handlePUT toy_hash demo_limits (demo_req ''PUT'' (toy_sha 3) [1, 2, 3]) (toy_sha 3) (sample_store sample_db, empty_store))
   = status_only 201"
  by code_simp

theorem quota_enforced_witness:
  "client_usage ''ca'' sample_db + 3 \<le> 1000 \<and>
   (\<exists>f. blobs (snd (snd (handlePUT toy_hash demo_limits (demo_req ''PUT'' (toy_sha 3) [1, 2, 3]) (toy_sha 3) (sample_store sample_db, empty_store))))
      (blob_path (toy_sha 3)) = Some f \<and> length (f_data f) = 3)"
proof -
  let ?r = "demo_req ''PUT'' (toy_sha 3) [1, 2, 3]" and ?s = "(sample_store sample_db, empty_store)"
  have u: "client_usage ''ca'' sample_db = 0" by code_simp
  have "rs_Status (fst (handlePUT toy_hash demo_limits ?r (toy_sha 3) ?s)) = 201"
    by (simp add: demo_put status_only_def)
  moreover have "list_all (\<lambda>x. 0 \<le> size_of x) (file_state (db (fst ?s)))" by (simp add: sample_defs size_of_def)
  moreover have "db (fst ?s) = sample_db" by (simp add: sample_store_def)
  moreover have "Get_value ''Content-Range'' (rq_Header ?r) = []" by code_simp
  moreover have "files (snd ?s) = []" by (simp add: empty_store_def)
  moreover have l: "rq_ContentLength ?r = 3" "rq_ctxClientID ?r = ''ca''" by (simp_all add: demo_req_def)
  moreover have q: "perClientQuota demo_limits = 1000" by (simp add: demo_limits_def)
  ultimately have "client_usage ''ca'' sample_db + 3 \<le> 1000 \<and>
      (\<exists>f. blobs (snd (snd (handlePUT toy_hash demo_limits ?r (toy_sha 3) ?s))) (blob_path (toy_sha 3)) = Some f \<and>
        int (length (f_data f)) = 3 \<and> EncodeToString (toy_hash (f_data f)) = ToLower (toy_sha 3))"
    using quota_enforced [OF prod.collapse [symmetric], of toy_hash demo_limits ?r "toy_sha 3" ?s] u by (simp only: l q) simp
  then show ?thesis by force
qed

text \<open>
  A file sent in parts is not bounded: only the length of each request is compared with the limits, so a
  client with a limit of 2 bytes per file and in all stores a blob of 3 bytes with two requests, the second of
  which is answered with 201.
\<close>

definition ranged_req :: "string \<Rightarrow> byte list \<Rightarrow> httpreq" where
  "ranged_req cr body = (demo_req ''PUT'' (toy_sha 3) body)\<lparr>rq_Header := [(''Content-Range'', cr)]\<rparr>"

theorem ranges_exceed_limits:
  "let h = \<lparr>maxFileSizeBytes = 2, perClientQuota = 2\<rparr>;
       s1 = snd (handlePUT toy_hash h (ranged_req ''bytes 0-1/3'' [1, 2]) (toy_sha 3) (sample_store sample_db, empty_store));
       (resp, s2) = handlePUT toy_hash h (ranged_req ''bytes 2-2/3'' [3]) (toy_sha 3) s1
   in rs_Status resp = 201 \<and> map_option f_data (blobs (snd s2) (blob_path (toy_sha 3))) = Some [1, 2, 3]"
  by code_simp

text \<open>
  The usage is computed in 64 bits: with recorded sizes that add up to \<open>2 ^ 63\<close> (they are what
  clients reported) it wraps around to a negative number, and an upload is accepted although the
  quota is exceeded.
\<close>

theorem quota_overflow:
  "let d = sample_db\<lparr>file_state := [(sample_state ''h0'' 5)\<lparr>fs_Size := Some 9223372036854775807\<rparr>,
              (sample_state ''h1'' 6)\<lparr>fs_RelPath := ''g'', fs_Size := Some 1\<rparr>]\<rparr>
   in client_usage ''ca'' d = 9223372036854775808 \<and>
      fst (computeClientUsage ''ca'' (sample_store d)) = Inr (- 9223372036854775808) \<and>
      rs_Status (fst (handlePUT toy_hash demo_limits (demo_req ''PUT'' (toy_sha 3) [1, 2, 3]) (toy_sha 3) (sample_store d, empty_store))) = 201"
  by code_simp

text \<open>
  A request without the key changes nothing but the audit log: whatever it asks for, the blob store and
  every table except the audit log stay as they are, and the answer is 401.
\<close>

theorem unauthorized_harmless:
  assumes "extractBearer (Get_value ''Authorization'' (rq_Header r)) \<noteq> psk"
  shows "\<exists>w1. blobs_route H psk h r (w, b) = (http_Error ''unauthorized'' 401, (w1, b)) \<and>
     (\<exists>xs. db w1 = (db w)\<lparr>audit_log := audit_log (db w) @ xs\<rparr> \<and>
        (sqlerr w (stmts w) = None \<longrightarrow> (\<exists>t. xs = [\<lparr>au_TS = t, au_Kind = ''psk_auth_failed'', au_ClientID = None,
            au_PairID = None, au_RelPath = None, au_Detail = None\<rparr>])))"
proof (cases "sqlerr w (stmts w)")
  case None
  then show ?thesis using assms
    by (auto simp: blobs_route_def AuthBearerWithClientID_def audit_now_def Now_def AppendAuditLog_def exec_def)
next
  case (Some m)
  then show ?thesis using assms
    by (auto simp: blobs_route_def AuthBearerWithClientID_def audit_now_def Now_def AppendAuditLog_def exec_def
        intro!: exI [of _ "[]"])
qed

theorem unauthorized_harmless_witness:
  "\<exists>w1. blobs_route toy_hash ''secret'' demo_limits (demo_req ''PUT'' (toy_sha 3) [1, 2, 3]) (sample_store sample_db, empty_store)
      = (http_Error ''unauthorized'' 401, (w1, empty_store))"
proof -
  have "extractBearer (Get_value ''Authorization'' (rq_Header (demo_req ''PUT'' (toy_sha 3) [1, 2, 3]))) \<noteq> ''secret''"
    by code_simp
  from unauthorized_harmless [OF this] show ?thesis by blast
qed

lemma Sprint_no: "0 \<le> a \<Longrightarrow> \<not> is_digit c \<Longrightarrow> c \<notin> set (Sprint_int a)"
  using show_nat_digits by (fastforce simp: Sprint_int_def)

lemma not_digit [simp]: "\<not> is_digit (CHR ''-'')" "\<not> is_digit slash"
  by (simp_all add: is_digit_def slash_def)

lemma parseContentRange_print:
  assumes "0 \<le> a" "0 \<le> b" "is64 a" "is64 n"
  shows "parseContentRange (''bytes '' @ Sprint_int a @ ''-'' @ Sprint_int b @ ''/'' @ Sprint_int n) = Inr (a, n)"
proof -
  have 1: "SplitN2 slash ((Sprint_int a @ CHR ''-'' # Sprint_int b) @ slash # Sprint_int n) =
      [Sprint_int a @ CHR ''-'' # Sprint_int b, Sprint_int n]"
    by (rule SplitN2_sep) (use assms Sprint_no [of _ slash] in \<open>auto simp: slash_def [symmetric]\<close>, simp add: slash_def)
  have 2: "SplitN2 (CHR ''-'') (Sprint_int a @ CHR ''-'' # Sprint_int b) = [Sprint_int a, Sprint_int b]"
    by (rule SplitN2_sep) (use assms Sprint_no in \<open>auto\<close>)
  have 3: "TrimPrefix (''bytes '' @ Sprint_int a @ ''-'' @ Sprint_int b @ ''/'' @ Sprint_int n) ''bytes '' =
      (Sprint_int a @ CHR ''-'' # Sprint_int b) @ slash # Sprint_int n"
    by (simp only: TrimPrefix_append) (simp add: slash_def)
  have 4: "HasPrefix (''bytes '' @ x) ''bytes ''" for x by (simp add: HasPrefix_def)
  show ?thesis
    unfolding parseContentRange_def 3 1 2 list.case ParseInt_Sprint_int [OF assms(3)] ParseInt_Sprint_int [OF assms(4)]
      sum.case by (simp only: 4 not_True_eq_False if_False)
qed

lemma parseRangeHeader_print:
  assumes "0 \<le> a" "is64 a" "s = [] \<or> (\<exists>b. s = Sprint_int b \<and> is64 b \<and> is64 (b - a) \<and> is64 (b - a + 1))"
  shows "parseRangeHeader (''bytes='' @ Sprint_int a @ ''-'' @ s) =
     Inr (a, if s = [] then - 1 else (case ParseInt s of Inr b \<Rightarrow> b - a + 1 | Inl _ \<Rightarrow> 0))"
proof -
  have 2: "SplitN2 (CHR ''-'') (Sprint_int a @ CHR ''-'' # s) = [Sprint_int a, s]"
    by (rule SplitN2_sep) (use assms Sprint_no in \<open>auto\<close>)
  have 3: "TrimPrefix (''bytes='' @ Sprint_int a @ ''-'' @ s) ''bytes='' = Sprint_int a @ CHR ''-'' # s"
    by (simp only: TrimPrefix_append) simp
  have 4: "HasPrefix (''bytes='' @ x) ''bytes=''" for x by (simp add: HasPrefix_def)
  have "parseRangeHeader (''bytes='' @ Sprint_int a @ ''-'' @ s) = (if s = [] then Inr (a, - 1) else
     (case ParseInt s of Inl e \<Rightarrow> Inl (Wrap ''invalid range end'' e) | Inr en \<Rightarrow> Inr (a, wrap64 (wrap64 (en - a) + 1))))"
    unfolding parseRangeHeader_def 3 2 list.case ParseInt_Sprint_int [OF assms(2)] sum.case
    by (simp only: 4 not_True_eq_False if_False)
  then show ?thesis using assms(3) by (auto simp: ParseInt_Sprint_int wrap64_id)
qed

text \<open>
  The range headers are read back as they are written: \<open>parseContentRange\<close> of
  \<open>bytes a-b/n\<close> is \<open>(a, n)\<close>, and \<open>parseRangeHeader\<close> of \<open>bytes=a-b\<close> is the offset \<open>a\<close> and the length
  \<open>b - a + 1\<close>, of \<open>bytes=a-\<close> an open end, for all offsets from 0 that fit 64 bits.
\<close>

theorem range_headers_roundtrip:
  assumes "0 \<le> a" "a \<le> b" "b < 9223372036854775807" "is64 n"
  shows "parseContentRange (''bytes '' @ Sprint_int a @ ''-'' @ Sprint_int b @ ''/'' @ Sprint_int n) = Inr (a, n) \<and>
    parseRangeHeader (''bytes='' @ Sprint_int a @ ''-'' @ Sprint_int b) = Inr (a, b - a + 1) \<and>
    parseRangeHeader (''bytes='' @ Sprint_int a @ ''-'') = Inr (a, - 1)"
proof -
  have i: "is64 a" "is64 b" "is64 (b - a)" "is64 (b - a + 1)" using assms by (auto simp: is64_def)
  have ne: "Sprint_int b \<noteq> []" by (simp add: Sprint_int_def)
  have "parseRangeHeader (''bytes='' @ Sprint_int a @ ''-'' @ Sprint_int b) = Inr (a, b - a + 1)"
    by (subst parseRangeHeader_print) (use assms(1) i ne in \<open>auto simp: ParseInt_Sprint_int\<close>)
  then show ?thesis
    using parseContentRange_print [of a b n] parseRangeHeader_print [of a "[]"] assms i by simp
qed

theorem range_headers_roundtrip_witness:
  "parseContentRange (''bytes '' @ Sprint_int 4 @ ''-'' @ Sprint_int 7 @ ''/'' @ Sprint_int 20) = Inr (4, 20)"
  using range_headers_roundtrip [of 4 7 20] by (simp add: is64_def)

end
