(* ===== verification/BlobTransfer.thy ===== *)
theory BlobTransfer
  imports Jail Http
begin

text \<open>
  Upload and download of blobs by the client (\<open>internal/client/transfer\<close>). The HTTP client is an
  argument: a function from the request and the state of the network to a response or an error. The hash
  of the contents is the argument \<open>H\<close>, as in the blob store. A downloaded file is written beside its
  target and moved into place after its hash was checked.
\<close>

section \<open>Operations\<close>

record tclient =
  tc_baseURL :: string
  tc_PSK :: string
  tc_ClientID :: string
  tc_Jail :: Jail

record hresp =
  hr_Status :: int
  hr_Body :: reader

type_synonym 'n doer = "httpreq \<Rightarrow> 'n \<Rightarrow> hresp result \<times> 'n"

text \<open>The scheme of the server's address in \<open>New\<close>; \<open>url.Parse\<close> is the library's.\<close>

definition serverURL :: "string \<Rightarrow> string" where
  "serverURL u = (if HasPrefix u ''ws://'' then ''http://'' @ TrimPrefix u ''ws://''
     else if HasPrefix u ''wss://'' then ''https://'' @ TrimPrefix u ''wss://''
     else u)"

definition transfer_New :: "(string \<Rightarrow> string result) \<Rightarrow> string \<Rightarrow> string \<Rightarrow> string \<Rightarrow> Jail \<Rightarrow> tclient result" where
  "transfer_New parse u psk cid j = (case parse (serverURL u) of
       Inl e \<Rightarrow> Inl (Wrap ''transfer: invalid ServerURL'' e)
     | Inr base \<Rightarrow> Inr \<lparr>tc_baseURL = base, tc_PSK = psk, tc_ClientID = cid, tc_Jail = j\<rparr>)"

definition blobURL :: "tclient \<Rightarrow> string \<Rightarrow> string" where
  "blobURL c sha = tc_baseURL c @ ''/v1/blobs/'' @ sha"

definition setAuthHeaders :: "tclient \<Rightarrow> httpreq \<Rightarrow> httpreq" where
  "setAuthHeaders c r = r\<lparr>rq_Header := [(''X-Axion-Client-Id'', tc_ClientID c), (''Authorization'', ''Bearer '' @ tc_PSK c)] @ rq_Header r\<rparr>"

definition NewRequest :: "string \<Rightarrow> string \<Rightarrow> reader \<Rightarrow> httpreq" where
  "NewRequest meth url body = \<lparr>rq_Method = meth, rq_URL = url, rq_Query = [], rq_Header = [], rq_Cookies = [], rq_Form = [], rq_FormErr = None,
     rq_BasicAuth = None, rq_ContentLength = 0, rq_Body = body, rq_ctxClientID = [], rq_ctxCSRF = []\<rparr>"

definition no_body :: reader where
  "no_body = \<lparr>rd_data = [], rd_err = None\<rparr>"

text \<open>Reading an open file to its end; reading a directory fails.\<close>

definition read_all :: "cfs \<Rightarrow> apath \<Rightarrow> byte list result" where
  "read_all f q = (case lookup f q of
       Inl e \<Rightarrow> Inl e
     | Inr nd \<Rightarrow> (case n_kind nd of File d \<Rightarrow> Inr d | Dir _ \<Rightarrow> Inl EISDIR | _ \<Rightarrow> Inr []))"

definition tr_computeSHA :: "(byte list \<Rightarrow> byte list) \<Rightarrow> tclient \<Rightarrow> string \<Rightarrow> cfs \<Rightarrow> (string \<times> int) result" where
  "tr_computeSHA H c rel f = (case jail_Open f (tc_Jail c) rel of
       Inl e \<Rightarrow> Inl e
     | Inr q \<Rightarrow> (case read_all f q of Inl e \<Rightarrow> Inl e | Inr d \<Rightarrow> Inr (EncodeToString (H d), int (length d))))"

definition headBlob :: "'n doer \<Rightarrow> tclient \<Rightarrow> string \<Rightarrow> 'n \<Rightarrow> bool result \<times> 'n" where
  "headBlob http c sha n =
     (case http (setAuthHeaders c (NewRequest ''HEAD'' (blobURL c sha) no_body)) n of
        (Inl e, n1) \<Rightarrow> (Inl e, n1)
      | (Inr resp, n1) \<Rightarrow>
          if hr_Status resp = 200 then (Inr True, n1)
          else if hr_Status resp = 404 then (Inr False, n1)
          else (Inl (Opaque (''HEAD blob: unexpected status '' @ Sprint_int (hr_Status resp))), n1))"

definition bytes_text :: "byte list \<Rightarrow> string" where
  "bytes_text bs = map (\<lambda>b. char_of (unat b)) bs"

definition putBlob :: "'n doer \<Rightarrow> tclient \<Rightarrow> string \<Rightarrow> int \<Rightarrow> byte list \<Rightarrow> 'n \<Rightarrow> unit result \<times> 'n" where
  "putBlob http c sha sz body n =
     (case http (setAuthHeaders c ((NewRequest ''PUT'' (blobURL c sha) \<lparr>rd_data = body, rd_err = None\<rparr>)
          \<lparr>rq_ContentLength := sz, rq_Header := [(''Content-Type'', ''application/octet-stream'')]\<rparr>)) n of
        (Inl e, n1) \<Rightarrow> (Inl e, n1)
      | (Inr resp, n1) \<Rightarrow>
          if hr_Status resp \<noteq> 201 then
            (Inl (Opaque (''PUT blob: status '' @ Sprint_int (hr_Status resp) @ '', body='' @ bytes_text (take 1024 (rd_data (hr_Body resp))))), n1)
          else (Inr (), n1))"

record UploadResult =
  ur_SHA256 :: string
  ur_Size :: int
  ur_Skipped :: bool

text \<open>
  The file is read twice, once for the hash and once for the body; \<open>f'\<close> is the file system at the second
  reading, which another program may have changed since.
\<close>

definition Upload :: "(byte list \<Rightarrow> byte list) \<Rightarrow> 'n doer \<Rightarrow> tclient \<Rightarrow> string \<Rightarrow> cfs \<Rightarrow> cfs \<Rightarrow> 'n \<Rightarrow> UploadResult result \<times> 'n" where
  "Upload H http c rel f f' n =
     (case tr_computeSHA H c rel f of
        Inl e \<Rightarrow> (Inl (Wrap ''transfer: compute sha'' e), n)
      | Inr (sha, sz) \<Rightarrow>
     (case headBlob http c sha n of
        (Inl e, n1) \<Rightarrow> (Inl (Wrap ''transfer: head blob'' e), n1)
      | (Inr True, n1) \<Rightarrow> (Inr \<lparr>ur_SHA256 = sha, ur_Size = sz, ur_Skipped = True\<rparr>, n1)
      | (Inr False, n1) \<Rightarrow>
     (case jail_Open f' (tc_Jail c) rel of
        Inl e \<Rightarrow> (Inl (Wrap ''transfer: open for put'' e), n1)
      | Inr q \<Rightarrow>
     (case putBlob http c sha sz (case read_all f' q of Inr d \<Rightarrow> d | Inl _ \<Rightarrow> []) n1 of
        (Inl e, n2) \<Rightarrow> (Inl e, n2)
      | (Inr _, n2) \<Rightarrow> (Inr \<lparr>ur_SHA256 = sha, ur_Size = sz, ur_Skipped = False\<rparr>, n2)))))"

definition transfer_ErrSHAMismatch :: err where
  "transfer_ErrSHAMismatch = Sentinel ''transfer: downloaded blob sha mismatch''"

text \<open>The copy of the response into the file and the hash; the call that closes the file may fail too.\<close>

definition save_body :: "(byte list \<Rightarrow> byte list) \<Rightarrow> apath \<Rightarrow> string \<Rightarrow> reader \<Rightarrow> cfs \<Rightarrow> unit result \<times> cfs" where
  "save_body H q sha body f =
     (case os_Write q (rd_data body) f of
        (Inl e, f1) \<Rightarrow> (Inl (Wrap ''transfer: copy body'' e), f1)
      | (Inr _, f1) \<Rightarrow> (case rd_err body of
          Some m \<Rightarrow> (Inl (Wrap ''transfer: copy body'' (Opaque m)), f1)
        | None \<Rightarrow> (case sys_call f1 of
            (Inl e, f2) \<Rightarrow> (Inl (Wrap ''transfer: close partial'' e), f2)
          | (Inr _, f2) \<Rightarrow> if EncodeToString (H (rd_data body)) \<noteq> sha then (Inl transfer_ErrSHAMismatch, f2) else (Inr (), f2))))"

definition Download :: "(byte list \<Rightarrow> byte list) \<Rightarrow> 'n doer \<Rightarrow> tclient \<Rightarrow> string \<Rightarrow> string \<Rightarrow> cfs \<times> 'n \<Rightarrow> unit result \<times> (cfs \<times> 'n)" where
  "Download H http c rel sha s =
     (let j = tc_Jail c; part = rel @ ''.partial''; f = fst s; n = snd s in
      case (if isl (jail_Stat f j part) then (Inr (), f) else jail_Remove j part f) of
        (Inl e, f1) \<Rightarrow> (Inl (Wrap ''transfer: remove partial'' e), (f1, n))
      | (Inr _, f1) \<Rightarrow>
     (case http (setAuthHeaders c (NewRequest ''GET'' (blobURL c sha) no_body)) n of
        (Inl e, n1) \<Rightarrow> (Inl e, (f1, n1))
      | (Inr resp, n1) \<Rightarrow>
          if hr_Status resp = 404 then (Inl (Opaque (''blob not found: '' @ sha)), (f1, n1))
          else if hr_Status resp \<noteq> 200 \<and> hr_Status resp \<noteq> 206
          then (Inl (Opaque (''GET blob: status '' @ Sprint_int (hr_Status resp))), (f1, n1))
          else (case jail_Create j part f1 of
            (Inl e, f2) \<Rightarrow> (Inl (Wrap ''transfer: create partial'' e), (f2, n1))
          | (Inr q, f2) \<Rightarrow> (case save_body H q sha (hr_Body resp) f2 of
              (Inl e, f3) \<Rightarrow> (Inl e, (f3, n1))
            | (Inr _, f3) \<Rightarrow> (case jail_Rename j part rel f3 of
                (Inl e, f4) \<Rightarrow> (Inl (Wrap ''transfer: rename partial'' e), (f4, n1))
              | (Inr _, f4) \<Rightarrow> (Inr (), (f4, n1)))))))"

section \<open>Paths of a download\<close>

lemma split_path_suffix:
  "cs \<noteq> [] \<Longrightarrow> list_all no_slash cs \<Longrightarrow> no_slash x \<Longrightarrow> split_path (join_path cs @ x) = butlast cs @ [last cs @ x]"
proof (induction cs rule: induct_list012)
  case (2 c)
  then show ?case by (simp add: split_path_no_slash no_slash_def)
next
  case (3 c d cs)
  then show ?case by (simp add: split_path_sep)
qed simp

lemma cleaned_proper_append: "list_all proper root \<Longrightarrow> list_all proper cs \<Longrightarrow> clean_comps True (root @ cs) = root @ cs"
  by (simp add: clean_comps_proper)

definition partial_comps :: "string list \<Rightarrow> string list" where
  "partial_comps cs = butlast cs @ [last cs @ ''.partial'']"

lemma partial_proper: "cs \<noteq> [] \<Longrightarrow> list_all proper cs \<Longrightarrow> list_all proper (partial_comps cs)"
proof -
  assume cs: "cs \<noteq> []" "list_all proper cs"
  then have "slash \<notin> set (last cs)" by (auto simp: list_all_iff proper_def)
  then have "proper (last cs @ ''.partial'')" by (simp add: proper_def) (simp add: slash_def Cons_eq_append_conv)
  moreover have "list_all proper (butlast cs)" using cs by (auto simp: list_all_iff dest: in_set_butlastD)
  ultimately show ?thesis by (simp add: partial_comps_def)
qed

lemma cleaned_rel:
  assumes "list_all proper root" "list_all proper cs" "cs \<noteq> []"
  shows "cleaned root (rel_path cs) = root @ cs"
    and "cleaned root (rel_path cs @ ''.partial'') = root @ partial_comps cs"
    and "\<not> IsAbs (rel_path cs)" "\<not> IsAbs (rel_path cs @ ''.partial'')"
proof -
  have "split_path (rel_path cs @ ''.partial'') = partial_comps cs"
    using split_path_suffix [OF assms(3) proper_no_slash [OF assms(2)], of "''.partial''"] assms(3)
    by (simp add: rel_path_def partial_comps_def no_slash_def slash_def)
  then show "cleaned root (rel_path cs @ ''.partial'') = root @ partial_comps cs"
    using assms partial_proper [OF assms(3,2)] by (simp add: cleaned_def clean_comps_proper)
  show "cleaned root (rel_path cs) = root @ cs" using assms by (simp add: cleaned_def split_rel_path clean_comps_proper)
  show "\<not> IsAbs (rel_path cs)" "\<not> IsAbs (rel_path cs @ ''.partial'')"
    using rel_path_not_abs [OF assms(2)] by (auto simp: IsAbs_def)
qed

lemma Resolve_inv:
  assumes "jail_inv (jail_root j) f" "cleaned (jail_root j) rel = jail_root j @ cs" "\<not> IsAbs rel"
  shows "jail_Resolve f j rel = Inr (jail_root j @ cs)"
proof -
  have "link_free f (cleaned (jail_root j) rel)" by (rule jail_inv_link_free [OF assms(1)]) (simp add: assms(2))
  with assms show ?thesis by (simp add: jail_Resolve_link_free jail_inv_def)
qed

section \<open>What the steps of a download change\<close>

text \<open>A directory creation changes only missing ancestors.\<close>

definition grows :: "apath \<Rightarrow> cfs \<Rightarrow> cfs \<Rightarrow> bool" where
  "grows p f f' \<longleftrightarrow> (\<forall>q. lookup f' q = lookup f q \<or> prefix q p \<and> lookup f q = Inl ErrNotExist)"

lemma grows_refl [simp]: "grows p f f"
  by (simp add: grows_def)

lemma grows_trans: "grows p f g \<Longrightarrow> grows p g h \<Longrightarrow> grows p f h"
  unfolding grows_def by metis

lemma grows_mono: "grows p f g \<Longrightarrow> prefix p p' \<Longrightarrow> grows p' f g"
  unfolding grows_def by (metis prefix_order.trans)

lemma sys_call_lookup: "sys_call f = (r, f1) \<Longrightarrow> lookup f1 = lookup f"
  by (rule sys_call_cases [of f]) (auto intro!: lookup_cong)

lemma os_Mkdir_grows:
  assumes inv: "jail_inv root f" and p: "prefix root p \<or> prefix p (butlast root)" "list_all proper p"
  shows "grows p f (snd (os_Mkdir p f))"
proof (cases "namei False True f p")
  case (Inr q)
  then have q: "q = p" using namei_link_free [OF jail_inv_link_free [OF inv p(1)] p(2)] by blast
  show ?thesis using Inr q
    by (auto simp: os_Mkdir_def grows_def lookup_put_node split: sum.splits prod.splits dest!: sys_call_lookup)
qed (simp add: os_Mkdir_def)

lemma os_MkdirAll_grows:
  "jail_inv root f \<Longrightarrow> prefix root p \<or> prefix p (butlast root) \<Longrightarrow> list_all proper p \<Longrightarrow>
   grows p f (snd (os_MkdirAll p f))"
proof (induction p f rule: os_MkdirAll.induct)
  case (1 p f)
  have b: "prefix root (butlast p) \<or> prefix (butlast p) (butlast root)" "list_all proper (butlast p)"
    using "1.prems"(2,3) prefixeq_butlast [of p] prefix_or_above [of "butlast p" p root]
    by (auto simp: list_all_iff dest: in_set_butlastD intro: prefix_order.trans)
  obtain r1 f1 where m: "(if butlast p \<noteq> [] then os_MkdirAll (butlast p) f else (Inr (), f)) = (r1, f1)"
    by (meson surj_pair)
  show ?case
  proof (cases "os_StatF f p")
    case (Inl e)
    have c1: "grows p f f1 \<and> confined root f f1"
    proof (cases "butlast p = []")
      case False
      then show ?thesis
        using grows_mono [OF "1.IH" [OF Inl False "1.prems"(1) b] prefixeq_butlast] m os_MkdirAll_confined [OF "1.prems"(1) b]
        by simp
    qed (use m in \<open>simp\<close>)
    have "grows p f1 (snd (os_Mkdir p f1))"
      by (rule os_Mkdir_grows [OF confined_inv [OF "1.prems"(1)] "1.prems"(2,3)]) (use c1 in simp)
    with c1 have "grows p f (snd (os_Mkdir p f1))" using grows_trans by blast
    then show ?thesis using Inl m c1
      by (subst os_MkdirAll.simps) (auto split: sum.splits prod.splits)
  qed (subst os_MkdirAll.simps, simp)
qed

lemma Remove_effect:
  assumes inv: "jail_inv root f" and p: "prefix root p" "list_all proper p" and r: "os_RemoveF p f = (r, f')"
  shows "(\<forall>q. q \<noteq> p \<longrightarrow> lookup f' q = lookup f q) \<and> (r = Inr () \<longrightarrow> p \<noteq> [] \<longrightarrow> lookup f' p = Inl ErrNotExist) \<and>
    (\<forall>e. r = Inl e \<longrightarrow> lookup f' = lookup f)"
proof (cases "namei False False f p")
  case (Inr q)
  then have q: "q = p" using namei_below [OF inv p] by blast
  have d: "lookup (drop_node p g) p = Inl ErrNotExist" if "p \<noteq> []" "lookup g p = Inr nd" for g nd
    using that by (auto simp: lookup_def drop_node_def delete_conv' split: if_splits)
  show ?thesis using r Inr q
    by (auto simp: os_RemoveF_def lookup_drop_node d split: sum.splits prod.splits if_splits dest!: sys_call_lookup)
qed (use r in \<open>auto simp: os_RemoveF_def\<close>)

lemma OpenCreate_effect:
  assumes inv: "jail_inv root f" and p: "prefix root p" "list_all proper p" "p \<noteq> []"
    and sp: "\<And>nd. lookup f p = Inr nd \<Longrightarrow> n_kind nd \<noteq> Special" and r: "os_OpenCreate p f = (r, f')"
  shows "(\<forall>q. q \<noteq> p \<longrightarrow> lookup f' q = lookup f q) \<and>
     (\<forall>q. r = Inr q \<longrightarrow> q = p \<and> (\<exists>nd. lookup f' p = Inr nd \<and> n_kind nd = File []))"
proof (cases "namei True True f p")
  case (Inr q)
  then have q: "q = p" using namei_below [OF inv p(1,2)] by blast
  have nl: "\<not> is_link (n_kind nd)" if "lookup f p = Inr nd" for nd
    using jail_inv_link_free [OF inv disjI1 [OF p(1)]] that by (auto simp: link_free_def)
  have nd: "p \<notin> set (cs_deny f)" if "\<And>e. lookup f p = Inl e \<Longrightarrow> e = ErrNotExist"
    using that by (auto simp: lookup_def errno_defs)
  have deny: "cs_deny g = cs_deny f" if "sys_call f = (x, g)" for x g
    using that by (rule_tac sys_call_cases [of f]) auto
  show ?thesis
  proof (cases "lookup f p")
    case (Inl e)
    then show ?thesis using r Inr q p(3) nd deny
      by (auto simp: os_OpenCreate_def lookup_put_node split: sum.splits prod.splits if_splits dest!: sys_call_lookup)
  next
    case l: (Inr x)
    then show ?thesis using r Inr q p(3) nd deny nl [OF l] sp [OF l]
      by (cases "n_kind x") (auto simp: os_OpenCreate_def lookup_put_node split: sum.splits prod.splits if_splits dest!: sys_call_lookup)
  qed
qed (use r in \<open>auto simp: os_OpenCreate_def\<close>)

lemma save_body_effect:
  assumes "lookup f p = Inr nd" "n_kind nd = File []" "p \<noteq> []" "save_body H p sha body f = (r, f')"
  shows "(\<forall>q. q \<noteq> p \<longrightarrow> lookup f' q = lookup f q) \<and>
     (r = Inr () \<longrightarrow> (\<exists>nd. lookup f' p = Inr nd \<and> n_kind nd = File (rd_data body)) \<and> EncodeToString (H (rd_data body)) = sha)"
proof -
  have deny: "p \<notin> set (cs_deny g)" if "lookup g = lookup f" for g
    using assms(1) fun_cong [OF that, of p] by (auto simp: lookup_def split: if_splits)
  obtain r1 f1 where s: "sys_call f = (r1, f1)" by (meson surj_pair)
  note l1 = sys_call_lookup [OF s]
  show ?thesis
  proof (cases r1)
    case (Inr u)
    define g where "g = put_node p (File (rd_data body)) f1"
    have w: "os_Write p (rd_data body) f = (Inr (), g)" using s Inr l1 assms(1,2) by (simp add: os_Write_def g_def)
    have lg: "lookup g q = (if q = p then Inr \<lparr>n_kind = File (rd_data body), n_mtime = cs_time f1 (cs_calls f1)\<rparr> else lookup f q)" for q
      using l1 deny [OF l1] assms(3) by (simp add: g_def lookup_put_node)
    show ?thesis using assms(4) w lg
      by (auto simp: save_body_def split: option.splits sum.splits prod.splits if_splits dest!: sys_call_lookup)
  qed (use s l1 assms(4) in \<open>auto simp: save_body_def os_Write_def\<close>)
qed

lemma lookup_move_node:
  assumes "p \<noteq> q" "\<not> prefix p q" "q \<notin> set (cs_deny f)" "p \<notin> set (cs_deny f)" "p \<noteq> []" "q \<noteq> []"
  shows "lookup (move_node p q f) q = lookup f p"
    and "\<not> prefix p x \<Longrightarrow> \<not> prefix q x \<Longrightarrow> lookup (move_node p q f) x = lookup f x"
proof -
  have k: "move_path p q r = q \<longleftrightarrow> r = p \<or> r = q" for r
    using assms(2) by (auto simp: move_path_def prefix_def)
  have "map_of (map (\<lambda>(r, n). (move_path p q r, n)) (AList.delete q l)) q = map_of l p" for l :: "(apath \<times> node) list"
  proof (induction l)
    case (Cons y l)
    then show ?case using k [of "fst y"] assms(1) by (cases y) auto
  qed simp
  then show "lookup (move_node p q f) q = lookup f p" using assms by (simp add: lookup_def move_node_def)
  have k2: "move_path p q r = x \<longleftrightarrow> r = x" if "\<not> prefix p x" "\<not> prefix q x" for r
    using that by (auto simp: move_path_def)
  show "lookup (move_node p q f) x = lookup f x" if "\<not> prefix p x" "\<not> prefix q x"
  proof -
    have "x \<noteq> q" using that by auto
    then show ?thesis
      by (simp add: lookup_def move_node_def map_of_map_key [OF k2 [OF that]] delete_conv')
  qed
qed

lemma walk_not_denied:
  "link_free f (dest @ cs) \<Longrightarrow> list_all proper cs \<Longrightarrow> cs \<noteq> [] \<Longrightarrow> walk f flw create n dest cs = Inr q \<Longrightarrow>
   dest @ cs \<notin> set (cs_deny f)"
proof (induction cs arbitrary: dest)
  case (Cons c cs)
  have nl: "\<not> is_link (n_kind nd)" if "lookup f (dest @ [c]) = Inr nd" for nd
    using Cons.prems(1) that unfolding link_free_def
    by (metis append_Cons append_Nil prefixI append.assoc)
  have ne: "EACCES \<noteq> ErrNotExist" by (simp add: errno_defs)
  show ?case
  proof (cases "cs = []")
    case True
    then show ?thesis using Cons.prems ne by (auto simp: proper_def lookup_def split: if_splits)
  next
    case False
    then have "walk f flw create n (dest @ [c]) cs = Inr q"
      using Cons.prems nl by (auto simp: proper_def split: sum.splits kind.splits if_splits)
    then show ?thesis using Cons.IH [of "dest @ [c]"] Cons.prems False by simp
  qed
qed simp

lemma namei_not_denied:
  "jail_inv root f \<Longrightarrow> prefix root p \<Longrightarrow> list_all proper p \<Longrightarrow> p \<noteq> [] \<Longrightarrow> namei flw create f p = Inr q \<Longrightarrow> p \<notin> set (cs_deny f)"
  using walk_not_denied [of f "[]" p] jail_inv_link_free by (auto simp: namei_def)

lemma Rename_effect:
  assumes inv: "jail_inv root f" and p: "prefix root p" "list_all proper p" "p \<noteq> []" and q: "prefix root q" "list_all proper q" "q \<noteq> []"
    and pq: "\<not> prefix p q" and r: "os_RenameF p q f = (r, f')"
  shows "(\<forall>e. r = Inl e \<longrightarrow> lookup f' = lookup f) \<and>
     (r = Inr () \<longrightarrow> lookup f' q = lookup f p \<and> (\<forall>x. \<not> prefix p x \<longrightarrow> \<not> prefix q x \<longrightarrow> lookup f' x = lookup f x))"
proof -
  have sys: "(\<forall>e. r = Inl e \<longrightarrow> lookup f' = lookup f) \<and>
     (r = Inr () \<longrightarrow> lookup f' q = lookup f p \<and> (\<forall>x. \<not> prefix p x \<longrightarrow> \<not> prefix q x \<longrightarrow> lookup f' x = lookup f x))"
    if s: "sys_rename p q f = (r, f')"
  proof (cases "\<exists>p' nd q'. namei False False f p = Inr p' \<and> lookup f p' = Inr nd \<and> namei False True f q = Inr q'")
    case False
    then show ?thesis using s by (auto simp: sys_rename_def split: sum.splits)
  next
    case True
    then obtain nd where n: "namei False False f p = Inr p" "lookup f p = Inr nd" "namei False True f q = Inr q"
      using namei_below [OF inv p(1,2)] namei_below [OF inv q(1,2)] by blast
    obtain r1 f1 where c: "sys_call f = (r1, f1)" by (meson surj_pair)
    note l1 = sys_call_lookup [OF c]
    have "cs_deny f1 = cs_deny f" using c by (rule_tac sys_call_cases [of f]) auto
    then have dn: "q \<notin> set (cs_deny f1)" "p \<notin> set (cs_deny f1)"
      using namei_not_denied [OF inv p n(1)] namei_not_denied [OF inv q n(3)] by simp_all
    have "p \<noteq> q" using pq by auto
    note mv = lookup_move_node [OF this pq dn p(3) q(3)]
    have m1: "lookup (move_node p q f1) q = lookup f p" using mv(1) l1 by simp
    have m2: "lookup (move_node p q f1) x = lookup f x" if "\<not> prefix p x" "\<not> prefix q x" for x
      using mv(2) [OF that] l1 by simp
    have sr: "sys_rename p q f = (if is_dir (n_kind nd) \<and> \<not> isl (lookup f q) then (Inl ENOTDIR, f)
        else case r1 of Inl e \<Rightarrow> (Inl e, f1) | Inr _ \<Rightarrow> (Inr (), move_node p q f1))"
      using n pq \<open>p \<noteq> q\<close> by (simp add: sys_rename_def c split: sum.splits)
    show ?thesis using s m1 m2 l1 unfolding sr by (cases r1) (auto split: if_splits)
  qed
  show ?thesis using r sys by (auto simp: os_RenameF_def split: sum.splits if_splits)
qed

section \<open>Properties\<close>

lemma Create_effect:
  assumes inv: "jail_inv (jail_root j) f" and res: "jail_Resolve f j rel = Inr p" and ne: "p \<noteq> []"
    and sp: "\<And>nd. lookup f p = Inr nd \<Longrightarrow> n_kind nd \<noteq> Special" and r: "jail_Create j rel f = (r, f')"
  shows "(\<forall>q. q = p \<or> lookup f' q = lookup f q \<or> prefix q (butlast p) \<and> lookup f q = Inl ErrNotExist) \<and>
     (\<forall>q. r = Inr q \<longrightarrow> q = p \<and> (\<exists>nd. lookup f' p = Inr nd \<and> n_kind nd = File [])) \<and>
     jail_inv (jail_root j) f'"
proof -
  let ?root = "jail_root j"
  have p: "prefix ?root p" "list_all proper p" using jail_Resolve_Inr [OF _ res] inv by (auto simp: jail_inv_def)
  have inv': "jail_inv ?root f'" using confined_inv [OF inv jail_Create_confined(1) [OF inv, of rel]] r by simp
  obtain r1 f1 where m: "os_MkdirAll (butlast p) f = (r1, f1)" by (meson surj_pair)
  have b: "prefix ?root (butlast p) \<or> prefix (butlast p) (butlast ?root)" "list_all proper (butlast p)"
    using p prefixeq_butlast [of p] prefix_or_above [of "butlast p" p ?root]
    by (auto simp: list_all_iff dest: in_set_butlastD)
  have g: "grows (butlast p) f f1" "jail_inv ?root f1"
    using os_MkdirAll_grows [OF inv b] confined_inv [OF inv os_MkdirAll_confined [OF inv b]] m by simp_all
  have "\<not> prefix p (butlast p)" using ne prefix_length_le [of p "butlast p"] by (cases p) auto
  then have "lookup f1 p = lookup f p" using g(1) by (auto simp: grows_def)
  then have sp1: "\<And>nd. lookup f1 p = Inr nd \<Longrightarrow> n_kind nd \<noteq> Special" using sp by simp
  show ?thesis
  proof (cases r1)
    case (Inl e)
    then show ?thesis using r res m g inv' by (auto simp: jail_Create_def grows_def)
  next
    case (Inr u)
    then have o: "os_OpenCreate p f1 = (r, f')" using r res m by (simp add: jail_Create_def)
    from OpenCreate_effect [OF g(2) p ne sp1 o] show ?thesis using g(1) inv' unfolding grows_def by metis
  qed
qed

text \<open>The three parts of a download, each with what it leaves alone.\<close>

lemma stale_partial_effect:
  assumes inv: "jail_inv (jail_root j) f" and res: "jail_Resolve f j part = Inr pp" and ne: "pp \<noteq> []"
    and r: "(if isl (jail_Stat f j part) then (Inr (), f) else jail_Remove j part f) = (r, f1)"
  shows "(\<forall>q. q \<noteq> pp \<longrightarrow> lookup f1 q = lookup f q) \<and> (\<forall>nd. lookup f1 pp = Inr nd \<longrightarrow> lookup f pp = Inr nd) \<and>
     jail_inv (jail_root j) f1"
proof (cases "isl (jail_Stat f j part)")
  case False
  have p: "prefix (jail_root j) pp" "list_all proper pp" using jail_Resolve_Inr [OF _ res] inv by (auto simp: jail_inv_def)
  have o: "os_RemoveF pp f = (r, f1)" using r False res by (simp add: jail_Remove_def)
  have "jail_inv (jail_root j) f1" using confined_inv [OF inv os_RemoveF_confined [OF inv p]] o by simp
  moreover have "lookup f pp = Inr nd" if "lookup f1 pp = Inr nd" for nd
    using Remove_effect [OF inv p o] ne that by (cases r) auto
  ultimately show ?thesis using Remove_effect [OF inv p o] by blast
qed (use r inv in auto)

lemma install_effect:
  assumes inv: "jail_inv (jail_root j) f" and pres: "jail_Resolve f j part = Inr pp" and ne: "pp \<noteq> []" "p \<noteq> []"
    and tres: "\<And>g. jail_inv (jail_root j) g \<Longrightarrow> jail_Resolve g j part = Inr pp \<and> jail_Resolve g j rel = Inr p"
    and neq: "\<not> prefix pp p" "\<not> prefix p (butlast pp)"
    and sp: "\<And>nd. lookup f pp = Inr nd \<Longrightarrow> n_kind nd \<noteq> Special"
    and c: "jail_Create j part f = (Inr q, f2)" and s: "save_body H q sha body f2 = (r3, f3)"
  shows "(\<forall>x. x \<noteq> pp \<longrightarrow> lookup f3 x = lookup f x \<or> prefix x (butlast pp) \<and> lookup f x = Inl ErrNotExist) \<and>
     (\<forall>r f4. r3 = Inr () \<longrightarrow> jail_Rename j part rel f3 = (r, f4) \<longrightarrow>
        (case r of Inl _ \<Rightarrow> lookup f4 = lookup f3
         | Inr _ \<Rightarrow> (\<exists>nd. lookup f4 p = Inr nd \<and> n_kind nd = File (rd_data body)) \<and> EncodeToString (H (rd_data body)) = sha \<and>
            (\<forall>x. \<not> prefix pp x \<longrightarrow> \<not> prefix p x \<longrightarrow> lookup f4 x = lookup f3 x)))"
proof -
  let ?root = "jail_root j"
  note ce = Create_effect [OF inv pres ne(1) sp c]
  then obtain nd where q: "q = pp" "lookup f2 pp = Inr nd" "n_kind nd = File []" and inv2: "jail_inv ?root f2" by blast
  note se = save_body_effect [OF q(2,3) ne(1) s [unfolded q(1)]]
  have p: "prefix ?root pp" "list_all proper pp" "prefix ?root p" "list_all proper p"
    using tres [OF inv] jail_Resolve_Inr [of j f] inv by (auto simp: jail_inv_def)
  obtain rw fw where w: "os_Write pp (rd_data body) f2 = (rw, fw)" by (meson surj_pair)
  have cw: "confined ?root f2 fw" using os_Write_confined [OF p(1), of f2 "rd_data body"] w by simp
  have "confined ?root f2 f3"
    using s w cw confined_trans [OF cw sys_call_confined] unfolding q(1)
    by (auto simp: save_body_def split: sum.splits option.splits prod.splits if_splits)
  note inv3 = confined_inv [OF inv2 this]
  have "(case r of Inl _ \<Rightarrow> lookup f4 = lookup f3
         | Inr _ \<Rightarrow> (\<exists>nd. lookup f4 p = Inr nd \<and> n_kind nd = File (rd_data body)) \<and> EncodeToString (H (rd_data body)) = sha \<and>
            (\<forall>x. \<not> prefix pp x \<longrightarrow> \<not> prefix p x \<longrightarrow> lookup f4 x = lookup f3 x))"
    if r: "r3 = Inr ()" "jail_Rename j part rel f3 = (r, f4)" for r f4
  proof -
    have "os_RenameF pp p f3 = (r, f4)" using r(2) tres [OF inv3] by (simp add: jail_Rename_def)
    from Rename_effect [OF inv3 p(1,2) ne(1) p(3,4) ne(2) neq(1) this] se r(1)
    show ?thesis by (cases r) auto
  qed
  moreover have "lookup f3 x = lookup f x \<or> prefix x (butlast pp) \<and> lookup f x = Inl ErrNotExist" if "x \<noteq> pp" for x
    using ce se that by metis
  ultimately show ?thesis by blast
qed

lemma partial_neq:
  assumes "cs \<noteq> []"
  shows "\<not> prefix (root @ partial_comps cs) (root @ cs)" "\<not> prefix (root @ cs) (butlast (root @ partial_comps cs))"
proof -
  have l: "length (partial_comps cs) = length cs" using assms by (cases cs) (auto simp: partial_comps_def)
  have "last cs @ ''.partial'' \<noteq> last cs" by simp
  then have "partial_comps cs \<noteq> cs" unfolding partial_comps_def by (metis last_snoc)
  then show "\<not> prefix (root @ partial_comps cs) (root @ cs)"
    using l by (auto simp: prefix_def) (metis append_Nil2 append_eq_append_conv)
  show "\<not> prefix (root @ cs) (butlast (root @ partial_comps cs))"
    using l assms prefix_length_le [of "root @ cs" "butlast (root @ partial_comps cs)"] by (cases cs) auto
qed

lemma Download_cases:
  assumes inv: "jail_inv (jail_root (tc_Jail c)) f" and cs: "list_all proper cs" "cs \<noteq> []"
    and sp: "\<And>nd. lookup f (jail_root (tc_Jail c) @ partial_comps cs) = Inr nd \<Longrightarrow> n_kind nd \<noteq> Special"
    and d: "Download H http c (rel_path cs) sha (f, n) = (res, (f', n'))"
  defines "p \<equiv> jail_root (tc_Jail c) @ cs" and "pp \<equiv> jail_root (tc_Jail c) @ partial_comps cs"
  shows "(\<forall>e. res = Inl e \<longrightarrow> lookup f' p = lookup f p) \<and>
     (res = Inr () \<longrightarrow> (\<exists>nd data. lookup f' p = Inr nd \<and> n_kind nd = File data \<and> EncodeToString (H data) = sha)) \<and>
     (\<forall>x nd. lookup f x = Inr nd \<longrightarrow> \<not> prefix p x \<longrightarrow> \<not> prefix pp x \<longrightarrow> lookup f' x = Inr nd)"
proof -
  let ?j = "tc_Jail c" and ?part = "rel_path cs @ ''.partial''"
  have pr: "list_all proper (jail_root ?j)" using inv by (simp add: jail_inv_def)
  note cr = cleaned_rel [OF pr cs]
  have tres: "jail_Resolve g ?j ?part = Inr pp \<and> jail_Resolve g ?j (rel_path cs) = Inr p" if "jail_inv (jail_root ?j) g" for g
    using Resolve_inv [OF that cr(1,3)] Resolve_inv [OF that cr(2,4)] by (simp add: p_def pp_def)
  have ne: "pp \<noteq> []" "p \<noteq> []" using cs by (auto simp: p_def pp_def partial_comps_def)
  have neq: "\<not> prefix pp p" "\<not> prefix p (butlast pp)" using partial_neq [OF cs(2)] by (simp_all add: p_def pp_def)
  have pne: "p \<noteq> pp" using neq(1) by auto
  obtain r1 f1 where s1: "(if isl (jail_Stat f ?j ?part) then (Inr (), f) else jail_Remove ?j ?part f) = (r1, f1)"
    by (meson surj_pair)
  have e1: "\<forall>q. q \<noteq> pp \<longrightarrow> lookup f1 q = lookup f q" "\<And>nd. lookup f1 pp = Inr nd \<Longrightarrow> lookup f pp = Inr nd" "jail_inv (jail_root ?j) f1"
    using stale_partial_effect [OF inv conjunct1 [OF tres [OF inv]] ne(1) s1] by blast+
  have sp1: "n_kind nd \<noteq> Special" if "lookup f1 pp = Inr nd" for nd using sp e1(2) [OF that] by (simp add: pp_def)
  have keep: "lookup f1 p = lookup f p \<and> (\<forall>x nd. lookup f x = Inr nd \<longrightarrow> \<not> prefix pp x \<longrightarrow> lookup f1 x = Inr nd)"
    using e1(1) pne by auto
  obtain hr n1 where h: "http (setAuthHeaders c (NewRequest ''GET'' (blobURL c sha) no_body)) n = (hr, n1)" by (meson surj_pair)
  note dd = d [unfolded Download_def Let_def fst_conv snd_conv s1 prod.case h]
  show ?thesis
  proof (cases "\<exists>u resp. r1 = Inr u \<and> hr = Inr resp \<and> (hr_Status resp = 200 \<or> hr_Status resp = 206)")
    case False
    then have "f' = f1 \<and> (\<exists>e. res = Inl e)" using dd by (auto split: sum.splits if_splits)
    then show ?thesis using keep by auto
  next
    case True
    then obtain u resp where t: "r1 = Inr u" "hr = Inr resp" "hr_Status resp = 200 \<or> hr_Status resp = 206" by blast
    obtain rc f2 where c: "jail_Create ?j ?part f1 = (rc, f2)" by (meson surj_pair)
    have d2: "(case rc of Inl e \<Rightarrow> (Inl (Wrap ''transfer: create partial'' e), (f2, n1))
          | Inr q \<Rightarrow> (case save_body H q sha (hr_Body resp) f2 of
              (Inl e, f3) \<Rightarrow> (Inl e, (f3, n1))
            | (Inr _, f3) \<Rightarrow> (case jail_Rename ?j ?part (rel_path cs) f3 of
                (Inl e, f4) \<Rightarrow> (Inl (Wrap ''transfer: rename partial'' e), (f4, n1))
              | (Inr _, f4) \<Rightarrow> (Inr (), (f4, n1))))) = (res, (f', n'))"
      using dd t c by (auto split: sum.splits)
    show ?thesis
    proof (cases rc)
      case (Inl e)
      then have r: "f' = f2" "\<exists>e. res = Inl e" using d2 by auto
      have "lookup f2 q = lookup f1 q \<or> q = pp \<or> prefix q (butlast pp) \<and> lookup f1 q = Inl ErrNotExist" for q
        using Create_effect [OF e1(3) conjunct1 [OF tres [OF e1(3)]] ne(1) sp1 c] by blast
      then have "lookup f2 p = lookup f1 p" "\<forall>x nd. lookup f1 x = Inr nd \<longrightarrow> \<not> prefix pp x \<longrightarrow> lookup f2 x = Inr nd"
        using neq(2) pne by (metis, metis Inl_Inr_False prefix_order.refl)
      then show ?thesis using r keep by auto
    next
      case (Inr q)
      obtain r3 f3 where s: "save_body H q sha (hr_Body resp) f2 = (r3, f3)" by (meson surj_pair)
      note ie = install_effect [OF e1(3) conjunct1 [OF tres [OF e1(3)]] ne tres neq sp1 c [unfolded Inr] s]
      have k3: "lookup f3 p = lookup f1 p" "\<forall>x nd. lookup f1 x = Inr nd \<longrightarrow> \<not> prefix pp x \<longrightarrow> lookup f3 x = Inr nd"
        using ie neq(2) pne by (metis, metis Inl_Inr_False prefix_order.refl)
      obtain r4 f4 where m: "jail_Rename ?j ?part (rel_path cs) f3 = (r4, f4)" by (meson surj_pair)
      have d3: "(case r3 of Inl e \<Rightarrow> (Inl e, (f3, n1)) | Inr _ \<Rightarrow> (case r4 of
           Inl e \<Rightarrow> (Inl (Wrap ''transfer: rename partial'' e), (f4, n1)) | Inr _ \<Rightarrow> (Inr (), (f4, n1)))) = (res, (f', n'))"
        using d2 Inr s m by (auto split: sum.splits)
      show ?thesis
      proof (cases r3)
        case (Inl e)
        then show ?thesis using d3 k3 keep by auto
      next
        case i3: (Inr v)
        then have i4: "case r4 of Inl _ \<Rightarrow> lookup f4 = lookup f3
         | Inr _ \<Rightarrow> (\<exists>nd. lookup f4 p = Inr nd \<and> n_kind nd = File (rd_data (hr_Body resp))) \<and>
            EncodeToString (H (rd_data (hr_Body resp))) = sha \<and>
            (\<forall>x. \<not> prefix pp x \<longrightarrow> \<not> prefix p x \<longrightarrow> lookup f4 x = lookup f3 x)"
          using ie m by simp
        show ?thesis
        proof (cases r4)
          case (Inl e)
          then show ?thesis using d3 i3 i4 k3 keep by auto
        next
          case (Inr w)
          then show ?thesis using d3 i3 i4 k3 keep by auto
        qed
      qed
    qed
  qed
qed

text \<open>
  C31. A download is atomic and verified, whatever the server sends and whichever calls fail, below a root
  that is a real directory with no symbolic link anywhere below it (\<open>jail_inv\<close>) and when what is at the
  \<open>.partial\<close> name, if anything, is a file or a directory and no device or pipe: if it reports success, the file
  at the target holds exactly contents with the requested hash; if it reports an error, the target is as it
  was. No other existing file, apart from those at or below the target and its \<open>.partial\<close> name, is changed
  in either case. (With links below the root this fails: \<open>Create\<close> writes through a dangling link.)
\<close>

theorem Download_atomic:
  assumes "jail_inv (jail_root (tc_Jail c)) f" "list_all proper cs" "cs \<noteq> []"
    and "\<And>nd. lookup f (jail_root (tc_Jail c) @ partial_comps cs) = Inr nd \<Longrightarrow> n_kind nd \<noteq> Special"
    and "Download H http c (rel_path cs) sha (f, n) = (res, (f', n'))"
  shows "(\<forall>e. res = Inl e \<longrightarrow> lookup f' (jail_root (tc_Jail c) @ cs) = lookup f (jail_root (tc_Jail c) @ cs)) \<and>
     (res = Inr () \<longrightarrow> (\<exists>nd data. lookup f' (jail_root (tc_Jail c) @ cs) = Inr nd \<and> n_kind nd = File data \<and>
        EncodeToString (H data) = sha)) \<and>
     (\<forall>x nd. lookup f x = Inr nd \<longrightarrow> \<not> prefix (jail_root (tc_Jail c) @ cs) x \<longrightarrow>
        \<not> prefix (jail_root (tc_Jail c) @ partial_comps cs) x \<longrightarrow> lookup f' x = Inr nd)"
  using Download_cases [OF assms(1-3) assms(4) assms(5)] by blast

definition demo_tclient :: tclient where
  "demo_tclient = \<lparr>tc_baseURL = ''http://srv:8765'', tc_PSK = ''k'', tc_ClientID = ''ca'', tc_Jail = demo_jail\<rparr>"

text \<open>A server that always answers with three bytes.\<close>

definition fixed_http :: "'n doer" where
  "fixed_http r n = (Inr \<lparr>hr_Status = 200, hr_Body = \<lparr>rd_data = [1, 2, 3], rd_err = None\<rparr>\<rparr>, n)"

lemma demo_inv: "jail_inv (jail_root (tc_Jail demo_tclient)) demo_fs"
  using jail_New_root [OF demo_New] real_dir_butlast [of demo_fs "[''home'', ''u'']"]
  by (simp add: jail_inv_def demo_jail_def demo_tclient_def) (simp add: no_links_def demo_fs_def)

theorem Download_atomic_witness:
  "(\<exists>nd data. lookup (fst (snd (Download toy_hash fixed_http demo_tclient (rel_path [''d'', ''new'']) (toy_sha 3) (demo_fs, ()))))
       [''home'', ''u'', ''d'', ''new''] = Inr nd \<and> n_kind nd = File data \<and> EncodeToString (toy_hash data) = toy_sha 3) \<and>
   lookup (fst (snd (Download toy_hash fixed_http demo_tclient (rel_path [''a'']) (toy_sha 4) (demo_fs, ()))))
       [''home'', ''u'', ''a''] = lookup demo_fs [''home'', ''u'', ''a'']"
proof -
  have p: "list_all proper [''d'', ''new'']" "list_all proper [''a'']" by code_simp+
  have r: "jail_root (tc_Jail demo_tclient) = [''home'', ''u'']" by (simp add: demo_tclient_def demo_jail_def)
  have s: "n_kind nd \<noteq> Special" if "lookup demo_fs (jail_root (tc_Jail demo_tclient) @ partial_comps cs) = Inr nd" for cs nd
    using that by (auto simp: lookup_def demo_fs_def split: if_splits)
  have ok: "fst (Download toy_hash fixed_http demo_tclient (rel_path [''d'', ''new'']) (toy_sha 3) (demo_fs, ())) = Inr ()"
    and ko: "fst (Download toy_hash fixed_http demo_tclient (rel_path [''a'']) (toy_sha 4) (demo_fs, ())) = Inl transfer_ErrSHAMismatch"
    by code_simp+
  have 1: "Download H http c rel sha x = (fst (Download H http c rel sha x),
      (fst (snd (Download H http c rel sha x)), snd (snd (Download H http c rel sha x))))" for H http c rel sha and x :: "cfs \<times> unit"
    by (simp only: prod.collapse)
  show ?thesis
    using Download_atomic [OF demo_inv p(1) _ s 1 [of toy_hash fixed_http demo_tclient "rel_path [''d'', ''new'']" "toy_sha 3"]]
      Download_atomic [OF demo_inv p(2) _ s 1 [of toy_hash fixed_http demo_tclient "rel_path [''a'']" "toy_sha 4"]] ok ko
    by (simp add: r)
qed

end
