(* ===== verification/Suppress.thy ===== *)
theory Suppress
  imports Prelude
begin

text \<open>
  Suppression of the echo of the client's own writes
  (\<open>internal/client/runner/suppress.go\<close>). Times are nanoseconds; the reading of the clock is an
  argument of each operation, which the mutex makes one step.
\<close>

section \<open>Operations\<close>

record suppressEntry =
  expiresAt :: int
  shas :: "string set"

record Suppressor =
  sup_m :: "string \<rightharpoonup> suppressEntry"
  sup_stopGC :: bool

definition NewSuppressor :: Suppressor where
  "NewSuppressor = \<lparr>sup_m = Map.empty, sup_stopGC = False\<rparr>"

definition sup_Add :: "int \<Rightarrow> string \<Rightarrow> string \<Rightarrow> int \<Rightarrow> Suppressor \<Rightarrow> Suppressor" where
  "sup_Add now rel sha ttl s =
     (let newExpiry = now + ttl in
      case sup_m s rel of
        None \<Rightarrow> s\<lparr>sup_m := (sup_m s)(rel \<mapsto> \<lparr>expiresAt = newExpiry, shas = (if sha \<noteq> [] then {sha} else {})\<rparr>)\<rparr>
      | Some e \<Rightarrow>
          (let e1 = (if newExpiry > expiresAt e then e\<lparr>expiresAt := newExpiry\<rparr> else e);
               e2 = (if sha \<noteq> [] then e1\<lparr>shas := insert sha (shas e1)\<rparr> else e1\<lparr>shas := {}\<rparr>)
           in s\<lparr>sup_m := (sup_m s)(rel \<mapsto> e2)\<rparr>))"

definition Hit :: "int \<Rightarrow> string \<Rightarrow> Suppressor \<Rightarrow> bool \<times> Suppressor" where
  "Hit now rel s = (case sup_m s rel of
       None \<Rightarrow> (False, s)
     | Some e \<Rightarrow> if now > expiresAt e then (False, s\<lparr>sup_m := (sup_m s)(rel := None)\<rparr>) else (True, s))"

definition HitWithSHA :: "int \<Rightarrow> string \<Rightarrow> string \<Rightarrow> Suppressor \<Rightarrow> bool \<times> Suppressor" where
  "HitWithSHA now rel sha s = (case sup_m s rel of
       None \<Rightarrow> (False, s)
     | Some e \<Rightarrow>
         if now > expiresAt e then (False, s\<lparr>sup_m := (sup_m s)(rel := None)\<rparr>)
         else if shas e = {} then (True, s)
         else (sha \<in> shas e, s))"

definition gcOnce :: "int \<Rightarrow> Suppressor \<Rightarrow> Suppressor" where
  "gcOnce now s = s\<lparr>sup_m := (\<lambda>k. case sup_m s k of
       None \<Rightarrow> None | Some e \<Rightarrow> if now > expiresAt e then None else Some e)\<rparr>"

text \<open>The goroutine of \<open>StartGC\<close> runs \<open>gcOnce\<close> on every tick; both are idempotent.\<close>

definition StartGC :: "Suppressor \<Rightarrow> Suppressor" where
  "StartGC s = (if sup_stopGC s then s else s\<lparr>sup_stopGC := True\<rparr>)"

definition StopGC :: "Suppressor \<Rightarrow> Suppressor" where
  "StopGC s = (if sup_stopGC s then s\<lparr>sup_stopGC := False\<rparr> else s)"

section \<open>Sequences of operations\<close>

datatype sup_op = SAdd int string string int | SHit int string | SHitSHA int string string | SGC int | SStart | SStop

fun sup_step :: "sup_op \<Rightarrow> Suppressor \<Rightarrow> Suppressor" where
  "sup_step (SAdd t r h d) s = sup_Add t r h d s"
| "sup_step (SHit t r) s = snd (Hit t r s)"
| "sup_step (SHitSHA t r h) s = snd (HitWithSHA t r h s)"
| "sup_step (SGC t) s = gcOnce t s"
| "sup_step SStart s = StartGC s"
| "sup_step SStop s = StopGC s"

fun op_time :: "sup_op \<Rightarrow> int option" where
  "op_time (SAdd t r h d) = Some t"
| "op_time (SHit t r) = Some t"
| "op_time (SHitSHA t r h) = Some t"
| "op_time (SGC t) = Some t"
| "op_time _ = None"

text \<open>An entry that suppresses the hash until a given time at least.\<close>

definition covers :: "string \<Rightarrow> string \<Rightarrow> int \<Rightarrow> Suppressor \<Rightarrow> bool" where
  "covers rel sha t s \<longleftrightarrow> (\<exists>e. sup_m s rel = Some e \<and> t \<le> expiresAt e \<and> sha \<in> shas e)"

lemma covers_step:
  assumes "covers rel sha t s" "\<And>t'. op_time x = Some t' \<Longrightarrow> t' \<le> t" "\<And>t' d. x \<noteq> SAdd t' rel [] d"
  shows "covers rel sha t (sup_step x s)"
proof (cases x)
  case (SAdd t' r h d)
  then show ?thesis using assms(1,3) by (auto simp: covers_def sup_Add_def Let_def split: option.splits)
qed (use assms in \<open>auto simp: covers_def Hit_def HitWithSHA_def gcOnce_def StartGC_def StopGC_def split: option.splits\<close>)

lemma covers_run:
  "covers rel sha t s \<Longrightarrow> (\<And>x t'. x \<in> set xs \<Longrightarrow> op_time x = Some t' \<Longrightarrow> t' \<le> t) \<Longrightarrow>
   (\<And>t' d. SAdd t' rel [] d \<notin> set xs) \<Longrightarrow> covers rel sha t (fold sup_step xs s)"
proof (induction xs arbitrary: s)
  case (Cons x xs)
  have "covers rel sha t (sup_step x s)"
    by (rule covers_step [OF Cons.prems(1)]) (use Cons.prems(2,3) in \<open>auto\<close>)
  then have "covers rel sha t (fold sup_step xs (sup_step x s))"
    using Cons.IH [of "sup_step x s"] Cons.prems(2,3) by (metis list.set_intros(2))
  then show ?case by simp
qed simp

lemma own_write_hit:
  assumes "sha \<noteq> []" "\<forall>x \<in> set ops. \<forall>t'. op_time x = Some t' \<longrightarrow> t' \<le> now + ttl"
    and "\<forall>t' d. SAdd t' rel [] d \<notin> set ops" "t \<le> now + ttl"
  shows "fst (HitWithSHA t rel sha (fold sup_step ops (sup_Add now rel sha ttl s)))"
proof -
  have "covers rel sha (now + ttl) (sup_Add now rel sha ttl s)"
    using assms(1) by (auto simp: covers_def sup_Add_def Let_def split: option.splits)
  then have "covers rel sha (now + ttl) (fold sup_step ops (sup_Add now rel sha ttl s))"
    by (rule covers_run) (use assms(2,3) in \<open>auto\<close>)
  then show ?thesis using assms(4) by (auto simp: covers_def HitWithSHA_def)
qed

text \<open>
  The client does not report its own write: once a write of some contents has been announced with
  \<open>Add\<close>, then until it expires, whatever else is added for this path with a hash or for other
  paths, asked or collected, the change with this hash is suppressed.
\<close>

theorem own_write_suppressed:
  assumes "sha \<noteq> []" "\<forall>x \<in> set ops. \<forall>t'. op_time x = Some t' \<longrightarrow> t' \<le> now + ttl"
    and "\<forall>t' d. SAdd t' rel [] d \<notin> set ops" "t \<le> now + ttl"
  shows "fst (HitWithSHA t rel sha (fold sup_step ops (sup_Add now rel sha ttl s)))"
  by (rule own_write_hit [OF assms])

theorem own_write_suppressed_witness:
  "fst (HitWithSHA 90 ''f'' ''h1'' (fold sup_step [SGC 50, SAdd 60 ''f'' ''h2'' 100, SHitSHA 70 ''f'' ''h9'']
     (sup_Add 0 ''f'' ''h1'' 100 NewSuppressor)))"
  by (rule own_write_suppressed) auto

text \<open>
  Collection is invisible: sweeping at some time never changes the answer of a later question, for
  any path and hash.
\<close>

theorem gcOnce_transparent:
  assumes "t \<le> t'"
  shows "fst (HitWithSHA t' rel sha (gcOnce t s)) = fst (HitWithSHA t' rel sha s) \<and>
     fst (Hit t' rel (gcOnce t s)) = fst (Hit t' rel s)"
  using assms by (auto simp: gcOnce_def HitWithSHA_def Hit_def split: option.splits)

theorem gcOnce_transparent_witness:
  "fst (HitWithSHA 7 ''f'' ''h'' (gcOnce 5 (sup_Add 0 ''f'' ''h'' 4 NewSuppressor))) = False"
  using gcOnce_transparent [of 5 7 "''f''" "''h''" "sup_Add 0 ''f'' ''h'' 4 NewSuppressor"]
  by (simp add: HitWithSHA_def sup_Add_def NewSuppressor_def)

text \<open>
  An entry for every hash is narrowed by a later one for a single hash: after \<open>Add\<close> with the empty
  hash, which suppresses every change, adding one hash makes every other change pass again,
  long before the first entry expires.
\<close>

theorem Add_narrows_wildcard:
  assumes "sup_m s rel = None" "sha \<noteq> []" "sha' \<noteq> sha" "0 \<le> ttl" "now \<le> t" "t \<le> now + ttl"
  shows "fst (HitWithSHA t rel sha' (sup_Add now rel [] ttl s)) \<and>
     \<not> fst (HitWithSHA t rel sha' (sup_Add now rel sha ttl (sup_Add now rel [] ttl s)))"
  using assms by (simp add: HitWithSHA_def sup_Add_def Let_def)

theorem Add_narrows_wildcard_witness:
  "\<not> fst (HitWithSHA 1 ''f'' ''h2'' (sup_Add 0 ''f'' ''h1'' 100 (sup_Add 0 ''f'' [] 100 NewSuppressor)))"
  using Add_narrows_wildcard [of NewSuppressor "''f''" "''h1''" "''h2''" 100 0 1] by (simp add: NewSuppressor_def)

end
