(* ===== verification/Subscription.thy ===== *)
theory Subscription
  imports Paths
begin

text \<open>
  The client's registry of subscriptions (\<open>internal/client/runner/subscription.go\<close>): which pair a
  changed path belongs to. The Go map is a list of entries with distinct keys; the order in which
  Go visits a map is unspecified, and nothing here depends on the order of the list.
\<close>

section \<open>Operations\<close>

record Subscription =
  su_PairID :: string
  su_Side :: string
  su_RootSubpath :: string
  su_Direction :: string

record ResolvedSubscription =
  re_PairID :: string
  re_Side :: string
  re_SubRel :: string

type_synonym Registry = "(string \<times> Subscription) list"

definition NewRegistry :: Registry where
  "NewRegistry = []"

definition reg_Remove :: "string \<Rightarrow> Registry \<Rightarrow> Registry" where
  "reg_Remove pid r = AList.delete pid r"

definition reg_Apply :: "SubscribePair \<Rightarrow> Registry \<Rightarrow> Registry" where
  "reg_Apply sub r = (if sp_Direction sub = [] then reg_Remove (sp_PairID sub) r
     else AList.update (sp_PairID sub) \<lparr>su_PairID = sp_PairID sub, su_Side = sp_Side sub,
            su_RootSubpath = sp_RootSubpath sub, su_Direction = sp_Direction sub\<rparr> r)"

text \<open>One iteration of \<open>Resolve\<close>; \<open>ToSlash\<close> is the identity on Unix.\<close>

definition resolve_one :: "string \<Rightarrow> Subscription \<Rightarrow> ResolvedSubscription option" where
  "resolve_one cleaned s =
     (let root = Clean (su_RootSubpath s) in
      if root = ''.'' \<or> root = [] then Some \<lparr>re_PairID = su_PairID s, re_Side = su_Side s, re_SubRel = cleaned\<rparr>
      else if cleaned = root then Some \<lparr>re_PairID = su_PairID s, re_Side = su_Side s, re_SubRel = ''.''\<rparr>
      else if HasPrefix cleaned (root @ ''/'')
      then Some \<lparr>re_PairID = su_PairID s, re_Side = su_Side s, re_SubRel = TrimPrefix cleaned (root @ ''/'')\<rparr>
      else None)"

definition reg_Resolve :: "string \<Rightarrow> Registry \<Rightarrow> ResolvedSubscription list" where
  "reg_Resolve relPath r = List.map_filter (resolve_one (Clean relPath)) (map snd r)"

definition reg_All :: "Registry \<Rightarrow> Subscription list" where
  "reg_All r = map snd r"

text \<open>\<open>lookupSubscription\<close> of \<open>app.go\<close>: the first entry of \<open>All\<close> with the identifier.\<close>

definition lookupSubscription :: "string \<Rightarrow> Registry \<Rightarrow> Subscription option" where
  "lookupSubscription pid r = List.find (\<lambda>s. su_PairID s = pid) (reg_All r)"

section \<open>The registry is a map by pair\<close>

definition reg_ok :: "Registry \<Rightarrow> bool" where
  "reg_ok r \<longleftrightarrow> distinct (map fst r) \<and> list_all (\<lambda>(k, s). su_PairID s = k) r"

lemma reg_ok_Apply [invar_intros]: "reg_ok r \<Longrightarrow> reg_ok (reg_Apply sub r)"
proof -
  assume ok: "reg_ok r"
  have 1: "list_all (\<lambda>(k, s). su_PairID s = k) (AList.delete pid r)" for pid
    using ok by (auto simp: reg_ok_def list_all_iff AList.delete_eq)
  show ?thesis using ok 1
    by (auto simp: reg_Apply_def reg_Remove_def reg_ok_def distinct_delete distinct_update intro!: list_all_update)
qed

lemma lookup_map_of:
  assumes "reg_ok r"
  shows "lookupSubscription pid r = map_of r pid"
  using assms
proof (induction r)
  case Nil
  then show ?case by (simp add: lookupSubscription_def reg_All_def)
next
  case (Cons x r)
  then have "reg_ok r" "su_PairID (snd x) = fst x" by (auto simp: reg_ok_def split: prod.splits)
  with Cons.IH show ?case by (cases x) (auto simp: lookupSubscription_def reg_All_def)
qed

lemma reg_ok_run: "reg_ok r \<Longrightarrow> reg_ok (fold reg_Apply subs r)"
  by (induction subs arbitrary: r) (auto intro: reg_ok_Apply)

lemma lookup_Apply:
  assumes "reg_ok r"
  shows "lookupSubscription pid (reg_Apply sub r) =
    (if pid = sp_PairID sub then
       (if sp_Direction sub = [] then None
        else Some \<lparr>su_PairID = sp_PairID sub, su_Side = sp_Side sub, su_RootSubpath = sp_RootSubpath sub,
                   su_Direction = sp_Direction sub\<rparr>)
     else lookupSubscription pid r)"
  using assms lookup_map_of [OF reg_ok_Apply [OF assms]] lookup_map_of [OF assms]
  by (simp add: reg_Apply_def reg_Remove_def update_conv' delete_conv')

text \<open>
  The registry follows the server's last word on a pair: after any sequence of messages from an empty
  registry, a pair is subscribed exactly when the last message about it has a direction, and then
  with the side, directory and direction of that message.
\<close>

theorem registry_last_message:
  "lookupSubscription pid (fold reg_Apply subs NewRegistry) =
    (case List.find (\<lambda>s. sp_PairID s = pid) (rev subs) of
       None \<Rightarrow> None
     | Some s \<Rightarrow> if sp_Direction s = [] then None
         else Some \<lparr>su_PairID = pid, su_Side = sp_Side s, su_RootSubpath = sp_RootSubpath s, su_Direction = sp_Direction s\<rparr>)"
proof (induction subs rule: rev_induct)
  case Nil
  then show ?case by (simp add: NewRegistry_def lookupSubscription_def reg_All_def)
next
  case (snoc s subs)
  have "reg_ok (fold reg_Apply subs NewRegistry)"
    by (rule reg_ok_run) (simp add: reg_ok_def NewRegistry_def)
  from lookup_Apply [OF this, of pid s] snoc.IH show ?case by auto
qed

section \<open>Resolution of a path\<close>

lemma TrimPrefix_rel_path:
  assumes "list_all proper r" "list_all proper p" "r \<noteq> []"
  shows "HasPrefix (rel_path p) (rel_path r @ ''/'') \<longleftrightarrow> strict_prefix r p"
    and "strict_prefix r p \<Longrightarrow> TrimPrefix (rel_path p) (rel_path r @ ''/'') = rel_path (drop (length r) p)"
proof -
  have split_app: "split_path (rel_path r @ slash # x) = r @ split_path x" for x
    using assms(1,3)
  proof (induction r rule: induct_list012)
    case (2 a)
    then show ?case using split_path_sep [of a x] by (simp add: rel_path_def proper_def no_slash_def)
  next
    case (3 a b zs)
    then show ?case using split_path_sep [of a "join_path (b # zs) @ slash # x"]
      by (simp add: rel_path_def proper_def no_slash_def)
  qed simp
  have join_app: "rel_path (r @ q) = rel_path r @ slash # rel_path q" if "q \<noteq> []" for q
    using join_path_append [OF assms(3) that] assms(3) that by (simp add: rel_path_def)
  have sl: "''/'' = [slash]" by (simp add: slash_def)
  show pre: "HasPrefix (rel_path p) (rel_path r @ ''/'') \<longleftrightarrow> strict_prefix r p"
  proof
    assume "HasPrefix (rel_path p) (rel_path r @ ''/'')"
    then obtain x where x: "rel_path p = rel_path r @ slash # x" by (auto simp: HasPrefix_def prefix_def sl)
    have "p \<noteq> []" using x rel_path_not_abs [OF assms(1)] by (cases "rel_path r") (auto simp: rel_path_def slash_def)
    then have "p = r @ split_path x" using split_rel_path [OF assms(2)] split_app [of x] x by simp
    then show "strict_prefix r p" using split_path_neq [of x] by (auto simp: strict_prefix_def prefix_def)
  next
    assume "strict_prefix r p"
    then obtain q where "p = r @ q" "q \<noteq> []" by (auto simp: strict_prefix_def prefix_def)
    then show "HasPrefix (rel_path p) (rel_path r @ ''/'')"
      using join_app by (auto simp: HasPrefix_def prefix_def sl)
  qed
  show "TrimPrefix (rel_path p) (rel_path r @ ''/'') = rel_path (drop (length r) p)" if sp: "strict_prefix r p"
  proof -
    obtain q where q: "p = r @ q" "q \<noteq> []" using sp by (auto simp: strict_prefix_def prefix_def)
    then have "rel_path p = (rel_path r @ ''/'') @ rel_path q" using join_app by (simp add: sl)
    then show ?thesis using q by (simp only: TrimPrefix_append) simp
  qed
qed

lemma Clean_empty: "Clean [] = ''.''"
  by (simp add: Clean_def IsAbs_def clean_comps_def clean_step_def)

lemma rel_path_dot: "list_all proper r \<Longrightarrow> rel_path r = ''.'' \<longleftrightarrow> r = []"
  using rel_path_inject [of r "[]"] by (simp add: rel_path_def)

lemma resolve_by_components':
  assumes "list_all proper r" "list_all proper p" "su_RootSubpath s = rel_path r"
  shows "resolve_one (Clean (rel_path p)) s = (if prefix r p
     then Some \<lparr>re_PairID = su_PairID s, re_Side = su_Side s, re_SubRel = rel_path (drop (length r) p)\<rparr> else None)"
proof -
  have ne: "rel_path r \<noteq> []" using rel_path_not_abs [OF assms(1)] by simp
  show ?thesis
  proof (cases "r = []")
    case True
    moreover from True have "su_RootSubpath s = ''.''" "Clean ''.'' = ''.''"
      using assms(3) Clean_rel_path [of "[]"] by (simp_all add: rel_path_def)
    ultimately show ?thesis using Clean_rel_path [OF assms(2)] by (simp add: resolve_one_def)
  next
    case False
    then have dot: "rel_path r \<noteq> ''.''" using rel_path_dot [OF assms(1)] by simp
    have eq: "rel_path p = rel_path r \<longleftrightarrow> p = r" using rel_path_inject [OF assms(2,1)] .
    note pre = TrimPrefix_rel_path [OF assms(1,2) False]
    have pr: "prefix r p \<longleftrightarrow> p = r \<or> strict_prefix r p" by (auto simp: strict_prefix_def)
    show ?thesis
      unfolding resolve_one_def assms(3) Clean_rel_path [OF assms(1)] Clean_rel_path [OF assms(2)] Let_def eq pre(1) pr
      using dot ne pre(2) by (auto simp: rel_path_def)
  qed
qed

text \<open>
  A changed path is attributed to a subscription exactly when it lies in the subscribed directory:
  for a directory and a path given by their components, \<open>Resolve\<close> selects the subscription iff the
  directory is an initial part of the path (component by component, so \<open>work\<close> does not capture
  \<open>workshop/x\<close>), and the reported relative path is the rest.
\<close>

theorem resolve_by_components:
  assumes "list_all proper r" "list_all proper p" "su_RootSubpath s = rel_path r"
  shows "resolve_one (Clean (rel_path p)) s = (if prefix r p
     then Some \<lparr>re_PairID = su_PairID s, re_Side = su_Side s, re_SubRel = rel_path (drop (length r) p)\<rparr> else None)"
  using assms by (rule resolve_by_components')

theorem resolve_by_components_witness:
  "resolve_one (Clean ''work/a.txt'') \<lparr>su_PairID = ''p'', su_Side = ''a'', su_RootSubpath = ''work'', su_Direction = ''a_to_b''\<rparr>
     = Some \<lparr>re_PairID = ''p'', re_Side = ''a'', re_SubRel = ''a.txt''\<rparr> \<and>
   resolve_one (Clean ''workshop'') \<lparr>su_PairID = ''p'', su_Side = ''a'', su_RootSubpath = ''work'', su_Direction = ''a_to_b''\<rparr> = None"
proof -
  let ?s = "\<lparr>su_PairID = ''p'', su_Side = ''a'', su_RootSubpath = ''work'', su_Direction = ''a_to_b''\<rparr>"
  have p: "list_all proper [''work'']" "list_all proper [''work'', ''a.txt'']" "list_all proper [''workshop'']"
    by (simp_all add: proper_def slash_def)
  have r: "rel_path [''work''] = ''work''" "rel_path [''work'', ''a.txt''] = ''work/a.txt''" "rel_path [''workshop''] = ''workshop''"
    "rel_path [''a.txt''] = ''a.txt''" by (simp_all add: rel_path_def slash_def)
  show ?thesis
    using resolve_by_components [OF p(1,2), of ?s] resolve_by_components [OF p(1,3), of ?s] by (simp add: r)
qed

text \<open>
  Reporting and applying agree: joining the subscribed directory with the reported relative path, as
  the handlers of local changes and of commands do, gives back the path that changed.
\<close>

theorem resolve_join_roundtrip:
  assumes "list_all proper r" "list_all proper p" "r \<noteq> []" "su_RootSubpath s = rel_path r"
    and "resolve_one (Clean (rel_path p)) s = Some x"
  shows "Join (su_RootSubpath s) (re_SubRel x) = rel_path p"
proof -
  have "prefix r p" "re_SubRel x = rel_path (drop (length r) p)"
    using resolve_by_components' [OF assms(1,2,4)] assms(5) by (auto split: if_splits)
  moreover from this obtain q where "p = r @ q" by (auto simp: prefix_def)
  moreover have "list_all proper (drop (length r) p)" using assms(2) by (simp add: list_all_iff) (meson in_set_dropD)
  ultimately show ?thesis using Join_rel_path [OF assms(1) _ assms(3), of "drop (length r) p"] assms(4) by simp
qed

theorem resolve_join_roundtrip_witness:
  "Join ''work'' ''a.txt'' = ''work/a.txt''"
proof -
  let ?s = "\<lparr>su_PairID = ''p'', su_Side = ''a'', su_RootSubpath = ''work'', su_Direction = ''a_to_b''\<rparr>"
  have p: "list_all proper [''work'']" "list_all proper [''work'', ''a.txt'']" by (simp_all add: proper_def slash_def)
  have r: "rel_path [''work''] = ''work''" "rel_path [''work'', ''a.txt''] = ''work/a.txt''" "rel_path [''a.txt''] = ''a.txt''"
    by (simp_all add: rel_path_def slash_def)
  have "resolve_one (Clean (rel_path [''work'', ''a.txt''])) ?s = Some \<lparr>re_PairID = ''p'', re_Side = ''a'', re_SubRel = ''a.txt''\<rparr>"
    using resolve_by_components' [OF p, of ?s] by (simp add: r)
  from resolve_join_roundtrip [OF p _ _ this] show ?thesis by (simp add: r)
qed

end
