(* ===== verification/Watcher.thy ===== *)
theory Watcher
  imports Jail "HOL-Library.Word"
begin

text \<open>
  The file watcher (\<open>internal/watcher/watcher.go\<close>): ignore patterns, the debouncing of raw
  notifications and the events it emits. The notifications of \<open>fsnotify\<close> and the moments at which
  the timers fire are the steps of a sequence; a raw name is an absolute path. The channel of events holds
  100 of them, and an event that finds it full is dropped.
\<close>

unbundle bit_operations_syntax

section \<open>Patterns\<close>

text \<open>\<open>filepath.Match\<close> on single-byte characters; a malformed pattern matches nothing.\<close>

fun getEsc :: "string \<Rightarrow> (char \<times> string) option" where
  "getEsc [] = None"
| "getEsc (c # cs) =
     (if c = CHR ''-'' \<or> c = CHR '']'' then None
      else if c = CHR 0x5C then (case cs of d # e # ds \<Rightarrow> Some (d, e # ds) | _ \<Rightarrow> None)
      else if cs = [] then None else Some (c, cs))"

lemma getEsc_length: "getEsc cs = Some (c, rest) \<Longrightarrow> length rest < length cs"
  by (cases cs) (auto split: if_splits list.splits)

function class_loop :: "nat \<Rightarrow> bool \<Rightarrow> char \<Rightarrow> string \<Rightarrow> (bool \<times> string) option" where
  "class_loop n found r p =
     (if n > 0 \<and> p \<noteq> [] \<and> hd p = CHR '']'' then Some (found, tl p)
      else case getEsc p of
        None \<Rightarrow> None
      | Some (lo, p1) \<Rightarrow>
          if hd p1 = CHR ''-'' then
            (case getEsc (tl p1) of
               None \<Rightarrow> None
             | Some (hi, p2) \<Rightarrow> class_loop (Suc n) (found \<or> lo \<le> r \<and> r \<le> hi) r p2)
          else class_loop (Suc n) (found \<or> lo = r) r p1)"
  by pat_completeness auto

termination
proof (relation "measure (\<lambda>(n, found, r, p). length p)", goal_cases)
  case (2 n found r p x y p1 z y' p2)
  then show ?case using getEsc_length [of p y p1] getEsc_length [of "tl p1" y' p2] by simp
qed (auto dest: getEsc_length)

declare class_loop.simps [simp del]

definition match_class :: "char \<Rightarrow> string \<Rightarrow> (bool \<times> string) option" where
  "match_class r p = (let negated = (p \<noteq> [] \<and> hd p = CHR ''^'') in
     case class_loop 0 False r (if negated then tl p else p) of
       None \<Rightarrow> None | Some (found, rest) \<Rightarrow> Some (found \<noteq> negated, rest))"

lemma class_loop_length: "class_loop n found r p = Some (b, rest) \<Longrightarrow> length rest < length p"
proof (induction n found r p rule: class_loop.induct)
  case (1 n found r p)
  show ?case
  proof (cases "n > 0 \<and> p \<noteq> [] \<and> hd p = CHR '']''")
    case True
    then show ?thesis using "1.prems" by (subst (asm) class_loop.simps) (cases p; auto)
  next
    case F: False
    then obtain lo p1 where g: "getEsc p = Some (lo, p1)" using "1.prems"
      by (subst (asm) class_loop.simps) (auto split: option.splits if_splits)
    show ?thesis
    proof (cases "hd p1 = CHR ''-''")
      case True
      then obtain hi p2 where h: "getEsc (tl p1) = Some (hi, p2)"
        "class_loop (Suc n) (found \<or> lo \<le> r \<and> r \<le> hi) r p2 = Some (b, rest)"
        using "1.prems" F g by (subst (asm) class_loop.simps) (auto split: option.splits if_splits)
      from "1.IH"(1) [OF F g refl True h(1) refl h(2)] show ?thesis
        using getEsc_length [OF g] getEsc_length [OF h(1)] by simp
    next
      case False
      then have h: "class_loop (Suc n) (found \<or> lo = r) r p1 = Some (b, rest)"
        using "1.prems" F g by (subst (asm) class_loop.simps) (auto split: option.splits if_splits)
      from "1.IH"(2) [OF F g refl False h] show ?thesis using getEsc_length [OF g] by simp
    qed
  qed
qed

lemma match_class_length: "match_class r p = Some (b, rest) \<Longrightarrow> length rest < length p"
  using class_loop_length [of 0 False r _ _ rest]
  by (cases p) (auto simp: match_class_def Let_def split: option.splits if_splits dest!: class_loop_length)

function Match :: "string \<Rightarrow> string \<Rightarrow> bool" where
  "Match [] s = (s = [])"
| "Match (p # ps) s =
     (if p = CHR ''*'' then (if Match ps s then True else if s = [] then False else hd s \<noteq> slash \<and> Match (p # ps) (tl s))
      else if s = [] then False
      else if p = CHR ''?'' then hd s \<noteq> slash \<and> Match ps (tl s)
      else if p = CHR ''['' then
        (case match_class (hd s) ps of None \<Rightarrow> False | Some (ok, rest) \<Rightarrow> ok \<and> Match rest (tl s))
      else if p = CHR 0x5C then (case ps of [] \<Rightarrow> False | e # es \<Rightarrow> hd s = e \<and> Match es (tl s))
      else hd s = p \<and> Match ps (tl s))"
  by pat_completeness auto

termination
  by (relation "measure (\<lambda>(p, s). length p + length s)") (auto simp: neq_Nil_conv dest: match_class_length)

text \<open>\<open>filepath.Base\<close>: the last element of a path.\<close>

definition Base :: "string \<Rightarrow> string" where
  "Base s = (if s = [] then ''.'' else case filter (\<lambda>c. c \<noteq> []) (split_path s) of [] \<Rightarrow> ''/'' | cs \<Rightarrow> last cs)"

definition MatchIgnore :: "string \<Rightarrow> string list \<Rightarrow> bool" where
  "MatchIgnore relPath patterns = list_ex (\<lambda>pattern. Match pattern (Base relPath) \<or> HasPrefix relPath pattern) patterns"

section \<open>Events\<close>

datatype wop = OpWrite | OpRemove

record wevent =
  we_RelPath :: string
  we_Op :: wop
  we_SHA256 :: string
  we_Size :: int
  we_ModTime :: int

definition Create :: "32 word" where "Create = 1"
definition Write :: "32 word" where "Write = 2"
definition Remove :: "32 word" where "Remove = 4"
definition Rename :: "32 word" where "Rename = 8"
definition Chmod :: "32 word" where "Chmod = 16"

lemmas fsnotify_ops = Create_def Write_def Remove_def Rename_def Chmod_def

record watcher =
  w_fileHashes :: "string \<rightharpoonup> string"
  w_events :: "wevent list"
  w_debouncer :: "apath \<rightharpoonup> 32 word"
  w_watched :: "apath list"

record wconfig =
  wc_Root :: apath
  wc_IgnoreList :: "string list"

definition watcher_New :: watcher where
  "watcher_New = \<lparr>w_fileHashes = Map.empty, w_events = [], w_debouncer = Map.empty, w_watched = []\<rparr>"

definition shouldIgnore :: "wconfig \<Rightarrow> apath \<Rightarrow> bool" where
  "shouldIgnore c path = MatchIgnore (Rel (wc_Root c) path) (wc_IgnoreList c)"

text \<open>\<open>select\<close> with a default: an event that finds the channel full is dropped.\<close>

definition emit :: "wevent \<Rightarrow> watcher \<Rightarrow> watcher" where
  "emit e w = (if length (w_events w) < 100 then w\<lparr>w_events := w_events w @ [e]\<rparr> else w)"

text \<open>The interfaces \<open>Opener\<close> and \<open>Stater\<close>: the contents and the node of an absolute path.\<close>

type_synonym opener = "apath \<Rightarrow> byte list result"
type_synonym stater = "apath \<Rightarrow> node result"

definition calculateHash :: "(byte list \<Rightarrow> byte list) \<Rightarrow> opener \<Rightarrow> apath \<Rightarrow> string result" where
  "calculateHash H op path = (case op path of Inl e \<Rightarrow> Inl e | Inr d \<Rightarrow> Inr (EncodeToString (H d)))"

definition handleWrite :: "(byte list \<Rightarrow> byte list) \<Rightarrow> opener \<Rightarrow> stater \<Rightarrow> apath \<Rightarrow> string \<Rightarrow> watcher \<Rightarrow> watcher" where
  "handleWrite H op st fullPath relPath w =
     (case st fullPath of
        Inl _ \<Rightarrow> w
      | Inr info \<Rightarrow>
          if is_dir (n_kind info) then w\<lparr>w_watched := w_watched w @ [fullPath]\<rparr>
          else (case calculateHash H op fullPath of
             Inl _ \<Rightarrow> w
           | Inr sha \<Rightarrow>
               (let oldHash = (case w_fileHashes w relPath of None \<Rightarrow> [] | Some h \<Rightarrow> h) in
                if sha = oldHash then w
                else emit \<lparr>we_RelPath = relPath, we_Op = OpWrite, we_SHA256 = sha, we_Size = node_size (n_kind info),
                           we_ModTime = n_mtime info\<rparr>
                       (w\<lparr>w_fileHashes := (w_fileHashes w)(relPath \<mapsto> sha)\<rparr>))))"

definition handleRemove :: "string \<Rightarrow> watcher \<Rightarrow> watcher" where
  "handleRemove relPath w =
     emit \<lparr>we_RelPath = relPath, we_Op = OpRemove, we_SHA256 = [], we_Size = 0, we_ModTime = zero_UnixNano\<rparr>
       (w\<lparr>w_fileHashes := (w_fileHashes w)(relPath := None)\<rparr>)"

definition processEvent ::
  "(byte list \<Rightarrow> byte list) \<Rightarrow> wconfig \<Rightarrow> opener \<Rightarrow> stater \<Rightarrow> apath \<Rightarrow> 32 word \<Rightarrow> watcher \<Rightarrow> watcher" where
  "processEvent H c op st name bits w =
     (let relPath = Rel (wc_Root c) name in
      if bits AND Write = Write \<or> bits AND Create = Create then handleWrite H op st name relPath w
      else if bits AND Remove = Remove \<or> bits AND Rename = Rename then handleRemove relPath w
      else w)"

text \<open>
  One notification in \<open>watchLoop\<close>: the operations on the same name are collected until its timer fires.
\<close>

definition watch_notify :: "wconfig \<Rightarrow> apath \<Rightarrow> 32 word \<Rightarrow> watcher \<Rightarrow> watcher" where
  "watch_notify c name bits w =
     (if shouldIgnore c name then w
      else w\<lparr>w_debouncer := (w_debouncer w)(name \<mapsto>
             (case w_debouncer w name of Some old \<Rightarrow> old OR bits | None \<Rightarrow> bits))\<rparr>)"

definition watch_fire ::
  "(byte list \<Rightarrow> byte list) \<Rightarrow> wconfig \<Rightarrow> opener \<Rightarrow> stater \<Rightarrow> apath \<Rightarrow> watcher \<Rightarrow> watcher" where
  "watch_fire H c op st name w = (case w_debouncer w name of
       None \<Rightarrow> w
     | Some bits \<Rightarrow> processEvent H c op st name bits (w\<lparr>w_debouncer := (w_debouncer w)(name := None)\<rparr>))"

text \<open>The adapters of \<open>client/runner/watcher.go\<close>: the jail is given the path without the root.\<close>

definition jail_rel :: "Jail \<Rightarrow> apath \<Rightarrow> string" where
  "jail_rel j p = TrimPrefix (abs_path p) (abs_path (jail_root j) @ ''/'')"

definition jailOpener :: "cfs \<Rightarrow> Jail \<Rightarrow> opener" where
  "jailOpener f j p = (case jail_Open f j (jail_rel j p) of
       Inl e \<Rightarrow> Inl e
     | Inr q \<Rightarrow> (case lookup f q of
         Inl e \<Rightarrow> Inl e
       | Inr nd \<Rightarrow> (case n_kind nd of File d \<Rightarrow> Inr d | Dir _ \<Rightarrow> Inl EISDIR | _ \<Rightarrow> Inr [])))"

definition jailStater :: "cfs \<Rightarrow> Jail \<Rightarrow> stater" where
  "jailStater f j p = jail_Stat f j (jail_rel j p)"

section \<open>Steps\<close>

text \<open>The file system may be another one at every firing.\<close>

datatype wstep = Notify apath "32 word" | Fire apath cfs | Receive

fun wstep_run :: "(byte list \<Rightarrow> byte list) \<Rightarrow> wconfig \<Rightarrow> Jail \<Rightarrow> wstep \<Rightarrow> watcher \<Rightarrow> watcher" where
  "wstep_run H c j (Notify p bits) w = watch_notify c p bits w"
| "wstep_run H c j (Fire p f) w = watch_fire H c (jailOpener f j) (jailStater f j) p w"
| "wstep_run H c j Receive w = w\<lparr>w_events := tl (w_events w)\<rparr>"

section \<open>Properties\<close>

lemma events_emit: "x \<in> set (w_events (emit e w)) \<Longrightarrow> x = e \<or> x \<in> set (w_events w)"
  by (auto simp: emit_def split: if_splits)

lemma emit_debouncer [simp]: "w_debouncer (emit e w) = w_debouncer w"
  by (simp add: emit_def)

lemma handleWrite_events:
  "x \<in> set (w_events (handleWrite H op st p r w)) \<Longrightarrow> x \<in> set (w_events w) \<or>
     (we_RelPath x = r \<and> (\<exists>d. op p = Inr d \<and> we_SHA256 x = EncodeToString (H d)))"
  by (auto simp: handleWrite_def calculateHash_def Let_def split: sum.splits if_splits dest!: events_emit)

lemma processEvent_events:
  "x \<in> set (w_events (processEvent H c op st p bits w)) \<Longrightarrow> x \<in> set (w_events w) \<or>
     (we_RelPath x = Rel (wc_Root c) p \<and> (we_Op x = OpWrite \<longrightarrow> (\<exists>d. op p = Inr d \<and> we_SHA256 x = EncodeToString (H d))))"
  by (auto simp: processEvent_def Let_def handleRemove_def split: if_splits dest!: events_emit handleWrite_events)

lemma processEvent_debouncer [simp]: "w_debouncer (processEvent H c op st p bits w) = w_debouncer w"
  by (auto simp: processEvent_def Let_def handleRemove_def handleWrite_def split: sum.splits)

definition event_ok :: "(byte list \<Rightarrow> byte list) \<Rightarrow> wconfig \<Rightarrow> Jail \<Rightarrow> wstep list \<Rightarrow> wevent \<Rightarrow> bool" where
  "event_ok H c j xs e \<longleftrightarrow> (\<exists>p. we_RelPath e = Rel (wc_Root c) p \<and> \<not> shouldIgnore c p \<and>
     (we_Op e = OpWrite \<longrightarrow> (\<exists>f d. Fire p f \<in> set xs \<and> jailOpener f j p = Inr d \<and> we_SHA256 e = EncodeToString (H d))))"

definition watcher_ok :: "(byte list \<Rightarrow> byte list) \<Rightarrow> wconfig \<Rightarrow> Jail \<Rightarrow> wstep list \<Rightarrow> watcher \<Rightarrow> bool" where
  "watcher_ok H c j xs w \<longleftrightarrow> (\<forall>p \<in> dom (w_debouncer w). \<not> shouldIgnore c p) \<and> length (w_events w) \<le> 100 \<and>
     (\<forall>e \<in> set (w_events w). event_ok H c j xs e)"

lemma event_ok_mono: "event_ok H c j xs e \<Longrightarrow> set xs \<subseteq> set ys \<Longrightarrow> event_ok H c j ys e"
  unfolding event_ok_def by blast

lemma processEvent_length: "length (w_events w) \<le> 100 \<Longrightarrow> length (w_events (processEvent H c op st p bits w)) \<le> 100"
  by (auto simp: processEvent_def Let_def handleRemove_def handleWrite_def emit_def split: sum.splits)

lemma watcher_ok_step:
  assumes "watcher_ok H c j xs w"
  shows "watcher_ok H c j (xs @ [x]) (wstep_run H c j x w)"
proof (cases x)
  case (Notify p bits)
  then show ?thesis using assms event_ok_mono [of H c j xs _ "xs @ [x]"]
    by (auto simp: watcher_ok_def watch_notify_def split: if_splits)
next
  case Receive
  have tl: "e \<in> set (tl (w_events w)) \<Longrightarrow> e \<in> set (w_events w)" for e by (cases "w_events w") auto
  have "event_ok H c j (xs @ [x]) e" if "e \<in> set (w_events w)" for e
    using that assms event_ok_mono [of H c j xs e "xs @ [x]"] by (auto simp: watcher_ok_def)
  then show ?thesis using Receive assms tl by (auto simp: watcher_ok_def)
next
  case (Fire p f)
  show ?thesis
  proof (cases "w_debouncer w p")
    case None
    then show ?thesis using Fire assms event_ok_mono [of H c j xs _ "xs @ [x]"]
      by (auto simp: watcher_ok_def watch_fire_def)
  next
    case (Some bits)
    let ?w = "w\<lparr>w_debouncer := (w_debouncer w)(p := None)\<rparr>"
    have np: "\<not> shouldIgnore c p" using assms Some by (auto simp: watcher_ok_def)
    have r: "wstep_run H c j x w = processEvent H c (jailOpener f j) (jailStater f j) p bits ?w"
      using Fire Some by (simp add: watch_fire_def)
    have "event_ok H c j (xs @ [x]) e" if "e \<in> set (w_events (wstep_run H c j x w))" for e
    proof -
      from that [unfolded r] have "e \<in> set (w_events w) \<or> event_ok H c j (xs @ [x]) e"
        using processEvent_events [of e H c _ _ p bits ?w] np Fire unfolding event_ok_def by fastforce
      then show ?thesis using assms event_ok_mono [of H c j xs e "xs @ [x]"] by (auto simp: watcher_ok_def)
    qed
    moreover have "length (w_events (wstep_run H c j x w)) \<le> 100"
      unfolding r by (rule processEvent_length) (use assms in \<open>simp add: watcher_ok_def\<close>)
    ultimately show ?thesis using assms by (auto simp: watcher_ok_def r split: if_splits)
  qed
qed

lemma watcher_ok_run: "watcher_ok H c j xs (fold (wstep_run H c j) xs watcher_New)"
proof (induction xs rule: rev_induct)
  case Nil
  then show ?case by (simp add: watcher_ok_def watcher_New_def)
next
  case (snoc x xs)
  then show ?case using watcher_ok_step [of H c j xs _ x] by simp
qed

text \<open>
  The watcher reports only what happened: after any sequence of notifications, timers and reads of the
  channel, at most 100 events wait, none of them is about an ignored path, and every write event carries
  the hash of the contents that the jail read at this path when the timer fired.
\<close>

theorem watcher_events_sound:
  "length (w_events (fold (wstep_run H c j) xs watcher_New)) \<le> 100 \<and>
   (\<forall>e \<in> set (w_events (fold (wstep_run H c j) xs watcher_New)).
      \<exists>p. we_RelPath e = Rel (wc_Root c) p \<and> \<not> shouldIgnore c p \<and>
       (we_Op e = OpWrite \<longrightarrow> (\<exists>f d. Fire p f \<in> set xs \<and> jailOpener f j p = Inr d \<and> we_SHA256 e = EncodeToString (H d))))"
  using watcher_ok_run [of H c j xs] unfolding watcher_ok_def event_ok_def by blast

definition demo_wconfig :: wconfig where
  "demo_wconfig = \<lparr>wc_Root = [''home'', ''u''], wc_IgnoreList = [''*.tmp'', ''.git'', ''[!-a]?'']\<rparr>"

theorem watcher_events_sound_witness:
  "let w = fold (wstep_run (\<lambda>d. d) demo_wconfig demo_jail)
         [Notify [''home'', ''u'', ''a''] Write, Notify [''home'', ''u'', ''b.tmp''] Create, Fire [''home'', ''u'', ''a''] demo_fs,
          Fire [''home'', ''u'', ''b.tmp''] demo_fs] watcher_New
   in length (w_events w) \<le> 100 \<and> w_events w = [\<lparr>we_RelPath = ''a'', we_Op = OpWrite, we_SHA256 = ''0102'', we_Size = 2, we_ModTime = 5\<rparr>]"
proof -
  let ?xs = "[Notify [''home'', ''u'', ''a''] Write, Notify [''home'', ''u'', ''b.tmp''] Create, Fire [''home'', ''u'', ''a''] demo_fs,
          Fire [''home'', ''u'', ''b.tmp''] demo_fs]"
  have "w_events (fold (wstep_run (\<lambda>d. d) demo_wconfig demo_jail) ?xs watcher_New) =
     [\<lparr>we_RelPath = ''a'', we_Op = OpWrite, we_SHA256 = ''0102'', we_Size = 2, we_ModTime = 5\<rparr>]" by code_simp
  then show ?thesis using watcher_events_sound [of "\<lambda>d. d" demo_wconfig demo_jail ?xs] by (simp only: Let_def)
qed

text \<open>
  A deletion within the debounce window is lost: a file that is written and then removed before its timer
  fires is handled as a write, its \<open>Stat\<close> fails, and nothing is reported, although an earlier
  version of it may have been reported before.
\<close>

theorem write_then_remove_lost:
  assumes "\<not> shouldIgnore c p" "w_debouncer w p = None" "jailStater f j p = Inl e"
  shows "fold (wstep_run H c j) [Notify p Write, Notify p Remove, Fire p f] w = w"
  using assms
  by (simp add: watch_notify_def watch_fire_def processEvent_def handleWrite_def fsnotify_ops fun_upd_idem)

theorem write_then_remove_lost_witness:
  "let w = watcher_New\<lparr>w_fileHashes := [''old'' \<mapsto> ''aa'']\<rparr>
   in fold (wstep_run (\<lambda>d. d) demo_wconfig demo_jail)
        [Notify [''home'', ''u'', ''old''] Write, Notify [''home'', ''u'', ''old''] Remove, Fire [''home'', ''u'', ''old''] demo_fs] w = w"
proof -
  have "\<not> shouldIgnore demo_wconfig [''home'', ''u'', ''old'']"
    "jailStater demo_fs demo_jail [''home'', ''u'', ''old''] = Inl ErrNotExist" by code_simp+
  from write_then_remove_lost [OF this(1) _ this(2)] show ?thesis by (simp add: watcher_New_def)
qed

text \<open>
  A change that finds the channel full is lost although its hash is recorded: later firings with the same
  contents report nothing, even when the channel has been emptied.
\<close>

lemma full_channel_loses_change:
  assumes "length (w_events w) = 100" "st p = Inr nd" "\<not> is_dir (n_kind nd)" "op p = Inr d" "EncodeToString (H d) \<noteq> []"
  shows "handleWrite H op st p r (handleWrite H op st p r w\<lparr>w_events := []\<rparr>) =
    w\<lparr>w_events := [], w_fileHashes := (w_fileHashes w)(r \<mapsto> EncodeToString (H d))\<rparr>
    \<or> w_fileHashes w r = Some (EncodeToString (H d))"
  using assms by (auto simp: handleWrite_def calculateHash_def emit_def Let_def split: option.splits)

end
