(* ===== verification/Runner.thy ===== *)
theory Runner
  imports BlobTransfer Suppress Subscription Watcher
begin

text \<open>
  The client's orchestrator (\<open>internal/client/runner\<close>: \<open>app.go\<close>, \<open>snapshot.go\<close>,
  \<open>listdir.go\<close>, \<open>watcher.go\<close>): local changes are uploaded and reported, commands of the
  server are executed and acknowledged, directory listings and snapshots are answered. The interfaces
  \<open>TransferClient\<close> and \<open>Sender\<close> are arguments. The handler of a command runs in a goroutine
  of its own: \<open>HandleEnvelope\<close> adds it to the started ones, and any started one may run next.
\<close>

section \<open>State and interfaces\<close>

definition suppressTTL :: int where "suppressTTL = 2 * 1000000000"

record 'n runner =
  rn_fs :: cfs
  rn_net :: 'n
  rn_reg :: Registry
  rn_supp :: Suppressor
  rn_clock :: "nat \<Rightarrow> int"
  rn_ticks :: nat
  rn_started :: "FileSyncCommand list"

text \<open>\<open>Upload\<close> and \<open>Download\<close>, and \<open>Send\<close>.\<close>

type_synonym 'n upload_fn = "string \<Rightarrow> cfs \<times> 'n \<Rightarrow> UploadResult result \<times> (cfs \<times> 'n)"
type_synonym 'n download_fn = "string \<Rightarrow> string \<Rightarrow> cfs \<times> 'n \<Rightarrow> unit result \<times> (cfs \<times> 'n)"
type_synonym 'n client_send = "Envelope \<Rightarrow> 'n \<Rightarrow> unit result \<times> 'n"

record 'n rconfig =
  rc_Jail :: Jail
  rc_Upload :: "'n upload_fn"
  rc_Download :: "'n download_fn"
  rc_Send :: "'n client_send"
  rc_IgnoreList :: "string list"

definition rn_now :: "'n runner \<Rightarrow> int \<times> 'n runner" where
  "rn_now s = (rn_clock s (rn_ticks s), s\<lparr>rn_ticks := Suc (rn_ticks s)\<rparr>)"

definition rn_Add :: "string \<Rightarrow> string \<Rightarrow> int \<Rightarrow> 'n runner \<Rightarrow> 'n runner" where
  "rn_Add rel sha ttl s = (case rn_now s of (now, s1) \<Rightarrow> s1\<lparr>rn_supp := sup_Add now rel sha ttl (rn_supp s1)\<rparr>)"

definition rn_Send :: "'n rconfig \<Rightarrow> Envelope \<Rightarrow> 'n runner \<Rightarrow> unit result \<times> 'n runner" where
  "rn_Send c env s = (case rc_Send c env (rn_net s) of (r, n1) \<Rightarrow> (r, s\<lparr>rn_net := n1\<rparr>))"

section \<open>Commands of the server\<close>

definition ack_env :: "FileSyncCommand \<Rightarrow> string \<Rightarrow> string \<Rightarrow> Envelope" where
  "ack_env cmd status errMsg = \<lparr>Type = TypeFileSyncAck, CorrelationID = [],
     Payload = enc_FileSyncAck \<lparr>ack_PairID = cmd_PairID cmd, ack_Side = cmd_Side cmd, ack_RelPath = cmd_RelPath cmd,
       ack_SHA256 = cmd_SHA256 cmd, ack_Status = status, ack_Error = errMsg\<rparr>\<rparr>"

definition sendAck :: "'n rconfig \<Rightarrow> FileSyncCommand \<Rightarrow> string \<Rightarrow> string \<Rightarrow> 'n runner \<Rightarrow> 'n runner" where
  "sendAck c cmd status errMsg s = snd (rn_Send c (ack_env cmd status errMsg) s)"

definition handleSyncCommand :: "'n rconfig \<Rightarrow> FileSyncCommand \<Rightarrow> 'n runner \<Rightarrow> 'n runner" where
  "handleSyncCommand c cmd s =
     (case lookupSubscription (cmd_PairID cmd) (rn_reg s) of
        None \<Rightarrow> sendAck c cmd ''failed'' ''no subscription'' s
      | Some sub \<Rightarrow>
          (let jailRel = Join (su_RootSubpath sub) (cmd_RelPath cmd) in
           if cmd_Op cmd = ''fetch'' then
             (let s1 = rn_Add jailRel (cmd_SHA256 cmd) suppressTTL s in
              case rc_Download c jailRel (cmd_SHA256 cmd) (rn_fs s1, rn_net s1) of (r, (f2, n2)) \<Rightarrow>
                (let s2 = s1\<lparr>rn_fs := f2, rn_net := n2\<rparr> in
                 case r of Inl e \<Rightarrow> sendAck c cmd ''failed'' (err_Error e) s2 | Inr _ \<Rightarrow> sendAck c cmd ''ok'' [] s2))
           else if cmd_Op cmd = ''delete'' then
             (let s1 = rn_Add jailRel [] suppressTTL s in
              case jail_Remove (rc_Jail c) jailRel (rn_fs s1) of (r, f2) \<Rightarrow>
                (let s2 = s1\<lparr>rn_fs := f2\<rparr> in
                 case r of Inl e \<Rightarrow> if \<not> errors_Is e ErrNotExist then sendAck c cmd ''failed'' (err_Error e) s2
                                    else sendAck c cmd ''ok'' [] s2
                 | Inr _ \<Rightarrow> sendAck c cmd ''ok'' [] s2))
           else if cmd_Op cmd = ''rename'' then
             (let newJailRel = Join (su_RootSubpath sub) (cmd_NewRelPath cmd);
                  s1 = rn_Add newJailRel [] suppressTTL (rn_Add jailRel [] suppressTTL s) in
              case jail_Rename (rc_Jail c) jailRel newJailRel (rn_fs s1) of (r, f2) \<Rightarrow>
                (let s2 = s1\<lparr>rn_fs := f2\<rparr> in
                 case r of Inl e \<Rightarrow> sendAck c cmd ''failed'' (err_Error e) s2 | Inr _ \<Rightarrow> sendAck c cmd ''ok'' [] s2))
           else sendAck c cmd ''failed'' (''unknown op: '' @ cmd_Op cmd) s))"

section \<open>Local changes\<close>

definition handleLocalChange :: "'n rconfig \<Rightarrow> FileChangedEvent \<Rightarrow> 'n runner \<Rightarrow> 'n runner" where
  "handleLocalChange c ev s =
     (case rn_now s of (now, s0) \<Rightarrow>
      (case (if ev_Op ev = ''write'' then HitWithSHA now (ev_RelPath ev) (ev_SHA256 ev) (rn_supp s0)
             else if ev_Op ev = ''delete'' then Hit now (ev_RelPath ev) (rn_supp s0)
             else (False, rn_supp s0)) of (suppressed, supp1) \<Rightarrow>
       (let s1 = s0\<lparr>rn_supp := supp1\<rparr> in
        if suppressed then s1
        else (case (if ev_Op ev = ''write'' then
                (case lookupSubscription (ev_PairID ev) (rn_reg s1) of
                   None \<Rightarrow> (False, s1)
                 | Some sub \<Rightarrow> (case rc_Upload c (Join (su_RootSubpath sub) (ev_RelPath ev)) (rn_fs s1, rn_net s1) of
                     (r, (f2, n2)) \<Rightarrow> (\<not> isl r, s1\<lparr>rn_fs := f2, rn_net := n2\<rparr>)))
              else (True, s1)) of (go, s2) \<Rightarrow>
          if \<not> go then s2
          else snd (rn_Send c \<lparr>Type = TypeFileChangedEvent, CorrelationID = [], Payload = enc_FileChangedEvent ev\<rparr> s2)))))"

text \<open>\<open>translateLoop\<close>: one event of the watcher becomes one event per pair it belongs to.\<close>

definition translate :: "Registry \<Rightarrow> wevent \<Rightarrow> FileChangedEvent list" where
  "translate reg ev = map (\<lambda>m. \<lparr>ev_PairID = re_PairID m, ev_Side = re_Side m, ev_RelPath = re_SubRel m,
       ev_SHA256 = we_SHA256 ev, ev_Size = we_Size ev, ev_ModTime = we_ModTime ev,
       ev_Op = (if we_Op ev = OpRemove then ''delete'' else ''write''), ev_IsDir = False\<rparr>)
     (reg_Resolve (we_RelPath ev) reg)"

section \<open>Listings\<close>

definition dir_info :: "cfs \<Rightarrow> Jail \<Rightarrow> string \<Rightarrow> string \<Rightarrow> node result" where
  "dir_info f j rel name = (case jail_Resolve f j rel of Inl e \<Rightarrow> Inl e | Inr p \<Rightarrow> os_Lstat f (p @ [name]))"

definition HandleListDir :: "'n rconfig \<Rightarrow> cfs \<Rightarrow> ListDirRequest \<Rightarrow> ListDirResponse" where
  "HandleListDir c f req =
     (case jail_ReadDir f (rc_Jail c) (ldr_RelPath req) of
        Inl e \<Rightarrow> if errors_Is e ErrPathEscape
                 then \<lparr>ld_Entries = [], ld_Error = ''path escape: '' @ ldr_RelPath req\<rparr>
                 else \<lparr>ld_Entries = [], ld_Error = err_Error e\<rparr>
      | Inr entries \<Rightarrow> \<lparr>ld_Entries = sort_key de_Name (List.map_filter (\<lambda>(name, nd).
            (case dir_info f (rc_Jail c) (ldr_RelPath req) name of
               Inl _ \<Rightarrow> None
             | Inr info \<Rightarrow> Some \<lparr>de_Name = name, de_IsDir = is_dir (n_kind nd), de_Size = node_size (n_kind info),
                                 de_ModTime = n_mtime info\<rparr>)) entries), ld_Error = []\<rparr>)"

definition maxScanFiles :: nat where "maxScanFiles = 100000"
definition maxScanDepth :: nat where "maxScanDepth = 32"

definition computeSHA :: "(byte list \<Rightarrow> byte list) \<Rightarrow> cfs \<Rightarrow> Jail \<Rightarrow> string \<Rightarrow> string result" where
  "computeSHA H f j jailRel = (case jail_Open f j jailRel of
       Inl e \<Rightarrow> if errors_Is e ErrUnsupportedFileType then Inr [] else Inl e
     | Inr q \<Rightarrow> (case read_all f q of Inl e \<Rightarrow> Inl e | Inr d \<Rightarrow> Inr (EncodeToString (H d))))"

text \<open>
  The recursive scan. \<open>k\<close> is the number of levels left, \<open>maxScanDepth + 1 - depth\<close>; \<open>ctx\<close>
  says at which directories the context is found cancelled.
\<close>

type_synonym scan = "FileSnapshot list \<times> nat"

function walkScan :: "(byte list \<Rightarrow> byte list) \<Rightarrow> string list \<Rightarrow> Jail \<Rightarrow> cfs \<Rightarrow> (string \<Rightarrow> err option) \<Rightarrow> string \<Rightarrow>
    nat \<Rightarrow> string \<Rightarrow> scan \<Rightarrow> err option \<times> scan"
  and scan_entries :: "(byte list \<Rightarrow> byte list) \<Rightarrow> string list \<Rightarrow> Jail \<Rightarrow> cfs \<Rightarrow> (string \<Rightarrow> err option) \<Rightarrow> string \<Rightarrow>
    nat \<Rightarrow> string \<Rightarrow> string \<Rightarrow> (string \<times> node) list \<Rightarrow> scan \<Rightarrow> err option \<times> scan" where
  "walkScan H ign j f ctx root 0 subRel acc = (None, acc)"
| "walkScan H ign j f ctx root (Suc k) subRel acc =
     (if snd acc \<ge> maxScanFiles then (None, acc)
      else case ctx subRel of Some e \<Rightarrow> (Some e, acc)
      | None \<Rightarrow>
        (let jailRel = (if subRel = ''.'' then root else Join root subRel) in
         case jail_ReadDir f j jailRel of
           Inl e \<Rightarrow> (Some e, acc)
         | Inr es \<Rightarrow> scan_entries H ign j f ctx root k jailRel subRel es acc))"
| "scan_entries H ign j f ctx root k jailRel subRel [] acc = (None, acc)"
| "scan_entries H ign j f ctx root k jailRel subRel ((name, nd) # es) acc =
     (let entrySubRel = (if subRel = ''.'' then name else Join subRel name);
          entryJailRel = Join root entrySubRel
      in if MatchIgnore entryJailRel ign then scan_entries H ign j f ctx root k jailRel subRel es acc
         else case dir_info f j jailRel name of
           Inl _ \<Rightarrow> scan_entries H ign j f ctx root k jailRel subRel es acc
         | Inr info \<Rightarrow>
             if is_dir (n_kind nd) then
               (case walkScan H ign j f ctx root k entrySubRel
                  (fst acc @ [\<lparr>sn_RelPath = entrySubRel, sn_SHA256 = [], sn_Size = 0, sn_ModTime = n_mtime info, sn_IsDir = True\<rparr>],
                   Suc (snd acc)) of
                  (Some e, acc1) \<Rightarrow> (Some e, acc1)
                | (None, acc1) \<Rightarrow> scan_entries H ign j f ctx root k jailRel subRel es acc1)
             else if unsupportedModeMask (n_kind info) then scan_entries H ign j f ctx root k jailRel subRel es acc
             else (case computeSHA H f j entryJailRel of
                 Inl _ \<Rightarrow> scan_entries H ign j f ctx root k jailRel subRel es acc
               | Inr sha \<Rightarrow> scan_entries H ign j f ctx root k jailRel subRel es
                   (fst acc @ [\<lparr>sn_RelPath = entrySubRel, sn_SHA256 = sha, sn_Size = node_size (n_kind info),
                                sn_ModTime = n_mtime info, sn_IsDir = False\<rparr>], Suc (snd acc))))"
  by pat_completeness auto

termination
  by (relation "measures [\<lambda>x. case x of Inl (H, ign, j, f, ctx, root, k, subRel, acc) \<Rightarrow> 2 * k
        | Inr (H, ign, j, f, ctx, root, k, jr, subRel, es, acc) \<Rightarrow> 2 * k + 1,
      \<lambda>x. case x of Inl _ \<Rightarrow> 0 | Inr (H, ign, j, f, ctx, root, k, jr, subRel, es, acc) \<Rightarrow> length es]") auto

definition HandleListFiles ::
  "(byte list \<Rightarrow> byte list) \<Rightarrow> 'n rconfig \<Rightarrow> (string \<Rightarrow> err option) \<Rightarrow> ListFilesRequest \<Rightarrow> 'n runner \<Rightarrow> FileSnapshot list" where
  "HandleListFiles H c ctx req s =
     (case lookupSubscription (lfr_PairID req) (rn_reg s) of
        None \<Rightarrow> []
      | Some sub \<Rightarrow>
          (let root = (if su_RootSubpath sub = [] then ''.'' else su_RootSubpath sub)
           in fst (snd (walkScan H (rc_IgnoreList c) (rc_Jail c) (rn_fs s) ctx root (maxScanDepth + 1) ''.'' ([], 0)))))"

section \<open>HandleEnvelope\<close>

definition HandleEnvelope ::
  "(byte list \<Rightarrow> byte list) \<Rightarrow> 'n rconfig \<Rightarrow> (string \<Rightarrow> err option) \<Rightarrow> Envelope \<Rightarrow> 'n runner \<Rightarrow> unit result \<times> 'n runner" where
  "HandleEnvelope H c ctx env s =
     (if Type env = TypeSubscribePair then
        (case dec_SubscribePair (Payload env) of
           Inl e \<Rightarrow> (Inl e, s)
         | Inr sub \<Rightarrow> (Inr (), s\<lparr>rn_reg := reg_Apply sub (rn_reg s)\<rparr>))
      else if Type env = TypeFileSyncCommand then
        (case dec_FileSyncCommand (Payload env) of
           Inl e \<Rightarrow> (Inl e, s)
         | Inr cmd \<Rightarrow> (Inr (), s\<lparr>rn_started := rn_started s @ [cmd]\<rparr>))
      else if Type env = TypeListDirRequest then
        (case dec_ListDirRequest (Payload env) of
           Inl e \<Rightarrow> (Inl e, s)
         | Inr req \<Rightarrow> rn_Send c \<lparr>Type = TypeListDirResponse, CorrelationID = CorrelationID env,
             Payload = enc_ListDirResponse (HandleListDir c (rn_fs s) req)\<rparr> s)
      else if Type env = TypeListFilesRequest then
        (case dec_ListFilesRequest (Payload env) of
           Inl e \<Rightarrow> (Inl e, s)
         | Inr req \<Rightarrow> rn_Send c \<lparr>Type = TypeListFilesResponse, CorrelationID = CorrelationID env,
             Payload = enc_ListFilesResponse (HandleListFiles H c ctx req s)\<rparr> s)
      else (Inr (), s))"

text \<open>One of the started goroutines runs.\<close>

definition run_started :: "'n rconfig \<Rightarrow> nat \<Rightarrow> 'n runner \<Rightarrow> 'n runner" where
  "run_started c i s = (if i < length (rn_started s)
     then handleSyncCommand c (rn_started s ! i) (s\<lparr>rn_started := take i (rn_started s) @ drop (Suc i) (rn_started s)\<rparr>)
     else s)"

section \<open>What the runner relies on\<close>

text \<open>
  The interface \<open>TransferClient\<close>: a download that reports success has installed contents with the
  requested hash, and one that fails has left the target as it was.
\<close>

locale transfer_client =
  fixes dl :: "'n download_fn" and j :: Jail and H :: "byte list \<Rightarrow> byte list"
  assumes dl_ok: "jail_inv (jail_root j) f \<Longrightarrow> list_all proper cs \<Longrightarrow> cs \<noteq> [] \<Longrightarrow>
      (\<And>nd. lookup f (jail_root j @ partial_comps cs) = Inr nd \<Longrightarrow> n_kind nd \<noteq> Special) \<Longrightarrow>
      dl (rel_path cs) sha (f, n) = (Inr (), (f', n')) \<Longrightarrow>
      \<exists>nd data. lookup f' (jail_root j @ cs) = Inr nd \<and> n_kind nd = File data \<and> EncodeToString (H data) = sha"
    and dl_err: "jail_inv (jail_root j) f \<Longrightarrow> list_all proper cs \<Longrightarrow> cs \<noteq> [] \<Longrightarrow>
      (\<And>nd. lookup f (jail_root j @ partial_comps cs) = Inr nd \<Longrightarrow> n_kind nd \<noteq> Special) \<Longrightarrow>
      dl (rel_path cs) sha (f, n) = (Inl e, (f', n')) \<Longrightarrow>
      lookup f' (jail_root j @ cs) = lookup f (jail_root j @ cs)"
begin

text \<open>The acknowledgement of a fetch tells the truth.\<close>

lemma fetch_truthful:
  assumes "rc_Download c = dl" "lookupSubscription (cmd_PairID cmd) (rn_reg s) = Some sub" "cmd_Op cmd = ''fetch''"
    and "Join (su_RootSubpath sub) (cmd_RelPath cmd) = rel_path cs" "list_all proper cs" "cs \<noteq> []"
    and "jail_inv (jail_root j) (rn_fs s)"
    and "\<And>nd. lookup (rn_fs s) (jail_root j @ partial_comps cs) = Inr nd \<Longrightarrow> n_kind nd \<noteq> Special"
    and "dl (rel_path cs) (cmd_SHA256 cmd) (rn_fs s, rn_net s) = (res, (f1, n1))"
  shows "rn_fs (handleSyncCommand c cmd s) = f1 \<and>
    rn_net (handleSyncCommand c cmd s) = snd (rc_Send c (ack_env cmd (if isl res then ''failed'' else ''ok'') (if isl res then err_Error (projl res) else [])) n1) \<and>
    (if isl res then lookup f1 (jail_root j @ cs) = lookup (rn_fs s) (jail_root j @ cs)
     else (\<exists>nd data. lookup f1 (jail_root j @ cs) = Inr nd \<and> n_kind nd = File data \<and> EncodeToString (H data) = cmd_SHA256 cmd))"
proof -
  define s1 where "s1 = rn_Add (rel_path cs) (cmd_SHA256 cmd) suppressTTL s"
  have s1: "rn_fs s1 = rn_fs s" "rn_net s1 = rn_net s" by (simp_all add: s1_def rn_Add_def rn_now_def)
  have h: "handleSyncCommand c cmd s = (case res of Inl e \<Rightarrow> sendAck c cmd ''failed'' (err_Error e) (s1\<lparr>rn_fs := f1, rn_net := n1\<rparr>)
      | Inr _ \<Rightarrow> sendAck c cmd ''ok'' [] (s1\<lparr>rn_fs := f1, rn_net := n1\<rparr>))"
    using assms(1-4,9) s1 by (cases res) (simp_all add: handleSyncCommand_def Let_def s1_def)
  show ?thesis
  proof (cases res)
    case (Inl e)
    have "lookup f1 (jail_root j @ cs) = lookup (rn_fs s) (jail_root j @ cs)"
      by (rule dl_err [OF assms(7,5,6,8) assms(9) [unfolded Inl]])
    then show ?thesis using h Inl by (simp add: sendAck_def rn_Send_def split: prod.splits)
  next
    case (Inr u)
    have "\<exists>nd data. lookup f1 (jail_root j @ cs) = Inr nd \<and> n_kind nd = File data \<and> EncodeToString (H data) = cmd_SHA256 cmd"
      by (rule dl_ok [OF assms(7,5,6,8)]) (use assms(9) Inr in auto)
    then show ?thesis using h Inr by (simp add: sendAck_def rn_Send_def split: prod.splits)
  qed
qed

end

text \<open>The transfer client of the program satisfies it, over any HTTP client.\<close>

interpretation rundl: transfer_client "Download H http tc" "tc_Jail tc" H for H http tc
proof (unfold_locales, goal_cases)
  case (1 f cs sha n f' n')
  from Download_cases [OF 1(1,2,3) 1(4) 1(5)] show ?case by blast
next
  case (2 f cs sha n e f' n')
  from Download_cases [OF 2(1,2,3) 2(4) 2(5)] show ?case by blast
qed

section \<open>Echoes\<close>

lemma sendAck_simps [simp]:
  "rn_fs (sendAck c cmd st m s) = rn_fs s" "rn_supp (sendAck c cmd st m s) = rn_supp s"
  "rn_clock (sendAck c cmd st m s) = rn_clock s" "rn_reg (sendAck c cmd st m s) = rn_reg s"
  by (auto simp: sendAck_def rn_Send_def split: prod.splits)

lemma rn_Add_simps [simp]:
  "rn_fs (rn_Add rel sha ttl s) = rn_fs s" "rn_reg (rn_Add rel sha ttl s) = rn_reg s"
  "rn_clock (rn_Add rel sha ttl s) = rn_clock s"
  "rn_supp (rn_Add rel sha ttl s) = sup_Add (rn_clock s (rn_ticks s)) rel sha ttl (rn_supp s)"
  by (simp_all add: rn_Add_def rn_now_def)

lemma fetch_supp:
  assumes "lookupSubscription (cmd_PairID cmd) (rn_reg s) = Some sub" "cmd_Op cmd = ''fetch''"
  shows "rn_supp (handleSyncCommand c cmd s) = sup_Add (rn_clock s (rn_ticks s))
      (Join (su_RootSubpath sub) (cmd_RelPath cmd)) (cmd_SHA256 cmd) suppressTTL (rn_supp s) \<and>
    rn_reg (handleSyncCommand c cmd s) = rn_reg s"
  using assms by (auto simp: handleSyncCommand_def Let_def split: prod.splits sum.splits)

lemma suppressed_write:
  assumes "ev_Op ev = ''write''" "fst (HitWithSHA (rn_clock s (rn_ticks s)) (ev_RelPath ev) (ev_SHA256 ev) (rn_supp s))"
  shows "rn_net (handleLocalChange c ev s) = rn_net s \<and> rn_fs (handleLocalChange c ev s) = rn_fs s"
  using assms by (auto simp: handleLocalChange_def rn_now_def Let_def split: prod.splits)

lemma reported_write:
  assumes "ev_Op ev = ''write''" "\<not> fst (HitWithSHA (rn_clock s (rn_ticks s)) (ev_RelPath ev) (ev_SHA256 ev) (rn_supp s))"
    and "lookupSubscription (ev_PairID ev) (rn_reg s) = Some sub"
    and "rc_Upload c (Join (su_RootSubpath sub) (ev_RelPath ev)) (rn_fs s, rn_net s) = (Inr u, (f2, n2))"
  shows "rn_net (handleLocalChange c ev s) =
     snd (rc_Send c \<lparr>Type = TypeFileChangedEvent, CorrelationID = [], Payload = enc_FileChangedEvent ev\<rparr> n2)"
  using assms by (auto simp: handleLocalChange_def rn_now_def Let_def rn_Send_def split: prod.splits)

section \<open>Properties\<close>

text \<open>
  C34. The acknowledgement of a fetch is truthful: below a root without symbolic links, and with no device or pipe
  at the \<open>.partial\<close> name of the file, what a fetch does to the network is the transfer of the blob and then one message, the acknowledgement of the command; if it says
  \<open>ok\<close>, the file holds contents with the commanded hash, and if it says \<open>failed\<close>, with the error of the
  transfer, the file is as it was, whatever the server of the blobs answers and whichever calls fail.
\<close>

theorem fetch_ack_truthful:
  assumes "rc_Download c = Download H http tc" "lookupSubscription (cmd_PairID cmd) (rn_reg s) = Some sub"
    and "cmd_Op cmd = ''fetch''" "Join (su_RootSubpath sub) (cmd_RelPath cmd) = rel_path cs" "list_all proper cs" "cs \<noteq> []"
    and "jail_inv (jail_root (tc_Jail tc)) (rn_fs s)"
    and "\<And>nd. lookup (rn_fs s) (jail_root (tc_Jail tc) @ partial_comps cs) = Inr nd \<Longrightarrow> n_kind nd \<noteq> Special"
    and "Download H http tc (rel_path cs) (cmd_SHA256 cmd) (rn_fs s, rn_net s) = (res, (f1, n1))"
  shows "rn_fs (handleSyncCommand c cmd s) = f1 \<and>
    rn_net (handleSyncCommand c cmd s) = snd (rc_Send c (ack_env cmd (if isl res then ''failed'' else ''ok'') (if isl res then err_Error (projl res) else [])) n1) \<and>
    (if isl res then lookup f1 (jail_root (tc_Jail tc) @ cs) = lookup (rn_fs s) (jail_root (tc_Jail tc) @ cs)
     else (\<exists>nd data. lookup f1 (jail_root (tc_Jail tc) @ cs) = Inr nd \<and> n_kind nd = File data \<and> EncodeToString (H data) = cmd_SHA256 cmd))"
  by (rule rundl.fetch_truthful [OF assms])

definition demo_rconfig :: "Envelope list rconfig" where
  "demo_rconfig = \<lparr>rc_Jail = demo_jail,
     rc_Upload = (\<lambda>rel (f, n). case Upload toy_hash fixed_http demo_tclient rel f f n of (r, n1) \<Rightarrow> (r, (f, n1))),
     rc_Download = Download toy_hash fixed_http demo_tclient, rc_Send = (\<lambda>e n. (Inr (), n @ [e])), rc_IgnoreList = []\<rparr>"

definition demo_runner :: "string \<Rightarrow> Envelope list runner" where
  "demo_runner subpath = \<lparr>rn_fs = demo_fs, rn_net = [],
     rn_reg = reg_Apply \<lparr>sp_PairID = ''p1'', sp_Side = ''b'', sp_RootSubpath = subpath, sp_Direction = ''a_to_b''\<rparr> NewRegistry,
     rn_supp = NewSuppressor, rn_clock = int, rn_ticks = 0, rn_started = []\<rparr>"

definition demo_fetch :: FileSyncCommand where
  "demo_fetch = \<lparr>cmd_PairID = ''p1'', cmd_Side = ''b'', cmd_RelPath = ''a'', cmd_SHA256 = toy_sha 3, cmd_Op = ''fetch'',
     cmd_NewRelPath = [], cmd_OriginatorClientID = ''ca''\<rparr>"

definition demo_change :: FileChangedEvent where
  "demo_change = \<lparr>ev_PairID = ''p1'', ev_Side = ''b'', ev_RelPath = ''a'', ev_SHA256 = toy_sha 3, ev_Size = 3, ev_ModTime = 1,
     ev_Op = ''write'', ev_IsDir = False\<rparr>"

definition demo_sub :: "string \<Rightarrow> Subscription" where
  "demo_sub subpath = \<lparr>su_PairID = ''p1'', su_Side = ''b'', su_RootSubpath = subpath, su_Direction = ''a_to_b''\<rparr>"

lemma demo_lookup: "lookupSubscription ''p1'' (rn_reg (demo_runner subpath)) = Some (demo_sub subpath)"
  by (simp add: demo_runner_def reg_Apply_def NewRegistry_def lookupSubscription_def reg_All_def demo_sub_def)

theorem fetch_ack_truthful_witness:
  "rn_net (handleSyncCommand demo_rconfig demo_fetch (demo_runner '''')) = [ack_env demo_fetch ''ok'' []] \<and>
   (\<exists>nd data. lookup (rn_fs (handleSyncCommand demo_rconfig demo_fetch (demo_runner ''''))) [''home'', ''u'', ''a''] = Inr nd \<and>
     n_kind nd = File data \<and> EncodeToString (toy_hash data) = toy_sha 3)"
proof -
  have s: "n_kind nd \<noteq> Special" if "lookup (rn_fs (demo_runner '''')) (jail_root (tc_Jail demo_tclient) @ partial_comps [''a'']) = Inr nd" for nd
    using that by (auto simp: demo_runner_def lookup_def demo_fs_def split: if_splits)
  have j: "Join (su_RootSubpath (demo_sub '''')) (cmd_RelPath demo_fetch) = rel_path [''a'']" by code_simp
  have l: "lookupSubscription (cmd_PairID demo_fetch) (rn_reg (demo_runner '''')) = Some (demo_sub '''')"
    using demo_lookup by (simp add: demo_fetch_def)
  have i: "jail_inv (jail_root (tc_Jail demo_tclient)) (rn_fs (demo_runner ''''))" using demo_inv by (simp add: demo_runner_def)
  have r: "jail_root (tc_Jail demo_tclient) @ [''a''] = [''home'', ''u'', ''a'']" by (simp add: demo_tclient_def demo_jail_def)
  let ?d = "Download toy_hash fixed_http demo_tclient (rel_path [''a'']) (cmd_SHA256 demo_fetch) (rn_fs (demo_runner ''''), rn_net (demo_runner ''''))"
  have d: "?d = (fst ?d, (fst (snd ?d), snd (snd ?d)))" by simp
  have ok: "\<not> isl (fst ?d)" "snd (snd ?d) = []" by code_simp+
  have p: "list_all proper [''a'']" by code_simp
  have c: "rc_Download demo_rconfig = Download toy_hash fixed_http demo_tclient" "cmd_Op demo_fetch = ''fetch''" "cmd_SHA256 demo_fetch = toy_sha 3"
    by (simp_all add: demo_rconfig_def demo_fetch_def)
  from fetch_ack_truthful [OF c(1) l c(2) j p _ i s d] show ?thesis
    using ok by (simp add: r c(3)) (simp add: demo_rconfig_def)
qed

text \<open>
  C35. A fetched file of a pair on the whole root is not reported back: after the command, with any further
  questions and entries of the suppression table for hashes or other paths, the watcher's write event
  with the fetched hash neither uploads nor sends anything until the suppression expires.
\<close>

theorem fetched_file_not_echoed:
  assumes "lookupSubscription (cmd_PairID cmd) (rn_reg s) = Some sub" "cmd_Op cmd = ''fetch''"
    and "Join (su_RootSubpath sub) (cmd_RelPath cmd) = cmd_RelPath cmd" "cmd_SHA256 cmd \<noteq> []"
    and "rn_supp s' = fold sup_step ops (rn_supp (handleSyncCommand c cmd s))"
    and "\<forall>x \<in> set ops. \<forall>t. op_time x = Some t \<longrightarrow> t \<le> rn_clock s (rn_ticks s) + suppressTTL"
    and "\<forall>t d. SAdd t (cmd_RelPath cmd) [] d \<notin> set ops"
    and "rn_clock s' (rn_ticks s') \<le> rn_clock s (rn_ticks s) + suppressTTL"
    and "ev_Op ev = ''write''" "ev_RelPath ev = cmd_RelPath cmd" "ev_SHA256 ev = cmd_SHA256 cmd"
  shows "rn_net (handleLocalChange c ev s') = rn_net s' \<and> rn_fs (handleLocalChange c ev s') = rn_fs s'"
proof (rule suppressed_write [OF assms(9)])
  have "rn_supp (handleSyncCommand c cmd s) =
      sup_Add (rn_clock s (rn_ticks s)) (cmd_RelPath cmd) (cmd_SHA256 cmd) suppressTTL (rn_supp s)"
    using fetch_supp [OF assms(1,2)] assms(3) by simp
  then show "fst (HitWithSHA (rn_clock s' (rn_ticks s')) (ev_RelPath ev) (ev_SHA256 ev) (rn_supp s'))"
    using own_write_hit [OF assms(4,6,7,8), of "rn_supp s"] assms(5,10,11) by simp
qed

theorem fetched_file_not_echoed_witness:
  "rn_net (handleLocalChange demo_rconfig demo_change (handleSyncCommand demo_rconfig demo_fetch (demo_runner '''')))
   = rn_net (handleSyncCommand demo_rconfig demo_fetch (demo_runner ''''))"
proof -
  let ?s = "handleSyncCommand demo_rconfig demo_fetch (demo_runner '''')"
  have j: "Join (su_RootSubpath (demo_sub '''')) (cmd_RelPath demo_fetch) = cmd_RelPath demo_fetch" by code_simp
  have l: "lookupSubscription (cmd_PairID demo_fetch) (rn_reg (demo_runner '''')) = Some (demo_sub '''')"
    using demo_lookup by (simp add: demo_fetch_def)
  have t: "rn_clock ?s (rn_ticks ?s) \<le> rn_clock (demo_runner '''') (rn_ticks (demo_runner '''')) + suppressTTL" by code_simp
  have sha: "cmd_SHA256 demo_fetch \<noteq> []" by code_simp
  show ?thesis
    using fetched_file_not_echoed [OF l _ j sha, of ?s "[]" demo_rconfig demo_change] t
    by (simp add: demo_fetch_def demo_change_def)
qed

text \<open>
  For a pair on a subdirectory the suppression misses: it is entered under the path from the jail root
  but looked up under the path within the pair, so the fetched file is uploaded again and reported to
  the server as a local change.
\<close>

theorem fetched_file_echoed_in_subdirectory:
  assumes "lookupSubscription (cmd_PairID cmd) (rn_reg s) = Some sub" "cmd_Op cmd = ''fetch''"
    and "Join (su_RootSubpath sub) (cmd_RelPath cmd) \<noteq> cmd_RelPath cmd" "sup_m (rn_supp s) (cmd_RelPath cmd) = None"
    and "ev_Op ev = ''write''" "ev_RelPath ev = cmd_RelPath cmd" "ev_PairID ev = cmd_PairID cmd"
    and "s1 = handleSyncCommand c cmd s"
    and "rc_Upload c (Join (su_RootSubpath sub) (ev_RelPath ev)) (rn_fs s1, rn_net s1) = (Inr u, (f2, n2))"
  shows "rn_net (handleLocalChange c ev s1) =
     snd (rc_Send c \<lparr>Type = TypeFileChangedEvent, CorrelationID = [], Payload = enc_FileChangedEvent ev\<rparr> n2)"
proof (rule reported_write [OF assms(5) _ _ assms(9)])
  note fs = fetch_supp [OF assms(1,2), of c]
  have "sup_m (rn_supp s1) (cmd_RelPath cmd) = None"
    using fs assms(3,4,8) by (auto simp: sup_Add_def Let_def split: option.splits)
  then show "\<not> fst (HitWithSHA (rn_clock s1 (rn_ticks s1)) (ev_RelPath ev) (ev_SHA256 ev) (rn_supp s1))"
    using assms(6) by (simp add: HitWithSHA_def)
  show "lookupSubscription (ev_PairID ev) (rn_reg s1) = Some sub" using fs assms(1,7,8) by simp
qed

theorem fetched_file_echoed_in_subdirectory_witness:
  "last (rn_net (handleLocalChange demo_rconfig demo_change (handleSyncCommand demo_rconfig demo_fetch (demo_runner ''d''))))
   = \<lparr>Type = TypeFileChangedEvent, CorrelationID = [], Payload = enc_FileChangedEvent demo_change\<rparr>"
proof -
  define s1 where "s1 = handleSyncCommand demo_rconfig demo_fetch (demo_runner ''d'')"
  have j: "Join (su_RootSubpath (demo_sub ''d'')) (cmd_RelPath demo_fetch) \<noteq> cmd_RelPath demo_fetch" by code_simp
  have l: "lookupSubscription (cmd_PairID demo_fetch) (rn_reg (demo_runner ''d'')) = Some (demo_sub ''d'')"
    using demo_lookup by (simp add: demo_fetch_def)
  have "isl (fst (rc_Upload demo_rconfig (Join (su_RootSubpath (demo_sub ''d'')) (ev_RelPath demo_change)) (rn_fs s1, rn_net s1))) = False"
    unfolding s1_def by code_simp
  then obtain u f2 n2 where u: "rc_Upload demo_rconfig (Join (su_RootSubpath (demo_sub ''d'')) (ev_RelPath demo_change)) (rn_fs s1, rn_net s1)
      = (Inr u, (f2, n2))"
    by (metis isl_def old.sum.exhaust prod.collapse)
  have "rn_net (handleLocalChange demo_rconfig demo_change s1) =
     snd (rc_Send demo_rconfig \<lparr>Type = TypeFileChangedEvent, CorrelationID = [], Payload = enc_FileChangedEvent demo_change\<rparr> n2)"
    by (rule fetched_file_echoed_in_subdirectory [OF l _ j _ _ _ _ s1_def u])
      (simp_all add: demo_fetch_def demo_change_def demo_runner_def NewSuppressor_def)
  then show ?thesis by (simp add: s1_def demo_rconfig_def)
qed

section \<open>Snapshots\<close>

text \<open>
  The specification of the scan: what a directory with \<open>k\<close> levels left lists, as a predicate on the
  tree, without the accumulator, the count and the order.
\<close>

fun listed :: "(byte list \<Rightarrow> byte list) \<Rightarrow> string list \<Rightarrow> Jail \<Rightarrow> cfs \<Rightarrow> string \<Rightarrow> nat \<Rightarrow> string \<Rightarrow> FileSnapshot \<Rightarrow> bool" where
  "listed H ign j f root 0 subRel s \<longleftrightarrow> False"
| "listed H ign j f root (Suc k) subRel s \<longleftrightarrow>
     (let jailRel = (if subRel = ''.'' then root else Join root subRel) in
      case jail_ReadDir f j jailRel of
        Inl _ \<Rightarrow> False
      | Inr es \<Rightarrow> (\<exists>(name, nd) \<in> set es.
          (let rel = (if subRel = ''.'' then name else Join subRel name) in
           \<not> MatchIgnore (Join root rel) ign \<and>
           (case dir_info f j jailRel name of
              Inl _ \<Rightarrow> False
            | Inr info \<Rightarrow>
                if is_dir (n_kind nd)
                then s = \<lparr>sn_RelPath = rel, sn_SHA256 = [], sn_Size = 0, sn_ModTime = n_mtime info, sn_IsDir = True\<rparr> \<or>
                     listed H ign j f root k rel s
                else \<not> unsupportedModeMask (n_kind info) \<and>
                     (\<exists>sha. computeSHA H f j (Join root rel) = Inr sha \<and>
                        s = \<lparr>sn_RelPath = rel, sn_SHA256 = sha, sn_Size = node_size (n_kind info),
                             sn_ModTime = n_mtime info, sn_IsDir = False\<rparr>)))))"

lemma scan_exact:
  "walkScan H ign j f ctx root k subRel acc = (None, acc') \<Longrightarrow> snd acc' < maxScanFiles \<Longrightarrow>
     snd acc \<le> snd acc' \<and> set (fst acc') = set (fst acc) \<union> {s. listed H ign j f root k subRel s}"
  "scan_entries H ign j f ctx root k jailRel subRel es acc = (None, acc') \<Longrightarrow> snd acc' < maxScanFiles \<Longrightarrow>
     snd acc \<le> snd acc' \<and> set (fst acc') = set (fst acc) \<union> {s. \<exists>(name, nd) \<in> set es.
          (let rel = (if subRel = ''.'' then name else Join subRel name) in
           \<not> MatchIgnore (Join root rel) ign \<and>
           (case dir_info f j jailRel name of
              Inl _ \<Rightarrow> False
            | Inr info \<Rightarrow>
                if is_dir (n_kind nd)
                then s = \<lparr>sn_RelPath = rel, sn_SHA256 = [], sn_Size = 0, sn_ModTime = n_mtime info, sn_IsDir = True\<rparr> \<or>
                     listed H ign j f root k rel s
                else \<not> unsupportedModeMask (n_kind info) \<and>
                     (\<exists>sha. computeSHA H f j (Join root rel) = Inr sha \<and>
                        s = \<lparr>sn_RelPath = rel, sn_SHA256 = sha, sn_Size = node_size (n_kind info),
                             sn_ModTime = n_mtime info, sn_IsDir = False\<rparr>)))}"
proof (induction H ign j f ctx root k subRel acc and H ign j f ctx root k jailRel subRel es acc
    arbitrary: acc' and acc' rule: walkScan_scan_entries.induct)
  case (1 H ign j f ctx root subRel acc)
  then show ?case by simp
next
  case (2 H ign j f ctx root k subRel acc)
  from "2.prems" have a: "\<not> snd acc \<ge> maxScanFiles" by (auto split: if_splits)
  with "2.prems" have b: "ctx subRel = None" by (auto split: option.splits)
  from a b "2.prems" obtain es where c: "jail_ReadDir f j (if subRel = ''.'' then root else Join root subRel) = Inr es"
    by (auto simp: Let_def split: sum.splits)
  from a b c "2.prems" have d: "scan_entries H ign j f ctx root k (if subRel = ''.'' then root else Join root subRel) subRel es acc = (None, acc')"
    by (auto simp: Let_def)
  from "2.IH" [OF a b refl c d "2.prems"(2)] show ?case by (simp only: listed.simps Let_def c sum.case)
next
  case (3 H ign j f ctx root k jailRel subRel acc)
  then show ?case by simp
next
  case (4 H ign j f ctx root k jailRel subRel name nd es acc)
  let ?rel = "if subRel = ''.'' then name else Join subRel name"
  show ?case
  proof (cases "MatchIgnore (Join root ?rel) ign")
    case True
    with "4.prems" have "scan_entries H ign j f ctx root k jailRel subRel es acc = (None, acc')" by (simp add: Let_def)
    from "4.IH"(1) [OF refl refl True this "4.prems"(2)] True show ?thesis by (simp add: Let_def)
  next
    case ni: False
    show ?thesis
    proof (cases "dir_info f j jailRel name")
      case (Inl e)
      with ni "4.prems" have "scan_entries H ign j f ctx root k jailRel subRel es acc = (None, acc')" by (simp add: Let_def)
      from "4.IH"(2) [OF refl refl ni Inl this "4.prems"(2)] Inl show ?thesis by (simp add: Let_def)
    next
      case info: (Inr info)
      show ?thesis
      proof (cases "is_dir (n_kind nd)")
        case True
        let ?acc = "(fst acc @ [\<lparr>sn_RelPath = ?rel, sn_SHA256 = [], sn_Size = 0, sn_ModTime = n_mtime info, sn_IsDir = True\<rparr>],
                   Suc (snd acc))"
        obtain e acc1 where w: "walkScan H ign j f ctx root k ?rel ?acc = (e, acc1)" by (meson surj_pair)
        have e: "e = None" using "4.prems"(1) ni info True w by (cases e) (simp_all add: Let_def)
        have s: "scan_entries H ign j f ctx root k jailRel subRel es acc1 = (None, acc')"
          using "4.prems"(1) ni info True w e by (simp add: Let_def)
        note i2 = "4.IH"(4) [OF refl refl ni info True w [symmetric] e s "4.prems"(2)]
        have "snd acc1 < maxScanFiles" using i2 "4.prems"(2) by simp
        note i1 = "4.IH"(3) [OF refl refl ni info True w [unfolded e] this]
        from i1 i2 ni info True show ?thesis by (simp add: Let_def) blast
      next
        case nd: False
        show ?thesis
        proof (cases "unsupportedModeMask (n_kind info)")
          case True
          with nd ni info "4.prems" have "scan_entries H ign j f ctx root k jailRel subRel es acc = (None, acc')"
            by (simp add: Let_def)
          from "4.IH"(5) [OF refl refl ni info nd True this "4.prems"(2)] nd info True show ?thesis by (simp add: Let_def)
        next
          case sup: False
          show ?thesis
          proof (cases "computeSHA H f j (Join root ?rel)")
            case (Inl e)
            with sup nd ni info "4.prems" have "scan_entries H ign j f ctx root k jailRel subRel es acc = (None, acc')"
              by (simp add: Let_def)
            from "4.IH"(6) [OF refl refl ni info nd sup Inl this "4.prems"(2)] nd info Inl show ?thesis by (simp add: Let_def)
          next
            case (Inr sha)
            let ?acc = "(fst acc @ [\<lparr>sn_RelPath = ?rel, sn_SHA256 = sha, sn_Size = node_size (n_kind info),
                                sn_ModTime = n_mtime info, sn_IsDir = False\<rparr>], Suc (snd acc))"
            have s: "scan_entries H ign j f ctx root k jailRel subRel es ?acc = (None, acc')"
              using "4.prems"(1) sup nd ni info Inr by (simp add: Let_def)
            note i = "4.IH"(7) [OF refl refl ni info nd sup Inr s "4.prems"(2)]
            from i nd info Inr ni sup show ?thesis by (simp add: Let_def) blast
          qed
        qed
      qed
    qed
  qed
qed

text \<open>
  C36. A snapshot is exact: when the scan ends without an error and below the limit on the number of files,
  the answer to the server lists exactly what the tree below the pair's directory contains down to the
  depth limit: every directory and every regular file that no pattern ignores, with its hash, its size
  and its time, and nothing else.
\<close>

theorem HandleListFiles_exact:
  assumes "lookupSubscription (lfr_PairID req) (rn_reg s) = Some sub"
    and "root = (if su_RootSubpath sub = [] then ''.'' else su_RootSubpath sub)"
    and "walkScan H (rc_IgnoreList c) (rc_Jail c) (rn_fs s) ctx root (maxScanDepth + 1) ''.'' ([], 0) = (None, acc)"
    and "snd acc < maxScanFiles"
  shows "set (HandleListFiles H c ctx req s) =
    {x. listed H (rc_IgnoreList c) (rc_Jail c) (rn_fs s) root (maxScanDepth + 1) ''.'' x}"
  using scan_exact(1) [OF assms(3,4)] assms(1-3) by (simp add: HandleListFiles_def)

theorem HandleListFiles_exact_witness:
  "{x. listed toy_hash [] demo_jail demo_fs ''.'' (maxScanDepth + 1) ''.'' x} =
     {\<lparr>sn_RelPath = ''a'', sn_SHA256 = EncodeToString (toy_hash [1, 2]), sn_Size = 2, sn_ModTime = 5, sn_IsDir = False\<rparr>}"
proof -
  let ?req = "\<lparr>lfr_PairID = ''p1'', lfr_Side = ''b''\<rparr>" and ?s = "demo_runner ''''"
  have l: "lookupSubscription (lfr_PairID ?req) (rn_reg ?s) = Some (demo_sub '''')" by (simp add: demo_lookup)
  let ?nd = "\<lparr>n_kind = File [1, 2], n_mtime = 5\<rparr>"
  have r: "jail_ReadDir demo_fs demo_jail ''.'' = Inr [(''a'', ?nd)]" "dir_info demo_fs demo_jail ''.'' ''a'' = Inr ?nd"
    "computeSHA toy_hash demo_fs demo_jail (Join ''.'' ''a'') = Inr (EncodeToString (toy_hash [1, 2]))" by code_simp+
  have sr: "su_RootSubpath (demo_sub '''') = []" by (simp add: demo_sub_def)
  have d: "maxScanDepth + 1 = Suc 32" by (simp add: maxScanDepth_def)
  have w: "walkScan toy_hash (rc_IgnoreList demo_rconfig) (rc_Jail demo_rconfig) (rn_fs ?s) (\<lambda>_. None) ''.'' (maxScanDepth + 1) ''.'' ([], 0) =
     (None, ([\<lparr>sn_RelPath = ''a'', sn_SHA256 = EncodeToString (toy_hash [1, 2]), sn_Size = 2, sn_ModTime = 5, sn_IsDir = False\<rparr>], 1))"
    unfolding d walkScan.simps(2) by (simp add: demo_rconfig_def demo_runner_def maxScanFiles_def r MatchIgnore_def)
  have "HandleListFiles toy_hash demo_rconfig (\<lambda>_. None) ?req ?s =
      [\<lparr>sn_RelPath = ''a'', sn_SHA256 = EncodeToString (toy_hash [1, 2]), sn_Size = 2, sn_ModTime = 5, sn_IsDir = False\<rparr>]"
    unfolding HandleListFiles_def l option.case sr Let_def
    by (simp only: w if_True refl fst_conv snd_conv)
  then show ?thesis
    using HandleListFiles_exact [OF l _ w] by (simp add: demo_sub_def demo_rconfig_def demo_runner_def maxScanFiles_def)
qed

end
