(* ===== verification/Lww.thy ===== *)
theory Lww
  imports Store
begin

text \<open>
  The decisions of the synchronisation engine: the last-writer-wins rule for bidirectional pairs
  (\<open>internal/server/syncengine/lww.go\<close>) and the targets of a mirror pair
  (\<open>mirror.go\<close>). Both are pure functions; \<open>int64\<close> subtraction and negation wrap.
\<close>

section \<open>Bidirectional pairs\<close>

definition defaultConflictWindowNs :: int where
  "defaultConflictWindowNs = 5000000000"

datatype LWWAction = LWWActionNone | LWWActionDispatch | LWWActionConflict | LWWActionDeleteWins | LWWActionEditWins

record LWWDecision =
  ld_Action :: LWWAction
  ld_OtherSide :: string
  ld_OtherClient :: string
  ld_OtherPath :: string
  ld_LosingSHA :: string
  ld_LosingMTime :: int

text \<open>The struct literal \<open>LWWDecision{Action: a}\<close>: the other fields are zero.\<close>

definition decision :: "LWWAction \<Rightarrow> LWWDecision" where
  "decision a = \<lparr>ld_Action = a, ld_OtherSide = [], ld_OtherClient = [], ld_OtherPath = [],
     ld_LosingSHA = [], ld_LosingMTime = 0\<rparr>"

lemma decision_simps [simp]: "ld_Action (decision a) = a" "decision a = decision b \<longleftrightarrow> a = b"
  by (auto simp: decision_def)

record fileStateView =
  v_Op :: string
  v_SHA256 :: "string option"
  v_ServerModTime :: int

definition toView :: "FileState \<Rightarrow> fileStateView" where
  "toView f = \<lparr>v_Op = fs_Op f, v_SHA256 = fs_SHA256 f, v_ServerModTime = fs_ServerModTime f\<rparr>"

lemma toView_simps [simp]:
  "v_Op (toView f) = fs_Op f" "v_SHA256 (toView f) = fs_SHA256 f"
  "v_ServerModTime (toView f) = fs_ServerModTime f"
  by (simp_all add: toView_def)

definition otherSide :: "string \<Rightarrow> string" where
  "otherSide s = (if s = ''a'' then ''b'' else ''a'')"

definition decideLWW :: "string \<Rightarrow> fileStateView \<Rightarrow> fileStateView option \<Rightarrow> int \<Rightarrow> LWWDecision" where
  "decideLWW srcSide ev otherState conflictWindowNs = (case otherState of
       None \<Rightarrow> decision LWWActionDispatch
     | Some oth \<Rightarrow>
         if v_Op ev = ''delete'' \<and> v_Op oth = ''delete'' then decision LWWActionNone
         else if v_Op ev = ''delete'' \<and> v_Op oth = ''write'' then decision LWWActionEditWins
         else if v_Op ev = ''write'' \<and> v_Op oth = ''delete'' then decision LWWActionEditWins
         else if v_SHA256 ev \<noteq> None \<and> v_SHA256 oth \<noteq> None \<and> the (v_SHA256 ev) = the (v_SHA256 oth)
         then decision LWWActionNone
         else (let diff = wrap64 (v_ServerModTime ev - v_ServerModTime oth);
                   diff = (if diff < 0 then wrap64 (- diff) else diff)
               in if diff < conflictWindowNs then decision LWWActionConflict
                  else decision LWWActionDispatch))"

section \<open>Mirror pairs\<close>

record Target =
  t_ClientID :: string
  t_Side :: string
  t_Path :: string

definition resolveMirrorTargets :: "SyncPair \<Rightarrow> string \<Rightarrow> Target list" where
  "resolveMirrorTargets p srcSide =
     (if p_Direction p = ''a_to_b'' then
        (if srcSide = ''a'' then [\<lparr>t_ClientID = p_ClientBID p, t_Side = ''b'', t_Path = p_PathB p\<rparr>] else [])
      else if p_Direction p = ''b_to_a'' then
        (if srcSide = ''b'' then [\<lparr>t_ClientID = p_ClientAID p, t_Side = ''a'', t_Path = p_PathA p\<rparr>] else [])
      else [])"

definition pathFor :: "SyncPair \<Rightarrow> string \<Rightarrow> string" where
  "pathFor p side = (if side = ''a'' then p_PathA p else p_PathB p)"

section \<open>The distance of two stamps\<close>

text \<open>The distance the code computes with wrap-around is symmetric, even at the extremes.\<close>

definition stamp_dist :: "int \<Rightarrow> int \<Rightarrow> int" where
  "stamp_dist a b = (let d = wrap64 (a - b) in if d < 0 then wrap64 (- d) else d)"

lemma wrap64_mod: "wrap64 x mod 18446744073709551616 = x mod 18446744073709551616"
  by (simp add: wrap64_def mod_diff_left_eq)

lemma wrap64_cong: "x mod 18446744073709551616 = y mod 18446744073709551616 \<Longrightarrow> wrap64 x = wrap64 y"
  by (simp add: wrap64_def mod_add_cong)

lemma wrap64_minus: "wrap64 (- wrap64 x) = wrap64 (- x)"
  by (rule wrap64_cong) (metis mod_minus_eq wrap64_mod)

lemma wrap64_neg_cases: "wrap64 (- x) = - wrap64 x \<or> (wrap64 x = - 9223372036854775808 \<and> wrap64 (- x) = wrap64 x)"
proof (cases "wrap64 x = - 9223372036854775808")
  case True
  then have "wrap64 (- x) = - 9223372036854775808" using wrap64_minus [of x] by (simp add: wrap64_def)
  with True show ?thesis by simp
next
  case False
  then have "is64 (- wrap64 x)" using is64_wrap64 [of x] by (simp add: is64_def)
  then show ?thesis using wrap64_minus [of x] wrap64_id by metis
qed

lemma stamp_dist_commute: "stamp_dist a b = stamp_dist b a"
proof -
  let ?d = "wrap64 (a - b)" and ?e = "wrap64 (b - a)"
  have e: "?e = - ?d \<or> (?d = - 9223372036854775808 \<and> ?e = ?d)"
    using wrap64_neg_cases [of "a - b"] by simp
  have i: "is64 ?d" "is64 ?e" by simp_all
  show ?thesis
  proof (cases "?e = ?d")
    case True
    then show ?thesis by (simp add: stamp_dist_def)
  next
    case False
    with e have "?e = - ?d" by blast
    then have m: "wrap64 (- ?d) = - ?d" "wrap64 (- ?e) = - ?e"
      using i wrap64_id [of ?e] wrap64_id [of ?d] by simp_all
    show ?thesis using m \<open>?e = - ?d\<close> by (auto simp: stamp_dist_def Let_def)
  qed
qed

lemma stamp_dist_abs: "is64 (a - b) \<Longrightarrow> a - b \<noteq> - 9223372036854775808 \<Longrightarrow> stamp_dist a b = \<bar>a - b\<bar>"
  by (auto simp: stamp_dist_def Let_def wrap64_id is64_def)

text \<open>The decision by cases, with the distance by name.\<close>

lemma decideLWW_None [simp]: "decideLWW s ev None win = decision LWWActionDispatch"
  by (simp add: decideLWW_def)

lemma decideLWW_Some:
  "ld_Action (decideLWW s ev (Some oth) win) =
     (if v_Op ev = ''delete'' \<and> v_Op oth = ''delete'' then LWWActionNone
      else if (v_Op ev = ''delete'' \<and> v_Op oth = ''write'') \<or> (v_Op ev = ''write'' \<and> v_Op oth = ''delete'')
      then LWWActionEditWins
      else if v_SHA256 ev \<noteq> None \<and> v_SHA256 ev = v_SHA256 oth then LWWActionNone
      else if stamp_dist (v_ServerModTime ev) (v_ServerModTime oth) < win then LWWActionConflict
      else LWWActionDispatch)"
  by (auto simp: decideLWW_def stamp_dist_def Let_def)

text \<open>
  C13. The rule does not depend on whose event arrives: comparing the state of side A against B gives the
  same action as comparing B against A, for every window and every pair of 64-bit stamps, so the
  server classifies a concurrent change the same way in both orders of arrival.
\<close>

theorem decideLWW_symmetric:
  "ld_Action (decideLWW s x (Some y) win) = ld_Action (decideLWW s' y (Some x) win)"
  by (auto simp: decideLWW_Some stamp_dist_commute [of "v_ServerModTime x"])

text \<open>
  The rule of the comment at \<open>decideLWW\<close>, for two writes whose stamps are less than
  \<open>2^63\<close> nanoseconds apart: equal hashes need nothing, different contents within the window are
  a conflict, and otherwise the event is dispatched.
\<close>

theorem decideLWW_writes:
  assumes "v_Op x = ''write''" "v_Op y = ''write''" "v_SHA256 x = Some a" "v_SHA256 y = Some b"
    and "\<bar>v_ServerModTime x - v_ServerModTime y\<bar> < 9223372036854775808"
  shows "ld_Action (decideLWW s x (Some y) defaultConflictWindowNs) =
    (if a = b then LWWActionNone
     else if \<bar>v_ServerModTime x - v_ServerModTime y\<bar> < 5 * 10 ^ 9 then LWWActionConflict
     else LWWActionDispatch)"
proof -
  have "stamp_dist (v_ServerModTime x) (v_ServerModTime y) = \<bar>v_ServerModTime x - v_ServerModTime y\<bar>"
    using assms(5) by (intro stamp_dist_abs) (auto simp: is64_def)
  then show ?thesis using assms(1-4) by (simp add: decideLWW_Some defaultConflictWindowNs_def)
qed

theorem decideLWW_writes_witness:
  "ld_Action (decideLWW ''a'' \<lparr>v_Op = ''write'', v_SHA256 = Some ''h1'', v_ServerModTime = 7000000000\<rparr>
     (Some \<lparr>v_Op = ''write'', v_SHA256 = Some ''h2'', v_ServerModTime = 3000000000\<rparr>) defaultConflictWindowNs)
   = LWWActionConflict"
  using decideLWW_writes [of "\<lparr>v_Op = ''write'', v_SHA256 = Some ''h1'', v_ServerModTime = 7000000000\<rparr>"
      "\<lparr>v_Op = ''write'', v_SHA256 = Some ''h2'', v_ServerModTime = 3000000000\<rparr>" "''h1''" "''h2''" "''a''"]
  by simp

end
