(* ===== verification/Sender.thy ===== *)
theory Sender
  imports Proto
begin

text \<open>
  The interface \<open>Sender\<close> of \<open>internal/server/syncengine/engine.go\<close>, through which the
  engine reaches the clients: \<open>Send(ctx, clientID, env) error\<close>. The operations of the
  engine take the function as an argument; this locale states what they rely on. \<open>sent\<close> is
  the log of the envelopes handed over so far, in order: a successful call appends exactly its
  envelope, a failed one nothing.
\<close>

type_synonym 'h send_fn = "string \<Rightarrow> Envelope \<Rightarrow> 'h \<Rightarrow> unit result \<times> 'h"

locale sender =
  fixes send :: "'h send_fn"
    and sent :: "'h \<Rightarrow> (string \<times> Envelope) list"
    and invar :: "'h \<Rightarrow> bool"
  assumes send_ok: "invar h \<Longrightarrow> send c e h = (Inr u, h') \<Longrightarrow> sent h' = sent h @ [(c, e)]"
    and send_err: "invar h \<Longrightarrow> send c e h = (Inl x, h') \<Longrightarrow> sent h' = sent h"
    and send_invar: "invar h \<Longrightarrow> invar (snd (send c e h))"
begin

lemma sent_send:
  "invar h \<Longrightarrow> sent (snd (send c e h)) = sent h @ (if isl (fst (send c e h)) then [] else [(c, e)])"
  by (cases "send c e h"; cases "fst (send c e h)") (auto dest: send_ok send_err)

lemma sent_grows: "invar h \<Longrightarrow> \<exists>xs. sent (snd (send c e h)) = sent h @ xs"
  by (auto simp: sent_send)

end

end
