(* ===== verification/Engine.thy ===== *)
theory Engine
  imports Lww Sender
begin

text \<open>
  The synchronisation engine (\<open>internal/server/syncengine\<close>): \<open>engine.go\<close> and
  \<open>conflict.go\<close>. It stands between the store and the hub; the hub is behind the interface
  \<open>Sender\<close>, so every operation takes the function \<open>send\<close> as an argument, and the state
  of the network is the field \<open>net\<close> next to the store.

  \<open>HandleFileChanged\<close> holds a mutex per pair, so two events of a pair are processed one after
  the other and one call is one step of the model. Log output (\<open>slog\<close>) is not modelled.
  \<open>MarshalPayload\<close> cannot fail on the structs it is given here (strings, integers, booleans).
\<close>

section \<open>State\<close>

record 'h world = st +
  net :: 'h

definition engine_Send :: "'h send_fn \<Rightarrow> string \<Rightarrow> Envelope \<Rightarrow> 'h world \<Rightarrow> unit result \<times> 'h world" where
  "engine_Send send cid env w = (case send cid env (net w) of (r, n) \<Rightarrow> (r, w\<lparr>net := n\<rparr>))"

definition command_env :: "FileSyncCommand \<Rightarrow> Envelope" where
  "command_env c = \<lparr>Type = TypeFileSyncCommand, CorrelationID = [], Payload = enc_FileSyncCommand c\<rparr>"

section \<open>Records of what happened\<close>

definition recordSyncRun ::
  "SyncPair \<Rightarrow> string \<Rightarrow> string \<Rightarrow> string \<Rightarrow> string \<Rightarrow> string \<Rightarrow> string \<Rightarrow> 'z st_scheme \<Rightarrow> 'z st_scheme" where
  "recordSyncRun pair src dst rel sha status errMsg w =
     (case Now w of (now, w1) \<Rightarrow>
        snd (InsertSyncRun \<lparr>sr_ID = 0, sr_PairID = p_ID pair, sr_SrcClientID = src, sr_DstClientID = dst,
          sr_RelPath = rel, sr_SHA256 = (if sha \<noteq> [] then Some sha else None), sr_Bytes = 0,
          sr_Status = status, sr_Error = (if errMsg \<noteq> [] then Some errMsg else None),
          sr_StartedAt = now, sr_FinishedAt = now\<rparr> w1))"

definition audit ::
  "string \<Rightarrow> string option \<Rightarrow> string option \<Rightarrow> string option \<Rightarrow> string \<Rightarrow> 'z st_scheme \<Rightarrow> 'z st_scheme" where
  "audit kind clientID pairID relPath detail w =
     (case Now w of (now, w1) \<Rightarrow>
        snd (AppendAuditLog \<lparr>au_TS = now, au_Kind = kind, au_ClientID = clientID, au_PairID = pairID,
          au_RelPath = relPath, au_Detail = (if detail \<noteq> [] then Some detail else None)\<rparr> w1))"

definition auditConflictDetected :: "string \<Rightarrow> string \<Rightarrow> 'z st_scheme \<Rightarrow> 'z st_scheme" where
  "auditConflictDetected pid rel = audit ''conflict_detected'' None (Some pid) (Some rel) []"

definition auditConflictRenamed :: "string \<Rightarrow> string \<Rightarrow> string \<Rightarrow> 'z st_scheme \<Rightarrow> 'z st_scheme" where
  "auditConflictRenamed pid rel newName = audit ''conflict_renamed'' None (Some pid) (Some rel)
     (json_text (JObj [(''new_name'', JStr newName)]))"

definition auditDeleteVsEdit :: "string \<Rightarrow> string \<Rightarrow> string \<Rightarrow> 'z st_scheme \<Rightarrow> 'z st_scheme" where
  "auditDeleteVsEdit pid rel srcClient = audit ''delete_vs_edit'' None (Some pid) (Some rel)
     (json_text (JObj [(''deleted_by'', JStr srcClient)]))"

section \<open>Commands\<close>

definition sync_command :: "string \<Rightarrow> SyncPair \<Rightarrow> Target \<Rightarrow> FileChangedEvent \<Rightarrow> FileSyncCommand" where
  "sync_command src pair t ev = \<lparr>cmd_PairID = p_ID pair, cmd_Side = t_Side t, cmd_RelPath = ev_RelPath ev,
     cmd_SHA256 = ev_SHA256 ev, cmd_Op = (if ev_Op ev = ''delete'' then ''delete'' else ''fetch''),
     cmd_NewRelPath = [], cmd_OriginatorClientID = src\<rparr>"

definition dispatchSync ::
  "'h send_fn \<Rightarrow> string \<Rightarrow> SyncPair \<Rightarrow> Target \<Rightarrow> FileChangedEvent \<Rightarrow> 'h world \<Rightarrow> unit result \<times> 'h world" where
  "dispatchSync send src pair t ev w =
     (case engine_Send send (t_ClientID t) (command_env (sync_command src pair t ev)) w of
        (Inl e, w1) \<Rightarrow> (Inl e, w1)
      | (Inr _, w1) \<Rightarrow>
          (Inr (), recordSyncRun pair src (t_ClientID t) (ev_RelPath ev) (ev_SHA256 ev) ''ok'' [] w1))"

definition fetch_command :: "string \<Rightarrow> SyncPair \<Rightarrow> string \<Rightarrow> string \<Rightarrow> string \<Rightarrow> FileSyncCommand" where
  "fetch_command src pair side rel sha = \<lparr>cmd_PairID = p_ID pair, cmd_Side = side, cmd_RelPath = rel,
     cmd_SHA256 = sha, cmd_Op = ''fetch'', cmd_NewRelPath = [], cmd_OriginatorClientID = src\<rparr>"

definition dispatchFetch ::
  "'h send_fn \<Rightarrow> string \<Rightarrow> SyncPair \<Rightarrow> Target \<Rightarrow> string \<Rightarrow> string \<Rightarrow> 'h world \<Rightarrow> unit result \<times> 'h world" where
  "dispatchFetch send src pair t rel sha w =
     engine_Send send (t_ClientID t) (command_env (fetch_command src pair (t_Side t) rel sha)) w"

section \<open>Conflicts\<close>

definition conflictFilename :: "string \<Rightarrow> string \<Rightarrow> int \<Rightarrow> string" where
  "conflictFilename rel clientID ts =
     (let short = (if length clientID > 8 then take 8 clientID else clientID)
      in rel @ ''.conflict-'' @ short @ ''-'' @ Sprint_int ts)"

definition rename_command :: "string \<Rightarrow> SyncPair \<Rightarrow> string \<Rightarrow> string \<Rightarrow> string \<Rightarrow> FileSyncCommand" where
  "rename_command src pair side rel newName = \<lparr>cmd_PairID = p_ID pair, cmd_Side = side, cmd_RelPath = rel,
     cmd_SHA256 = [], cmd_Op = ''rename'', cmd_NewRelPath = newName, cmd_OriginatorClientID = src\<rparr>"

definition winner_client :: "SyncPair \<Rightarrow> string \<Rightarrow> string" where
  "winner_client pair winnerSide = (if winnerSide = ''b'' then p_ClientBID pair else p_ClientAID pair)"

definition deref_sha :: "string option \<Rightarrow> string" where
  "deref_sha x = (case x of None \<Rightarrow> [] | Some s \<Rightarrow> s)"

definition dispatchConflict ::
  "'h send_fn \<Rightarrow> SyncPair \<Rightarrow> string \<Rightarrow> FileState \<Rightarrow> string \<Rightarrow> string \<Rightarrow> string \<Rightarrow> 'h world \<Rightarrow> unit result \<times> 'h world" where
  "dispatchConflict send pair winnerSide winner loserSide loserClient loserSHA w =
     (case Now w of (now, w1) \<Rightarrow>
       (let loserName = fs_RelPath winner;
            newName = conflictFilename loserName loserClient now;
            winnerSHA = deref_sha (fs_SHA256 winner);
            winnerClient = winner_client pair winnerSide
        in case engine_Send send loserClient
                  (command_env (rename_command loserClient pair loserSide loserName newName)) w1 of
             (Inl e, w2) \<Rightarrow> (Inl (Wrap ''send rename'' e), w2)
           | (Inr _, w2) \<Rightarrow>
         (case engine_Send send loserClient
                  (command_env (fetch_command loserClient pair loserSide loserName winnerSHA)) w2 of
             (Inl e, w3) \<Rightarrow> (Inl (Wrap ''send loser fetch'' e), w3)
           | (Inr _, w3) \<Rightarrow>
         (case engine_Send send winnerClient
                  (command_env (fetch_command winnerClient pair winnerSide loserName winnerSHA)) w3 of
             (Inl e, w4) \<Rightarrow> (Inl (Wrap ''send winner fetch'' e), w4)
           | (Inr _, w4) \<Rightarrow> (Inr (), auditConflictRenamed (p_ID pair) loserName newName w4)))))"

section \<open>Events\<close>

definition upsertFileState :: "FileChangedEvent \<Rightarrow> 'z st_scheme \<Rightarrow> FileState result \<times> 'z st_scheme" where
  "upsertFileState ev w =
     (case Now w of (now, w1) \<Rightarrow>
       (let fs = \<lparr>fs_PairID = ev_PairID ev, fs_Side = ev_Side ev, fs_RelPath = ev_RelPath ev,
                  fs_SHA256 = (if ev_SHA256 ev \<noteq> [] then Some (ev_SHA256 ev) else None),
                  fs_Size = (if ev_Size ev > 0 then Some (ev_Size ev) else None),
                  fs_ModTime = Some (ev_ModTime ev), fs_ServerModTime = now,
                  fs_Op = ev_Op ev, fs_IsDir = ev_IsDir ev\<rparr>
        in case UpsertFileState fs w1 of
             (Inl e, w2) \<Rightarrow> (Inl (Wrap ''upsert file_state'' e), w2)
           | (Inr _, w2) \<Rightarrow> (Inr fs, w2)))"

definition handleEditWins ::
  "'h send_fn \<Rightarrow> string \<Rightarrow> SyncPair \<Rightarrow> FileChangedEvent \<Rightarrow> FileState option \<Rightarrow> string \<Rightarrow> string \<Rightarrow> string
     \<Rightarrow> 'h world \<Rightarrow> unit result \<times> 'h world" where
  "handleEditWins send src pair ev otherState otherClient otherSideName otherPath w =
     (if ev_Op ev = ''write''
      then dispatchSync send src pair
             \<lparr>t_ClientID = otherClient, t_Side = otherSideName, t_Path = otherPath\<rparr> ev w
      else (let w1 = auditDeleteVsEdit (p_ID pair) (ev_RelPath ev) src w in
        case otherState of
          None \<Rightarrow> (Inr (), w1)
        | Some oth \<Rightarrow> (case fs_SHA256 oth of
            None \<Rightarrow> (Inr (), w1)
          | Some sha \<Rightarrow> dispatchFetch send otherClient pair
              \<lparr>t_ClientID = src, t_Side = ev_Side ev, t_Path = pathFor pair (ev_Side ev)\<rparr>
              (ev_RelPath ev) sha w1)))"

text \<open>What \<open>handleBidirectional\<close> does once the state of the other side is read.\<close>

definition bidirectional_act ::
  "'h send_fn \<Rightarrow> string \<Rightarrow> SyncPair \<Rightarrow> FileChangedEvent \<Rightarrow> FileState \<Rightarrow> FileState option
     \<Rightarrow> 'h world \<Rightarrow> unit result \<times> 'h world" where
  "bidirectional_act send srcClient pair ev src otherState w =
     (let otherSideName = otherSide (ev_Side ev);
          otherClient = (if otherSideName = ''b'' then p_ClientBID pair else p_ClientAID pair);
          otherPath = (if otherSideName = ''b'' then p_PathB pair else p_PathA pair)
      in case ld_Action (decideLWW (ev_Side ev) (toView src) (map_option toView otherState) defaultConflictWindowNs) of
           LWWActionNone \<Rightarrow> (Inr (), w)
         | LWWActionDispatch \<Rightarrow> dispatchSync send srcClient pair
             \<lparr>t_ClientID = otherClient, t_Side = otherSideName, t_Path = otherPath\<rparr> ev w
         | LWWActionEditWins \<Rightarrow>
             handleEditWins send srcClient pair ev otherState otherClient otherSideName otherPath w
         | LWWActionConflict \<Rightarrow>
             (let w1 = auditConflictDetected (p_ID pair) (ev_RelPath ev) w; oth = the otherState in
              if fs_ServerModTime src \<ge> fs_ServerModTime oth
              then dispatchConflict send pair (ev_Side ev) src otherSideName otherClient
                     (deref_sha (fs_SHA256 oth)) w1
              else dispatchConflict send pair otherSideName oth (ev_Side ev) srcClient (ev_SHA256 ev) w1)
         | LWWActionDeleteWins \<Rightarrow> (Inr (), w))"

definition handleBidirectional ::
  "'h send_fn \<Rightarrow> string \<Rightarrow> SyncPair \<Rightarrow> FileChangedEvent \<Rightarrow> FileState \<Rightarrow> 'h world \<Rightarrow> unit result \<times> 'h world" where
  "handleBidirectional send srcClient pair ev src w =
     (case GetFileState (p_ID pair) (otherSide (ev_Side ev)) (ev_RelPath ev) w of
        (Inl e, w1) \<Rightarrow> if errors_Is e ErrNoRows then bidirectional_act send srcClient pair ev src None w1
                       else (Inl (Wrap ''get other side state'' e), w1)
      | (Inr oth, w1) \<Rightarrow> bidirectional_act send srcClient pair ev src (Some oth) w1)"

text \<open>The loop over the targets of a mirror pair: a failed target is recorded and skipped.\<close>

fun mirror_loop ::
  "'h send_fn \<Rightarrow> string \<Rightarrow> SyncPair \<Rightarrow> FileChangedEvent \<Rightarrow> Target list \<Rightarrow> 'h world \<Rightarrow> 'h world" where
  "mirror_loop send src pair ev [] w = w"
| "mirror_loop send src pair ev (t # ts) w = mirror_loop send src pair ev ts
     (case dispatchSync send src pair t ev w of
        (Inl e, w1) \<Rightarrow> recordSyncRun pair src (t_ClientID t) (ev_RelPath ev) (ev_SHA256 ev) ''failed'' (err_Error e) w1
      | (Inr _, w1) \<Rightarrow> w1)"

definition HandleFileChanged ::
  "'h send_fn \<Rightarrow> string \<Rightarrow> FileChangedEvent \<Rightarrow> 'h world \<Rightarrow> unit result \<times> 'h world" where
  "HandleFileChanged send src ev w =
     (case GetPair (ev_PairID ev) w of
        (Inl e, w1) \<Rightarrow> if errors_Is e ErrNoRows then (Inr (), w1)
                       else (Inl (Wrap (''get pair '' @ ev_PairID ev) e), w1)
      | (Inr pair, w1) \<Rightarrow>
     (case upsertFileState ev w1 of
        (Inl e, w2) \<Rightarrow> (Inl e, w2)
      | (Inr fs, w2) \<Rightarrow>
        if \<not> p_Enabled pair then (Inr (), w2)
        else if p_Direction pair = ''bidirectional'' then handleBidirectional send src pair ev fs w2
        else if p_Direction pair = ''a_to_b'' \<or> p_Direction pair = ''b_to_a''
        then (Inr (), mirror_loop send src pair ev (resolveMirrorTargets pair (ev_Side ev)) w2)
        else (Inl (Opaque (''unknown direction: '' @ p_Direction pair)), w2)))"

text \<open>Acknowledgements are ignored.\<close>

definition HandleFileSyncAck :: "string \<Rightarrow> FileSyncAck \<Rightarrow> 'h world \<Rightarrow> unit result \<times> 'h world" where
  "HandleFileSyncAck cid ack w = (Inr (), w)"

section \<open>What the operations leave alone\<close>

text \<open>
  After the event is stored, the engine only appends to \<open>sync_runs\<close> and \<open>audit_log\<close>: the other
  tables, the clock and the driver are the same, and the tables stay well-formed.
\<close>

definition logs_only :: "'z st_scheme \<Rightarrow> 'z st_scheme \<Rightarrow> bool" where
  "logs_only w w' \<longleftrightarrow>
     clients (db w') = clients (db w) \<and> sync_pairs (db w') = sync_pairs (db w) \<and>
     file_state (db w') = file_state (db w) \<and> settings (db w') = settings (db w) \<and>
     clock w' = clock w \<and> sqlerr w' = sqlerr w \<and> ticks w \<le> ticks w' \<and> (wf_db (db w) \<longrightarrow> wf_db (db w'))"

lemma logs_only_refl [simp]: "logs_only w w"
  by (simp add: logs_only_def)

lemma logs_only_trans: "logs_only a b \<Longrightarrow> logs_only b c \<Longrightarrow> logs_only a c"
  by (simp add: logs_only_def)

lemma logs_only_find:
  assumes "logs_only w w'"
  shows "find_pair pid (db w') = find_pair pid (db w)" "find_file_state k (db w') = find_file_state k (db w)"
    "pair_ids (db w') = pair_ids (db w)" "find_client cid (db w') = find_client cid (db w)"
  using assms by (simp_all add: logs_only_def find_pair_def find_file_state_def pair_ids_def find_client_def)

lemma logs_only_Now: "logs_only w (snd (Now w))"
  by (simp add: logs_only_def)

lemma logs_only_exec:
  assumes "\<And>d. clients (snd (f d)) = clients d \<and> sync_pairs (snd (f d)) = sync_pairs d \<and>
     file_state (snd (f d)) = file_state d \<and> settings (snd (f d)) = settings d"
    and "\<And>d. wf_db d \<Longrightarrow> wf_db (snd (f d))"
  shows "logs_only w (snd (exec f w))"
  using assms by (simp add: logs_only_def db_exec split: option.splits)

lemma insert_run_tables:
  "clients (snd (insert_run_sql r d)) = clients d \<and> sync_pairs (snd (insert_run_sql r d)) = sync_pairs d \<and>
   file_state (snd (insert_run_sql r d)) = file_state d \<and> settings (snd (insert_run_sql r d)) = settings d"
  by (simp add: insert_run_sql_def)

lemma logs_only_InsertSyncRun: "logs_only w (snd (InsertSyncRun r w))"
  unfolding InsertSyncRun_def snd_wrap_err by (rule logs_only_exec [OF insert_run_tables wf_insert_run])

lemma logs_only_recordSyncRun: "logs_only w (recordSyncRun p s d r h st m w)"
  unfolding recordSyncRun_def
  by (split prod.split) (metis logs_only_InsertSyncRun logs_only_Now logs_only_trans snd_conv)

lemma logs_only_AppendAuditLog: "logs_only w (snd (AppendAuditLog e w))"
  unfolding AppendAuditLog_def snd_wrap_err by (rule logs_only_exec) (simp_all add: wf_audit)

lemma logs_only_audit: "logs_only w (audit k c p r d w)"
  unfolding audit_def
  by (split prod.split) (metis logs_only_AppendAuditLog logs_only_Now logs_only_trans snd_conv)

lemma logs_only_audits [simp]:
  "logs_only w (auditConflictDetected pid rel w)" "logs_only w (auditConflictRenamed pid rel n w)"
  "logs_only w (auditDeleteVsEdit pid rel c w)"
  by (simp_all add: auditConflictDetected_def auditConflictRenamed_def auditDeleteVsEdit_def logs_only_audit)

lemma logs_only_query_row: "logs_only w (snd (query_row f m sc w))"
  by (simp add: logs_only_def)

lemma logs_only_engine_Send: "logs_only w (snd (engine_Send send c e w))"
  by (simp add: engine_Send_def logs_only_def split: prod.splits)

lemma logs_only_engine_SendD: "engine_Send send c e w = (r, w') \<Longrightarrow> logs_only w w'"
  using logs_only_engine_Send [of w send c e] by simp

lemma logs_only_dispatchSync: "logs_only w (snd (dispatchSync send src pair t ev w))"
  by (auto simp: dispatchSync_def split: prod.splits sum.splits dest: logs_only_engine_SendD
      intro: logs_only_trans [OF logs_only_engine_SendD logs_only_recordSyncRun])

lemma logs_only_dispatchSyncD: "dispatchSync send src pair t ev w = (r, w') \<Longrightarrow> logs_only w w'"
  using logs_only_dispatchSync [of w send src pair t ev] by simp

lemma logs_only_dispatchFetch: "logs_only w (snd (dispatchFetch send src pair t rel sha w))"
  by (simp add: dispatchFetch_def logs_only_engine_Send)

text \<open>
  \<open>dispatchConflict\<close> sends a plan of three messages, each only after the one before it
  succeeded, and logs the rename when all of them were sent.
\<close>

fun send_plan :: "'h send_fn \<Rightarrow> (string \<times> string \<times> Envelope) list \<Rightarrow> 'h world \<Rightarrow> unit result \<times> 'h world" where
  "send_plan send [] w = (Inr (), w)"
| "send_plan send ((m, c, e) # xs) w = (case engine_Send send c e w of
     (Inl x, w1) \<Rightarrow> (Inl (Wrap m x), w1) | (Inr _, w1) \<Rightarrow> send_plan send xs w1)"

definition conflict_plan ::
  "SyncPair \<Rightarrow> string \<Rightarrow> FileState \<Rightarrow> string \<Rightarrow> string \<Rightarrow> string \<Rightarrow> (string \<times> string \<times> Envelope) list" where
  "conflict_plan pair winnerSide winner loserSide loserClient newName =
     [(''send rename'', loserClient,
        command_env (rename_command loserClient pair loserSide (fs_RelPath winner) newName)),
      (''send loser fetch'', loserClient,
        command_env (fetch_command loserClient pair loserSide (fs_RelPath winner) (deref_sha (fs_SHA256 winner)))),
      (''send winner fetch'', winner_client pair winnerSide,
        command_env (fetch_command (winner_client pair winnerSide) pair winnerSide (fs_RelPath winner)
          (deref_sha (fs_SHA256 winner))))]"

lemma dispatchConflict_eq:
  "dispatchConflict send pair ws win ls lc lh w = (case Now w of (now, w1) \<Rightarrow>
     (case send_plan send (conflict_plan pair ws win ls lc (conflictFilename (fs_RelPath win) lc now)) w1 of
        (Inl e, w2) \<Rightarrow> (Inl e, w2)
      | (Inr _, w2) \<Rightarrow> (Inr (), auditConflictRenamed (p_ID pair) (fs_RelPath win)
                                (conflictFilename (fs_RelPath win) lc now) w2)))"
  by (simp add: dispatchConflict_def conflict_plan_def Let_def split: prod.split sum.split)

lemma logs_only_send_plan: "send_plan send xs w = (r, w') \<Longrightarrow> logs_only w w'"
proof (induction send xs w rule: send_plan.induct)
  case (2 send m c e xs w)
  then show ?case
    by (auto split: prod.splits sum.splits dest: logs_only_engine_SendD
        intro: logs_only_trans [OF logs_only_engine_SendD])
qed simp

lemma logs_only_dispatchConflict: "logs_only w (snd (dispatchConflict send pair ws win ls lc lh w))"
proof -
  obtain now w1 where n: "Now w = (now, w1)" by (cases "Now w")
  then have 1: "logs_only w w1" using logs_only_Now [of w] by simp
  let ?n = "conflictFilename (fs_RelPath win) lc now"
  obtain r w2 where s: "send_plan send (conflict_plan pair ws win ls lc ?n) w1 = (r, w2)" by fastforce
  then have "logs_only w w2" using 1 logs_only_send_plan logs_only_trans by blast
  then show ?thesis
    by (simp add: dispatchConflict_eq n s split: sum.split)
      (blast intro: logs_only_trans logs_only_audits(2))
qed

lemma logs_only_bidirectional_act: "logs_only w (snd (bidirectional_act send src pair ev fs oth w))"
  by (auto simp: bidirectional_act_def handleEditWins_def Let_def split: LWWAction.splits option.splits
      intro: logs_only_dispatchSync logs_only_trans [OF _ logs_only_dispatchFetch]
        logs_only_trans [OF _ logs_only_dispatchConflict])

lemma logs_only_handleBidirectional: "logs_only w (snd (handleBidirectional send src pair ev fs w))"
proof -
  let ?q = "GetFileState (p_ID pair) (otherSide (ev_Side ev)) (ev_RelPath ev) w"
  have "logs_only w (snd ?q)" unfolding GetFileState_def by (rule logs_only_query_row)
  then show ?thesis
    by (auto simp: handleBidirectional_def split: prod.splits sum.splits
        intro: logs_only_trans [OF _ logs_only_bidirectional_act])
qed

lemma logs_only_mirror_loop: "logs_only w (mirror_loop send src pair ev ts w)"
proof (induction ts arbitrary: w)
  case (Cons t ts)
  show ?case
    by (auto split: prod.splits sum.splits dest!: logs_only_dispatchSyncD
        intro: logs_only_trans [OF _ Cons.IH] logs_only_trans [OF _ logs_only_recordSyncRun])
qed simp

text \<open>The row an event stands for, at a given reading of the clock.\<close>

definition event_state :: "FileChangedEvent \<Rightarrow> int \<Rightarrow> FileState" where
  "event_state ev now = \<lparr>fs_PairID = ev_PairID ev, fs_Side = ev_Side ev, fs_RelPath = ev_RelPath ev,
     fs_SHA256 = (if ev_SHA256 ev \<noteq> [] then Some (ev_SHA256 ev) else None),
     fs_Size = (if ev_Size ev > 0 then Some (ev_Size ev) else None),
     fs_ModTime = Some (ev_ModTime ev), fs_ServerModTime = now,
     fs_Op = ev_Op ev, fs_IsDir = ev_IsDir ev\<rparr>"

lemma event_state_simps [simp]:
  "fs_PairID (event_state ev now) = ev_PairID ev" "fs_Side (event_state ev now) = ev_Side ev"
  "fs_RelPath (event_state ev now) = ev_RelPath ev" "fs_ServerModTime (event_state ev now) = now"
  "fs_Op (event_state ev now) = ev_Op ev"
  "fs_SHA256 (event_state ev now) = (if ev_SHA256 ev \<noteq> [] then Some (ev_SHA256 ev) else None)"
  "fs_key (event_state ev now) = (ev_PairID ev, ev_Side ev, ev_RelPath ev)"
  by (simp_all add: event_state_def fs_key_def)

lemma upsertFileState_eq:
  "upsertFileState ev w = (case Now w of (now, w1) \<Rightarrow>
     (case UpsertFileState (event_state ev now) w1 of
        (Inl e, w2) \<Rightarrow> (Inl (Wrap ''upsert file_state'' e), w2)
      | (Inr _, w2) \<Rightarrow> (Inr (event_state ev now), w2)))"
  unfolding upsertFileState_def event_state_def Let_def by (rule refl)

text \<open>A store whose driver does not fail.\<close>

definition sql_ok :: "'z st_scheme \<Rightarrow> bool" where
  "sql_ok w \<longleftrightarrow> (\<forall>k. sqlerr w k = None)"

lemma sql_okD [simp]: "sql_ok w \<Longrightarrow> sqlerr w k = None"
  by (simp add: sql_ok_def)

lemma sql_ok_mono: "logs_only w w' \<Longrightarrow> sql_ok w \<Longrightarrow> sql_ok w'"
  by (simp add: sql_ok_def logs_only_def)

lemma exec_ok: "sql_ok w \<Longrightarrow> exec f w = (fst (f (db w)), w\<lparr>stmts := Suc (stmts w), db := snd (f (db w))\<rparr>)"
  by (simp add: exec_def split: prod.splits)

lemma query_row_ok:
  "sql_ok w \<Longrightarrow> query_row f m sc w = (sc (f (db w)), w\<lparr>stmts := Suc (stmts w)\<rparr>)"
  by (simp add: query_row_def query_def exec_ok)

lemma GetPair_ok:
  "sql_ok w \<Longrightarrow> GetPair pid w = (scanPair (find_pair pid (db w)), w\<lparr>stmts := Suc (stmts w)\<rparr>)"
  by (simp add: GetPair_def query_row_ok)

lemma GetFileState_ok:
  "sql_ok w \<Longrightarrow> GetFileState p s r w = (scanFileState (find_file_state (p, s, r) (db w)), w\<lparr>stmts := Suc (stmts w)\<rparr>)"
  by (simp add: GetFileState_def query_row_ok)

lemma find_pair_ids: "find_pair pid d = Some p \<Longrightarrow> p_ID p = pid \<and> pid \<in> pair_ids d"
  by (auto simp: find_pair_def pair_ids_def dest!: find_Some_iff')

lemma upsertFileState_ok:
  assumes "sql_ok w" "ev_PairID ev \<in> pair_ids (db w)"
  shows "upsertFileState ev w = (Inr (event_state ev (clock w (ticks w))),
     w\<lparr>ticks := Suc (ticks w), stmts := Suc (stmts w),
       db := upsert_fs (event_state ev (clock w (ticks w))) (db w)\<rparr>)"
proof -
  have "sql_ok (w\<lparr>ticks := Suc (ticks w)\<rparr>)" using assms(1) by (simp add: sql_ok_def)
  then show ?thesis using assms(2)
    by (simp add: upsertFileState_eq Now_def UpsertFileState_def exec_ok upsert_fs_def
        upsert_file_state_sql_def pair_ids_def)
qed

section \<open>What the clients are sent\<close>

lemma net_store_ops [simp]:
  "net (snd (Now w)) = net w" "net (snd (exec f w)) = net w" "net (snd (query_row g m sc w)) = net w"
  by (simp_all add: Now_def exec_def query_row_def query_def split: option.splits prod.splits sum.splits)

lemma net_recordSyncRun [simp]: "net (recordSyncRun p s d r h st m w) = net w"
  by (simp add: recordSyncRun_def InsertSyncRun_def Now_def)

lemma net_audits [simp]:
  "net (auditConflictDetected pid rel w) = net w" "net (auditConflictRenamed pid rel n w) = net w"
  "net (auditDeleteVsEdit pid rel c w) = net w"
  by (simp_all add: auditConflictDetected_def auditConflictRenamed_def auditDeleteVsEdit_def audit_def
      AppendAuditLog_def Now_def)

lemma net_GetPair: "GetPair pid w = (r, w') \<Longrightarrow> net w' = net w"
  using net_store_ops(3) [of "find_pair pid" "''scan pair''" scanPair w] by (simp add: GetPair_def)

lemma net_GetFileState: "GetFileState p s r w = (x, w') \<Longrightarrow> net w' = net w"
  using net_store_ops(3) [of "find_file_state (p, s, r)" "''scan file state''" scanFileState w]
  by (simp add: GetFileState_def)

lemma net_UpsertFileState: "UpsertFileState f w = (x, w') \<Longrightarrow> net w' = net w"
  using snd_wrap_err [of "''upsert file state''" "exec (upsert_file_state_sql f) w"]
    net_store_ops(2) [of "upsert_file_state_sql f" w]
  by (simp add: UpsertFileState_def)

lemma net_upsertFileState: "upsertFileState ev w = (x, w') \<Longrightarrow> net w' = net w"
  unfolding upsertFileState_eq
  by (auto simp: Now_def split: prod.splits sum.splits dest!: net_UpsertFileState)

text \<open>A message to one of \<open>cs\<close>: a command about one path of one pair.\<close>

definition about :: "string set \<Rightarrow> string \<Rightarrow> string \<Rightarrow> string \<times> Envelope \<Rightarrow> bool" where
  "about cs pid rel m \<longleftrightarrow> (\<exists>c. snd m = command_env c \<and> cmd_PairID c = pid \<and> cmd_RelPath c = rel \<and> fst m \<in> cs)"

lemma command_env_inject: "command_env c = command_env d \<longleftrightarrow> c = d"
proof
  assume "command_env c = command_env d"
  then have "dec_FileSyncCommand (enc_FileSyncCommand c) = dec_FileSyncCommand (enc_FileSyncCommand d)"
    by (simp add: command_env_def)
  then show "c = d" unfolding FileSyncCommand_roundtrip by simp
qed simp

lemma about_command: "about cs pid rel (c, command_env d) \<longleftrightarrow> cmd_PairID d = pid \<and> cmd_RelPath d = rel \<and> c \<in> cs"
  by (auto simp: about_def command_env_inject)

lemma about_commands [simp]:
  "about cs (p_ID pair) rel (c, command_env (rename_command s pair side rel n)) \<longleftrightarrow> c \<in> cs"
  "about cs (p_ID pair) rel (c, command_env (fetch_command s pair side rel sha)) \<longleftrightarrow> c \<in> cs"
  "about cs (p_ID pair) (ev_RelPath ev) (c, command_env (sync_command s pair t ev)) \<longleftrightarrow> c \<in> cs"
  by (simp_all add: about_command rename_command_def fetch_command_def sync_command_def)

text \<open>
  The engine over any \<open>Sender\<close>. Each lemma says which messages one operation hands over and
  that the sender's invariant is kept.
\<close>

locale engine_sender = sender
begin

lemma engine_Send_sent:
  assumes "invar (net w)" "engine_Send send c e w = (r, w')"
  shows "invar (net w') \<and> sent (net w') = sent (net w) @ (if isl r then [] else [(c, e)])"
  using sent_send [OF assms(1), of c e] send_invar [OF assms(1), of c e] assms(2)
  by (auto simp: engine_Send_def split: prod.splits)

lemma dispatchSync_sent:
  assumes "invar (net w)" "dispatchSync send src pair t ev w = (r, w')"
  shows "invar (net w') \<and> sent (net w') = sent (net w) @
     (if isl r then [] else [(t_ClientID t, command_env (sync_command src pair t ev))])"
proof -
  obtain r1 w1 where s: "engine_Send send (t_ClientID t) (command_env (sync_command src pair t ev)) w = (r1, w1)"
    by fastforce
  show ?thesis using engine_Send_sent [OF assms(1) s] assms(2) s
    by (auto simp: dispatchSync_def split: sum.splits)
qed

lemma send_plan_sent:
  "invar (net w) \<Longrightarrow> send_plan send xs w = (r, w') \<Longrightarrow>
   invar (net w') \<and> (\<exists>k \<le> length xs. sent (net w') = sent (net w) @ take k (map snd xs) \<and>
     (isl r \<longleftrightarrow> k < length xs))"
proof (induction xs arbitrary: w)
  case Nil
  then show ?case by auto
next
  case (Cons x xs)
  obtain m c e where x: "x = (m, c, e)" by (cases x)
  obtain r1 w1 where s: "engine_Send send c e w = (r1, w1)" by fastforce
  note sent1 = engine_Send_sent [OF Cons.prems(1) s]
  show ?case
  proof (cases r1)
    case (Inl err)
    then show ?thesis using Cons.prems sent1 s x by (auto intro!: exI [of _ 0])
  next
    case (Inr u)
    then have "send_plan send xs w1 = (r, w')" using Cons.prems(2) s x by simp
    from Cons.IH [OF _ this] sent1 obtain k where "invar (net w')" "k \<le> length xs"
      "sent (net w') = sent (net w1) @ take k (map snd xs)" "isl r \<longleftrightarrow> k < length xs" by blast
    then show ?thesis using sent1 Inr x by (auto intro!: exI [of _ "Suc k"])
  qed
qed

lemma dispatchConflict_sent:
  assumes "invar (net w)" "dispatchConflict send pair ws win ls lc lh w = (r, w')"
  shows "invar (net w') \<and> (\<exists>k \<le> 3. sent (net w') = sent (net w) @ take k (map snd
     (conflict_plan pair ws win ls lc (conflictFilename (fs_RelPath win) lc (clock w (ticks w))))) \<and>
     (isl r \<longleftrightarrow> k < 3))"
proof -
  let ?p = "conflict_plan pair ws win ls lc (conflictFilename (fs_RelPath win) lc (clock w (ticks w)))"
  obtain r1 w2 where s: "send_plan send ?p (snd (Now w)) = (r1, w2)" by fastforce
  have len: "length ?p = 3" by (simp add: conflict_plan_def)
  have "isl r = isl r1" "net w' = net w2" using assms(2) s
    by (auto simp: dispatchConflict_eq Now_def split: sum.splits)
  with send_plan_sent [OF _ s] assms(1) show ?thesis by (simp add: len)
qed

end

section \<open>The handler by cases\<close>

lemma otherSide_neq [simp]: "otherSide s \<noteq> s" "s \<noteq> otherSide s"
  by (auto simp: otherSide_def)

definition event_now :: "FileChangedEvent \<Rightarrow> 'z st_scheme \<Rightarrow> FileState" where
  "event_now ev w = event_state ev (clock w (ticks w))"

definition stored :: "FileChangedEvent \<Rightarrow> 'z st_scheme \<Rightarrow> 'z st_scheme" where
  "stored ev w = w\<lparr>ticks := Suc (ticks w), stmts := Suc (Suc (stmts w)), db := upsert_fs (event_now ev w) (db w)\<rparr>"

lemma event_now_simps [simp]:
  "fs_PairID (event_now ev w) = ev_PairID ev" "fs_Side (event_now ev w) = ev_Side ev"
  "fs_RelPath (event_now ev w) = ev_RelPath ev" "fs_ServerModTime (event_now ev w) = clock w (ticks w)"
  "fs_Op (event_now ev w) = ev_Op ev"
  "fs_SHA256 (event_now ev w) = (if ev_SHA256 ev \<noteq> [] then Some (ev_SHA256 ev) else None)"
  "fs_key (event_now ev w) = (ev_PairID ev, ev_Side ev, ev_RelPath ev)"
  by (simp_all add: event_now_def)

lemma stored_simps [simp]:
  "db (stored ev w) = upsert_fs (event_now ev w) (db w)" "net (stored ev v) = net v"
  "clock (stored ev w) = clock w" "sqlerr (stored ev w) = sqlerr w" "ticks (stored ev w) = Suc (ticks w)"
  by (simp_all add: stored_def)

lemma upsert_fs_frame [simp]:
  "clients (upsert_fs f d) = clients d" "sync_pairs (upsert_fs f d) = sync_pairs d"
  "sync_runs (upsert_fs f d) = sync_runs d" "settings (upsert_fs f d) = settings d"
  "audit_log (upsert_fs f d) = audit_log d"
  by (simp_all add: upsert_fs_def upsert_file_state_sql_def)

lemma find_pair_upsert_fs [simp]: "find_pair pid (upsert_fs f d) = find_pair pid d"
  by (simp add: find_pair_def)

lemma find_other_side:
  assumes "find_pair (ev_PairID ev) (db w) = Some p"
  shows "find_file_state (ev_PairID ev, otherSide (ev_Side ev), ev_RelPath ev) (db (stored ev w))
       = find_file_state (ev_PairID ev, otherSide (ev_Side ev), ev_RelPath ev) (db w)"
  using find_pair_ids [OF assms] by (simp add: find_upsert_fs accepts_fs_def)

lemma find_own_side:
  assumes "find_pair (ev_PairID ev) (db w) = Some p"
  shows "find_file_state (ev_PairID ev, ev_Side ev, ev_RelPath ev) (db (stored ev w))
       = lww_join fs_ServerModTime (find_file_state (ev_PairID ev, ev_Side ev, ev_RelPath ev) (db w)) (event_now ev w)"
  using find_pair_ids [OF assms] by (simp add: find_upsert_fs accepts_fs_def)

lemma HandleFileChanged_ok:
  assumes "sql_ok w" "find_pair (ev_PairID ev) (db w) = Some p"
  shows "HandleFileChanged send src ev w =
    (if \<not> p_Enabled p then (Inr (), stored ev w)
     else if p_Direction p = ''bidirectional'' then handleBidirectional send src p ev (event_now ev w) (stored ev w)
     else if p_Direction p = ''a_to_b'' \<or> p_Direction p = ''b_to_a''
     then (Inr (), mirror_loop send src p ev (resolveMirrorTargets p (ev_Side ev)) (stored ev w))
     else (Inl (Opaque (''unknown direction: '' @ p_Direction p)), stored ev w))"
proof -
  let ?w1 = "w\<lparr>stmts := Suc (stmts w)\<rparr>"
  have ok: "sql_ok ?w1" using assms(1) by (simp add: sql_ok_def)
  have u: "upsertFileState ev ?w1 = (Inr (event_now ev w), stored ev w)"
    using upsertFileState_ok [OF ok, of ev] find_pair_ids [OF assms(2)]
    by (simp add: event_now_def stored_def)
  show ?thesis
    by (simp add: HandleFileChanged_def GetPair_ok [OF assms(1)] assms(2) scanPair_def scan_row_def u)
qed

lemma handleBidirectional_ok:
  assumes "sql_ok w"
  shows "handleBidirectional send src p ev fs w =
    bidirectional_act send src p ev fs
      (find_file_state (p_ID p, otherSide (ev_Side ev), ev_RelPath ev) (db w)) (w\<lparr>stmts := Suc (stmts w)\<rparr>)"
  by (simp add: handleBidirectional_def GetFileState_ok [OF assms] scanFileState_def scan_row_def
      ErrNoRows_def split: option.splits)

lemma HandleFileChanged_bidirectional:
  assumes "sql_ok w" "find_pair (ev_PairID ev) (db w) = Some p" "p_Enabled p" "p_Direction p = ''bidirectional''"
  shows "HandleFileChanged send src ev w =
    bidirectional_act send src p ev (event_now ev w)
      (find_file_state (ev_PairID ev, otherSide (ev_Side ev), ev_RelPath ev) (db w))
      ((stored ev w)\<lparr>stmts := Suc (stmts (stored ev w))\<rparr>)"
proof -
  have "sql_ok (stored ev w)" using assms(1) by (simp add: sql_ok_def)
  then show ?thesis
    using find_pair_ids [OF assms(2)] find_other_side [OF assms(2)]
    by (simp only: HandleFileChanged_ok [OF assms(1,2)] assms(3,4) if_True if_False simp_thms
        handleBidirectional_ok)
qed

text \<open>Whatever fails, the handler changes one row of \<open>file_state\<close> at most and keeps the tables well-formed.\<close>

lemma upsertFileState_db:
  assumes "upsertFileState ev w = (r, w')"
  shows "(db w' = db w \<or> db w' = upsert_fs (event_now ev w) (db w)) \<and> clock w' = clock w \<and> sqlerr w' = sqlerr w"
proof -
  let ?x = "exec (upsert_file_state_sql (event_now ev w)) (snd (Now w))"
  have "w' = snd (UpsertFileState (event_now ev w) (snd (Now w)))"
    using assms by (auto simp: upsertFileState_eq event_now_def Now_def split: prod.splits sum.splits)
  then have "w' = snd ?x" by (simp add: UpsertFileState_def)
  then show ?thesis by (simp add: db_exec upsert_fs_def split: option.splits)
qed

lemma wf_upsert_fs: "wf_db d \<Longrightarrow> wf_db (upsert_fs f d)"
  by (simp add: upsert_fs_def wf_upsert_file_state)

lemma HandleFileChanged_frame:
  assumes "HandleFileChanged send src ev w = (r, w')"
  shows "\<exists>d. (d = db w \<or> d = upsert_fs (event_now ev w) (db w)) \<and>
    file_state (db w') = file_state d \<and> clients (db w') = clients (db w) \<and>
    sync_pairs (db w') = sync_pairs (db w) \<and> settings (db w') = settings (db w) \<and>
    clock w' = clock w \<and> sqlerr w' = sqlerr w \<and> (wf_db (db w) \<longrightarrow> wf_db (db w'))"
proof -
  obtain r1 w1 where g: "GetPair (ev_PairID ev) w = (r1, w1)" by fastforce
  then have g': "db w1 = db w" "clock w1 = clock w" "sqlerr w1 = sqlerr w" "ticks w1 = ticks w"
    using query_row_env [of "find_pair (ev_PairID ev)" "''scan pair''" scanPair w]
    by (simp_all add: GetPair_def)
  obtain r2 w2 where u: "upsertFileState ev w1 = (r2, w2)" by fastforce
  have e: "event_now ev w1 = event_now ev w" by (simp add: event_now_def g')
  note u' = upsertFileState_db [OF u, unfolded e g']
  have "logs_only w2 w'" if "r1 = Inr p" "r2 = Inr fs" for p fs
    using assms g u that logs_only_handleBidirectional [of w2 send src p ev fs]
    by (auto simp: HandleFileChanged_def logs_only_mirror_loop split: if_splits)
  moreover have "w' = w1 \<or> w' = w2 \<or> (\<exists>p fs. r1 = Inr p \<and> r2 = Inr fs)"
    using assms g u by (cases r1; cases r2) (auto simp: HandleFileChanged_def split: if_splits)
  ultimately show ?thesis using u' g' wf_upsert_fs
    by (auto simp: logs_only_def)
qed

context engine_sender
begin

lemma dispatchFetch_sent:
  assumes "invar (net w)" "dispatchFetch send src pair t rel sha w = (r, w')"
  shows "invar (net w') \<and> sent (net w') = sent (net w) @
     (if isl r then [] else [(t_ClientID t, command_env (fetch_command src pair (t_Side t) rel sha))])"
  using assms engine_Send_sent by (simp add: dispatchFetch_def)

text \<open>A mirror pair: the targets that could be reached get the command, in order.\<close>

lemma mirror_loop_sent:
  assumes "invar (net w)"
  shows "invar (net (mirror_loop send src pair ev ts w)) \<and>
    (\<exists>us. subseq us ts \<and> sent (net (mirror_loop send src pair ev ts w)) =
       sent (net w) @ map (\<lambda>t. (t_ClientID t, command_env (sync_command src pair t ev))) us)"
  using assms
proof (induction ts arbitrary: w)
  case Nil
  then show ?case by auto
next
  case (Cons t ts)
  obtain r w1 where d: "dispatchSync send src pair t ev w = (r, w1)" by fastforce
  note s = dispatchSync_sent [OF Cons.prems d]
  define w2 where "w2 = (case r of Inl e \<Rightarrow> recordSyncRun pair src (t_ClientID t) (ev_RelPath ev) (ev_SHA256 ev)
     ''failed'' (err_Error e) w1 | Inr _ \<Rightarrow> w1)"
  have n: "net w2 = net w1" by (simp add: w2_def split: sum.splits)
  have m: "mirror_loop send src pair ev (t # ts) w = mirror_loop send src pair ev ts w2"
    by (simp add: d w2_def split: sum.splits)
  obtain us where us: "subseq us ts" "sent (net (mirror_loop send src pair ev ts w2)) =
      sent (net w2) @ map (\<lambda>t. (t_ClientID t, command_env (sync_command src pair t ev))) us"
    and inv: "invar (net (mirror_loop send src pair ev ts w2))"
    using Cons.IH [of w2] s n by auto
  let ?us = "(if isl r then [] else [t]) @ us"
  have "subseq ?us (t # ts)" using us(1) by auto
  moreover have "sent (net (mirror_loop send src pair ev (t # ts) w)) =
      sent (net w) @ map (\<lambda>t. (t_ClientID t, command_env (sync_command src pair t ev))) ?us"
    unfolding m using us(2) s n by simp
  ultimately show ?case using inv m by metis
qed

text \<open>What is sent for an event concerns its path, its pair, and the clients of the pair or the source.\<close>

lemma bidirectional_act_sent:
  assumes "invar (net w)" "bidirectional_act send src pair ev fs oth w = (r, w')" "fs_RelPath fs = ev_RelPath ev"
    "\<And>f. oth = Some f \<Longrightarrow> fs_RelPath f = ev_RelPath ev"
  shows "invar (net w') \<and> (\<exists>ms. sent (net w') = sent (net w) @ ms \<and>
     (\<forall>m \<in> set ms. about {p_ClientAID pair, p_ClientBID pair, src} (p_ID pair) (ev_RelPath ev) m))"
proof -
  let ?cs = "{p_ClientAID pair, p_ClientBID pair, src}"
  have conf: "invar (net v') \<and> (\<exists>ms. sent (net v') = sent (net v) @ ms \<and> (\<forall>m \<in> set ms. about ?cs (p_ID pair) (ev_RelPath ev) m))"
    if "invar (net v)" "dispatchConflict send pair ws win ls lc lh v = (x, v')"
      "fs_RelPath win = ev_RelPath ev" "lc \<in> ?cs" for ws win ls lc lh v x v'
  proof -
    have "\<forall>m \<in> set (map snd (conflict_plan pair ws win ls lc n)). about ?cs (p_ID pair) (ev_RelPath ev) m" for n
      using that(3,4) by (auto simp: conflict_plan_def winner_client_def)
    then show ?thesis using dispatchConflict_sent [OF that(1,2)] by (meson in_set_takeD)
  qed
  show ?thesis
  proof (cases "ld_Action (decideLWW (ev_Side ev) (toView fs) (map_option toView oth) defaultConflictWindowNs)")
    case LWWActionNone
    then show ?thesis using assms(1,2) by (auto simp: bidirectional_act_def)
  next
    case LWWActionDispatch
    then show ?thesis using assms(2) dispatchSync_sent [OF assms(1)]
      by (fastforce simp: bidirectional_act_def Let_def)
  next
    case LWWActionConflict
    then obtain f where "oth = Some f" by (cases oth) auto
    let ?w1 = "auditConflictDetected (p_ID pair) (ev_RelPath ev) w"
    have "\<exists>ws win ls lc lh. dispatchConflict send pair ws win ls lc lh ?w1 = (r, w')
        \<and> fs_RelPath win = ev_RelPath ev \<and> lc \<in> ?cs"
    proof (cases "fs_ServerModTime fs \<ge> fs_ServerModTime f")
      case True
      let ?lc = "if otherSide (ev_Side ev) = ''b'' then p_ClientBID pair else p_ClientAID pair"
      from True \<open>oth = Some f\<close> LWWActionConflict assms(2)
      have "dispatchConflict send pair (ev_Side ev) fs (otherSide (ev_Side ev)) ?lc (deref_sha (fs_SHA256 f)) ?w1 = (r, w')"
        by (simp add: bidirectional_act_def Let_def)
      moreover have "?lc \<in> ?cs" by simp
      ultimately show ?thesis using assms(3) by blast
    next
      case False
      with \<open>oth = Some f\<close> LWWActionConflict assms(2)
      have "dispatchConflict send pair (otherSide (ev_Side ev)) f (ev_Side ev) src (ev_SHA256 ev) ?w1 = (r, w')"
        by (simp add: bidirectional_act_def Let_def)
      moreover have "src \<in> ?cs" by simp
      ultimately show ?thesis using assms(4) \<open>oth = Some f\<close> by blast
    qed
    then show ?thesis using conf [of ?w1] assms(1) by auto
  next
    case LWWActionDeleteWins
    then show ?thesis using assms(1,2) by (auto simp: bidirectional_act_def)
  next
    case LWWActionEditWins
    show ?thesis
    proof (cases "ev_Op ev = ''write''")
      case True
      with LWWActionEditWins show ?thesis using assms(2) dispatchSync_sent [OF assms(1)]
        by (fastforce simp: bidirectional_act_def handleEditWins_def Let_def)
    next
      case False
      let ?w1 = "auditDeleteVsEdit (p_ID pair) (ev_RelPath ev) src w"
      have "invar (net ?w1)" using assms(1) by simp
      from False LWWActionEditWins show ?thesis using assms(1,2) dispatchFetch_sent [OF \<open>invar (net ?w1)\<close>]
        by (fastforce simp: bidirectional_act_def handleEditWins_def Let_def split: option.splits)
    qed
  qed
qed

end

lemma query_row_Inr: "query_row f m (scan_row m') w = (Inr x, w') \<Longrightarrow> f (db w) = Some x"
  by (auto simp: query_row_def query_def exec_def scan_row_def split: option.splits sum.splits)

lemma GetPair_Inr: "GetPair pid w = (Inr p, w') \<Longrightarrow> find_pair pid (db w) = Some p"
  unfolding GetPair_def scanPair_def by (rule query_row_Inr)

lemma GetFileState_Inr: "GetFileState p s r w = (Inr f, w') \<Longrightarrow> fs_RelPath f = r"
proof -
  assume "GetFileState p s r w = (Inr f, w')"
  then have "find_file_state (p, s, r) (db w) = Some f"
    unfolding GetFileState_def scanFileState_def by (rule query_row_Inr)
  then show ?thesis by (auto simp: find_file_state_def fs_key_def dest!: find_Some_iff')
qed

context engine_sender
begin

lemma handleBidirectional_sent:
  assumes "invar (net w)" "handleBidirectional send src pair ev fs w = (r, w')" "fs_RelPath fs = ev_RelPath ev"
  shows "invar (net w') \<and> (\<exists>ms. sent (net w') = sent (net w) @ ms \<and>
     (\<forall>m \<in> set ms. about {p_ClientAID pair, p_ClientBID pair, src} (p_ID pair) (ev_RelPath ev) m))"
proof -
  obtain q w1 where g: "GetFileState (p_ID pair) (otherSide (ev_Side ev)) (ev_RelPath ev) w = (q, w1)"
    by fastforce
  then have n: "net w1 = net w" by (rule net_GetFileState)
  consider (err) "w' = w1" | (none) "bidirectional_act send src pair ev fs None w1 = (r, w')"
    | (some) f where "q = Inr f" "bidirectional_act send src pair ev fs (Some f) w1 = (r, w')"
    using assms(2) g by (auto simp: handleBidirectional_def split: sum.splits if_splits)
  then show ?thesis
  proof cases
    case err
    then show ?thesis using n assms(1) by auto
  next
    case none
    then show ?thesis using bidirectional_act_sent [OF _ none assms(3)] n assms(1) by auto
  next
    case some
    have "fs_RelPath f = ev_RelPath ev" using g some(1) by (auto dest: GetFileState_Inr)
    then show ?thesis using bidirectional_act_sent [OF _ some(2) assms(3)] n assms(1) by auto
  qed
qed

lemma mirror_loop_about:
  assumes "invar (net w)"
  shows "\<exists>ms. sent (net (mirror_loop send src p ev (resolveMirrorTargets p s) w)) = sent (net w) @ ms \<and>
     (\<forall>m \<in> set ms. about {p_ClientAID p, p_ClientBID p, src} (p_ID p) (ev_RelPath ev) m)"
proof -
  obtain us where us: "subseq us (resolveMirrorTargets p s)"
    "sent (net (mirror_loop send src p ev (resolveMirrorTargets p s) w)) =
       sent (net w) @ map (\<lambda>t. (t_ClientID t, command_env (sync_command src p t ev))) us"
    using mirror_loop_sent [OF assms] by blast
  have "\<forall>t \<in> set (resolveMirrorTargets p s). t_ClientID t \<in> {p_ClientAID p, p_ClientBID p, src}"
    by (simp add: resolveMirrorTargets_def)
  then have "\<forall>t \<in> set us. t_ClientID t \<in> {p_ClientAID p, p_ClientBID p, src}"
    using list_emb_set [OF us(1)] by blast
  with us(2) show ?thesis by fastforce
qed

lemma HandleFileChanged_sent:
  assumes "invar (net w)" "HandleFileChanged send src ev w = (r, w')"
  shows "invar (net w') \<and> (sent (net w') = sent (net w) \<or>
     (\<exists>p ms. find_pair (ev_PairID ev) (db w) = Some p \<and> p_Enabled p \<and> sent (net w') = sent (net w) @ ms \<and>
       (\<forall>m \<in> set ms. about {p_ClientAID p, p_ClientBID p, src} (ev_PairID ev) (ev_RelPath ev) m)))"
proof -
  obtain q w1 where g: "GetPair (ev_PairID ev) w = (q, w1)" by fastforce
  obtain x w2 where u: "upsertFileState ev w1 = (x, w2)" by fastforce
  have n: "net w1 = net w" "net w2 = net w" using net_GetPair [OF g] net_upsertFileState [OF u] by auto
  have fs: "fs_RelPath fs = ev_RelPath ev" if "x = Inr fs" for fs
    using u that by (auto simp: upsertFileState_eq split: prod.splits sum.splits)
  consider (quiet) "w' = w1 \<or> w' = w2"
    | (bi) p fs where "q = Inr p" "x = Inr fs" "p_Enabled p" "handleBidirectional send src p ev fs w2 = (r, w')"
    | (mirror) p where "q = Inr p" "p_Enabled p" "w' = mirror_loop send src p ev (resolveMirrorTargets p (ev_Side ev)) w2"
    using assms(2) g u by (auto simp: HandleFileChanged_def split: sum.splits if_splits)
  then show ?thesis
  proof cases
    case quiet
    then show ?thesis using n assms(1) by auto
  next
    case bi
    from bi(1) g have p: "find_pair (ev_PairID ev) (db w) = Some p" by (auto dest: GetPair_Inr)
    then have "p_ID p = ev_PairID ev" using find_pair_ids by blast
    with handleBidirectional_sent [OF _ bi(4) fs [OF bi(2)]] n assms(1) p bi(3) show ?thesis by auto
  next
    case mirror
    from mirror(1) g have p: "find_pair (ev_PairID ev) (db w) = Some p" by (auto dest: GetPair_Inr)
    then have "p_ID p = ev_PairID ev" using find_pair_ids by blast
    with mirror_loop_about [of w2] mirror_loop_sent [of w2] n assms(1) p mirror(2,3) show ?thesis by metis
  qed
qed

end

section \<open>Sequences of events\<close>

fun handle_all :: "'h send_fn \<Rightarrow> string \<Rightarrow> FileChangedEvent list \<Rightarrow> 'h world \<Rightarrow> 'h world" where
  "handle_all send src [] w = w"
| "handle_all send src (ev # evs) w = handle_all send src evs (snd (HandleFileChanged send src ev w))"

lemma HandleFileChanged_other_rows:
  assumes "HandleFileChanged send src ev w = (r, w')" "k \<noteq> (ev_PairID ev, ev_Side ev, ev_RelPath ev)"
  shows "find_file_state k (db w') = find_file_state k (db w)"
proof -
  obtain d where d: "d = db w \<or> d = upsert_fs (event_now ev w) (db w)" "file_state (db w') = file_state d"
    using HandleFileChanged_frame [OF assms(1)] by blast
  have "find_file_state k d = find_file_state k (db w)"
    using d(1) assms(2)
    by (auto simp: find_file_state_def upsert_fs_def upsert_file_state_sql_def find_upsert_row)
  then show ?thesis using d(2) by (simp add: find_file_state_def)
qed

lemma handle_all_other_rows:
  "(\<And>ev. ev \<in> set evs \<Longrightarrow> k \<noteq> (ev_PairID ev, ev_Side ev, ev_RelPath ev)) \<Longrightarrow>
   find_file_state k (db (handle_all send src evs w)) = find_file_state k (db w)"
proof (induction evs arbitrary: w)
  case (Cons ev evs)
  then show ?case using HandleFileChanged_other_rows [OF prod.collapse [symmetric], of k ev send src w] by simp
qed simp

text \<open>The handler stores the event first; afterwards the file states do not change.\<close>

lemma HandleFileChanged_logs:
  assumes "sql_ok w" "find_pair (ev_PairID ev) (db w) = Some p"
  shows "logs_only (stored ev w) (snd (HandleFileChanged send src ev w))"
  by (simp add: HandleFileChanged_ok [OF assms] logs_only_handleBidirectional logs_only_mirror_loop)

text \<open>Every stored stamp is in the past, and the clock moves forward.\<close>

definition past_stamps :: "'z st_scheme \<Rightarrow> bool" where
  "past_stamps w \<longleftrightarrow> (\<forall>f \<in> set (file_state (db w)). fs_ServerModTime f < clock w (ticks w))"

lemma past_stamps_stored:
  assumes "past_stamps w" "strict_mono (clock w)" "ev_PairID ev \<in> pair_ids (db w)"
  shows "past_stamps (stored ev w)"
proof -
  have lt: "clock w (ticks w) < clock w (Suc (ticks w))" using assms(2) by (simp add: strict_mono_Suc_iff)
  have "fs_ServerModTime f \<le> clock w (ticks w)" if "f \<in> set (file_state (db (stored ev w)))" for f
  proof -
    from that have "f = event_now ev w \<or> (\<exists>g \<in> set (file_state (db w)). f = g \<or> f = do_update_fs (event_now ev w) g)"
      by (auto simp: upsert_fs_def upsert_file_state_sql_def upsert_row_def split: if_splits)
    then show ?thesis using assms(1) by (auto simp: past_stamps_def do_update_fs_def split: if_splits)
  qed
  then show ?thesis using lt by (fastforce simp: past_stamps_def)
qed

lemma past_stamps_logs:
  assumes "logs_only w w'" "past_stamps w" "strict_mono (clock w)"
  shows "past_stamps w' \<and> strict_mono (clock w')"
proof -
  have "clock w (ticks w) \<le> clock w (ticks w')"
    using assms(1,3) by (simp add: logs_only_def strict_mono_less_eq)
  then show ?thesis using assms by (fastforce simp: past_stamps_def logs_only_def)
qed

lemma event_recorded:
  assumes "sql_ok w" "find_pair (ev_PairID ev) (db w) = Some p" "past_stamps w"
  shows "find_file_state (fs_key (event_now ev w)) (db (stored ev w)) = Some (event_now ev w)"
  using find_own_side [OF assms(2)] assms(3)
  by (auto simp: past_stamps_def lww_join_def find_file_state_def split: option.splits dest!: find_Some_iff')

lemma handle_all_tracks:
  assumes "sql_ok w" "find_pair pid (db w) = Some p" "past_stamps w" "strict_mono (clock w)"
    and "\<forall>ev \<in> set evs. ev_PairID ev = pid"
  shows "case List.find (\<lambda>ev. ev_Side ev = s \<and> ev_RelPath ev = rel) (rev evs) of
      None \<Rightarrow> find_file_state (pid, s, rel) (db (handle_all send src evs w)) = find_file_state (pid, s, rel) (db w)
    | Some ev \<Rightarrow> \<exists>t. find_file_state (pid, s, rel) (db (handle_all send src evs w)) = Some (event_state ev t)"
  using assms
proof (induction evs arbitrary: w)
  case Nil
  then show ?case by simp
next
  case (Cons ev evs)
  let ?w' = "snd (HandleFileChanged send src ev w)"
  from Cons.prems(5) have pid: "ev_PairID ev = pid" by simp
  with Cons.prems(2) have fp: "find_pair (ev_PairID ev) (db w) = Some p" by simp
  have l: "logs_only (stored ev w) ?w'" by (rule HandleFileChanged_logs [OF Cons.prems(1) fp])
  have "sql_ok (stored ev w)" using Cons.prems(1) by (simp add: sql_ok_def)
  then have ok: "sql_ok ?w'" by (rule sql_ok_mono [OF l])
  have fp': "find_pair pid (db ?w') = Some p" using logs_only_find(1) [OF l] Cons.prems(2) by simp
  have "past_stamps (stored ev w)"
    using Cons.prems(3,4) find_pair_ids [OF fp] by (simp add: past_stamps_stored)
  then have past: "past_stamps ?w'" "strict_mono (clock ?w')"
    using past_stamps_logs [OF l] Cons.prems(4) by simp_all
  have rec: "find_file_state (pid, ev_Side ev, ev_RelPath ev) (db ?w') = Some (event_state ev (clock w (ticks w)))"
    using event_recorded [OF Cons.prems(1) fp Cons.prems(3)] logs_only_find(2) [OF l] pid
    by (simp add: event_now_def)
  have oth: "find_file_state (pid, s, rel) (db ?w') = find_file_state (pid, s, rel) (db w)"
    if "\<not> (ev_Side ev = s \<and> ev_RelPath ev = rel)"
    using that find_pair_ids [OF fp] pid logs_only_find(2) [OF l]
    by (auto simp: find_upsert_fs accepts_fs_def)
  have evs: "\<forall>e \<in> set evs. ev_PairID e = pid" using Cons.prems(5) by simp
  note IH = Cons.IH [OF ok fp' past evs]
  show ?case
  proof (cases "List.find (\<lambda>ev. ev_Side ev = s \<and> ev_RelPath ev = rel) (rev evs)")
    case None
    then show ?thesis using IH rec oth by (auto simp: find_append)
  next
    case (Some e)
    then show ?thesis using IH by (simp add: find_append)
  qed
qed

end
