(* ===== verification/Diff.thy ===== *)
theory Diff
  imports Engine
begin

text \<open>
  The snapshot comparison (\<open>internal/server/syncengine/diff.go\<close>) that runs when a client connects
  or a pair is enabled: the client's file list is compared with the stored states and every
  difference is handled as if the client had reported it. The requester
  (\<open>SyncRequester\<close>) is a parameter, as is the correlation identifier of \<open>uuid.NewString\<close>.
\<close>

type_synonym 'h request_fn = "string \<Rightarrow> Envelope \<Rightarrow> 'h \<Rightarrow> Envelope result \<times> 'h"

section \<open>applyDiff\<close>

definition snapshot_event :: "string \<Rightarrow> string \<Rightarrow> FileSnapshot \<Rightarrow> FileChangedEvent" where
  "snapshot_event pid side snap = \<lparr>ev_PairID = pid, ev_Side = side, ev_RelPath = sn_RelPath snap,
     ev_SHA256 = sn_SHA256 snap, ev_Size = sn_Size snap, ev_ModTime = sn_ModTime snap,
     ev_Op = ''write'', ev_IsDir = False\<rparr>"

definition missing_event :: "string \<Rightarrow> string \<Rightarrow> string \<Rightarrow> FileChangedEvent" where
  "missing_event pid side rel = \<lparr>ev_PairID = pid, ev_Side = side, ev_RelPath = rel, ev_SHA256 = [],
     ev_Size = 0, ev_ModTime = 0, ev_Op = ''delete'', ev_IsDir = False\<rparr>"

text \<open>The maps built by the first two loops: a later element replaces an earlier one.\<close>

definition by_path :: "('a \<Rightarrow> string) \<Rightarrow> 'a list \<Rightarrow> string \<rightharpoonup> 'a" where
  "by_path path xs = fold (\<lambda>x m. m(path x \<mapsto> x)) xs Map.empty"

definition needUpdate :: "(string \<rightharpoonup> FileState) \<Rightarrow> FileSnapshot \<Rightarrow> bool" where
  "needUpdate dbByPath snap = (case dbByPath (sn_RelPath snap) of
       None \<Rightarrow> True
     | Some f \<Rightarrow> (case fs_SHA256 f of None \<Rightarrow> False | Some h \<Rightarrow> h \<noteq> sn_SHA256 snap))"

fun snapshot_loop ::
  "'h send_fn \<Rightarrow> string \<Rightarrow> string \<Rightarrow> string \<Rightarrow> (string \<rightharpoonup> FileState) \<Rightarrow> FileSnapshot list \<Rightarrow> 'h world \<Rightarrow> 'h world" where
  "snapshot_loop send cid pid side m [] w = w"
| "snapshot_loop send cid pid side m (snap # snaps) w =
     (if sn_IsDir snap then snapshot_loop send cid pid side m snaps w
      else if \<not> needUpdate m snap then snapshot_loop send cid pid side m snaps w
      else snapshot_loop send cid pid side m snaps
             (snd (HandleFileChanged send cid (snapshot_event pid side snap) w)))"

fun missing_loop ::
  "'h send_fn \<Rightarrow> string \<Rightarrow> string \<Rightarrow> string \<Rightarrow> (string \<rightharpoonup> FileSnapshot) \<Rightarrow> FileState list \<Rightarrow> 'h world \<Rightarrow> 'h world" where
  "missing_loop send cid pid side m [] w = w"
| "missing_loop send cid pid side m (f # fs) w =
     (if fs_IsDir f then missing_loop send cid pid side m fs w
      else if m (fs_RelPath f) \<noteq> None then missing_loop send cid pid side m fs w
      else if fs_Op f = ''delete'' then missing_loop send cid pid side m fs w
      else missing_loop send cid pid side m fs
             (snd (HandleFileChanged send cid (missing_event pid side (fs_RelPath f)) w)))"

definition applyDiff ::
  "'h send_fn \<Rightarrow> string \<Rightarrow> string \<Rightarrow> string \<Rightarrow> FileSnapshot list \<Rightarrow> 'h world \<Rightarrow> unit result \<times> 'h world" where
  "applyDiff send cid pid side snapshots w =
     (case ListFileStates pid side w of
        (Inl e, w1) \<Rightarrow> (Inl e, w1)
      | (Inr dbStates, w1) \<Rightarrow>
          (let dbByPath = by_path fs_RelPath dbStates;
               clientByPath = by_path sn_RelPath snapshots;
               w2 = snapshot_loop send cid pid side dbByPath snapshots w1
           in (Inr (), missing_loop send cid pid side clientByPath dbStates w2)))"

section \<open>RequestSnapshotAndDiff\<close>

definition list_files_env :: "string \<Rightarrow> string \<Rightarrow> string \<Rightarrow> Envelope" where
  "list_files_env corr pid side = \<lparr>Type = TypeListFilesRequest, CorrelationID = corr,
     Payload = enc_ListFilesRequest \<lparr>lfr_PairID = pid, lfr_Side = side\<rparr>\<rparr>"

definition RequestSnapshotAndDiff ::
  "'h send_fn \<Rightarrow> 'h request_fn \<Rightarrow> string \<Rightarrow> string \<Rightarrow> string \<Rightarrow> string \<Rightarrow> 'h world \<Rightarrow> unit result \<times> 'h world" where
  "RequestSnapshotAndDiff send request corr cid pid side w =
     (case GetPair pid w of
        (Inl e, w1) \<Rightarrow> (Inl e, w1)
      | (Inr _, w1) \<Rightarrow>
     (case request cid (list_files_env corr pid side) (net w1) of
        (Inl e, n) \<Rightarrow> (Inl (Wrap ''send list files'' e), w1\<lparr>net := n\<rparr>)
      | (Inr resp, n) \<Rightarrow>
     (case dec_ListFilesResponse (Payload resp) of
        Inl e \<Rightarrow> (Inl e, w1\<lparr>net := n\<rparr>)
      | Inr entries \<Rightarrow> applyDiff send cid pid side entries (w1\<lparr>net := n\<rparr>))))"

section \<open>The comparison as a list of events\<close>

definition diff_events :: "string \<Rightarrow> string \<Rightarrow> FileState list \<Rightarrow> FileSnapshot list \<Rightarrow> FileChangedEvent list" where
  "diff_events pid side dbStates snapshots =
     map (snapshot_event pid side)
       (filter (\<lambda>s. \<not> sn_IsDir s \<and> needUpdate (by_path fs_RelPath dbStates) s) snapshots) @
     map (\<lambda>f. missing_event pid side (fs_RelPath f))
       (filter (\<lambda>f. \<not> fs_IsDir f \<and> fs_RelPath f \<notin> sn_RelPath ` set snapshots \<and> fs_Op f \<noteq> ''delete'') dbStates)"

lemma by_path_dom: "by_path path xs k = None \<longleftrightarrow> k \<notin> path ` set xs"
proof -
  have "fold (\<lambda>x m. m(path x \<mapsto> x)) xs m k = None \<longleftrightarrow> m k = None \<and> k \<notin> path ` set xs" for m
    by (induction xs arbitrary: m) auto
  then show ?thesis by (simp add: by_path_def)
qed

lemma by_path_Some: "by_path path xs k = Some x \<Longrightarrow> x \<in> set xs \<and> path x = k"
proof -
  have *: "fold (\<lambda>x m. m(path x \<mapsto> x)) xs m k = Some x \<Longrightarrow> m k = Some x \<or> (x \<in> set xs \<and> path x = k)" for m
  proof (induction xs arbitrary: m)
    case (Cons a xs)
    from Cons.IH [of "m(path a \<mapsto> a)"] Cons.prems show ?case by (auto split: if_splits)
  qed simp
  show "by_path path xs k = Some x \<Longrightarrow> x \<in> set xs \<and> path x = k" using * [of Map.empty] by (simp add: by_path_def)
qed

lemma by_path_distinct: "distinct (map path xs) \<Longrightarrow> x \<in> set xs \<Longrightarrow> by_path path xs (path x) = Some x"
  using by_path_dom [of path xs "path x"] by_path_Some [of path xs "path x"]
  by (cases "by_path path xs (path x)") (auto simp: distinct_map dest: inj_onD)

lemma snapshot_loop_eq:
  "snapshot_loop send cid pid side m snaps w =
     handle_all send cid (map (snapshot_event pid side) (filter (\<lambda>s. \<not> sn_IsDir s \<and> needUpdate m s) snaps)) w"
  by (induction snaps arbitrary: w) auto

lemma missing_loop_eq:
  "missing_loop send cid pid side m fs w = handle_all send cid (map (\<lambda>f. missing_event pid side (fs_RelPath f))
     (filter (\<lambda>f. \<not> fs_IsDir f \<and> m (fs_RelPath f) = None \<and> fs_Op f \<noteq> ''delete'') fs)) w"
  by (induction fs arbitrary: w) auto

lemma handle_all_append: "handle_all send src (xs @ ys) w = handle_all send src ys (handle_all send src xs w)"
  by (induction xs arbitrary: w) auto

lemma ListFileStates_ok:
  "sql_ok w \<Longrightarrow> ListFileStates pid side w = (Inr (file_states_of pid side (db w)), w\<lparr>stmts := Suc (stmts w)\<rparr>)"
  by (simp add: ListFileStates_def query_def exec_ok)

lemma applyDiff_ok:
  assumes "sql_ok w"
  shows "applyDiff send cid pid side snaps w =
    (Inr (), handle_all send cid (diff_events pid side (file_states_of pid side (db w)) snaps) (w\<lparr>stmts := Suc (stmts w)\<rparr>))"
  by (simp add: applyDiff_def ListFileStates_ok [OF assms] snapshot_loop_eq missing_loop_eq Let_def
      diff_events_def handle_all_append by_path_dom)

section \<open>What a comparison does to the stored states\<close>

lemma file_states_of_set:
  "set (file_states_of pid side d) = {f \<in> set (file_state d). fs_PairID f = pid \<and> fs_Side f = side}"
  by (auto simp: file_states_of_def)

lemma file_states_of_distinct:
  assumes "keys_ok d"
  shows "distinct (map fs_RelPath (file_states_of pid side d))"
proof -
  have "distinct (file_states_of pid side d)"
    using assms by (auto simp: file_states_of_def keys_ok_def distinct_map)
  moreover have "inj_on fs_key (set (file_state d))" using assms by (simp add: keys_ok_def distinct_map)
  then have "inj_on fs_RelPath (set (file_states_of pid side d))"
    by (auto simp: file_states_of_set fs_key_def inj_on_def)
  ultimately show ?thesis by (simp add: distinct_map)
qed

lemma by_path_file_states:
  assumes "keys_ok d"
  shows "by_path fs_RelPath (file_states_of pid side d) rel = find_file_state (pid, side, rel) d"
proof (cases "find_file_state (pid, side, rel) d")
  case None
  then have "rel \<notin> fs_RelPath ` set (file_states_of pid side d)"
    by (auto simp: file_states_of_set find_file_state_def find_None_iff fs_key_def)
  then show ?thesis using None by (simp add: by_path_dom)
next
  case (Some f)
  then have f: "f \<in> set (file_states_of pid side d)" "fs_RelPath f = rel"
    by (auto simp: file_states_of_set find_file_state_def fs_key_def dest!: find_Some_iff')
  then show ?thesis using by_path_distinct [OF file_states_of_distinct [OF assms] f(1)] Some by simp
qed

text \<open>The events of one file: at most one snapshot of it, so at most one event.\<close>

definition same_file :: "string \<Rightarrow> string \<Rightarrow> FileChangedEvent \<Rightarrow> bool" where
  "same_file s rel ev \<longleftrightarrow> ev_Side ev = s \<and> ev_RelPath ev = rel"

lemma diff_event_simps [simp]:
  "ev_Side (snapshot_event pid side x) = side" "ev_RelPath (snapshot_event pid side x) = sn_RelPath x"
  "ev_PairID (snapshot_event pid side x) = pid" "ev_Op (snapshot_event pid side x) = ''write''"
  "ev_SHA256 (snapshot_event pid side x) = sn_SHA256 x"
  "ev_Side (missing_event pid side rel) = side" "ev_RelPath (missing_event pid side rel) = rel"
  "ev_PairID (missing_event pid side rel) = pid" "ev_Op (missing_event pid side rel) = ''delete''"
  "ev_SHA256 (missing_event pid side rel) = []"
  by (simp_all add: snapshot_event_def missing_event_def)

lemma find_event:
  assumes "e \<in> set evs" "P e" "\<And>e'. e' \<in> set evs \<Longrightarrow> P e' \<Longrightarrow> e' = e"
  shows "List.find P (rev evs) = Some e"
proof -
  obtain e' where "List.find P (rev evs) = Some e'"
    using assms(1,2) by (cases "List.find P (rev evs)") (auto simp: find_None_iff)
  then show ?thesis using assms(3) [of e'] by (auto dest!: find_Some_iff')
qed

lemma applyDiff_row:
  assumes "sql_ok w" "find_pair pid (db w) = Some p" "past_stamps w" "strict_mono (clock w)"
    and "applyDiff send cid pid side snaps w = (r, w')"
    and "e \<in> set (diff_events pid side (file_states_of pid side (db w)) snaps)"
    and "\<And>e'. e' \<in> set (diff_events pid side (file_states_of pid side (db w)) snaps) \<Longrightarrow> ev_RelPath e' = ev_RelPath e \<Longrightarrow> e' = e"
  shows "\<exists>t. find_file_state (pid, side, ev_RelPath e) (db w') = Some (event_state e t)"
proof -
  let ?evs = "diff_events pid side (file_states_of pid side (db w)) snaps"
  let ?w = "w\<lparr>stmts := Suc (stmts w)\<rparr>"
  have w': "w' = handle_all send cid ?evs ?w" using assms(5) by (simp add: applyDiff_ok [OF assms(1)])
  have evs: "\<forall>e \<in> set ?evs. ev_PairID e = pid \<and> ev_Side e = side" by (auto simp: diff_events_def)
  have "List.find (\<lambda>ev. ev_Side ev = side \<and> ev_RelPath ev = ev_RelPath e) (rev ?evs) = Some e"
    using assms(6,7) evs by (intro find_event) auto
  moreover have "sql_ok ?w" "find_pair pid (db ?w) = Some p" "past_stamps ?w" "strict_mono (clock ?w)"
    using assms(1-4) by (simp_all add: sql_ok_def past_stamps_def)
  ultimately show ?thesis
    using handle_all_tracks [of ?w pid p ?evs side "ev_RelPath e" send cid] evs w' by auto
qed

lemma applyDiff_missing_deleted:
  assumes "sql_ok w" "find_pair pid (db w) = Some p" "past_stamps w" "strict_mono (clock w)"
    and "applyDiff send cid pid side snaps w = (r, w')"
    and "f \<in> set (file_state (db w))" "fs_PairID f = pid" "fs_Side f = side" "\<not> fs_IsDir f" "fs_Op f \<noteq> ''delete''"
    and "fs_RelPath f \<notin> sn_RelPath ` set snaps"
  shows "\<exists>g. find_file_state (pid, side, fs_RelPath f) (db w') = Some g \<and> fs_Op g = ''delete'' \<and> fs_SHA256 g = None"
proof -
  let ?db = "file_states_of pid side (db w)"
  let ?evs = "diff_events pid side ?db snaps"
  let ?e = "missing_event pid side (fs_RelPath f)"
  have mem: "?e \<in> set ?evs" using assms(6-11) by (auto simp: diff_events_def file_states_of_set)
  have uniq: "e = ?e" if "e \<in> set ?evs" "ev_RelPath e = ev_RelPath ?e" for e
    using that assms(11) by (auto simp: diff_events_def) (metis imageI)
  obtain t where "find_file_state (pid, side, fs_RelPath f) (db w') = Some (event_state ?e t)"
    using applyDiff_row [OF assms(1-5) mem uniq] unfolding diff_event_simps by blast
  then show ?thesis by simp
qed

text \<open>The specification: the row of a path after a comparison at the time \<open>t\<close>, from the row before.\<close>

definition diff_row :: "string \<Rightarrow> string \<Rightarrow> FileSnapshot list \<Rightarrow> string \<Rightarrow> int \<Rightarrow> FileState option \<Rightarrow> FileState option" where
  "diff_row pid side snaps rel t row = (case List.find (\<lambda>s. sn_RelPath s = rel) snaps of
       Some s \<Rightarrow> if \<not> sn_IsDir s \<and> (case row of None \<Rightarrow> True | Some f \<Rightarrow> fs_SHA256 f \<noteq> None \<and> fs_SHA256 f \<noteq> Some (sn_SHA256 s))
                 then Some (event_state (snapshot_event pid side s) t) else row
     | None \<Rightarrow> (case row of None \<Rightarrow> None
                | Some f \<Rightarrow> if fs_IsDir f \<or> fs_Op f = ''delete'' then Some f else Some (event_state (missing_event pid side rel) t)))"

lemma applyDiff_rows:
  assumes "sql_ok w" "find_pair pid (db w) = Some p" "past_stamps w" "strict_mono (clock w)"
    and "applyDiff send cid pid side snaps w = (r, w')"
  shows "case List.find (\<lambda>ev. ev_Side ev = s \<and> ev_RelPath ev = rel) (rev (diff_events pid side (file_states_of pid side (db w)) snaps)) of
      None \<Rightarrow> find_file_state (pid, s, rel) (db w') = find_file_state (pid, s, rel) (db w)
    | Some ev \<Rightarrow> \<exists>t. find_file_state (pid, s, rel) (db w') = Some (event_state ev t)"
proof -
  let ?evs = "diff_events pid side (file_states_of pid side (db w)) snaps" and ?w = "w\<lparr>stmts := Suc (stmts w)\<rparr>"
  have w': "w' = handle_all send cid ?evs ?w" using assms(5) by (simp add: applyDiff_ok [OF assms(1)])
  have "sql_ok ?w" "find_pair pid (db ?w) = Some p" "past_stamps ?w" "strict_mono (clock ?w)" "\<forall>ev \<in> set ?evs. ev_PairID ev = pid"
    using assms(1-4) by (auto simp: sql_ok_def past_stamps_def diff_events_def)
  from handle_all_tracks [OF this, of s rel send cid] show ?thesis unfolding w' by (simp split: option.splits)
qed

lemma find_distinct:
  assumes "distinct (map g xs)" "x \<in> set xs" "g x = k"
  shows "List.find (\<lambda>x. g x = k) xs = Some x"
  using assms by (induction xs) (auto simp: image_iff)

lemma diff_row_cases:
  assumes "keys_ok (db w)" "distinct (map sn_RelPath snaps)"
  shows "case List.find (\<lambda>ev. ev_Side ev = side \<and> ev_RelPath ev = rel) (rev (diff_events pid side (file_states_of pid side (db w)) snaps)) of
      None \<Rightarrow> diff_row pid side snaps rel t (find_file_state (pid, side, rel) (db w)) = find_file_state (pid, side, rel) (db w)
    | Some ev \<Rightarrow> diff_row pid side snaps rel t (find_file_state (pid, side, rel) (db w)) = Some (event_state ev t)"
proof -
  let ?row = "find_file_state (pid, side, rel) (db w)" and ?db = "file_states_of pid side (db w)"
  let ?evs = "diff_events pid side ?db snaps"
  note m = by_path_file_states [OF assms(1), of pid side]
  show ?thesis
  proof (cases "List.find (\<lambda>ev. ev_Side ev = side \<and> ev_RelPath ev = rel) (rev ?evs)")
    case None
    moreover have "\<forall>e \<in> set ?evs. ev_Side e = side" by (auto simp: diff_events_def)
    ultimately have none: "e \<in> set ?evs \<Longrightarrow> ev_RelPath e \<noteq> rel" for e by (auto simp: find_None_iff)
    have "diff_row pid side snaps rel t ?row = ?row"
    proof (cases "List.find (\<lambda>s. sn_RelPath s = rel) snaps")
      case (Some x)
      then have x: "x \<in> set snaps" "sn_RelPath x = rel" by (auto dest!: find_Some_iff')
      have "snapshot_event pid side x \<notin> set ?evs" using none x(2) by force
      then have "sn_IsDir x \<or> \<not> needUpdate (by_path fs_RelPath ?db) x" using x(1) by (auto simp: diff_events_def)
      then show ?thesis using Some x(2) by (auto simp: diff_row_def needUpdate_def m split: option.splits)
    next
      case n: None
      show ?thesis
      proof (cases ?row)
        case (Some f)
        then have f: "f \<in> set ?db" "fs_RelPath f = rel"
          by (auto simp: file_states_of_set find_file_state_def fs_key_def dest!: find_Some_iff')
        have "missing_event pid side (fs_RelPath f) \<notin> set ?evs" using none f(2) by force
        moreover have "missing_event pid side (fs_RelPath f) \<in> set ?evs" if "\<not> (fs_IsDir f \<or> fs_Op f = ''delete'')"
          unfolding diff_events_def set_append set_map using that f n by (intro UnI2 image_eqI [of _ _ f]) (auto simp: find_None_iff)
        ultimately have "fs_IsDir f \<or> fs_Op f = ''delete''" by blast
        then show ?thesis using n Some by (simp add: diff_row_def)
      qed (simp add: diff_row_def n)
    qed
    then show ?thesis by (simp only: None option.case)
  next
    case (Some ev)
    then have ev: "ev \<in> set ?evs" "ev_RelPath ev = rel" by (auto dest!: find_Some_iff')
    then consider x where "x \<in> set snaps" "\<not> sn_IsDir x" "needUpdate (by_path fs_RelPath ?db) x" "ev = snapshot_event pid side x"
      | f where "f \<in> set ?db" "\<not> fs_IsDir f" "fs_RelPath f \<notin> sn_RelPath ` set snaps" "fs_Op f \<noteq> ''delete''"
        "ev = missing_event pid side (fs_RelPath f)"
      by (auto simp: diff_events_def)
    then have "diff_row pid side snaps rel t ?row = Some (event_state ev t)"
    proof cases
      case 1
      have "List.find (\<lambda>s. sn_RelPath s = rel) snaps = Some x"
        by (rule find_distinct [OF assms(2) 1(1)]) (use 1(4) ev(2) in simp)
      then show ?thesis using 1 ev(2) by (auto simp: diff_row_def needUpdate_def m split: option.splits)
    next
      case 2
      have "?row = Some f"
        using by_path_distinct [OF file_states_of_distinct [OF assms(1)] 2(1)] 2(5) ev(2) by (simp add: m)
      moreover have "List.find (\<lambda>s. sn_RelPath s = rel) snaps = None" using 2(3,5) ev(2) by (auto simp: find_None_iff image_iff)
      ultimately show ?thesis using 2 ev(2) by (simp add: diff_row_def)
    qed
    then show ?thesis by (simp only: Some option.case)
  qed
qed

text \<open>
  C26. What a comparison makes of every row: for a client whose list has no path twice, after a comparison on a
  working driver and a forward clock, a file that is reported and has no row, or a row with another hash,
  has the reported write as its row; a file with a row that is no longer reported has a deletion; every
  other row of the pair and side, and every row of the other side, is as it was. A row without a hash, such as
  that of a deletion, is among those that stay, even if the file is reported again.
\<close>

theorem applyDiff_synchronises:
  assumes "sql_ok w" "find_pair pid (db w) = Some p" "past_stamps w" "strict_mono (clock w)" "wf_db (db w)"
    and "distinct (map sn_RelPath snaps)" "applyDiff send cid pid side snaps w = (r, w')"
  shows "(\<exists>t. find_file_state (pid, side, rel) (db w') = diff_row pid side snaps rel t (find_file_state (pid, side, rel) (db w))) \<and>
    (s \<noteq> side \<longrightarrow> find_file_state (pid, s, rel) (db w') = find_file_state (pid, s, rel) (db w))"
proof -
  let ?find = "\<lambda>s. List.find (\<lambda>ev. ev_Side ev = s \<and> ev_RelPath ev = rel) (rev (diff_events pid side (file_states_of pid side (db w)) snaps))"
  have keys: "keys_ok (db w)" using assms(5) by (simp add: wf_db_def)
  note rows = applyDiff_rows [OF assms(1-4,7), of _ rel] and spec = diff_row_cases [OF keys assms(6), where side = side and rel = rel and pid = pid]
  have "\<exists>t. find_file_state (pid, side, rel) (db w') = diff_row pid side snaps rel t (find_file_state (pid, side, rel) (db w))"
  proof (cases "?find side")
    case None
    then show ?thesis using rows [of side] spec [of 0] by (intro exI [of _ 0]) simp
  next
    case (Some ev)
    then obtain t where "find_file_state (pid, side, rel) (db w') = Some (event_state ev t)" using rows [of side] by auto
    then show ?thesis using spec [of t] Some by (intro exI [of _ t]) simp
  qed
  moreover have "?find s = None" if "s \<noteq> side" using that by (auto simp: find_None_iff diff_events_def)
  then have "find_file_state (pid, s, rel) (db w') = find_file_state (pid, s, rel) (db w)" if "s \<noteq> side" using rows [of s] that by simp
  ultimately show ?thesis by blast
qed

definition diff_world :: "FileState list \<Rightarrow> unit world" where
  "diff_world fs = \<lparr>db = sample_db\<lparr>file_state := fs\<rparr>, clock = (\<lambda>k. 100 + int k), ticks = 0, sqlerr = (\<lambda>_. None),
     stmts = 0, net = ()\<rparr>"

definition diff_snap :: "string \<Rightarrow> string \<Rightarrow> FileSnapshot" where
  "diff_snap rel sha = \<lparr>sn_RelPath = rel, sn_SHA256 = sha, sn_Size = 1, sn_ModTime = 1, sn_IsDir = False\<rparr>"

definition null_send :: "unit send_fn" where
  "null_send c e h = (Inr (), h)"

lemma diff_world_simps:
  "sql_ok (diff_world fs)" "find_pair ''p1'' (db (diff_world fs)) = Some sample_pair" "strict_mono (clock (diff_world fs))"
  by (auto simp: diff_world_def sql_ok_def sample_defs find_pair_def strict_mono_def)

theorem applyDiff_synchronises_witness:
  "\<exists>t. find_file_state (''p1'', ''a'', ''f'') (db (snd (applyDiff null_send ''ca'' ''p1'' ''a'' [diff_snap ''f'' ''h2'']
      (diff_world [sample_state ''h0'' 5])))) = Some (event_state (snapshot_event ''p1'' ''a'' (diff_snap ''f'' ''h2'')) t)"
proof -
  let ?w = "diff_world [sample_state ''h0'' 5]"
  have "past_stamps ?w" "wf_db (db ?w)"
    by (simp_all add: past_stamps_def diff_world_def sample_defs wf_db_def keys_ok_def refs_ok_def client_ids_def pair_ids_def)
  moreover have "distinct (map sn_RelPath [diff_snap ''f'' ''h2''])" by simp
  moreover have "find_file_state (''p1'', ''a'', ''f'') (db ?w) = Some (sample_state ''h0'' 5)"
    by (simp add: diff_world_def sample_defs find_file_state_def fs_key_def)
  ultimately show ?thesis
    using applyDiff_synchronises [OF diff_world_simps(1,2) _ diff_world_simps(3), of "[sample_state ''h0'' 5]"
        "[diff_snap ''f'' ''h2'']" null_send "''ca''" "''a''", OF _ _ _ prod.collapse [symmetric], of "''f''" "''a''"]
    by (simp add: diff_row_def diff_snap_def sample_state_def)
qed

text \<open>
  A reconnect without changes is silent: when the client reports exactly the files that are stored as
  written, with their hashes, the comparison handles no event, so it sends nothing and leaves the
  database as it is.
\<close>

theorem applyDiff_no_change:
  assumes "sql_ok w" "wf_db (db w)"
    and "\<forall>s \<in> set snaps. \<not> sn_IsDir s \<longrightarrow> (\<exists>f. find_file_state (pid, side, sn_RelPath s) (db w) = Some f \<and> fs_SHA256 f = Some (sn_SHA256 s))"
    and "\<forall>f \<in> set (file_state (db w)). fs_PairID f = pid \<and> fs_Side f = side \<and> \<not> fs_IsDir f \<and> fs_Op f \<noteq> ''delete''
           \<longrightarrow> fs_RelPath f \<in> sn_RelPath ` set snaps"
  shows "applyDiff send cid pid side snaps w = (Inr (), w\<lparr>stmts := Suc (stmts w)\<rparr>)"
proof -
  have keys: "keys_ok (db w)" using assms(2) by (simp add: wf_db_def)
  have "\<not> needUpdate (by_path fs_RelPath (file_states_of pid side (db w))) s" if s: "s \<in> set snaps" "\<not> sn_IsDir s" for s
  proof -
    obtain f where "find_file_state (pid, side, sn_RelPath s) (db w) = Some f" "fs_SHA256 f = Some (sn_SHA256 s)"
      using assms(3) s by blast
    then show ?thesis by (simp add: needUpdate_def by_path_file_states [OF keys])
  qed
  then have "diff_events pid side (file_states_of pid side (db w)) snaps = []"
    using assms(4) by (auto simp: diff_events_def filter_empty_conv file_states_of_set)
  then show ?thesis by (simp add: applyDiff_ok [OF assms(1)])
qed

theorem applyDiff_no_change_witness:
  "applyDiff null_send ''ca'' ''p1'' ''a'' [diff_snap ''f'' ''h0''] (diff_world [sample_state ''h0'' 5])
   = (Inr (), (diff_world [sample_state ''h0'' 5])\<lparr>stmts := 1\<rparr>)"
proof -
  let ?w = "diff_world [sample_state ''h0'' 5]"
  have "wf_db (db ?w)"
    by (simp add: diff_world_def sample_defs wf_db_def keys_ok_def refs_ok_def client_ids_def pair_ids_def)
  moreover have "find_file_state (''p1'', ''a'', ''f'') (db ?w) = Some (sample_state ''h0'' 5)"
    by (simp add: diff_world_def sample_defs find_file_state_def fs_key_def)
  moreover have "file_state (db ?w) = [sample_state ''h0'' 5]" "stmts ?w = 0" by (simp_all add: diff_world_def)
  ultimately show ?thesis
    using applyDiff_no_change [OF diff_world_simps(1), of "[sample_state ''h0'' 5]" "[diff_snap ''f'' ''h0'']" "''p1''" "''a''" null_send "''ca''"]
    by (simp add: diff_snap_def sample_state_def)
qed

text \<open>
  A file that was recreated while its row is a deletion is missed: the row has no hash, so a reported
  file with this path counts as up to date and the comparison does not touch its row.
\<close>

theorem applyDiff_misses_recreated:
  assumes "sql_ok w" "wf_db (db w)" "find_file_state (pid, side, sn_RelPath s) (db w) = Some f"
    and "fs_Op f = ''delete''" "fs_SHA256 f = None" "s \<in> set snaps"
    and "applyDiff send cid pid side snaps w = (r, w')"
  shows "find_file_state (pid, side, sn_RelPath s) (db w') = Some f"
proof -
  let ?evs = "diff_events pid side (file_states_of pid side (db w)) snaps"
  have keys: "keys_ok (db w)" using assms(2) by (simp add: wf_db_def)
  have "\<not> needUpdate (by_path fs_RelPath (file_states_of pid side (db w))) s'" if "sn_RelPath s' = sn_RelPath s" for s'
    using assms(3,5) that by (simp add: needUpdate_def by_path_file_states [OF keys])
  then have "ev_RelPath ev \<noteq> sn_RelPath s" if "ev \<in> set ?evs" for ev
    using that assms(6) by (auto simp: diff_events_def)
  then have o: "(pid, side, sn_RelPath s) \<noteq> (ev_PairID ev, ev_Side ev, ev_RelPath ev)" if "ev \<in> set ?evs" for ev
    by (metis Pair_inject that)
  have "find_file_state (pid, side, sn_RelPath s) (db (handle_all send cid ?evs (w\<lparr>stmts := Suc (stmts w)\<rparr>))) = Some f"
    using assms(3) by (subst handle_all_other_rows [OF o]) simp_all
  then show ?thesis using assms(7) by (simp add: applyDiff_ok [OF assms(1)])
qed

theorem applyDiff_misses_recreated_witness:
  "find_file_state (''p1'', ''a'', ''f'') (db (snd (applyDiff null_send ''ca'' ''p1'' ''a'' [diff_snap ''f'' ''h9'']
      (diff_world [sample_state ''h0'' 5\<lparr>fs_Op := ''delete'', fs_SHA256 := None\<rparr>]))))
   = Some (sample_state ''h0'' 5\<lparr>fs_Op := ''delete'', fs_SHA256 := None\<rparr>)"
proof -
  let ?f = "sample_state ''h0'' 5\<lparr>fs_Op := ''delete'', fs_SHA256 := None\<rparr>"
  have "wf_db (db (diff_world [?f]))" "find_file_state (''p1'', ''a'', ''f'') (db (diff_world [?f])) = Some ?f"
    by (simp_all add: diff_world_def sample_defs wf_db_def keys_ok_def refs_ok_def client_ids_def pair_ids_def find_file_state_def fs_key_def)
  then show ?thesis
    using applyDiff_misses_recreated [OF diff_world_simps(1), of "[?f]" "''p1''" "''a''" "diff_snap ''f'' ''h9''" ?f
        "[diff_snap ''f'' ''h9'']" null_send "''ca''", OF _ _ _ _ _ prod.collapse [symmetric]]
    by (simp add: diff_snap_def)
qed

end
