(* ===== verification/ClientServer.thy ===== *)
theory ClientServer
  imports Runner Diff
begin

text \<open>
  The client's answers and the server's comparison together: what \<open>HandleListFiles\<close> of the client
  sends is what \<open>RequestSnapshotAndDiff\<close> of the server compares with its tables.
\<close>

lemma query_row_world:
  "query_row f m scan w = (r, w') \<Longrightarrow> db w' = db w \<and> clock w' = clock w \<and> ticks w' = ticks w \<and> sqlerr w' = sqlerr w"
  by (auto simp: query_row_def query_def exec_def split: prod.splits sum.splits option.splits)

lemma HandleListFiles_failed:
  assumes "lookupSubscription (lfr_PairID req) (rn_reg s) = Some sub"
    and "jail_ReadDir (rn_fs s) (rc_Jail c) (if su_RootSubpath sub = [] then ''.'' else su_RootSubpath sub) = Inl e"
    and "ctx ''.'' = None"
  shows "HandleListFiles H c ctx req s = []"
proof -
  have d: "maxScanDepth + 1 = Suc maxScanDepth" by simp
  show ?thesis using assms unfolding HandleListFiles_def d walkScan.simps(2)
    by (simp add: maxScanFiles_def Let_def)
qed

text \<open>
  A client that cannot read its directory makes the server delete: when the pair's directory is missing or
  unreadable (an unmounted disk), the snapshot the client sends is empty, and the comparison
  records a deletion of every file the server knows of this side.
\<close>

theorem unreadable_root_deletes_all:
  assumes "lookupSubscription pid (rn_reg s) = Some sub"
    and "jail_ReadDir (rn_fs s) (rc_Jail c) (if su_RootSubpath sub = [] then ''.'' else su_RootSubpath sub) = Inl e"
    and "\<And>n. request cid (list_files_env corr pid side) n =
      (Inr \<lparr>Type = TypeListFilesResponse, CorrelationID = corr,
        Payload = enc_ListFilesResponse (HandleListFiles H c (\<lambda>_. None) \<lparr>lfr_PairID = pid, lfr_Side = side\<rparr> s)\<rparr>, n)"
    and "sql_ok w" "find_pair pid (db w) = Some p" "past_stamps w" "strict_mono (clock w)"
    and "RequestSnapshotAndDiff send request corr cid pid side w = (r, w')"
    and "f \<in> set (file_state (db w))" "fs_PairID f = pid" "fs_Side f = side" "\<not> fs_IsDir f" "fs_Op f \<noteq> ''delete''"
  shows "\<exists>g. find_file_state (pid, side, fs_RelPath f) (db w') = Some g \<and> fs_Op g = ''delete'' \<and> fs_SHA256 g = None"
proof -
  obtain r1 w1 where g: "GetPair pid w = (r1, w1)" by (meson surj_pair)
  note q = query_row_world [OF g [unfolded GetPair_def]]
  have "HandleListFiles H c (\<lambda>_. None) \<lparr>lfr_PairID = pid, lfr_Side = side\<rparr> s = []"
    by (rule HandleListFiles_failed) (use assms(1,2) in simp_all)
  then have rq: "request cid (list_files_env corr pid side) (net w1) =
      (Inr \<lparr>Type = TypeListFilesResponse, CorrelationID = corr, Payload = enc_ListFilesResponse []\<rparr>, net w1)"
    using assms(3) by simp
  have dec: "dec_ListFilesResponse (enc_ListFilesResponse []) = Inr []" by (rule ListFilesResponse_roundtrip) simp
  have "isl r1 = False" using g assms(4,5)
    by (auto simp: GetPair_def query_row_def query_def exec_def scanPair_def scan_row_def split: option.splits)
  then have "applyDiff send cid pid side [] (w1\<lparr>net := net w1\<rparr>) = (r, w')"
    using assms(8) g rq dec by (cases r1) (simp_all add: RequestSnapshotAndDiff_def)
  from applyDiff_missing_deleted [OF _ _ _ _ this, of p f] show ?thesis
    using assms(4-7,9-13) q by (simp add: sql_ok_def past_stamps_def)
qed

definition gone_request :: "unit request_fn" where
  "gone_request cid env n = (Inr \<lparr>Type = TypeListFilesResponse, CorrelationID = ''x'',
     Payload = enc_ListFilesResponse (HandleListFiles toy_hash demo_rconfig (\<lambda>_. None) \<lparr>lfr_PairID = ''p1'', lfr_Side = ''a''\<rparr>
       (demo_runner ''gone''))\<rparr>, n)"

theorem unreadable_root_deletes_all_witness:
  "\<exists>g. find_file_state (''p1'', ''a'', ''f'') (db (snd (RequestSnapshotAndDiff null_send gone_request ''x'' ''ca'' ''p1'' ''a''
      (diff_world [sample_state ''h0'' 5])))) = Some g \<and> fs_Op g = ''delete'' \<and> fs_SHA256 g = None"
proof -
  let ?w = "diff_world [sample_state ''h0'' 5]"
  have r: "jail_ReadDir (rn_fs (demo_runner ''gone'')) (rc_Jail demo_rconfig)
      (if su_RootSubpath (demo_sub ''gone'') = [] then ''.'' else su_RootSubpath (demo_sub ''gone'')) = Inl ErrNotExist"
    by code_simp
  have p: "past_stamps ?w" by (simp add: past_stamps_def diff_world_def sample_defs)
  have f: "fs_RelPath (sample_state ''h0'' 5) = ''f''" by (simp add: sample_state_def)
  show ?thesis
    by (subst f [symmetric], rule unreadable_root_deletes_all [where H = toy_hash, OF demo_lookup r _ diff_world_simps(1,2) p
          diff_world_simps(3) prod.collapse [symmetric]])
      (simp_all add: gone_request_def, simp_all add: diff_world_def sample_state_def)
qed

end
