(* ===== verification/Scheduler.thy ===== *)
theory Scheduler
  imports Prelude
begin

text \<open>
  The limits on parallel jobs (\<open>internal/server/syncengine/scheduler.go\<close>). A job is a call of \<open>Acquire\<close>
  and, if it succeeds, of the \<open>release\<close> function it returned. The counting semaphore of
  \<open>golang.org/x/sync\<close> is a parameter of which its documentation is assumed (\<open>semaphore_laws\<close>). A job runs
  one call of the code at a time, in any interleaving with the others; its phase is the call it makes next.
\<close>

section \<open>Semaphores\<close>

text \<open>
  \<open>sem_Acquire w\<close> is what \<open>Acquire(ctx, 1)\<close> leaves when it is granted in \<open>w\<close>, and \<open>None\<close> while it waits;
  \<open>sem_Release w\<close> is \<open>None\<close> where \<open>Release(1)\<close> panics.
\<close>

record 'w semaphore =
  sem_New :: "int \<Rightarrow> 'w"
  sem_Acquire :: "'w \<Rightarrow> 'w option"
  sem_Release :: "'w \<Rightarrow> 'w option"

definition semaphore_laws :: "'w semaphore \<Rightarrow> ('w \<Rightarrow> int) \<Rightarrow> ('w \<Rightarrow> int) \<Rightarrow> bool" where
  "semaphore_laws L cap held \<longleftrightarrow>
     (\<forall>n. cap (sem_New L n) = n \<and> held (sem_New L n) = 0) \<and>
     (\<forall>w. held w < cap w \<longleftrightarrow> sem_Acquire L w \<noteq> None) \<and>
     (\<forall>w w'. sem_Acquire L w = Some w' \<longrightarrow> cap w' = cap w \<and> held w' = held w + 1) \<and>
     (\<forall>w. 0 < held w \<longrightarrow> (\<exists>w'. sem_Release L w = Some w' \<and> cap w' = cap w \<and> held w' = held w - 1))"

lemma semaphoreD:
  assumes "semaphore_laws L cap held"
  shows "cap (sem_New L n) = n" "held (sem_New L n) = 0"
    and "sem_Acquire L w = Some w' \<Longrightarrow> cap w' = cap w \<and> held w' = held w + 1 \<and> held w < cap w"
    and "held w < cap w \<Longrightarrow> \<exists>w'. sem_Acquire L w = Some w'"
    and "0 < held w \<Longrightarrow> \<exists>w'. sem_Release L w = Some w' \<and> cap w' = cap w \<and> held w' = held w - 1"
  using assms unfolding semaphore_laws_def by simp_all

section \<open>State\<close>

record JobKey =
  jk_ClientID :: string
  jk_PairID :: string
  jk_RelPath :: string

text \<open>
  \<open>Refused\<close>, \<open>Canceled e\<close> and \<open>Released\<close> are the ends of a job: \<open>Acquire\<close> returned \<open>ErrDuplicateJob\<close> or
  \<open>ErrCanceled\<close> with the text of \<open>e\<close>, or \<open>release\<close> has run.
\<close>

datatype phase =
    WaitGlobal | WaitClient | GlobalBack err | Forget err
  | Running | ClientReleased | GlobalReleased
  | Refused | Canceled err | Released

record 'w scheduler =
  sd_globalLimit :: int
  sd_perClientLimit :: int
  sd_global :: 'w
  sd_perCli :: "string \<rightharpoonup> 'w"
  sd_pending :: "JobKey set"
  sd_jobs :: "(JobKey \<times> phase) list"

definition defaultGlobalLimit :: int where "defaultGlobalLimit = 64"
definition defaultPerClientLimit :: int where "defaultPerClientLimit = 4"

definition NewSchedulerWithLimits :: "'w semaphore \<Rightarrow> int \<Rightarrow> int \<Rightarrow> 'w scheduler" where
  "NewSchedulerWithLimits L g c = \<lparr>sd_globalLimit = g, sd_perClientLimit = c, sd_global = sem_New L g,
     sd_perCli = Map.empty, sd_pending = {}, sd_jobs = []\<rparr>"

definition NewScheduler :: "'w semaphore \<Rightarrow> 'w scheduler" where
  "NewScheduler L = NewSchedulerWithLimits L defaultGlobalLimit defaultPerClientLimit"

abbreviation key_of :: "'w scheduler \<Rightarrow> nat \<Rightarrow> JobKey" where "key_of s i \<equiv> fst (sd_jobs s ! i)"
abbreviation phase_of :: "'w scheduler \<Rightarrow> nat \<Rightarrow> phase" where "phase_of s i \<equiv> snd (sd_jobs s ! i)"

definition goto :: "nat \<Rightarrow> phase \<Rightarrow> 'w scheduler \<Rightarrow> 'w scheduler" where
  "goto i p s = s\<lparr>sd_jobs := (sd_jobs s)[i := (key_of s i, p)]\<rparr>"

section \<open>The calls of a job\<close>

text \<open>The part of \<open>Acquire\<close> under the lock.\<close>

definition Acquire_enter :: "'w semaphore \<Rightarrow> JobKey \<Rightarrow> 'w scheduler \<Rightarrow> 'w scheduler" where
  "Acquire_enter L key s =
     (if key \<in> sd_pending s then s\<lparr>sd_jobs := sd_jobs s @ [(key, Refused)]\<rparr>
      else s\<lparr>sd_pending := insert key (sd_pending s),
         sd_perCli := (case sd_perCli s (jk_ClientID key) of
             None \<Rightarrow> (sd_perCli s)(jk_ClientID key \<mapsto> sem_New L (sd_perClientLimit s))
           | Some _ \<Rightarrow> sd_perCli s),
         sd_jobs := sd_jobs s @ [(key, WaitGlobal)]\<rparr>)"

definition removePending :: "JobKey \<Rightarrow> 'w scheduler \<Rightarrow> 'w scheduler" where
  "removePending key s = s\<lparr>sd_pending := sd_pending s - {key}\<rparr>"

definition Acquire_global :: "'w semaphore \<Rightarrow> nat \<Rightarrow> 'w scheduler \<Rightarrow> 'w scheduler option" where
  "Acquire_global L i s = (case sem_Acquire L (sd_global s) of
       None \<Rightarrow> None
     | Some w \<Rightarrow> Some (goto i WaitClient (s\<lparr>sd_global := w\<rparr>)))"

definition Acquire_client :: "'w semaphore \<Rightarrow> nat \<Rightarrow> 'w scheduler \<Rightarrow> 'w scheduler option" where
  "Acquire_client L i s = (let c = jk_ClientID (key_of s i) in
     case Option.bind (sd_perCli s c) (sem_Acquire L) of
       None \<Rightarrow> None
     | Some w \<Rightarrow> Some (goto i Running (s\<lparr>sd_perCli := (sd_perCli s)(c \<mapsto> w)\<rparr>)))"

text \<open>The context ends while a job waits.\<close>

definition Acquire_canceled :: "nat \<Rightarrow> err \<Rightarrow> 'w scheduler \<Rightarrow> 'w scheduler option" where
  "Acquire_canceled i e s = (case phase_of s i of
       WaitGlobal \<Rightarrow> Some (goto i (Forget e) s)
     | WaitClient \<Rightarrow> Some (goto i (GlobalBack e) s)
     | _ \<Rightarrow> None)"

definition release_global :: "'w semaphore \<Rightarrow> nat \<Rightarrow> phase \<Rightarrow> 'w scheduler \<Rightarrow> 'w scheduler option" where
  "release_global L i p s = (case sem_Release L (sd_global s) of
       None \<Rightarrow> None
     | Some w \<Rightarrow> Some (goto i p (s\<lparr>sd_global := w\<rparr>)))"

definition release_client :: "'w semaphore \<Rightarrow> nat \<Rightarrow> 'w scheduler \<Rightarrow> 'w scheduler option" where
  "release_client L i s = (let c = jk_ClientID (key_of s i) in
     case Option.bind (sd_perCli s c) (sem_Release L) of
       None \<Rightarrow> None
     | Some w \<Rightarrow> Some (goto i ClientReleased (s\<lparr>sd_perCli := (sd_perCli s)(c \<mapsto> w)\<rparr>)))"

definition forget :: "nat \<Rightarrow> phase \<Rightarrow> 'w scheduler \<Rightarrow> 'w scheduler option" where
  "forget i p s = Some (goto i p (removePending (key_of s i) s))"

text \<open>
  The next call of a job that is not canceled: \<open>Acquire\<close>, then \<open>release\<close>, whose body runs once: called
  in a later phase it does nothing.
\<close>

definition proceed :: "'w semaphore \<Rightarrow> nat \<Rightarrow> 'w scheduler \<Rightarrow> 'w scheduler option" where
  "proceed L i s = (case phase_of s i of
       WaitGlobal \<Rightarrow> Acquire_global L i s
     | WaitClient \<Rightarrow> Acquire_client L i s
     | GlobalBack e \<Rightarrow> release_global L i (Forget e) s
     | Forget e \<Rightarrow> forget i (Canceled e) s
     | Running \<Rightarrow> release_client L i s
     | ClientReleased \<Rightarrow> release_global L i GlobalReleased s
     | GlobalReleased \<Rightarrow> forget i Released s
     | _ \<Rightarrow> None)"

inductive sched_step :: "'w semaphore \<Rightarrow> 'w scheduler \<Rightarrow> 'w scheduler \<Rightarrow> bool" for L where
  enter: "sched_step L s (Acquire_enter L key s)"
| advance: "i < length (sd_jobs s) \<Longrightarrow> proceed L i s = Some s' \<Longrightarrow> sched_step L s s'"
| cancel: "i < length (sd_jobs s) \<Longrightarrow> Acquire_canceled i e s = Some s' \<Longrightarrow> sched_step L s s'"

definition sched_reachable :: "'w semaphore \<Rightarrow> int \<Rightarrow> int \<Rightarrow> 'w scheduler \<Rightarrow> bool" where
  "sched_reachable L g c s \<longleftrightarrow> (sched_step L)\<^sup>*\<^sup>* (NewSchedulerWithLimits L g c) s"

section \<open>The invariant\<close>

fun live :: "phase \<Rightarrow> bool" where
  "live Refused = False" | "live (Canceled e) = False" | "live Released = False" | "live _ = True"

fun holds_global :: "phase \<Rightarrow> bool" where
  "holds_global WaitClient = True" | "holds_global (GlobalBack e) = True" | "holds_global Running = True"
| "holds_global ClientReleased = True" | "holds_global _ = False"

definition jobs_in :: "(JobKey \<times> phase \<Rightarrow> bool) \<Rightarrow> 'w scheduler \<Rightarrow> int" where
  "jobs_in P s = int (length (filter P (sd_jobs s)))"

definition running_of :: "string \<Rightarrow> JobKey \<times> phase \<Rightarrow> bool" where
  "running_of c t \<longleftrightarrow> jk_ClientID (fst t) = c \<and> snd t = Running"

lemma filter_update_count:
  "i < length xs \<Longrightarrow> int (length (filter P (xs[i := y]))) = int (length (filter P xs)) - of_bool (P (xs ! i)) + of_bool (P y)"
proof (induction xs arbitrary: i)
  case (Cons x xs)
  then show ?case
  proof (cases i)
    case (Suc k)
    then show ?thesis using Cons.IH [of k] Cons.prems by (cases "P x") simp_all
  qed simp
qed simp

lemma jobs_in_goto:
  "i < length (sd_jobs s) \<Longrightarrow> jobs_in P (goto i p s) = jobs_in P s - of_bool (P (sd_jobs s ! i)) + of_bool (P (key_of s i, p))"
  by (simp add: jobs_in_def goto_def filter_update_count)

lemma jobs_in_nonneg: "0 \<le> jobs_in P s" by (simp add: jobs_in_def)

lemma jobs_in_pos: "i < length (sd_jobs s) \<Longrightarrow> P (sd_jobs s ! i) \<Longrightarrow> 0 < jobs_in P s"
  by (simp add: jobs_in_def filter_empty_conv) (metis nth_mem)

lemma goto_simps [simp]:
  "sd_globalLimit (goto i p s) = sd_globalLimit s" "sd_perClientLimit (goto i p s) = sd_perClientLimit s"
  "sd_global (goto i p s) = sd_global s" "sd_perCli (goto i p s) = sd_perCli s" "sd_pending (goto i p s) = sd_pending s"
  "length (sd_jobs (goto i p s)) = length (sd_jobs s)"
  by (simp_all add: goto_def)

text \<open>The keys of the live jobs are the pending ones, each once.\<close>

definition live_at :: "'w scheduler \<Rightarrow> nat set" where
  "live_at s = {i. i < length (sd_jobs s) \<and> live (phase_of s i)}"

definition keys_ok :: "'w scheduler \<Rightarrow> bool" where
  "keys_ok s \<longleftrightarrow> sd_pending s = key_of s ` live_at s \<and> inj_on (key_of s) (live_at s)"

text \<open>Every semaphore holds what the phases of the jobs say.\<close>

definition sems_ok :: "('w \<Rightarrow> int) \<Rightarrow> ('w \<Rightarrow> int) \<Rightarrow> 'w scheduler \<Rightarrow> bool" where
  "sems_ok cap held s \<longleftrightarrow> cap (sd_global s) = sd_globalLimit s \<and>
     held (sd_global s) = jobs_in (\<lambda>t. holds_global (snd t)) s \<and> held (sd_global s) \<le> sd_globalLimit s \<and>
     (\<forall>c w. sd_perCli s c = Some w \<longrightarrow> cap w = sd_perClientLimit s \<and> held w = jobs_in (running_of c) s \<and> jobs_in (running_of c) s \<le> sd_perClientLimit s) \<and>
     (\<forall>t \<in> set (sd_jobs s). live (snd t) \<longrightarrow> sd_perCli s (jk_ClientID (fst t)) \<noteq> None)"

lemma key_of_goto [simp]: "key_of (goto i p s) j = key_of s j"
  by (cases "i < length (sd_jobs s)") (auto simp: goto_def nth_list_update list_update_beyond)

lemma live_at_goto:
  "i < length (sd_jobs s) \<Longrightarrow> live_at (goto i p s) = (if live p then insert i (live_at s) else live_at s - {i})"
  by (auto simp: live_at_def goto_def nth_list_update)

lemma keys_ok_goto_live:
  "keys_ok s \<Longrightarrow> i < length (sd_jobs s) \<Longrightarrow> live (phase_of s i) \<Longrightarrow> live p \<Longrightarrow> keys_ok (goto i p s)"
proof -
  assume a: "keys_ok s" "i < length (sd_jobs s)" "live (phase_of s i)" "live p"
  then have "live_at (goto i p s) = live_at s" by (simp add: live_at_goto insert_absorb) (simp add: live_at_def insert_absorb)
  then show ?thesis using a(1) by (simp add: keys_ok_def)
qed

lemma keys_ok_forget:
  assumes "keys_ok s" "i < length (sd_jobs s)" "live (phase_of s i)" "\<not> live p" "forget i p s = Some s'"
  shows "keys_ok s'"
proof -
  let ?r = "removePending (key_of s i) s"
  have r: "sd_jobs ?r = sd_jobs s" "live_at ?r = live_at s" by (simp_all add: removePending_def live_at_def)
  have i: "i \<in> live_at s" using assms(2,3) by (simp add: live_at_def)
  have "sd_pending ?r = key_of s ` (live_at s - {i})"
    using assms(1) i inj_on_image_set_diff [of "key_of s" "live_at s" "live_at s" "{i}"] by (simp add: keys_ok_def removePending_def)
  moreover have "inj_on (key_of s) (live_at s - {i})" using assms(1) inj_on_diff by (auto simp: keys_ok_def)
  moreover have "s' = goto i p ?r" using assms(5) by (simp add: forget_def)
  ultimately show ?thesis using assms(2,4) r by (simp add: keys_ok_def live_at_goto)
qed

lemma keys_ok_enter: assumes "keys_ok s" shows "keys_ok (Acquire_enter L key s)"
proof -
  let ?s = "Acquire_enter L key s" and ?n = "length (sd_jobs s)"
  have jobs: "sd_jobs ?s = sd_jobs s @ [(key, if key \<in> sd_pending s then Refused else WaitGlobal)]"
    and pend: "sd_pending ?s = insert key (sd_pending s)"
    by (auto simp: Acquire_enter_def)
  have la: "live_at ?s = (if key \<in> sd_pending s then live_at s else insert ?n (live_at s))"
    by (auto simp: live_at_def jobs nth_append less_Suc_eq)
  have old: "key_of ?s j = key_of s j" if "j \<in> live_at s" for j using that by (simp add: live_at_def jobs nth_append)
  have new: "key_of ?s ?n = key" "?n \<notin> live_at s" by (simp_all add: jobs live_at_def)
  have im: "key_of ?s ` live_at s = sd_pending s" using assms old by (simp add: keys_ok_def)
  have "inj_on (key_of ?s) (live_at s)" using assms old inj_on_cong [of "live_at s" "key_of ?s" "key_of s"] by (simp add: keys_ok_def)
  then show ?thesis using im new pend by (auto simp: keys_ok_def la insert_absorb)
qed

lemma sems_okD:
  assumes "sems_ok cap held s"
  shows "cap (sd_global s) = sd_globalLimit s" "held (sd_global s) = jobs_in (\<lambda>t. holds_global (snd t)) s"
    and "held (sd_global s) \<le> sd_globalLimit s"
    and "sd_perCli s c = Some w \<Longrightarrow> cap w = sd_perClientLimit s \<and> held w = jobs_in (running_of c) s \<and> jobs_in (running_of c) s \<le> sd_perClientLimit s"
    and "t \<in> set (sd_jobs s) \<Longrightarrow> live (snd t) \<Longrightarrow> sd_perCli s (jk_ClientID (fst t)) \<noteq> None"
  using assms unfolding sems_ok_def by blast+

lemma sems_okI:
  assumes "cap (sd_global s) = sd_globalLimit s" "held (sd_global s) = jobs_in (\<lambda>t. holds_global (snd t)) s"
    "held (sd_global s) \<le> sd_globalLimit s"
    and "\<And>c w. sd_perCli s c = Some w \<Longrightarrow> cap w = sd_perClientLimit s \<and> held w = jobs_in (running_of c) s \<and> jobs_in (running_of c) s \<le> sd_perClientLimit s"
    and "\<And>t. t \<in> set (sd_jobs s) \<Longrightarrow> live (snd t) \<Longrightarrow> sd_perCli s (jk_ClientID (fst t)) \<noteq> None"
  shows "sems_ok cap held s"
  using assms unfolding sems_ok_def by blast

text \<open>A job moves on and the semaphores follow: the global one is \<open>w\<close>, that of the job's client \<open>v\<close>.\<close>

lemma sems_ok_move:
  assumes ok: "sems_ok cap held s" and i: "i < length (sd_jobs s)" and live: "live (phase_of s i) \<or> \<not> live p"
    and g: "cap w = sd_globalLimit s" "held w = held (sd_global s) - of_bool (holds_global (phase_of s i)) + of_bool (holds_global p)"
      "held w \<le> sd_globalLimit s"
    and c: "\<And>v. m (jk_ClientID (key_of s i)) = Some v \<Longrightarrow> cap v = sd_perClientLimit s \<and>
        held v = jobs_in (running_of (jk_ClientID (key_of s i))) s - of_bool (phase_of s i = Running) + of_bool (p = Running) \<and>
        jobs_in (running_of (jk_ClientID (key_of s i))) s - of_bool (phase_of s i = Running) + of_bool (p = Running) \<le> sd_perClientLimit s"
    and m: "\<And>c. c \<noteq> jk_ClientID (key_of s i) \<Longrightarrow> m c = sd_perCli s c" "dom (sd_perCli s) \<subseteq> dom m"
  shows "sems_ok cap held (goto i p (s\<lparr>sd_global := w, sd_perCli := m, sd_pending := P\<rparr>))"
    (is "sems_ok cap held ?s")
proof -
  let ?r = "s\<lparr>sd_global := w, sd_perCli := m, sd_pending := P\<rparr>"
  have r: "jobs_in Q ?r = jobs_in Q s" for Q by (simp add: jobs_in_def)
  have j: "jobs_in Q ?s = jobs_in Q s - of_bool (Q (sd_jobs s ! i)) + of_bool (Q (key_of s i, p))" for Q
    using jobs_in_goto [of i ?r Q p] i by (simp add: r)
  have C: "cap v = sd_perClientLimit s \<and> held v = jobs_in (running_of d) ?s \<and> jobs_in (running_of d) ?s \<le> sd_perClientLimit s" if "m d = Some v" for d v
  proof (cases "d = jk_ClientID (key_of s i)")
    case True
    then show ?thesis using c [of v] that j [of "running_of d"] by (simp add: running_of_def)
  next
    case False
    then show ?thesis using sems_okD(4) [OF ok, of d v] m(1) [OF False] that j [of "running_of d"] by (simp add: running_of_def)
  qed
  have T: "m (jk_ClientID (fst t)) \<noteq> None" if t: "t \<in> set (sd_jobs ?s)" "live (snd t)" for t
  proof -
    have "t = (key_of s i, p) \<or> t \<in> set (sd_jobs s)"
      using t(1) set_update_subset_insert [of "sd_jobs s" i "(key_of s i, p)"] by (auto simp: goto_def)
    then have "\<exists>u \<in> set (sd_jobs s). fst u = fst t \<and> live (snd u)"
      using t(2) live nth_mem [OF i] by (metis fst_conv snd_conv)
    then show ?thesis using sems_okD(5) [OF ok] m(2) by (metis domIff subsetD)
  qed
  have G: "held w = jobs_in (\<lambda>t. holds_global (snd t)) ?s"
    using g(2) j [of "\<lambda>t. holds_global (snd t)"] sems_okD(2) [OF ok] by simp
  have f: "sd_global ?s = w" "sd_perCli ?s = m" "sd_globalLimit ?s = sd_globalLimit s" "sd_perClientLimit ?s = sd_perClientLimit s"
    by simp_all
  show ?thesis using C T by (intro sems_okI; unfold f) (rule g(1) G g(3) | blast)+
qed

lemma sems_ok_enter:
  assumes "semaphore_laws L cap held" "sems_ok cap held s" "0 \<le> sd_perClientLimit s"
  shows "sems_ok cap held (Acquire_enter L key s)"
proof -
  have j: "jobs_in P (Acquire_enter L key s) = jobs_in P s + of_bool (P (key, if key \<in> sd_pending s then Refused else WaitGlobal))" for P
    by (simp add: jobs_in_def Acquire_enter_def)
  have "running_of c t \<Longrightarrow> live (snd t)" for c t by (simp add: running_of_def)
  then have none: "jobs_in (running_of c) s = 0" if "sd_perCli s c = None" for c
    using sems_okD(5) [OF assms(2)] that by (fastforce simp: jobs_in_def filter_empty_conv running_of_def)
  let ?s = "Acquire_enter L key s" and ?c = "jk_ClientID key"
  define m where "m = sd_perCli ?s"
  have f: "sd_global ?s = sd_global s" "sd_globalLimit ?s = sd_globalLimit s" "sd_perClientLimit ?s = sd_perClientLimit s"
    by (simp_all add: Acquire_enter_def)
  have jobs: "set (sd_jobs ?s) = insert (key, if key \<in> sd_pending s then Refused else WaitGlobal) (set (sd_jobs s))"
    by (simp add: Acquire_enter_def)
  have m: "m d = Some w \<Longrightarrow> sd_perCli s d = Some w \<or> (sd_perCli s d = None \<and> w = sem_New L (sd_perClientLimit s))" for d w
    by (auto simp: m_def Acquire_enter_def split: option.splits if_splits)
  have dom: "sd_perCli s d \<noteq> None \<Longrightarrow> m d \<noteq> None" "key \<notin> sd_pending s \<Longrightarrow> m ?c \<noteq> None" for d
    by (auto simp: m_def Acquire_enter_def split: option.splits)
  have run: "jobs_in (running_of d) ?s = jobs_in (running_of d) s" for d by (simp add: j running_of_def)
  have glob: "jobs_in (\<lambda>t. holds_global (snd t)) ?s = jobs_in (\<lambda>t. holds_global (snd t)) s" by (simp add: j)
  have C: "cap w = sd_perClientLimit s \<and> held w = jobs_in (running_of d) s \<and> jobs_in (running_of d) s \<le> sd_perClientLimit s" if "m d = Some w" for d w
    using m [OF that] sems_okD(4) [OF assms(2)] none [of d] semaphoreD(1,2) [OF assms(1)] assms(3) by auto
  have T: "m (jk_ClientID (fst t)) \<noteq> None" if "t \<in> set (sd_jobs ?s)" "live (snd t)" for t
    using that dom sems_okD(5) [OF assms(2), of t] by (cases "t \<in> set (sd_jobs s)") (auto simp: jobs split: if_splits)
  show ?thesis using C T
    by (intro sems_okI; unfold f run glob m_def [symmetric]) (rule sems_okD(1-3) [OF assms(2)] | blast)+
qed

definition sched_ok :: "('w \<Rightarrow> int) \<Rightarrow> ('w \<Rightarrow> int) \<Rightarrow> 'w scheduler \<Rightarrow> bool" where
  "sched_ok cap held s \<longleftrightarrow> keys_ok s \<and> sems_ok cap held s \<and> 0 \<le> sd_perClientLimit s"

lemma running_client:
  assumes "sems_ok cap held s" "i < length (sd_jobs s)" "live (phase_of s i)"
  obtains v where "sd_perCli s (jk_ClientID (key_of s i)) = Some v"
  using sems_okD(5) [OF assms(1) nth_mem [OF assms(2)] assms(3)] by blast

text \<open>The calls that change a semaphore or the pending set.\<close>

lemma sched_ok_Acquire_global:
  assumes "semaphore_laws L cap held" "sched_ok cap held s" "i < length (sd_jobs s)" "phase_of s i = WaitGlobal"
    "Acquire_global L i s = Some s'"
  shows "sched_ok cap held s'"
proof -
  from assms(5) obtain w where w: "sem_Acquire L (sd_global s) = Some w" "s' = goto i WaitClient (s\<lparr>sd_global := w\<rparr>)"
    by (auto simp: Acquire_global_def split: option.splits)
  have ok: "sems_ok cap held s" "keys_ok s" using assms(2) by (simp_all add: sched_ok_def)
  have "keys_ok (goto i WaitClient s)" using ok(2) assms(3,4) by (simp add: keys_ok_goto_live)
  then have k: "keys_ok s'" by (simp add: w(2) keys_ok_def live_at_def goto_def)
  have "sems_ok cap held (goto i WaitClient (s\<lparr>sd_global := w, sd_perCli := sd_perCli s, sd_pending := sd_pending s\<rparr>))"
    using semaphoreD(3) [OF assms(1) w(1)] sems_okD [OF ok(1)] assms(4) by (intro sems_ok_move [OF ok(1) assms(3)]) auto
  then show ?thesis using k assms(2) by (simp add: w(2) sched_ok_def)
qed

lemma sched_ok_release_global:
  assumes "semaphore_laws L cap held" "sched_ok cap held s" "i < length (sd_jobs s)"
    "(\<exists>e. phase_of s i = GlobalBack e \<and> p = Forget e) \<or> phase_of s i = ClientReleased \<and> p = GlobalReleased"
  shows "\<exists>s'. release_global L i p s = Some s' \<and> sched_ok cap held s'"
proof -
  have ok: "sems_ok cap held s" "keys_ok s" using assms(2) by (simp_all add: sched_ok_def)
  have ph: "holds_global (phase_of s i)" "\<not> holds_global p" "live (phase_of s i)" "live p" "phase_of s i \<noteq> Running" "p \<noteq> Running"
    using assms(4) by auto
  have "0 < held (sd_global s)"
    using jobs_in_pos [OF assms(3), of "\<lambda>t. holds_global (snd t)"] ph(1) sems_okD(2) [OF ok(1)] by simp
  from semaphoreD(5) [OF assms(1) this] obtain w where
    w: "sem_Release L (sd_global s) = Some w" "cap w = cap (sd_global s)" "held w = held (sd_global s) - 1" by blast
  let ?s = "goto i p (s\<lparr>sd_global := w\<rparr>)"
  have "keys_ok (goto i p s)" using ok(2) assms(3) ph by (simp add: keys_ok_goto_live)
  then have k: "keys_ok ?s" by (simp add: keys_ok_def live_at_def goto_def)
  have "sems_ok cap held (goto i p (s\<lparr>sd_global := w, sd_perCli := sd_perCli s, sd_pending := sd_pending s\<rparr>))"
    using w sems_okD [OF ok(1)] ph by (intro sems_ok_move [OF ok(1) assms(3)]) auto
  then show ?thesis using k assms(2) w(1) by (simp add: release_global_def sched_ok_def)
qed

lemma sched_ok_client_call:
  assumes "sched_ok cap held s" "i < length (sd_jobs s)" "sd_perCli s (jk_ClientID (key_of s i)) = Some v"
    "live (phase_of s i)" "live p" "holds_global p = holds_global (phase_of s i)"
    "cap w = cap v" "held w = held v - of_bool (phase_of s i = Running) + of_bool (p = Running)" "held w \<le> sd_perClientLimit s"
  shows "sched_ok cap held (goto i p (s\<lparr>sd_perCli := (sd_perCli s)(jk_ClientID (key_of s i) \<mapsto> w)\<rparr>))"
proof -
  let ?m = "(sd_perCli s)(jk_ClientID (key_of s i) \<mapsto> w)"
  have ok: "sems_ok cap held s" "keys_ok s" using assms(1) by (simp_all add: sched_ok_def)
  have "keys_ok (goto i p s)" using ok(2) assms by (simp add: keys_ok_goto_live)
  then have k: "keys_ok (goto i p (s\<lparr>sd_perCli := ?m\<rparr>))" by (simp add: keys_ok_def live_at_def goto_def)
  have "sems_ok cap held (goto i p (s\<lparr>sd_global := sd_global s, sd_perCli := ?m, sd_pending := sd_pending s\<rparr>))"
    using sems_okD [OF ok(1)] assms by (intro sems_ok_move [OF ok(1) assms(2)]) auto
  then show ?thesis using k assms(1) by (simp add: sched_ok_def)
qed

lemma sched_ok_Acquire_client:
  assumes "semaphore_laws L cap held" "sched_ok cap held s" "i < length (sd_jobs s)" "phase_of s i = WaitClient"
    "Acquire_client L i s = Some s'"
  shows "sched_ok cap held s'"
proof -
  from assms(5) obtain v w where w: "sd_perCli s (jk_ClientID (key_of s i)) = Some v" "sem_Acquire L v = Some w"
    "s' = goto i Running (s\<lparr>sd_perCli := (sd_perCli s)(jk_ClientID (key_of s i) \<mapsto> w)\<rparr>)"
    by (auto simp: Acquire_client_def Let_def split: option.splits bind_splits)
  have "cap v = sd_perClientLimit s" using sems_okD(4) [OF _ w(1)] assms(2) by (auto simp: sched_ok_def)
  then show ?thesis
    using sched_ok_client_call [OF assms(2,3) w(1), of Running w] semaphoreD(3) [OF assms(1) w(2)] assms(4) w(3) by simp
qed

lemma sched_ok_release_client:
  assumes "semaphore_laws L cap held" "sched_ok cap held s" "i < length (sd_jobs s)" "phase_of s i = Running"
  shows "\<exists>s'. release_client L i s = Some s' \<and> sched_ok cap held s'"
proof -
  let ?c = "jk_ClientID (key_of s i)"
  have ok: "sems_ok cap held s" using assms(2) by (simp add: sched_ok_def)
  obtain v where v: "sd_perCli s ?c = Some v" using running_client [OF ok assms(3)] assms(4) by auto
  have hv: "0 < held v" "held v \<le> sd_perClientLimit s"
    using sems_okD(4) [OF ok v] jobs_in_pos [OF assms(3), of "running_of ?c"] assms(4) by (simp_all add: running_of_def)
  from semaphoreD(5) [OF assms(1) hv(1)] obtain w where
    w: "sem_Release L v = Some w" "cap w = cap v" "held w = held v - 1" by blast
  show ?thesis
    using sched_ok_client_call [OF assms(2,3) v, of ClientReleased w] w hv assms(4) v by (simp add: release_client_def Let_def)
qed

lemma sched_ok_forget:
  assumes "sched_ok cap held s" "i < length (sd_jobs s)"
    "(\<exists>e. phase_of s i = Forget e \<and> p = Canceled e) \<or> phase_of s i = GlobalReleased \<and> p = Released"
  shows "\<exists>s'. forget i p s = Some s' \<and> sched_ok cap held s'"
proof -
  have ok: "sems_ok cap held s" "keys_ok s" using assms(1) by (simp_all add: sched_ok_def)
  have ph: "\<not> holds_global (phase_of s i)" "\<not> holds_global p" "live (phase_of s i)" "\<not> live p" "phase_of s i \<noteq> Running" "p \<noteq> Running"
    using assms(3) by auto
  let ?P = "sd_pending s - {key_of s i}"
  have f: "forget i p s = Some (goto i p (s\<lparr>sd_pending := ?P\<rparr>))" by (simp add: forget_def removePending_def)
  have "sems_ok cap held (goto i p (s\<lparr>sd_global := sd_global s, sd_perCli := sd_perCli s, sd_pending := ?P\<rparr>))"
    using sems_okD [OF ok(1)] ph by (intro sems_ok_move [OF ok(1) assms(2)]) auto
  then show ?thesis using keys_ok_forget [OF ok(2) assms(2) ph(3,4) f] f assms(1) by (simp add: sched_ok_def)
qed

section \<open>Steps\<close>

lemma proceed_not_stuck:
  assumes "semaphore_laws L cap held" "sched_ok cap held s" "i < length (sd_jobs s)" "live (phase_of s i)"
    "phase_of s i \<noteq> WaitGlobal" "phase_of s i \<noteq> WaitClient"
  shows "\<exists>s'. proceed L i s = Some s'"
  using assms(4-6) sched_ok_release_global [OF assms(1-3)] sched_ok_release_client [OF assms(1-3)]
  by (cases "phase_of s i") (auto simp: proceed_def forget_def)

lemma sched_ok_proceed:
  assumes "semaphore_laws L cap held" "sched_ok cap held s" "i < length (sd_jobs s)" "proceed L i s = Some s'"
  shows "sched_ok cap held s'"
  using assms(4) sched_ok_Acquire_global [OF assms(1-3)] sched_ok_Acquire_client [OF assms(1-3)]
    sched_ok_release_global [OF assms(1-3)] sched_ok_release_client [OF assms(1-3)] sched_ok_forget [OF assms(2,3)]
  by (cases "phase_of s i") (force simp: proceed_def)+

lemma sched_ok_canceled:
  assumes "sched_ok cap held s" "i < length (sd_jobs s)" "Acquire_canceled i e s = Some s'"
  shows "sched_ok cap held s'"
proof -
  have ok: "sems_ok cap held s" "keys_ok s" using assms(1) by (simp_all add: sched_ok_def)
  have "sched_ok cap held (goto i p s)"
    if "live (phase_of s i)" "live p" "holds_global p = holds_global (phase_of s i)" "phase_of s i \<noteq> Running" "p \<noteq> Running" for p
  proof -
    have "sems_ok cap held (goto i p (s\<lparr>sd_global := sd_global s, sd_perCli := sd_perCli s, sd_pending := sd_pending s\<rparr>))"
      using sems_okD [OF ok(1)] that by (intro sems_ok_move [OF ok(1) assms(2)]) auto
    then show ?thesis using keys_ok_goto_live [OF ok(2) assms(2) that(1,2)] assms(1) by (simp add: sched_ok_def)
  qed
  then show ?thesis using assms(3) by (auto simp: Acquire_canceled_def split: phase.splits)
qed

lemma limits_step: "sched_step L s s' \<Longrightarrow> sd_globalLimit s' = sd_globalLimit s \<and> sd_perClientLimit s' = sd_perClientLimit s"
  by (erule sched_step.cases)
    (auto simp: Acquire_enter_def proceed_def Acquire_global_def Acquire_client_def release_global_def release_client_def
      forget_def removePending_def Acquire_canceled_def Let_def split: phase.splits option.splits)

lemma sched_ok_step:
  assumes "semaphore_laws L cap held" "sched_step L s s'" "sched_ok cap held s" shows "sched_ok cap held s'"
  using assms(2)
proof cases
  case (enter key)
  then show ?thesis using assms(3) keys_ok_enter [of s L key] sems_ok_enter [OF assms(1), of s key] limits_step [OF assms(2)]
    by (simp add: sched_ok_def)
qed (use assms(3) sched_ok_proceed [OF assms(1)] sched_ok_canceled in blast)+

lemma sched_reachable_ok:
  assumes "semaphore_laws L cap held" "0 \<le> g" "0 \<le> c" "sched_reachable L g c s"
  shows "sched_ok cap held s \<and> sd_globalLimit s = g \<and> sd_perClientLimit s = c"
  using assms(4) unfolding sched_reachable_def
proof (induction rule: rtranclp_induct)
  case base
  show ?case using semaphoreD(1,2) [OF assms(1)] assms(2,3)
    by (simp add: NewSchedulerWithLimits_def sched_ok_def sems_ok_def keys_ok_def live_at_def jobs_in_def)
next
  case (step s s')
  then show ?case using sched_ok_step [OF assms(1) step(2)] limits_step [OF step(2)] by simp
qed

section \<open>Limits\<close>

lemma count_mono: "(\<And>t. P t \<Longrightarrow> Q t) \<Longrightarrow> jobs_in P s \<le> jobs_in Q s"
proof -
  assume a: "\<And>t. P t \<Longrightarrow> Q t"
  have "length (filter P xs) \<le> length (filter Q xs)" for xs by (induction xs) (auto simp: a le_SucI)
  then show ?thesis by (simp add: jobs_in_def)
qed

text \<open>A semaphore that counts, and two jobs of which the second waits.\<close>

definition counting :: "(int \<times> int) semaphore" where
  "counting = \<lparr>sem_New = (\<lambda>n. (n, 0)),
     sem_Acquire = (\<lambda>(n, k). if k < n then Some (n, k + 1) else None),
     sem_Release = (\<lambda>(n, k). if 0 < k then Some (n, k - 1) else None)\<rparr>"

lemma counting_laws: "semaphore_laws counting fst snd"
  by (auto simp: semaphore_laws_def counting_def split: if_splits)

definition demo_job :: "string \<Rightarrow> JobKey" where
  "demo_job rel = \<lparr>jk_ClientID = ''cb'', jk_PairID = ''p1'', jk_RelPath = rel\<rparr>"

definition demo_sched :: "(int \<times> int) scheduler" where
  "demo_sched = (let s = Acquire_enter counting (demo_job ''y'') (Acquire_enter counting (demo_job ''x'') (NewSchedulerWithLimits counting 2 1))
     in the (proceed counting 1 (the (proceed counting 0 (the (proceed counting 0 s))))))"

lemma advance_the:
  "i < length (sd_jobs s) \<Longrightarrow> \<not> Option.is_none (proceed L i s) \<Longrightarrow> sched_step L s (the (proceed L i s))"
  by (rule sched_step.advance [of i]) (auto simp: Option.is_none_def)

lemma demo_sched_reachable: "sched_reachable counting 2 1 demo_sched"
proof -
  let ?s0 = "NewSchedulerWithLimits counting 2 1"
  let ?s1 = "Acquire_enter counting (demo_job ''x'') ?s0"
  let ?s2 = "Acquire_enter counting (demo_job ''y'') ?s1"
  let ?s3 = "the (proceed counting 0 ?s2)"
  let ?s4 = "the (proceed counting 0 ?s3)"
  have "sched_step counting ?s0 ?s1" "sched_step counting ?s1 ?s2" by (rule sched_step.enter)+
  moreover have "sched_step counting ?s2 ?s3" by (rule advance_the; code_simp)
  moreover have "sched_step counting ?s3 ?s4" by (rule advance_the; code_simp)
  moreover have "sched_step counting ?s4 demo_sched" unfolding demo_sched_def Let_def by (rule advance_the; code_simp)
  ultimately show ?thesis unfolding sched_reachable_def by (meson rtranclp.rtrancl_into_rtrancl rtranclp.rtrancl_refl)
qed

text \<open>
  C20. Limits and exclusion: whatever jobs are requested, released or canceled in whatever interleaving, at
  most \<open>globalLimit\<close> of them run at a time and at most \<open>perClientLimit\<close> for one client, and two jobs that
  are not finished never have the same key.
\<close>

theorem scheduler_limits:
  assumes "semaphore_laws L cap held" "0 \<le> g" "0 \<le> c" "sched_reachable L g c s"
  shows "jobs_in (\<lambda>t. snd t = Running) s \<le> g \<and>
    (\<forall>client. jobs_in (\<lambda>t. jk_ClientID (fst t) = client \<and> snd t = Running) s \<le> c) \<and>
    inj_on (key_of s) {i. i < length (sd_jobs s) \<and> live (phase_of s i)}"
proof -
  from sched_reachable_ok [OF assms] have ok: "keys_ok s" "sems_ok cap held s" "sd_globalLimit s = g" "sd_perClientLimit s = c"
    by (simp_all add: sched_ok_def)
  have "jobs_in (\<lambda>t. snd t = Running) s \<le> jobs_in (\<lambda>t. holds_global (snd t)) s" by (rule count_mono) simp
  then have "jobs_in (\<lambda>t. snd t = Running) s \<le> g" using sems_okD(2,3) [OF ok(2)] ok(3) by simp
  moreover have "jobs_in (running_of client) s \<le> c" for client
  proof (cases "sd_perCli s client")
    case None
    then have "jobs_in (running_of client) s = 0"
      using sems_okD(5) [OF ok(2)] by (fastforce simp: jobs_in_def filter_empty_conv running_of_def)
    then show ?thesis using assms(3) by simp
  next
    case (Some w)
    then show ?thesis using sems_okD(4) [OF ok(2) Some] ok(4) by simp
  qed
  ultimately show ?thesis using ok(1) by (simp add: keys_ok_def live_at_def running_of_def [abs_def])
qed

theorem scheduler_limits_witness:
  "jobs_in (\<lambda>t. snd t = Running) demo_sched \<le> 2 \<and> phase_of demo_sched 0 = Running"
proof -
  have "phase_of demo_sched 0 = Running" by code_simp
  then show ?thesis using scheduler_limits [OF counting_laws _ _ demo_sched_reachable] by simp
qed

section \<open>Every job ends\<close>

fun next_phase :: "phase \<Rightarrow> phase" where
  "next_phase WaitGlobal = WaitClient" | "next_phase WaitClient = Running" | "next_phase Running = ClientReleased"
| "next_phase ClientReleased = GlobalReleased" | "next_phase GlobalReleased = Released"
| "next_phase (GlobalBack e) = Forget e" | "next_phase (Forget e) = Canceled e" | "next_phase p = p"

text \<open>The end of a job that is not canceled any more, and the number of calls to it.\<close>

fun outcome :: "phase \<Rightarrow> phase" where
  "outcome Refused = Refused" | "outcome (Canceled e) = Canceled e"
| "outcome (GlobalBack e) = Canceled e" | "outcome (Forget e) = Canceled e" | "outcome p = Released"

fun calls_left :: "phase \<Rightarrow> nat" where
  "calls_left WaitGlobal = 5" | "calls_left WaitClient = 4" | "calls_left Running = 3" | "calls_left ClientReleased = 2"
| "calls_left GlobalReleased = 1" | "calls_left (GlobalBack e) = 2" | "calls_left (Forget e) = 1" | "calls_left p = 0"

definition sched_run :: "'w semaphore \<Rightarrow> 'w scheduler \<Rightarrow> 'w scheduler \<Rightarrow> bool" where
  "sched_run L s s' \<longleftrightarrow> (\<exists>i < length (sd_jobs s). proceed L i s = Some s')"

definition work :: "'w scheduler \<Rightarrow> nat" where
  "work s = sum_list (map (\<lambda>t. calls_left (snd t)) (sd_jobs s))"

lemma proceed_jobs:
  "proceed L i s = Some s' \<Longrightarrow> live (phase_of s i) \<and> sd_jobs s' = (sd_jobs s)[i := (key_of s i, next_phase (phase_of s i))]"
  by (auto simp: proceed_def Acquire_global_def Acquire_client_def release_global_def release_client_def forget_def
      removePending_def goto_def Let_def split: phase.splits option.splits)

lemma outcome_next [simp]: "outcome (next_phase p) = outcome p" by (cases p) simp_all

lemma calls_next: "live p \<Longrightarrow> calls_left p = Suc (calls_left (next_phase p))" by (cases p) simp_all

lemma sched_run_work: assumes "sched_run L s s'" shows "work s' < work s"
proof -
  from assms obtain i where i: "i < length (sd_jobs s)" "proceed L i s = Some s'" by (auto simp: sched_run_def)
  let ?f = "\<lambda>t. calls_left (snd t)"
  from proceed_jobs [OF i(2)] have p: "live (phase_of s i)"
    "map ?f (sd_jobs s') = (map ?f (sd_jobs s))[i := calls_left (next_phase (phase_of s i))]" by (simp_all add: map_update)
  have "calls_left (phase_of s i) \<le> work s"
    unfolding work_def using i(1) member_le_sum_list [of "calls_left (phase_of s i)" "map ?f (sd_jobs s)"] by simp
  then show ?thesis
    using p(2) i(1) calls_next [OF p(1)] by (simp add: work_def sum_list_update)
qed

lemma sched_run_outcomes:
  assumes "sched_run L s s'" shows "map (\<lambda>(k, p). (k, outcome p)) (sd_jobs s') = map (\<lambda>(k, p). (k, outcome p)) (sd_jobs s)"
proof -
  from assms obtain i where i: "i < length (sd_jobs s)" "proceed L i s = Some s'" by (auto simp: sched_run_def)
  then show ?thesis using proceed_jobs [OF i(2)]
    by (simp add: map_update case_prod_beta list_update_same_conv)
qed

text \<open>
  Some job can go on as long as one is not finished: who holds a semaphore never waits for a later job,
  because the global one is taken before that of the client.
\<close>

lemma sched_not_stuck:
  assumes laws: "semaphore_laws L cap held" and ok: "sched_ok cap held s" and lim: "1 \<le> sd_globalLimit s" "1 \<le> sd_perClientLimit s"
    and i: "i < length (sd_jobs s)" "live (phase_of s i)"
  shows "\<exists>j < length (sd_jobs s). proceed L j s \<noteq> None"
proof -
  have sems: "sems_ok cap held s" using ok by (simp add: sched_ok_def)
  show ?thesis
  proof (cases "\<exists>j < length (sd_jobs s). live (phase_of s j) \<and> phase_of s j \<noteq> WaitGlobal \<and> phase_of s j \<noteq> WaitClient")
    case True
    then show ?thesis using proceed_not_stuck [OF laws ok] by blast
  next
    case none: False
    then have w: "snd t = WaitGlobal \<or> snd t = WaitClient \<or> \<not> live (snd t)" if "t \<in> set (sd_jobs s)" for t
      using that by (metis in_set_conv_nth)
    have idle: "jobs_in (running_of c) s = 0" for c using w by (fastforce simp: jobs_in_def running_of_def filter_empty_conv)
    show ?thesis
    proof (cases "\<exists>j < length (sd_jobs s). phase_of s j = WaitClient")
      case True
      then obtain j where j: "j < length (sd_jobs s)" "phase_of s j = WaitClient" by blast
      obtain v where v: "sd_perCli s (jk_ClientID (key_of s j)) = Some v" using running_client [OF sems j(1)] j(2) by auto
      have "held v < cap v" using sems_okD(4) [OF sems v] idle lim(2) by simp
      then show ?thesis using semaphoreD(4) [OF laws, of v] v j by (auto simp: proceed_def Acquire_client_def Let_def)
    next
      case False
      then have "holds_global (snd t) \<Longrightarrow> False" if "t \<in> set (sd_jobs s)" for t
        using w [OF that] that by (cases "snd t") (auto simp: in_set_conv_nth)
      then have "jobs_in (\<lambda>t. holds_global (snd t)) s = 0" by (auto simp: jobs_in_def filter_empty_conv)
      then have "held (sd_global s) < cap (sd_global s)" using sems_okD(1,2) [OF sems] lim(1) by simp
      moreover have "phase_of s i = WaitGlobal" using none False i by blast
      ultimately show ?thesis
        using semaphoreD(4) [OF laws, of "sd_global s"] i(1) by (auto simp: proceed_def Acquire_global_def intro!: exI [of _ i])
    qed
  qed
qed

lemma sched_run_step: "sched_run L s s' \<Longrightarrow> sched_step L s s'"
  by (auto simp: sched_run_def intro: sched_step.advance)

lemma sched_run_ends: "\<exists>s'. (sched_run L)\<^sup>*\<^sup>* s s' \<and> (\<forall>i < length (sd_jobs s'). proceed L i s' = None)"
proof (induction "work s" arbitrary: s rule: less_induct)
  case less
  show ?case
  proof (cases "\<forall>i < length (sd_jobs s). proceed L i s = None")
    case False
    then obtain t where t: "sched_run L s t" by (auto simp: sched_run_def)
    then show ?thesis using less [OF sched_run_work [OF t]] by (meson converse_rtranclp_into_rtranclp)
  qed blast
qed

lemma sched_run_star_outcomes:
  "(sched_run L)\<^sup>*\<^sup>* s s' \<Longrightarrow> map (\<lambda>(k, p). (k, outcome p)) (sd_jobs s') = map (\<lambda>(k, p). (k, outcome p)) (sd_jobs s)"
  by (induction rule: rtranclp_induct) (simp_all add: sched_run_outcomes)

lemma outcome_dead: "\<not> live p \<Longrightarrow> outcome p = p" by (cases p) simp_all

text \<open>
  C21. Every job ends and nothing is lost: with limits of at least one, from every reachable state the
  jobs can run on to their end, in whatever order, and when none can go on all are finished as they were
  meant to, no key is pending and every semaphore is free again.
\<close>

theorem scheduler_drains:
  assumes "semaphore_laws L cap held" "1 \<le> g" "1 \<le> c" "sched_reachable L g c s"
  shows "(\<exists>s'. (sched_run L)\<^sup>*\<^sup>* s s' \<and> (\<forall>i < length (sd_jobs s'). proceed L i s' = None)) \<and>
    (\<forall>s'. (sched_run L)\<^sup>*\<^sup>* s s' \<longrightarrow> (\<forall>i < length (sd_jobs s'). proceed L i s' = None) \<longrightarrow>
       sd_jobs s' = map (\<lambda>(k, p). (k, outcome p)) (sd_jobs s) \<and> sd_pending s' = {} \<and> held (sd_global s') = 0 \<and>
       (\<forall>client w. sd_perCli s' client = Some w \<longrightarrow> held w = 0))"
proof (intro conjI allI impI sched_run_ends)
  fix s' assume run: "(sched_run L)\<^sup>*\<^sup>* s s'" and stuck: "\<forall>i < length (sd_jobs s'). proceed L i s' = None"
  have "sched_reachable L g c s'"
    using assms(4) run mono_rtranclp [of "sched_run L" "sched_step L"] sched_run_step
    unfolding sched_reachable_def by (metis rtranclp_trans)
  from sched_reachable_ok [OF assms(1) _ _ this] assms(2,3)
  have ok: "sched_ok cap held s'" "sd_globalLimit s' = g" "sd_perClientLimit s' = c" by simp_all
  then have parts: "keys_ok s'" "sems_ok cap held s'" by (simp_all add: sched_ok_def)
  have dead: "\<not> live (phase_of s' i)" if "i < length (sd_jobs s')" for i
    using sched_not_stuck [OF assms(1) ok(1) _ _ that] ok(2,3) assms(2,3) stuck by auto
  then have all: "\<not> live (snd t)" if "t \<in> set (sd_jobs s')" for t using that by (metis in_set_conv_nth)
  then have "map (\<lambda>(k, p). (k, outcome p)) (sd_jobs s') = sd_jobs s'"
    by (intro map_idI) (auto simp: outcome_dead)
  then show "sd_jobs s' = map (\<lambda>(k, p). (k, outcome p)) (sd_jobs s)" using sched_run_star_outcomes [OF run] by simp
  show "sd_pending s' = {}" using parts(1) dead by (auto simp: keys_ok_def live_at_def)
  have "\<not> holds_global (snd t)" if "t \<in> set (sd_jobs s')" for t using all [OF that] by (cases "snd t") auto
  then show "held (sd_global s') = 0" using sems_okD(2) [OF parts(2)] by (auto simp: jobs_in_def filter_empty_conv)
  show "held w = 0" if "sd_perCli s' client = Some w" for client w
    using sems_okD(4) [OF parts(2) that] all by (fastforce simp: jobs_in_def running_of_def filter_empty_conv)
qed

theorem scheduler_drains_witness:
  "\<exists>s'. (sched_run counting)\<^sup>*\<^sup>* demo_sched s' \<and> map snd (sd_jobs s') = [Released, Released] \<and> sd_pending s' = {}"
proof -
  have "map snd (map (\<lambda>(k, p). (k, outcome p)) (sd_jobs demo_sched)) = [Released, Released]" by code_simp
  then show ?thesis
    using scheduler_drains [OF counting_laws _ _ demo_sched_reachable] by (simp; metis)
qed

end
