(* ===== verification/Mux.thy ===== *)
theory Mux
  imports Http
begin

text \<open>
  Routing. \<open>http.ServeMux\<close> of Go 1.25 as the sources use it, with patterns that name a path
  (\<open>/runs\<close>) or a subtree (\<open>/pairs/\<close>) and neither methods nor wildcards: the path of a
  request is cleaned, the longest pattern that covers it is chosen, a request for a subtree without its
  final slash or with an unclean path is redirected. The query of a redirected request is left out of
  the \<open>Location\<close>.
\<close>

section \<open>Patterns\<close>

text \<open>\<open>cleanPath\<close>: the cleaned path keeps its final slash.\<close>

definition cleanPath :: "string \<Rightarrow> string" where
  "cleanPath p = (if p = [] then ''/''
     else (let q = (if hd p = slash then p else slash # p); np = Clean q in
       if last q = slash \<and> np \<noteq> ''/'' then np @ ''/'' else np))"

definition subtree :: "string \<Rightarrow> bool" where
  "subtree pat \<longleftrightarrow> pat \<noteq> [] \<and> last pat = slash"

definition pattern_matches :: "string \<Rightarrow> string \<Rightarrow> bool" where
  "pattern_matches pat p = (if subtree pat then HasPrefix p pat else p = pat)"

definition longest_pattern :: "string list \<Rightarrow> string \<Rightarrow> string option" where
  "longest_pattern pats p =
     fold (\<lambda>pat best. if pattern_matches pat p \<and> (case best of None \<Rightarrow> True | Some b \<Rightarrow> length b < length pat)
                      then Some pat else best) pats None"

datatype route = Handle string | RedirectTo string | NoRoute

definition mux_route :: "string list \<Rightarrow> string \<Rightarrow> route" where
  "mux_route pats path =
     (let p = cleanPath path in
      if longest_pattern pats p \<noteq> Some p \<and> last p \<noteq> slash \<and> p @ ''/'' \<in> set pats then RedirectTo (p @ ''/'')
      else if p \<noteq> path then RedirectTo p
      else case longest_pattern pats p of None \<Rightarrow> NoRoute | Some pat \<Rightarrow> Handle pat)"

definition http_NotFound :: httpresp where
  "http_NotFound = http_Error ''404 page not found'' 404"

definition moved_permanently :: "string \<Rightarrow> httpresp" where
  "moved_permanently loc = \<lparr>rs_Status = 301, rs_Header = [(''Location'', loc)], rs_Body = NoBody\<rparr>"

text \<open>A mux is the list of its patterns with their handlers.\<close>

definition ServeMux :: "(string \<times> 's handler) list \<Rightarrow> 's handler" where
  "ServeMux routes r s =
     (case mux_route (map fst routes) (url_path (rq_URL r)) of
        NoRoute \<Rightarrow> (http_NotFound, s)
      | RedirectTo loc \<Rightarrow> (moved_permanently loc, s)
      | Handle pat \<Rightarrow> (case map_of routes pat of None \<Rightarrow> (http_NotFound, s) | Some h \<Rightarrow> h r s))"

section \<open>Routing reaches one handler or none\<close>

lemma longest_pattern_in: "longest_pattern pats p = Some pat \<Longrightarrow> pat \<in> set pats \<and> pattern_matches pat p"
proof -
  have "fold (\<lambda>pat best. if pattern_matches pat p \<and> (case best of None \<Rightarrow> True | Some b \<Rightarrow> length b < length pat)
      then Some pat else best) pats b = Some pat \<Longrightarrow> b = Some pat \<or> pat \<in> set pats \<and> pattern_matches pat p" for b
    by (induction pats arbitrary: b) (auto split: if_splits)
  from this [of None] show "longest_pattern pats p = Some pat \<Longrightarrow> pat \<in> set pats \<and> pattern_matches pat p"
    by (auto simp: longest_pattern_def)
qed

lemma mux_route_Handle: "mux_route pats path = Handle pat \<Longrightarrow> pat \<in> set pats \<and> pattern_matches pat path"
  by (auto simp: mux_route_def Let_def split: if_splits option.splits dest: longest_pattern_in)

text \<open>What a mux does to the state is what one of its handlers does, or nothing.\<close>

lemma ServeMux_cases:
  obtains "snd (ServeMux routes r s) = s" "rs_Status (fst (ServeMux routes r s)) \<in> {301, 404}"
  | pat h where "(pat, h) \<in> set routes" "pattern_matches pat (url_path (rq_URL r))" "ServeMux routes r s = h r s"
proof (cases "mux_route (map fst routes) (url_path (rq_URL r))")
  case (Handle pat)
  show ?thesis
  proof (cases "map_of routes pat")
    case None
    then show ?thesis using Handle that(1) by (simp add: ServeMux_def http_NotFound_def http_Error_def)
  next
    case (Some h)
    then show ?thesis
      using Handle that(2) [OF map_of_SomeD] mux_route_Handle [OF Handle] by (simp add: ServeMux_def)
  qed
qed (use that(1) in \<open>simp_all add: ServeMux_def http_NotFound_def http_Error_def moved_permanently_def\<close>)

end
