(* ===== verification/Hub.thy ===== *)
theory Hub
  imports Sender
begin

text \<open>
  The connection hub (\<open>internal/server/hub\<close>): \<open>PendingRegistry\<close> (\<open>pending.go\<close>),
  \<open>Hub\<close> (\<open>hub.go\<close>) and \<open>Conn\<close> (\<open>conn.go\<close>).

  The code shares \<open>*Conn\<close> pointers between the map and the goroutine that runs the
  connection and compares them, so a connection is an address in \<open>heap\<close> and \<open>conns\<close>
  maps client identifiers to addresses. A response channel is an address too, with its buffered
  contents (capacity 1). The WebSocket library is a parameter: \<open>ws_write k i\<close> is the error of
  the \<open>k\<close>-th write, made on connection \<open>i\<close>, if it fails. \<open>wire\<close> records the writes that
  succeeded. A critical section under \<open>h.mu\<close> is one step.
\<close>

section \<open>State\<close>

text \<open>
  \<open>cn_running\<close>: counted in \<open>wg\<close>; \<open>cn_left\<close>: \<open>Run\<close> has left its read loop and
  unregistered. \<open>calls\<close> logs the callbacks, which the application uses to keep the status of a
  client; \<open>has_onConnect\<close> says whether the first of them was given.
\<close>

datatype callback = OnConnect string | OnDisconnect string

record conn =
  cn_clientID :: string
  cn_closed :: bool
  cn_running :: bool
  cn_left :: bool

record hub =
  conns :: "string \<rightharpoonup> nat"
  heap :: "nat \<rightharpoonup> conn"
  next_conn :: nat
  pending :: "string \<rightharpoonup> nat"
  chans :: "nat \<Rightarrow> Envelope list"
  next_chan :: nat
  wg :: int
  wire :: "(nat \<times> Envelope) list"
  ws_write :: "nat \<Rightarrow> nat \<Rightarrow> string option"
  writes :: nat
  has_onConnect :: bool
  calls :: "callback list"

definition hub_New :: "bool \<Rightarrow> (nat \<Rightarrow> nat \<Rightarrow> string option) \<Rightarrow> hub" where
  "hub_New oc ws = \<lparr>conns = Map.empty, heap = Map.empty, next_conn = 0, pending = Map.empty,
     chans = (\<lambda>_. []), next_chan = 0, wg = 0, wire = [], ws_write = ws, writes = 0,
     has_onConnect = oc, calls = []\<rparr>"

definition ErrClientOffline :: err where
  "ErrClientOffline = Sentinel ''hub: client offline''"

definition ErrTimeout :: err where
  "ErrTimeout = Sentinel ''hub: response timeout''"

section \<open>PendingRegistry\<close>

definition pending_Register :: "string \<Rightarrow> hub \<Rightarrow> nat \<times> hub" where
  "pending_Register corr h =
     (next_chan h, h\<lparr>pending := (pending h)(corr \<mapsto> next_chan h),
        chans := (chans h)(next_chan h := []), next_chan := Suc (next_chan h)\<rparr>)"

text \<open>\<open>Resolve\<close>: the waiter is removed from the map before its channel is filled.\<close>

definition pending_Resolve :: "string \<Rightarrow> Envelope \<Rightarrow> hub \<Rightarrow> bool \<times> hub" where
  "pending_Resolve corr env h = (case pending h corr of
       None \<Rightarrow> (False, h)
     | Some ch \<Rightarrow> (True, h\<lparr>pending := (pending h)(corr := None),
                           chans := (chans h)(ch := chans h ch @ [env])\<rparr>))"

text \<open>The send on the channel blocks when its buffer of one is full.\<close>

definition Resolve_blocks :: "string \<Rightarrow> hub \<Rightarrow> bool" where
  "Resolve_blocks corr h = (case pending h corr of None \<Rightarrow> False | Some ch \<Rightarrow> length (chans h ch) \<ge> 1)"

definition pending_Cancel :: "string \<Rightarrow> hub \<Rightarrow> hub" where
  "pending_Cancel corr h = h\<lparr>pending := (pending h)(corr := None)\<rparr>"

section \<open>Conn\<close>

definition NewConn :: "string \<Rightarrow> hub \<Rightarrow> nat \<times> hub" where
  "NewConn cid h = (next_conn h, h\<lparr>heap := (heap h)(next_conn h \<mapsto>
     \<lparr>cn_clientID = cid, cn_closed = False, cn_running = False, cn_left = False\<rparr>),
     next_conn := Suc (next_conn h)\<rparr>)"

text \<open>\<open>Close\<close> is idempotent (\<open>closeOnce\<close>).\<close>

definition conn_Close :: "nat \<Rightarrow> hub \<Rightarrow> hub" where
  "conn_Close i h = (case heap h i of
       None \<Rightarrow> h | Some c \<Rightarrow> h\<lparr>heap := (heap h)(i \<mapsto> c\<lparr>cn_closed := True\<rparr>)\<rparr>)"

definition WriteEnvelope :: "nat \<Rightarrow> Envelope \<Rightarrow> hub \<Rightarrow> unit result \<times> hub" where
  "WriteEnvelope i env h = (case ws_write h (writes h) i of
       Some m \<Rightarrow> (Inl (Opaque m), h\<lparr>writes := Suc (writes h)\<rparr>)
     | None \<Rightarrow> (Inr (), h\<lparr>writes := Suc (writes h), wire := wire h @ [(i, env)]\<rparr>))"

section \<open>Hub\<close>

definition hub_Register :: "nat \<Rightarrow> hub \<Rightarrow> hub" where
  "hub_Register i h = (case heap h i of None \<Rightarrow> h | Some c \<Rightarrow>
     (let h1 = (case conns h (cn_clientID c) of None \<Rightarrow> h | Some old \<Rightarrow> conn_Close old h)
      in h1\<lparr>conns := (conns h1)(cn_clientID c \<mapsto> i),
            heap := (heap h1)(i \<mapsto> c\<lparr>cn_running := True\<rparr>), wg := wg h1 + 1,
            calls := calls h1 @ (if has_onConnect h1 then [OnConnect (cn_clientID c)] else [])\<rparr>))"

definition Unregister :: "nat \<Rightarrow> hub \<Rightarrow> hub" where
  "Unregister i h = (case heap h i of None \<Rightarrow> h | Some c \<Rightarrow>
     if conns h (cn_clientID c) = Some i
     then h\<lparr>conns := (conns h)(cn_clientID c := None)\<rparr> else h)"

text \<open>
  \<open>Conn.Run\<close> after the read loop: it closes and unregisters the connection; then, when other
  goroutines may have taken the lock in between, it calls \<open>onDisc\<close> and \<open>wg.Done\<close>.
\<close>

definition Run_leave :: "nat \<Rightarrow> hub \<Rightarrow> hub" where
  "Run_leave i h = (let h1 = Unregister i (conn_Close i h) in
     case heap h1 i of None \<Rightarrow> h1 | Some c \<Rightarrow> h1\<lparr>heap := (heap h1)(i \<mapsto> c\<lparr>cn_left := True\<rparr>)\<rparr>)"

definition Run_done :: "nat \<Rightarrow> hub \<Rightarrow> hub" where
  "Run_done i h = (case heap h i of None \<Rightarrow> h | Some c \<Rightarrow>
     h\<lparr>heap := (heap h)(i \<mapsto> c\<lparr>cn_running := False\<rparr>), wg := wg h - 1,
       calls := calls h @ [OnDisconnect (cn_clientID c)]\<rparr>)"

definition hub_Send :: "hub send_fn" where
  "hub_Send cid env h = (case conns h cid of
       None \<Rightarrow> (Inl ErrClientOffline, h)
     | Some i \<Rightarrow> WriteEnvelope i env h)"

text \<open>
  \<open>SendAndWait\<close> up to its \<open>select\<close>, and after it: the response arrived, the timer fired or
  the context ended. \<open>defer Cancel\<close> runs on every path.
\<close>

definition SendAndWait_begin :: "string \<Rightarrow> Envelope \<Rightarrow> hub \<Rightarrow> nat result \<times> hub" where
  "SendAndWait_begin cid env h = (case pending_Register (CorrelationID env) h of (ch, h1) \<Rightarrow>
     (case hub_Send cid env h1 of
        (Inl e, h2) \<Rightarrow> (Inl e, pending_Cancel (CorrelationID env) h2)
      | (Inr _, h2) \<Rightarrow> (Inr ch, h2)))"

datatype wake = Response Envelope | Timer | CtxDone err

definition SendAndWait_end :: "string \<Rightarrow> nat \<Rightarrow> wake \<Rightarrow> hub \<Rightarrow> Envelope result \<times> hub" where
  "SendAndWait_end corr ch k h = (case k of
       Response env \<Rightarrow> (Inr env, pending_Cancel corr (h\<lparr>chans := (chans h)(ch := tl (chans h ch))\<rparr>))
     | Timer \<Rightarrow> (Inl ErrTimeout, pending_Cancel corr h)
     | CtxDone e \<Rightarrow> (Inl e, pending_Cancel corr h))"

text \<open>Which branches of the \<open>select\<close> are ready.\<close>

definition wake_ready :: "nat \<Rightarrow> wake \<Rightarrow> hub \<Rightarrow> bool" where
  "wake_ready ch k h = (case k of Response env \<Rightarrow> chans h ch \<noteq> [] \<and> hd (chans h ch) = env | _ \<Rightarrow> True)"

definition OnlineClients :: "hub \<Rightarrow> string set" where
  "OnlineClients h = dom (conns h)"

definition IsOnline :: "string \<Rightarrow> hub \<Rightarrow> bool" where
  "IsOnline cid h \<longleftrightarrow> conns h cid \<noteq> None"

text \<open>\<open>Hub.Close\<close> closes every registered connection and then waits for \<open>wg\<close>.\<close>

definition hub_Close :: "hub \<Rightarrow> hub" where
  "hub_Close h = h\<lparr>heap := (\<lambda>i. case heap h i of None \<Rightarrow> None | Some c \<Rightarrow>
      Some (if conns h (cn_clientID c) = Some i then c\<lparr>cn_closed := True\<rparr> else c))\<rparr>"

text \<open>
  One message of \<open>readLoop\<close>: a pong is skipped, a response goes to its waiter, everything else
  to the handler.
\<close>

datatype routed = Skipped | Resolved | ToHandler Envelope

definition readLoop_route :: "Envelope \<Rightarrow> hub \<Rightarrow> routed \<times> hub" where
  "readLoop_route env h =
     (if Type env = TypePong then (Skipped, h)
      else if CorrelationID env \<noteq> [] then
        (case pending_Resolve (CorrelationID env) env h of
           (True, h') \<Rightarrow> (Resolved, h')
         | (False, h') \<Rightarrow> (ToHandler env, h'))
      else (ToHandler env, h))"

section \<open>Reachable states\<close>

inductive hub_step :: "hub \<Rightarrow> hub \<Rightarrow> bool" where
  connect: "NewConn cid h = (i, h1) \<Longrightarrow> hub_step h (hub_Register i h1)"
| close: "hub_step h (conn_Close i h)"
| leave: "heap h i = Some c \<Longrightarrow> cn_running c \<Longrightarrow> \<not> cn_left c \<Longrightarrow> hub_step h (Run_leave i h)"
| finish: "heap h i = Some c \<Longrightarrow> cn_running c \<Longrightarrow> cn_left c \<Longrightarrow> hub_step h (Run_done i h)"
| send: "hub_step h (snd (hub_Send cid env h))"
| request: "hub_step h (snd (SendAndWait_begin cid env h))"
| incoming: "hub_step h (snd (readLoop_route env h))"
| wake: "wake_ready ch k h \<Longrightarrow> hub_step h (snd (SendAndWait_end corr ch k h))"
| shutdown: "hub_step h (hub_Close h)"

inductive hub_reachable :: "hub \<Rightarrow> bool" where
  start: "hub_reachable (hub_New oc ws)"
| step: "hub_reachable h \<Longrightarrow> hub_step h h' \<Longrightarrow> hub_reachable h'"

text \<open>
  The invariant. Connections: a registered address holds a connection of that client, and an open
  connection is the registered one. The wait group counts the running connections. Channels: one
  that is registered is empty and registered once.
\<close>

definition running :: "hub \<Rightarrow> nat set" where
  "running h = {i. \<exists>c. heap h i = Some c \<and> cn_running c}"

definition conns_ok :: "hub \<Rightarrow> bool" where
  "conns_ok h \<longleftrightarrow>
     (\<forall>cid i. conns h cid = Some i \<longrightarrow> (\<exists>c. heap h i = Some c \<and> cn_clientID c = cid)) \<and>
     (\<forall>i c. heap h i = Some c \<and> \<not> cn_closed c \<longrightarrow> conns h (cn_clientID c) = Some i) \<and>
     (\<forall>i. heap h i \<noteq> None \<longrightarrow> i < next_conn h)"

definition wg_ok :: "hub \<Rightarrow> bool" where
  "wg_ok h \<longleftrightarrow> finite (running h) \<and> wg h = int (card (running h))"

definition chans_ok :: "hub \<Rightarrow> bool" where
  "chans_ok h \<longleftrightarrow>
     (\<forall>a ch. pending h a = Some ch \<longrightarrow> ch < next_chan h \<and> chans h ch = []) \<and>
     (\<forall>a b ch. pending h a = Some ch \<longrightarrow> pending h b = Some ch \<longrightarrow> a = b)"

definition hub_inv :: "hub \<Rightarrow> bool" where
  "hub_inv h \<longleftrightarrow> conns_ok h \<and> wg_ok h \<and> chans_ok h"


section \<open>Every operation keeps the invariant\<close>

lemma conns_okI:
  "(\<And>cid i. conns h cid = Some i \<Longrightarrow> \<exists>c. heap h i = Some c \<and> cn_clientID c = cid) \<Longrightarrow>
   (\<And>i c. heap h i = Some c \<Longrightarrow> \<not> cn_closed c \<Longrightarrow> conns h (cn_clientID c) = Some i) \<Longrightarrow>
   (\<And>i c. heap h i = Some c \<Longrightarrow> i < next_conn h) \<Longrightarrow> conns_ok h"
  by (auto simp: conns_ok_def)

lemma conns_okD:
  assumes "conns_ok h"
  shows "conns h cid = Some i \<Longrightarrow> \<exists>c. heap h i = Some c \<and> cn_clientID c = cid"
    and "heap h i = Some c \<Longrightarrow> \<not> cn_closed c \<Longrightarrow> conns h (cn_clientID c) = Some i"
    and "heap h i = Some c \<Longrightarrow> i < next_conn h"
  using assms by (auto simp: conns_ok_def)

text \<open>The operations that leave the connections alone, and those that leave the channels alone.\<close>

definition same_conns :: "hub \<Rightarrow> hub \<Rightarrow> bool" where
  "same_conns h h' \<longleftrightarrow> conns h' = conns h \<and> heap h' = heap h \<and> next_conn h' = next_conn h \<and> wg h' = wg h"

definition same_chans :: "hub \<Rightarrow> hub \<Rightarrow> bool" where
  "same_chans h h' \<longleftrightarrow> pending h' = pending h \<and> chans h' = chans h \<and> next_chan h' = next_chan h"

lemma same_conns_inv [invar_intros]:
  "same_conns h h' \<Longrightarrow> conns_ok h \<Longrightarrow> conns_ok h'"
  "same_conns h h' \<Longrightarrow> wg_ok h \<Longrightarrow> wg_ok h'"
  by (auto simp: same_conns_def conns_ok_def wg_ok_def running_def)

lemma same_chans_inv [invar_intros]:
  "same_chans h h' \<Longrightarrow> chans_ok h \<Longrightarrow> chans_ok h'"
  by (simp add: same_chans_def chans_ok_def)

lemma same_conns_ops [simp]:
  "same_conns h (snd (hub_Send cid env h))"
  "same_conns h (snd (SendAndWait_begin cid env h))"
  "same_conns h (snd (readLoop_route env h))"
  "same_conns h (snd (SendAndWait_end corr ch k h))"
  by (auto simp: same_conns_def hub_Send_def WriteEnvelope_def SendAndWait_begin_def
      pending_Register_def pending_Cancel_def readLoop_route_def pending_Resolve_def
      SendAndWait_end_def split: option.splits wake.splits prod.splits sum.splits)

lemma same_chans_ops [simp]:
  "same_chans h (snd (NewConn cid h))"
  "same_chans h (hub_Register i h)"
  "same_chans h (conn_Close i h)"
  "same_chans h (Run_leave i h)"
  "same_chans h (Run_done i h)"
  "same_chans h (snd (hub_Send cid env h))"
  "same_chans h (hub_Close h)"
  by (auto simp: same_chans_def NewConn_def hub_Register_def conn_Close_def Run_leave_def Run_done_def
      Unregister_def hub_Send_def WriteEnvelope_def hub_Close_def Let_def split: option.splits)

lemmas unchanged_ops =
  same_conns_ops [THEN same_conns_inv(1)] same_conns_ops [THEN same_conns_inv(2)]
  same_chans_ops [THEN same_chans_inv]

lemma same_chans_trans: "same_chans a b \<Longrightarrow> same_chans b c \<Longrightarrow> same_chans a c"
  by (simp add: same_chans_def)

lemma chans_ok_Register: "chans_ok h \<Longrightarrow> chans_ok (snd (pending_Register corr h))"
  unfolding chans_ok_def pending_Register_def
  by (auto split: if_splits; fastforce)

lemma chans_ok_Cancel: "chans_ok h \<Longrightarrow> chans_ok (pending_Cancel corr h)"
  unfolding chans_ok_def pending_Cancel_def by (auto split: if_splits)

lemma chans_ok_Resolve: "chans_ok h \<Longrightarrow> chans_ok (snd (pending_Resolve corr env h))"
  unfolding chans_ok_def pending_Resolve_def
  by (auto split: if_splits option.splits)

lemma chans_ok_request: "chans_ok h \<Longrightarrow> chans_ok (snd (SendAndWait_begin cid env h))"
proof -
  assume ok: "chans_ok h"
  define h1 where "h1 = snd (pending_Register (CorrelationID env) h)"
  have "chans_ok h1" using ok by (simp add: h1_def chans_ok_Register)
  then have "chans_ok (snd (hub_Send cid env h1))"
    using same_chans_inv same_chans_ops(6) by blast
  then show ?thesis
    by (auto simp: SendAndWait_begin_def h1_def split: prod.splits sum.splits dest: chans_ok_Cancel)
qed

lemma chans_ok_incoming: "chans_ok h \<Longrightarrow> chans_ok (snd (readLoop_route env h))"
  using chans_ok_Resolve [of h "CorrelationID env" env]
  by (auto simp: readLoop_route_def split: prod.splits bool.splits)

lemma chans_ok_wake: "chans_ok h \<Longrightarrow> chans_ok (snd (SendAndWait_end corr ch k h))"
proof -
  assume ok: "chans_ok h"
  then have "chans_ok (h\<lparr>chans := (chans h)(ch := tl (chans h ch))\<rparr>)"
    by (auto simp: chans_ok_def)
  with ok show ?thesis
    by (auto simp: SendAndWait_end_def split: wake.splits intro: chans_ok_Cancel)
qed

text \<open>Connections.\<close>

lemma conns_ok_Close: "conns_ok h \<Longrightarrow> conns_ok (conn_Close i h)"
  by (auto simp: conns_ok_def conn_Close_def split: option.splits if_splits) fastforce

lemma conns_ok_hub_Close: "conns_ok h \<Longrightarrow> conns_ok (hub_Close h)"
  by (auto simp: conns_ok_def hub_Close_def split: option.splits if_splits) fastforce+

lemma conns_ok_connect:
  assumes "conns_ok h" and "NewConn cid h = (i, h1)"
  shows "conns_ok (hub_Register i h1)"
proof -
  have [simp]: "i = next_conn h" and fresh: "heap h (next_conn h) = None"
    and lt: "\<And>j c. heap h j = Some c \<Longrightarrow> j < next_conn h"
    using assms conns_okD(3) [OF assms(1)] by (auto simp: NewConn_def) (meson not_None_eq less_irrefl)
  show ?thesis
  proof (rule conns_okI, goal_cases)
    case (1 c j)
    with assms fresh show ?case
      by (auto simp: NewConn_def hub_Register_def conn_Close_def Let_def dest: conns_okD(1)
          split: option.splits if_splits)
  next
    case (2 j c)
    with assms fresh show ?case
      by (auto simp: NewConn_def hub_Register_def conn_Close_def Let_def dest: conns_okD
          split: option.splits if_splits)
  next
    case (3 j c)
    with assms fresh have "j = next_conn h \<or> (\<exists>c'. heap h j = Some c')"
      and "next_conn (hub_Register i h1) = Suc (next_conn h)"
      by (auto simp: NewConn_def hub_Register_def conn_Close_def Let_def
          split: option.splits if_splits)
    then show ?case by (metis less_SucI lessI lt)
  qed
qed

lemma conns_ok_leave: "conns_ok h \<Longrightarrow> conns_ok (Run_leave i h)"
  unfolding conns_ok_def Run_leave_def Unregister_def conn_Close_def
  by (auto simp: Let_def split: option.splits if_splits) fastforce+

lemma conns_ok_done: "conns_ok h \<Longrightarrow> conns_ok (Run_done i h)"
  unfolding conns_ok_def Run_done_def by (auto split: option.splits if_splits) fastforce

text \<open>The wait group.\<close>

lemma running_Close [simp]: "running (conn_Close i h) = running h"
  by (auto simp: running_def conn_Close_def split: option.splits)

lemma running_Unregister [simp]: "running (Unregister i h) = running h"
  by (auto simp: running_def Unregister_def split: option.splits)

lemma wg_ops [simp]:
  "wg (conn_Close i h) = wg h" "wg (Unregister i h) = wg h" "wg (hub_Close h) = wg h"
  "wg (Run_leave i h) = wg h"
  by (auto simp: conn_Close_def Unregister_def hub_Close_def Run_leave_def Let_def split: option.splits)

lemma running_leave [simp]: "running (Run_leave i h) = running h"
proof -
  have "running (Run_leave i h) = running (Unregister i (conn_Close i h))"
    by (auto simp: running_def Run_leave_def Let_def split: option.splits)
  then show ?thesis by simp
qed

lemma running_hub_Close [simp]: "running (hub_Close h) = running h"
  by (auto simp: running_def hub_Close_def split: option.splits if_splits)

lemma wg_ok_connect:
  assumes "conns_ok h" "wg_ok h" and "NewConn cid h = (i, h1)"
  shows "wg_ok (hub_Register i h1)"
proof -
  have fresh: "heap h (next_conn h) = None"
    using conns_okD(3) [OF assms(1)] by (meson not_None_eq less_irrefl)
  have "running (hub_Register i h1) = insert i (running h)"
    using assms(3) by (auto simp: running_def NewConn_def hub_Register_def conn_Close_def Let_def
        split: option.splits if_splits)
  moreover have "i \<notin> running h" using assms(3) fresh by (auto simp: running_def NewConn_def)
  moreover have "wg (hub_Register i h1) = wg h + 1"
    using assms(3) by (auto simp: NewConn_def hub_Register_def Let_def split: option.splits)
  ultimately show ?thesis using assms(2) by (simp add: wg_ok_def)
qed

lemma wg_ok_done:
  assumes "wg_ok h" "heap h i = Some c" "cn_running c"
  shows "wg_ok (Run_done i h)"
proof -
  have "running (Run_done i h) = running h - {i}" and "i \<in> running h"
    using assms(2,3) by (auto simp: running_def Run_done_def)
  moreover have "wg (Run_done i h) = wg h - 1" using assms(2) by (simp add: Run_done_def)
  moreover have "card (running h) \<noteq> 0" using \<open>i \<in> running h\<close> assms(1) by (auto simp: wg_ok_def)
  ultimately show ?thesis using assms(1) by (auto simp: wg_ok_def)
qed

lemma hub_inv_init: "hub_inv (hub_New oc ws)"
  by (simp add: hub_inv_def hub_New_def conns_ok_def wg_ok_def chans_ok_def running_def)

lemma hub_inv_step: "hub_step h h' \<Longrightarrow> hub_inv h \<Longrightarrow> hub_inv h'"
proof (induction rule: hub_step.induct)
  case (connect cid h i h1)
  have "same_chans h (hub_Register i h1)"
    using connect same_chans_ops(1) [of h cid] same_chans_trans by fastforce
  with connect show ?case
    by (auto simp: hub_inv_def intro: conns_ok_connect wg_ok_connect same_chans_inv)
next
  case (close h i)
  then show ?case by (auto simp: hub_inv_def wg_ok_def intro: conns_ok_Close unchanged_ops)
next
  case (leave h i c)
  then show ?case by (auto simp: hub_inv_def wg_ok_def intro: conns_ok_leave unchanged_ops)
next
  case (finish h i c)
  then show ?case by (auto simp: hub_inv_def intro: conns_ok_done wg_ok_done unchanged_ops)
next
  case (send h cid env)
  then show ?case by (auto simp: hub_inv_def intro: unchanged_ops)
next
  case (request h cid env)
  then show ?case by (auto simp: hub_inv_def intro: unchanged_ops chans_ok_request)
next
  case (incoming h env)
  then show ?case by (auto simp: hub_inv_def intro: unchanged_ops chans_ok_incoming)
next
  case (wake ch k h corr)
  then show ?case by (auto simp: hub_inv_def intro: unchanged_ops chans_ok_wake)
next
  case (shutdown h)
  then show ?case by (auto simp: hub_inv_def wg_ok_def intro: conns_ok_hub_Close unchanged_ops)
qed

lemma hub_reachable_inv: "hub_reachable h \<Longrightarrow> hub_inv h"
  by (induction rule: hub_reachable.induct) (auto intro: hub_inv_init hub_inv_step)

section \<open>What the hub promises\<close>

text \<open>\<open>Hub.Send\<close> is a \<open>Sender\<close>: the wire shows what was handed over, by client.\<close>

definition hub_sent :: "hub \<Rightarrow> (string \<times> Envelope) list" where
  "hub_sent h = map (\<lambda>(i, e). (cn_clientID (the (heap h i)), e)) (wire h)"

interpretation hubsend: sender hub_Send hub_sent conns_ok
proof (standard, goal_cases)
  case (1 h c e u h')
  then show ?case
    by (auto simp: hub_Send_def WriteEnvelope_def hub_sent_def split: option.splits dest: conns_okD(1))
next
  case (2 h c e x h')
  then show ?case by (auto simp: hub_Send_def WriteEnvelope_def hub_sent_def split: option.splits)
next
  case (3 h c e)
  then show ?case by (rule unchanged_ops)
qed

inductive_simps hub_step_simps: "hub_step h h'"

lemma open_conn_registered:
  assumes "hub_reachable h" "heap h i = Some c" "\<not> cn_closed c"
  shows "conns h (cn_clientID c) = Some i"
  using hub_reachable_inv [OF assms(1)] assms(2,3) conns_okD(2) by (auto simp: hub_inv_def)

text \<open>A demonstration run: a client connects twice; the first connection ends after the second registered.\<close>

definition demo_ws :: "nat \<Rightarrow> nat \<Rightarrow> string option" where
  "demo_ws k i = None"

definition demo_one :: hub where
  "demo_one = (case NewConn ''c1'' (hub_New True demo_ws) of (i, h) \<Rightarrow> hub_Register i h)"

definition demo_two :: hub where
  "demo_two = (case NewConn ''c1'' demo_one of (i, h) \<Rightarrow> hub_Register i h)"

lemma demo_reachable: "hub_reachable demo_one" "hub_reachable demo_two"
proof -
  show 1: "hub_reachable demo_one"
    unfolding demo_one_def by (auto intro!: hub_reachable.step [OF hub_reachable.start] hub_step.connect
        split: prod.splits)
  show "hub_reachable demo_two"
    unfolding demo_two_def by (auto intro!: hub_reachable.step [OF 1] hub_step.connect split: prod.splits)
qed

lemmas demo_defs = demo_two_def demo_one_def demo_ws_def hub_New_def NewConn_def hub_Register_def
  conn_Close_def Let_def

lemma demo_two_state:
  "heap demo_two 0 = Some \<lparr>cn_clientID = ''c1'', cn_closed = True, cn_running = True, cn_left = False\<rparr>"
  "heap demo_two (Suc 0) = Some \<lparr>cn_clientID = ''c1'', cn_closed = False, cn_running = True, cn_left = False\<rparr>"
  "conns demo_two ''c1'' = Some (Suc 0)"
  "calls demo_two = [OnConnect ''c1'', OnConnect ''c1'']"
  by (simp_all add: demo_defs)

text \<open>
  C19. At every moment a client has at most one open connection: in a reachable state of the hub two
  open connections of the same client are the same connection, it is the registered one, and so
  the client is online.
\<close>

theorem one_open_connection:
  assumes "hub_reachable h" "heap h i = Some c" "heap h j = Some d"
    and "\<not> cn_closed c" "\<not> cn_closed d" "cn_clientID c = cn_clientID d"
  shows "i = j \<and> conns h (cn_clientID c) = Some i \<and> IsOnline (cn_clientID c) h"
  using open_conn_registered [OF assms(1,2,4)] open_conn_registered [OF assms(1,3,5)] assms(6)
  by (simp add: IsOnline_def)

theorem one_open_connection_witness:
  "conns demo_two ''c1'' = Some (Suc 0) \<and> IsOnline ''c1'' demo_two"
  using one_open_connection [OF demo_reachable(2) demo_two_state(2) demo_two_state(2)] by simp

text \<open>
  Resolving a response never blocks: in a reachable state the channel of a registered waiter is
  empty, so the send in \<open>Resolve\<close>, made while the read loop of a connection runs, has room.
\<close>

theorem Resolve_never_blocks:
  assumes "hub_reachable h" shows "\<not> Resolve_blocks corr h"
  using hub_reachable_inv [OF assms] by (auto simp: hub_inv_def chans_ok_def Resolve_blocks_def split: option.splits)

theorem Resolve_never_blocks_witness:
  "\<not> Resolve_blocks ''r'' (snd (SendAndWait_begin ''c1'' \<lparr>Type = TypeListDirRequest, CorrelationID = ''r'', Payload = JNull\<rparr> demo_one))
   \<and> pending (snd (SendAndWait_begin ''c1'' \<lparr>Type = TypeListDirRequest, CorrelationID = ''r'', Payload = JNull\<rparr> demo_one)) ''r'' = Some 0"
  by (rule conjI [OF Resolve_never_blocks [OF hub_reachable.step [OF demo_reachable(1) hub_step.request]]])
    (simp add: SendAndWait_begin_def pending_Register_def hub_Send_def WriteEnvelope_def demo_defs)

text \<open>
  Shutdown reaches every connection: \<open>Close\<close> goes over the registered connections only, yet
  afterwards no connection of the heap is open, and the wait group it then waits for counts
  exactly the connections that are still running.
\<close>

theorem hub_Close_closes_all:
  assumes "hub_reachable h" "heap (hub_Close h) i = Some c"
  shows "cn_closed c \<and> wg (hub_Close h) = int (card (running (hub_Close h)))"
proof -
  obtain c0 where "heap h i = Some c0"
    and c: "c = (if conns h (cn_clientID c0) = Some i then c0\<lparr>cn_closed := True\<rparr> else c0)"
    using assms(2) by (auto simp: hub_Close_def split: option.splits)
  then have "cn_closed c" using open_conn_registered [OF assms(1)] by (cases "cn_closed c0") auto
  then show ?thesis using hub_reachable_inv [OF assms(1)] by (simp add: hub_inv_def wg_ok_def)
qed

theorem hub_Close_closes_all_witness:
  "\<exists>c. heap (hub_Close demo_two) (Suc 0) = Some c \<and> cn_closed c"
proof -
  have "\<exists>c. heap (hub_Close demo_two) (Suc 0) = Some c" by (simp add: hub_Close_def demo_two_state)
  then show ?thesis using hub_Close_closes_all [OF demo_reachable(2), of "Suc 0"] by blast
qed

text \<open>
  A request gets the response with its correlation identifier: once \<open>SendAndWait\<close> has sent the
  request, an incoming message with that identifier (not a pong) goes to the waiter and not
  to the handler, the waiter returns exactly this message, and no entry is left behind.
\<close>

theorem SendAndWait_response:
  assumes "SendAndWait_begin cid req h = (Inr ch, h1)"
    and "CorrelationID resp = CorrelationID req" "CorrelationID req \<noteq> []" "Type resp \<noteq> TypePong"
  shows "\<exists>h2 h3. readLoop_route resp h1 = (Resolved, h2) \<and> wake_ready ch (Response resp) h2 \<and>
      SendAndWait_end (CorrelationID req) ch (Response resp) h2 = (Inr resp, h3) \<and>
      pending h3 = (pending h)(CorrelationID req := None)"
  using assms
  by (auto simp: SendAndWait_begin_def pending_Register_def readLoop_route_def pending_Resolve_def
      hub_Send_def WriteEnvelope_def wake_ready_def SendAndWait_end_def pending_Cancel_def
      split: option.splits sum.splits prod.splits)

theorem SendAndWait_response_witness:
  "\<exists>h1 h2. SendAndWait_begin ''c1'' \<lparr>Type = TypeListDirRequest, CorrelationID = ''r'', Payload = JNull\<rparr> demo_one = (Inr 0, h1) \<and>
     readLoop_route \<lparr>Type = TypeListDirResponse, CorrelationID = ''r'', Payload = JNull\<rparr> h1 = (Resolved, h2)"
proof -
  let ?req = "\<lparr>Type = TypeListDirRequest, CorrelationID = ''r'', Payload = JNull\<rparr>"
  let ?resp = "\<lparr>Type = TypeListDirResponse, CorrelationID = ''r'', Payload = JNull\<rparr>"
  have "\<exists>h1. SendAndWait_begin ''c1'' ?req demo_one = (Inr 0, h1)"
    by (simp add: SendAndWait_begin_def pending_Register_def hub_Send_def WriteEnvelope_def demo_defs)
  then obtain h1 where b: "SendAndWait_begin ''c1'' ?req demo_one = (Inr 0, h1)" ..
  show ?thesis using SendAndWait_response [OF b, of ?resp] b by (auto simp: msg_type_defs)
qed

text \<open>
  A connection that was replaced does not take its successor down: leaving \<open>Run\<close> removes no
  registration but its own, whatever the state of the hub.
\<close>

theorem leave_keeps_others:
  assumes "conns h cid \<noteq> Some i"
  shows "conns (Run_leave i h) cid = conns h cid"
  using assms by (auto simp: Run_leave_def Unregister_def conn_Close_def Let_def split: option.splits)

theorem leave_keeps_others_witness: "conns (Run_leave 0 demo_two) ''c1'' = Some (Suc 0)"
  using leave_keeps_others [of demo_two "''c1''" 0] demo_two_state by simp

text \<open>
  The disconnect callback fires for a replaced connection too: there is a reachable state in which
  the client is online on an open connection and the last callback was its \<open>OnDisconnect\<close>.
\<close>

theorem OnDisconnect_while_online:
  "\<exists>h. hub_reachable h \<and> IsOnline ''c1'' h \<and> last (calls h) = OnDisconnect ''c1'' \<and>
       (\<exists>i c. conns h ''c1'' = Some i \<and> heap h i = Some c \<and> \<not> cn_closed c)"
proof (intro exI conjI)
  let ?h = "Run_done 0 (Run_leave 0 demo_two)"
  have l: "heap (Run_leave 0 demo_two) 0 = Some \<lparr>cn_clientID = ''c1'', cn_closed = True, cn_running = True, cn_left = True\<rparr>"
    by (simp add: Run_leave_def Unregister_def conn_Close_def demo_two_state Let_def)
  have "hub_reachable (Run_leave 0 demo_two)"
    by (rule hub_reachable.step [OF demo_reachable(2) hub_step.leave [OF demo_two_state(1)]]) simp_all
  from hub_reachable.step [OF this hub_step.finish [OF l]] show "hub_reachable ?h" by simp
  have *: "conns (Run_leave 0 demo_two) ''c1'' = Some (Suc 0)"
    "heap (Run_leave 0 demo_two) (Suc 0) = heap demo_two (Suc 0)"
    by (simp_all add: Run_leave_def Unregister_def conn_Close_def demo_two_state Let_def)
  show "IsOnline ''c1'' ?h" and "conns ?h ''c1'' = Some (Suc 0)"
    using * by (simp_all add: IsOnline_def Run_done_def l)
  show "last (calls ?h) = OnDisconnect ''c1''" by (simp add: Run_done_def l)
  show "heap ?h (Suc 0) = Some \<lparr>cn_clientID = ''c1'', cn_closed = False, cn_running = True, cn_left = False\<rparr>"
    using * by (simp add: Run_done_def l demo_two_state)
  show "\<not> cn_closed \<lparr>cn_clientID = ''c1'', cn_closed = False, cn_running = True, cn_left = False\<rparr>" by simp
qed

end
