(* ===== verification/SyncHub.thy ===== *)
theory SyncHub
  imports Engine Hub
begin

text \<open>
  The engine over the hub, as \<open>internal/server/app/app.go\<close> wires them: \<open>hub_Send\<close> is the
  \<open>Sender\<close>, so the network state of the engine is a hub and what the clients are sent is
  \<open>hub_sent\<close>. The properties of the synchronisation logic are stated here.
\<close>

section \<open>The engine's contract holds for the hub\<close>

interpretation hubeng: engine_sender hub_Send hub_sent conns_ok
  by unfold_locales

definition reachable_client :: "string \<Rightarrow> hub \<Rightarrow> bool" where
  "reachable_client c h \<longleftrightarrow> conns_ok h \<and> conns h c \<noteq> None \<and> (\<forall>k i. ws_write h k i = None)"

lemma reachable_Send:
  assumes "reachable_client c h"
  shows "\<exists>h'. hub_Send c e h = (Inr (), h') \<and> reachable_client c h' \<and> hub_sent h' = hub_sent h @ [(c, e)]"
proof -
  obtain h' where s: "hub_Send c e h = (Inr (), h')" and f: "conns h' = conns h" "ws_write h' = ws_write h"
    using assms by (auto simp: reachable_client_def hub_Send_def WriteEnvelope_def)
  have "conns_ok h" using assms by (simp add: reachable_client_def)
  with s have "conns_ok h'" "hub_sent h' = hub_sent h @ [(c, e)]"
    using hubsend.send_invar [of h c e] hubsend.send_ok by auto
  then show ?thesis using s f assms by (simp add: reachable_client_def)
qed

lemma reachable_dispatchSync:
  assumes "reachable_client (t_ClientID t) (net w)"
  shows "\<exists>w'. dispatchSync hub_Send src p t ev w = (Inr (), w') \<and> reachable_client (t_ClientID t) (net w') \<and>
     hub_sent (net w') = hub_sent (net w) @ [(t_ClientID t, command_env (sync_command src p t ev))] \<and> logs_only w w'"
proof -
  obtain h' where h: "hub_Send (t_ClientID t) (command_env (sync_command src p t ev)) (net w) = (Inr (), h')"
    "reachable_client (t_ClientID t) h'"
    "hub_sent h' = hub_sent (net w) @ [(t_ClientID t, command_env (sync_command src p t ev))]"
    using reachable_Send [OF assms] by blast
  let ?w = "recordSyncRun p src (t_ClientID t) (ev_RelPath ev) (ev_SHA256 ev) ''ok'' [] (w\<lparr>net := h'\<rparr>)"
  have d: "dispatchSync hub_Send src p t ev w = (Inr (), ?w)"
    using h(1) by (simp add: dispatchSync_def engine_Send_def)
  have "net ?w = h'" by simp
  then show ?thesis using d h(2,3) logs_only_dispatchSyncD [OF d] by metis
qed

lemma reachable_dispatchFetch:
  assumes "reachable_client (t_ClientID t) (net w)" "dispatchFetch send src p t rel sha w = (r, w')" "send = hub_Send"
  shows "r = Inr ()"
  using reachable_Send [OF assms(1), of "command_env (fetch_command src p (t_Side t) rel sha)"] assms(2,3) by (auto simp: dispatchFetch_def engine_Send_def split: prod.splits sum.splits)

section \<open>Mirror pairs\<close>

definition mirror_target :: "SyncPair \<Rightarrow> Target" where
  "mirror_target p = \<lparr>t_ClientID = p_ClientBID p, t_Side = ''b'', t_Path = p_PathB p\<rparr>"

lemma mirror_target_client [simp]: "t_ClientID (mirror_target p) = p_ClientBID p"
  by (simp add: mirror_target_def)

lemma mirror_event:
  assumes "sql_ok w" "find_pair (ev_PairID ev) (db w) = Some p" "p_Enabled p" "p_Direction p = ''a_to_b''"
    and "ev_Side ev = ''a''" "reachable_client (p_ClientBID p) (net w)"
  shows "\<exists>w'. HandleFileChanged hub_Send src ev w = (Inr (), w') \<and> reachable_client (p_ClientBID p) (net w') \<and>
     hub_sent (net w') = hub_sent (net w) @ [(p_ClientBID p, command_env (sync_command src p (mirror_target p) ev))] \<and>
     logs_only (stored ev w) w'"
proof -
  have "reachable_client (t_ClientID (mirror_target p)) (net (stored ev w))"
    using assms(6) by simp
  from reachable_dispatchSync [OF this, of src p ev] obtain w' where w':
    "dispatchSync hub_Send src p (mirror_target p) ev (stored ev w) = (Inr (), w')"
    "reachable_client (p_ClientBID p) (net w')"
    "hub_sent (net w') = hub_sent (net w) @ [(p_ClientBID p, command_env (sync_command src p (mirror_target p) ev))]"
    "logs_only (stored ev w) w'"
    by auto
  have "HandleFileChanged hub_Send src ev w = (Inr (), w')"
    using w'(1) assms(3-5) by (simp add: HandleFileChanged_ok [OF assms(1,2)] resolveMirrorTargets_def mirror_target_def)
  with w' show ?thesis by blast
qed

text \<open>
  The specification of both directions: which side is the source, who is told, and what.
\<close>

definition mirror_source :: "SyncPair \<Rightarrow> string" where
  "mirror_source p = (if p_Direction p = ''a_to_b'' then ''a'' else ''b'')"

definition mirror_destination :: "SyncPair \<Rightarrow> string" where
  "mirror_destination p = (if p_Direction p = ''a_to_b'' then p_ClientBID p else p_ClientAID p)"

definition mirror_command :: "string \<Rightarrow> SyncPair \<Rightarrow> FileChangedEvent \<Rightarrow> FileSyncCommand" where
  "mirror_command src p ev = \<lparr>cmd_PairID = p_ID p, cmd_Side = otherSide (mirror_source p), cmd_RelPath = ev_RelPath ev,
     cmd_SHA256 = ev_SHA256 ev, cmd_Op = (if ev_Op ev = ''delete'' then ''delete'' else ''fetch''),
     cmd_NewRelPath = [], cmd_OriginatorClientID = src\<rparr>"

lemma mirror_targets:
  "p_Direction p = ''a_to_b'' \<or> p_Direction p = ''b_to_a'' \<Longrightarrow> ev_Side ev = mirror_source p \<Longrightarrow>
    \<exists>t. resolveMirrorTargets p (ev_Side ev) = [t] \<and> t_ClientID t = mirror_destination p \<and> sync_command src p t ev = mirror_command src p ev"
  by (auto simp: resolveMirrorTargets_def mirror_source_def mirror_destination_def mirror_command_def sync_command_def otherSide_def)

lemma no_mirror_targets: "ev_Side ev \<noteq> mirror_source p \<Longrightarrow> resolveMirrorTargets p (ev_Side ev) = []"
  by (auto simp: resolveMirrorTargets_def mirror_source_def split: if_splits)

lemma mirror_event_any:
  assumes "sql_ok w" "find_pair (ev_PairID ev) (db w) = Some p" "p_Enabled p" "p_Direction p = ''a_to_b'' \<or> p_Direction p = ''b_to_a''"
    and "reachable_client (mirror_destination p) (net w)"
  shows "\<exists>w'. HandleFileChanged hub_Send src ev w = (Inr (), w') \<and> reachable_client (mirror_destination p) (net w') \<and>
     hub_sent (net w') = hub_sent (net w) @
       (if ev_Side ev = mirror_source p then [(mirror_destination p, command_env (mirror_command src p ev))] else []) \<and>
     logs_only (stored ev w) w'"
proof -
  have h: "HandleFileChanged hub_Send src ev w = (Inr (), mirror_loop hub_Send src p ev (resolveMirrorTargets p (ev_Side ev)) (stored ev w))"
    using assms(3,4) by (auto simp: HandleFileChanged_ok [OF assms(1,2)])
  show ?thesis
  proof (cases "ev_Side ev = mirror_source p")
    case True
    from mirror_targets [OF assms(4) True] obtain t where t: "resolveMirrorTargets p (ev_Side ev) = [t]"
      "t_ClientID t = mirror_destination p" "sync_command src p t ev = mirror_command src p ev" by blast
    have "reachable_client (t_ClientID t) (net (stored ev w))" using assms(5) t(2) by simp
    from reachable_dispatchSync [OF this, of src p ev] show ?thesis using h t True by auto
  next
    case False
    then show ?thesis using h no_mirror_targets [OF False] assms(5) by auto
  qed
qed

text \<open>
  C2. A mirror pair relays every change of its source and none of its destination, in both directions: while
  the destination is connected and no write or statement fails, any sequence of events of an enabled
  \<open>a_to_b\<close> or \<open>b_to_a\<close> pair puts on the destination's wire exactly one command per event of the source side, in
  the order of the events, for the other side, with the event's path and hash, as a deletion when the event
  is one; the events of the other side cause no message to anybody.
\<close>

theorem mirror_stream:
  assumes "sql_ok w" "find_pair pid (db w) = Some p" "p_Enabled p" "p_Direction p = ''a_to_b'' \<or> p_Direction p = ''b_to_a''"
    and "reachable_client (mirror_destination p) (net w)" "\<forall>ev \<in> set evs. ev_PairID ev = pid"
  shows "hub_sent (net (handle_all hub_Send src evs w)) = hub_sent (net w) @
     map (\<lambda>ev. (mirror_destination p, command_env (mirror_command src p ev))) (filter (\<lambda>ev. ev_Side ev = mirror_source p) evs)"
  using assms
proof (induction evs arbitrary: w)
  case (Cons ev evs)
  have fp: "find_pair (ev_PairID ev) (db w) = Some p" using Cons.prems(2,6) by simp
  from mirror_event_any [OF Cons.prems(1) fp Cons.prems(3-5), of src]
  obtain w' where w': "HandleFileChanged hub_Send src ev w = (Inr (), w')" "reachable_client (mirror_destination p) (net w')"
    "hub_sent (net w') = hub_sent (net w) @
       (if ev_Side ev = mirror_source p then [(mirror_destination p, command_env (mirror_command src p ev))] else [])"
    "logs_only (stored ev w) w'" by (elim exE conjE) (rule that)
  have "sql_ok (stored ev w)" using Cons.prems(1) by (simp add: sql_ok_def)
  then have "sql_ok w'" by (rule sql_ok_mono [OF w'(4)])
  moreover have "find_pair pid (db w') = Some p"
    using logs_only_find(1) [OF w'(4)] Cons.prems(2) by simp
  ultimately have "hub_sent (net (handle_all hub_Send src evs w')) = hub_sent (net w') @
     map (\<lambda>ev. (mirror_destination p, command_env (mirror_command src p ev))) (filter (\<lambda>ev. ev_Side ev = mirror_source p) evs)"
    using Cons.prems(6) by (intro Cons.IH) (simp_all add: Cons.prems(3,4) w'(2))
  then show ?case by (simp add: w'(1,3))
qed simp

text \<open>A small installation for the examples: two connected clients and one pair between them.\<close>

definition demo_pair :: "string \<Rightarrow> SyncPair" where
  "demo_pair dir = \<lparr>p_ID = ''p1'', p_Name = ''docs'', p_ClientAID = ''ca'', p_PathA = ''docs'',
     p_ClientBID = ''cb'', p_PathB = ''mirror'', p_Direction = dir, p_Enabled = True,
     p_CreatedAt = 1, p_UpdatedAt = 1, p_Etag = 1\<rparr>"

definition demo_client :: "string \<Rightarrow> Client" where
  "demo_client cid = \<lparr>c_ID = cid, c_DisplayName = cid, c_Hostname = cid, c_RootPath = ''/r'', c_Version = ''1'',
     c_ProtoVersion = ''1'', c_Status = ''online'', c_LastSeen = 1, c_CreatedAt = 1, c_UpdatedAt = 1, c_Etag = 1\<rparr>"

definition demo_hub :: hub where
  "demo_hub = (let h0 = hub_New True demo_ws;
                   h1 = hub_Register (fst (NewConn ''ca'' h0)) (snd (NewConn ''ca'' h0))
               in hub_Register (fst (NewConn ''cb'' h1)) (snd (NewConn ''cb'' h1)))"

definition demo_world :: "string \<Rightarrow> FileState list \<Rightarrow> hub world" where
  "demo_world dir fs = \<lparr>db = \<lparr>clients = [demo_client ''ca'', demo_client ''cb''], sync_pairs = [demo_pair dir],
     file_state = fs, sync_runs = [], run_seq = 0, audit_log = [], settings = []\<rparr>,
     clock = (\<lambda>k. 1000 + int k), ticks = 0, sqlerr = (\<lambda>_. None), stmts = 0, net = demo_hub\<rparr>"

definition demo_event :: "string \<Rightarrow> string \<Rightarrow> string \<Rightarrow> FileChangedEvent" where
  "demo_event side op sha = \<lparr>ev_PairID = ''p1'', ev_Side = side, ev_RelPath = ''x.txt'', ev_SHA256 = sha,
     ev_Size = 3, ev_ModTime = 5, ev_Op = op, ev_IsDir = False\<rparr>"

definition demo_state :: "string \<Rightarrow> string \<Rightarrow> string option \<Rightarrow> int \<Rightarrow> FileState" where
  "demo_state side op sha t = \<lparr>fs_PairID = ''p1'', fs_Side = side, fs_RelPath = ''x.txt'', fs_SHA256 = sha,
     fs_Size = Some 3, fs_ModTime = Some 5, fs_ServerModTime = t, fs_Op = op, fs_IsDir = False\<rparr>"

lemma demo_hub_reachable: "hub_reachable demo_hub"
proof -
  have c: "hub_reachable (hub_Register (fst (NewConn cid h)) (snd (NewConn cid h)))" if "hub_reachable h" for cid h
    by (rule hub_reachable.step [OF that]) (rule hub_step.connect, rule prod.collapse [symmetric])
  show ?thesis unfolding demo_hub_def Let_def by (intro c hub_reachable.start)
qed

lemma demo_conns_ok [simp]: "conns_ok demo_hub"
  using hub_reachable_inv [OF demo_hub_reachable] by (simp add: hub_inv_def)

lemma demo_hub_simps [simp]:
  "conns demo_hub ''ca'' = Some 0" "conns demo_hub ''cb'' = Some (Suc 0)" "ws_write demo_hub k i = None"
  "wire demo_hub = []" "writes demo_hub = 0" "hub_sent demo_hub = []"
  "heap demo_hub 0 = Some \<lparr>cn_clientID = ''ca'', cn_closed = False, cn_running = True, cn_left = False\<rparr>"
  "heap demo_hub (Suc 0) = Some \<lparr>cn_clientID = ''cb'', cn_closed = False, cn_running = True, cn_left = False\<rparr>"
  by (simp_all add: demo_hub_def demo_defs hub_sent_def)

lemma demo_world_simps [simp]:
  "sql_ok (demo_world dir fs)" "net (demo_world dir fs) = demo_hub" "ticks (demo_world dir fs) = 0"
  "clock (demo_world dir fs) k = 1000 + int k" "stmts (demo_world dir fs) = 0"
  "find_pair ''p1'' (db (demo_world dir fs)) = Some (demo_pair dir)"
  "find_file_state q (db (demo_world dir fs)) = List.find (\<lambda>r. fs_key r = q) fs"
  by (simp_all add: demo_world_def sql_ok_def find_pair_def find_file_state_def demo_pair_def)

lemma demo_pair_simps [simp]:
  "p_Enabled (demo_pair dir)" "p_Direction (demo_pair dir) = dir" "p_ID (demo_pair dir) = ''p1''"
  "p_ClientAID (demo_pair dir) = ''ca''" "p_ClientBID (demo_pair dir) = ''cb''"
  by (simp_all add: demo_pair_def)

lemma demo_event_simps [simp]:
  "ev_PairID (demo_event side op sha) = ''p1''" "ev_Side (demo_event side op sha) = side"
  "ev_Op (demo_event side op sha) = op" "ev_SHA256 (demo_event side op sha) = sha"
  "ev_RelPath (demo_event side op sha) = ''x.txt''"
  by (simp_all add: demo_event_def)

lemma demo_state_simps [simp]:
  "fs_key (demo_state side op sha t) = (''p1'', side, ''x.txt'')" "fs_Op (demo_state side op sha t) = op"
  "fs_SHA256 (demo_state side op sha t) = sha" "fs_ServerModTime (demo_state side op sha t) = t"
  "fs_RelPath (demo_state side op sha t) = ''x.txt''"
  by (simp_all add: demo_state_def fs_key_def)

lemma demo_reachable_client [simp]: "reachable_client ''ca'' demo_hub" "reachable_client ''cb'' demo_hub"
  by (simp_all add: reachable_client_def)

theorem mirror_stream_witness:
  "map fst (hub_sent (net (handle_all hub_Send ''cb'' [demo_event ''b'' ''write'' ''h1'', demo_event ''a'' ''write'' ''h2'', demo_event ''b'' ''delete'' []]
      (demo_world ''b_to_a'' [])))) = [''ca'', ''ca'']"
proof -
  have d: "mirror_destination (demo_pair ''b_to_a'') = ''ca''" "mirror_source (demo_pair ''b_to_a'') = ''b''"
    by (simp_all add: mirror_destination_def mirror_source_def demo_pair_def)
  show ?thesis
    using mirror_stream [of "demo_world ''b_to_a'' []" "''p1''" "demo_pair ''b_to_a''"
      "[demo_event ''b'' ''write'' ''h1'', demo_event ''a'' ''write'' ''h2'', demo_event ''b'' ''delete'' []]" "''cb''"]
    by (simp add: d del: handle_all.simps)
qed

section \<open>Bidirectional pairs\<close>

lemma ticks_audits [simp]:
  "ticks (auditConflictDetected pid rel w) = Suc (ticks w)" "clock (auditConflictDetected pid rel w) = clock w"
  by (simp_all add: auditConflictDetected_def audit_def Now_def AppendAuditLog_def)

definition side_client :: "SyncPair \<Rightarrow> string \<Rightarrow> string" where
  "side_client p s = (if s = ''b'' then p_ClientBID p else p_ClientAID p)"

text \<open>
  C6. A concurrent edit never loses a version: when both sides wrote different contents within the
  conflict window and the event is not older than the stored state of the other side, the other
  client is first told to rename its copy, then to fetch the winning content, and then the winner
  to fetch the same content. A failed send stops the sequence, so no client is told to overwrite
  its copy without having been told to rename it before, and the handler returns success exactly when
  all three were sent.
\<close>

theorem conflict_keeps_both:
  assumes "sql_ok w" "find_pair (ev_PairID ev) (db w) = Some p" "p_Enabled p" "p_Direction p = ''bidirectional''"
    and "conns_ok (net w)"
    and "find_file_state (ev_PairID ev, otherSide (ev_Side ev), ev_RelPath ev) (db w) = Some oth"
    and "ev_Op ev = ''write''" "fs_Op oth = ''write''" "ev_SHA256 ev \<noteq> []" "fs_SHA256 oth \<noteq> Some (ev_SHA256 ev)"
    and "fs_ServerModTime oth \<le> clock w (ticks w)" "clock w (ticks w) - fs_ServerModTime oth < 5 * 10 ^ 9"
    and "HandleFileChanged hub_Send src ev w = (r, w')"
  shows "\<exists>k \<le> 3. hub_sent (net w') = hub_sent (net w) @ take k
     (let loser = side_client p (otherSide (ev_Side ev)); winner = side_client p (ev_Side ev); rel = ev_RelPath ev
      in [(loser, command_env (rename_command loser p (otherSide (ev_Side ev)) rel
             (conflictFilename rel loser (clock w (ticks w + 2))))),
          (loser, command_env (fetch_command loser p (otherSide (ev_Side ev)) rel (ev_SHA256 ev))),
          (winner, command_env (fetch_command winner p (ev_Side ev) rel (ev_SHA256 ev)))])
     \<and> (isl r \<longleftrightarrow> k < 3)"
proof -
  let ?w1 = "(stored ev w)\<lparr>stmts := Suc (stmts (stored ev w))\<rparr>"
  let ?w2 = "auditConflictDetected (p_ID p) (ev_RelPath ev) ?w1"
  have "stamp_dist (clock w (ticks w)) (fs_ServerModTime oth) = clock w (ticks w) - fs_ServerModTime oth"
    using assms(11,12) stamp_dist_abs [of "clock w (ticks w)" "fs_ServerModTime oth"] by (simp add: is64_def)
  then have act: "ld_Action (decideLWW s (toView (event_now ev w)) (Some (toView oth)) defaultConflictWindowNs) = LWWActionConflict" for s
    using assms(7-10,12) by (auto simp: decideLWW_Some defaultConflictWindowNs_def)
  have d: "dispatchConflict hub_Send p (ev_Side ev) (event_now ev w) (otherSide (ev_Side ev))
      (side_client p (otherSide (ev_Side ev))) (deref_sha (fs_SHA256 oth)) ?w2 = (r, w')"
    using assms(13) act assms(11)
    by (simp add: HandleFileChanged_bidirectional [OF assms(1-4)] bidirectional_act_def assms(6) Let_def side_client_def
        cong: if_cong)
  have "conns_ok (net ?w2)" using assms(5) by simp
  from hubeng.dispatchConflict_sent [OF this d] show ?thesis
    using assms(9) by (simp add: conflict_plan_def Let_def deref_sha_def winner_client_def side_client_def
        cong: conj_cong)
qed

theorem conflict_keeps_both_witness:
  "\<exists>k \<le> 3. hub_sent (net (snd (HandleFileChanged hub_Send ''ca'' (demo_event ''a'' ''write'' ''h1'')
       (demo_world ''bidirectional'' [demo_state ''b'' ''write'' (Some ''h2'') 500])))) = take k
     [(''cb'', command_env (rename_command ''cb'' (demo_pair ''bidirectional'') ''b'' ''x.txt'' ''x.txt.conflict-cb-1002'')),
      (''cb'', command_env (fetch_command ''cb'' (demo_pair ''bidirectional'') ''b'' ''x.txt'' ''h1'')),
      (''ca'', command_env (fetch_command ''ca'' (demo_pair ''bidirectional'') ''a'' ''x.txt'' ''h1''))]
     \<and> (isl (fst (HandleFileChanged hub_Send ''ca'' (demo_event ''a'' ''write'' ''h1'')
       (demo_world ''bidirectional'' [demo_state ''b'' ''write'' (Some ''h2'') 500]))) \<longleftrightarrow> k < 3)"
proof -
  let ?w = "demo_world ''bidirectional'' [demo_state ''b'' ''write'' (Some ''h2'') 500]"
  let ?ev = "demo_event ''a'' ''write'' ''h1''"
  have n: "conflictFilename ''x.txt'' ''cb'' 1002 = ''x.txt.conflict-cb-1002''"
    by code_simp
  show ?thesis
    using conflict_keeps_both [of ?w ?ev "demo_pair ''bidirectional''" "demo_state ''b'' ''write'' (Some ''h2'') 500"
        "''ca''", OF _ _ _ _ _ _ _ _ _ _ _ _ prod.collapse [symmetric]]
    by (simp add: otherSide_def side_client_def n Let_def)
qed

text \<open>
  C7. In a bidirectional pair a deletion never beats an edit: when a client deletes a file that the other side
  holds as written, the other side is told nothing; the deleting client is told to fetch the surviving
  content, which fails, and is then reported by the handler, only if this client cannot be reached. A mirror pair is
  different: it relays the deletions of its source.
\<close>

theorem delete_loses_to_edit:
  assumes "sql_ok w" "find_pair (ev_PairID ev) (db w) = Some p" "p_Enabled p" "p_Direction p = ''bidirectional''"
    and "conns_ok (net w)"
    and "find_file_state (ev_PairID ev, otherSide (ev_Side ev), ev_RelPath ev) (db w) = Some oth"
    and "ev_Op ev = ''delete''" "fs_Op oth = ''write''" "fs_SHA256 oth = Some sha"
    and "HandleFileChanged hub_Send src ev w = (r, w')"
  shows "hub_sent (net w') = hub_sent (net w) @ (if isl r then [] else
     [(src, command_env (fetch_command (side_client p (otherSide (ev_Side ev))) p (ev_Side ev) (ev_RelPath ev) sha))]) \<and>
    (reachable_client src (net w) \<longrightarrow> r = Inr ())"
proof -
  let ?w1 = "(stored ev w)\<lparr>stmts := Suc (stmts (stored ev w))\<rparr>"
  let ?w2 = "auditDeleteVsEdit (p_ID p) (ev_RelPath ev) src ?w1"
  have act: "ld_Action (decideLWW s (toView (event_now ev w)) (Some (toView oth)) defaultConflictWindowNs) = LWWActionEditWins" for s
    using assms(7,8) by (simp add: decideLWW_Some)
  have d: "dispatchFetch hub_Send (side_client p (otherSide (ev_Side ev))) p
      \<lparr>t_ClientID = src, t_Side = ev_Side ev, t_Path = pathFor p (ev_Side ev)\<rparr> (ev_RelPath ev) sha ?w2 = (r, w')"
    using assms(10) act assms(7,9)
    by (simp add: HandleFileChanged_bidirectional [OF assms(1-4)] bidirectional_act_def handleEditWins_def assms(6)
        Let_def side_client_def)
  have "conns_ok (net ?w2)" using assms(5) by simp
  from hubeng.dispatchFetch_sent [OF this d] reachable_dispatchFetch [OF _ d refl] show ?thesis by simp
qed

theorem delete_loses_to_edit_witness:
  "hub_sent (net (snd (HandleFileChanged hub_Send ''ca'' (demo_event ''a'' ''delete'' [])
     (demo_world ''bidirectional'' [demo_state ''b'' ''write'' (Some ''h2'') 500])))) =
    [(''ca'', command_env (fetch_command ''cb'' (demo_pair ''bidirectional'') ''a'' ''x.txt'' ''h2''))]"
proof -
  let ?h = "HandleFileChanged hub_Send ''ca'' (demo_event ''a'' ''delete'' []) (demo_world ''bidirectional'' [demo_state ''b'' ''write'' (Some ''h2'') 500])"
  have "hub_sent (net (snd ?h)) = (if isl (fst ?h) then [] else
      [(''ca'', command_env (fetch_command ''cb'' (demo_pair ''bidirectional'') ''a'' ''x.txt'' ''h2''))]) \<and> fst ?h = Inr ()"
    using delete_loses_to_edit [of "demo_world ''bidirectional'' [demo_state ''b'' ''write'' (Some ''h2'') 500]"
        "demo_event ''a'' ''delete'' []" "demo_pair ''bidirectional''" "demo_state ''b'' ''write'' (Some ''h2'') 500"
        "''h2''" "''ca''", OF _ _ _ _ _ _ _ _ _ prod.collapse [symmetric]]
    by (simp add: otherSide_def side_client_def)
  then show ?thesis by simp
qed

text \<open>
  C11. An event reaches nobody else: whatever the state and whatever fails, the messages that one event
  causes are commands about its own path and pair, sent to the two clients of the pair or to the
  client the event came from, and only when the pair exists and is enabled.
\<close>

theorem event_isolation:
  assumes "conns_ok (net w)" "HandleFileChanged hub_Send src ev w = (r, w')"
  shows "\<exists>ms. hub_sent (net w') = hub_sent (net w) @ ms \<and> (ms \<noteq> [] \<longrightarrow>
     (\<exists>p. find_pair (ev_PairID ev) (db w) = Some p \<and> p_Enabled p \<and>
       (\<forall>m \<in> set ms. about {p_ClientAID p, p_ClientBID p, src} (ev_PairID ev) (ev_RelPath ev) m)))"
proof -
  from hubeng.HandleFileChanged_sent [OF assms] consider "hub_sent (net w') = hub_sent (net w)"
    | p ms where "find_pair (ev_PairID ev) (db w) = Some p" "p_Enabled p" "hub_sent (net w') = hub_sent (net w) @ ms"
       "\<forall>m \<in> set ms. about {p_ClientAID p, p_ClientBID p, src} (ev_PairID ev) (ev_RelPath ev) m"
    by blast
  then show ?thesis by cases auto
qed

theorem event_isolation_witness:
  "\<exists>ms. hub_sent (net (snd (HandleFileChanged hub_Send ''ca'' (demo_event ''a'' ''write'' ''h1'') (demo_world ''a_to_b'' [])))) = ms
     \<and> (\<forall>m \<in> set ms. about {''ca'', ''cb''} ''p1'' ''x.txt'' m)"
  using event_isolation [of "demo_world ''a_to_b'' []" "''ca''" "demo_event ''a'' ''write'' ''h1''", OF _ prod.collapse [symmetric]]
  by (auto simp: insert_commute)

section \<open>The stored state\<close>

text \<open>
  The handler keeps the database consistent and changes one row of the file states at most: whatever
  the sender does and whichever statement fails, tables that were well-formed stay so, clients,
  pairs and settings are untouched, and the state of every other file is the same.
\<close>

theorem HandleFileChanged_consistent:
  assumes "HandleFileChanged send src ev w = (r, w')" "wf_db (db w)"
  shows "wf_db (db w') \<and> clients (db w') = clients (db w) \<and> sync_pairs (db w') = sync_pairs (db w) \<and>
    settings (db w') = settings (db w) \<and>
    (\<forall>k. k \<noteq> (ev_PairID ev, ev_Side ev, ev_RelPath ev) \<longrightarrow> find_file_state k (db w') = find_file_state k (db w))"
proof -
  show ?thesis using HandleFileChanged_frame [OF assms(1)] HandleFileChanged_other_rows [OF assms(1)] assms(2)
    by blast
qed

lemma demo_wf [simp]: "wf_db (db (demo_world dir []))"
  by (simp add: demo_world_def wf_db_def keys_ok_def refs_ok_def client_ids_def pair_ids_def demo_client_def demo_pair_def)

theorem HandleFileChanged_consistent_witness:
  "wf_db (db (snd (HandleFileChanged hub_Send ''ca'' (demo_event ''a'' ''write'' ''h1'') (demo_world ''a_to_b'' []))))"
  using HandleFileChanged_consistent [OF prod.collapse [symmetric] demo_wf] by blast

text \<open>
  The file-state table follows the last event: with a clock that moves forward and a driver that
  does not fail, after any sequence of events on a pair, of both sides and many paths, over any
  sender, the row of a file is the last event on that file, stamped by the server, and a file
  without event keeps its row.
\<close>

theorem file_state_tracks_last_event:
  assumes "sql_ok w" "find_pair pid (db w) = Some p" "past_stamps w" "strict_mono (clock w)"
    and "\<forall>ev \<in> set evs. ev_PairID ev = pid"
  shows "case List.find (\<lambda>ev. ev_Side ev = s \<and> ev_RelPath ev = rel) (rev evs) of
      None \<Rightarrow> find_file_state (pid, s, rel) (db (handle_all send src evs w)) = find_file_state (pid, s, rel) (db w)
    | Some ev \<Rightarrow> \<exists>t. find_file_state (pid, s, rel) (db (handle_all send src evs w)) = Some (event_state ev t)"
  using assms by (rule handle_all_tracks)

theorem file_state_tracks_last_event_witness:
  "\<exists>t. find_file_state (''p1'', ''a'', ''x.txt'') (db (handle_all hub_Send ''ca''
      [demo_event ''a'' ''write'' ''h1'', demo_event ''b'' ''write'' ''h9'', demo_event ''a'' ''delete'' []]
      (demo_world ''bidirectional'' []))) = Some (event_state (demo_event ''a'' ''delete'' []) t)"
proof -
  have "strict_mono (clock (demo_world ''bidirectional'' []))"
    by (rule strict_monoI) simp
  moreover have "past_stamps (demo_world ''bidirectional'' [])"
    by (simp add: past_stamps_def demo_world_def)
  ultimately show ?thesis
    using file_state_tracks_last_event [of "demo_world ''bidirectional'' []" "''p1''" "demo_pair ''bidirectional''"
        "[demo_event ''a'' ''write'' ''h1'', demo_event ''b'' ''write'' ''h9'', demo_event ''a'' ''delete'' []]"
        "''a''" "''x.txt''" hub_Send "''ca''"]
    by (simp del: handle_all.simps)
qed

text \<open>
  When the server's clock does not advance past the stored stamp the event is dropped from the table
  but still sent: the row keeps its content and the destination is told to take the event's.
\<close>

theorem stale_event_dispatched:
  assumes "sql_ok w" "find_pair (ev_PairID ev) (db w) = Some p" "p_Enabled p" "p_Direction p = ''a_to_b''"
    and "ev_Side ev = ''a''" "reachable_client (p_ClientBID p) (net w)"
    and "find_file_state (ev_PairID ev, ''a'', ev_RelPath ev) (db w) = Some f" "clock w (ticks w) \<le> fs_ServerModTime f"
  shows "\<exists>w'. HandleFileChanged hub_Send src ev w = (Inr (), w') \<and>
     find_file_state (ev_PairID ev, ''a'', ev_RelPath ev) (db w') = Some f \<and>
     hub_sent (net w') = hub_sent (net w) @ [(p_ClientBID p, command_env (sync_command src p (mirror_target p) ev))]"
proof -
  obtain w' where w': "HandleFileChanged hub_Send src ev w = (Inr (), w')" "logs_only (stored ev w) w'"
    "hub_sent (net w') = hub_sent (net w) @ [(p_ClientBID p, command_env (sync_command src p (mirror_target p) ev))]"
    using mirror_event [OF assms(1-6), of src] by (elim exE conjE) (rule that)
  have "find_file_state (ev_PairID ev, ''a'', ev_RelPath ev) (db w') = Some f"
    using logs_only_find(2) [OF w'(2)] find_own_side [OF assms(2)] assms(5,7,8) by simp
  then show ?thesis using w' by blast
qed

theorem stale_event_dispatched_witness:
  "\<exists>w'. HandleFileChanged hub_Send ''ca'' (demo_event ''a'' ''write'' ''h1'')
       (demo_world ''a_to_b'' [demo_state ''a'' ''write'' (Some ''h0'') 2000]) = (Inr (), w') \<and>
     find_file_state (''p1'', ''a'', ''x.txt'') (db w') = Some (demo_state ''a'' ''write'' (Some ''h0'') 2000) \<and>
     length (hub_sent (net w')) = 1"
  using stale_event_dispatched [of "demo_world ''a_to_b'' [demo_state ''a'' ''write'' (Some ''h0'') 2000]"
      "demo_event ''a'' ''write'' ''h1''" "demo_pair ''a_to_b''" "demo_state ''a'' ''write'' (Some ''h0'') 2000" "''ca''"]
  by auto

end
