(* ===== verification/WsHandler.thy ===== *)
theory WsHandler
  imports Mux SyncHub
begin

text \<open>
  The entry of the clients (\<open>internal/server/http\<close>): \<open>ws.go\<close> registers a client that connects and
  hands its connection to the hub, \<open>api.go\<close> asks a client for a directory listing on behalf of an HTTP
  request. The WebSocket library is a parameter: whether the upgrade succeeded, the first frame of the
  client and whether the response could be written.
\<close>

section \<open>Registration\<close>

datatype ws_frame = FrameErr err | TextFrame "err + Envelope" | OtherFrame

text \<open>
  How the handler ends: the upgrade failed, the connection was closed with a code and a reason, the
  response could not be written, or the connection, with its address in the hub, was served after the
  response.
\<close>

datatype ws_result = NotUpgraded | Refused int string | Lost | Served nat Envelope

definition receiveRegisterRequest :: "ws_frame \<Rightarrow> (int \<times> string) + RegisterRequest" where
  "receiveRegisterRequest frame = (case frame of
       FrameErr _ \<Rightarrow> Inl (4002, ''read error'')
     | OtherFrame \<Rightarrow> Inl (4003, ''expected text message'')
     | TextFrame (Inl _) \<Rightarrow> Inl (4002, ''malformed envelope'')
     | TextFrame (Inr env) \<Rightarrow>
         if Type env \<noteq> TypeRegisterRequest then Inl (4004, ''expected register_request'')
         else (case dec_RegisterRequest (Payload env) of
             Inl _ \<Rightarrow> Inl (4002, ''malformed register_request'')
           | Inr req \<Rightarrow> Inr req))"

definition appendClientRegisterDetail :: "RegisterRequest \<Rightarrow> 'z st_scheme \<Rightarrow> 'z st_scheme" where
  "appendClientRegisterDetail req = audit_now ''client_register'' (Some (rr_ClientID req))
     (Some (json_text (JObj [(''hostname'', JStr (rr_Hostname req)), (''proto_version'', JStr (rr_ProtoVersion req)),
        (''root_path'', JStr (rr_RootPath req)), (''version'', JStr (rr_Version req))])))"

definition register_response_env :: "int \<Rightarrow> (string \<times> string) list \<Rightarrow> Envelope" where
  "register_response_env now m = \<lparr>Type = TypeRegisterResponse, CorrelationID = [],
     Payload = enc_RegisterResponse \<lparr>rgr_OK = True, rgr_ServerTime = now, rgr_Settings = m, rgr_Reason = []\<rparr>\<rparr>"

definition registered_client :: "RegisterRequest \<Rightarrow> int \<Rightarrow> Client" where
  "registered_client req now = \<lparr>c_ID = rr_ClientID req, c_DisplayName = rr_Hostname req, c_Hostname = rr_Hostname req,
     c_RootPath = rr_RootPath req, c_Version = rr_Version req, c_ProtoVersion = rr_ProtoVersion req,
     c_Status = ''online'', c_LastSeen = now, c_CreatedAt = now, c_UpdatedAt = now, c_Etag = 0\<rparr>"

definition ws_ServeHTTP :: "bool \<Rightarrow> ws_frame \<Rightarrow> unit result \<Rightarrow> hub world \<Rightarrow> ws_result \<times> hub world" where
  "ws_ServeHTTP upgraded frame written w =
     (if \<not> upgraded then (NotUpgraded, w)
      else (case receiveRegisterRequest frame of
        Inl (code, reason) \<Rightarrow> (Refused code reason, w)
      | Inr req \<Rightarrow>
          if \<not> protoVersionCompatible (rr_ProtoVersion req) ProtoVersion
          then (Refused 4001 ''proto version mismatch'', audit_now ''proto_version_mismatch'' (Some (rr_ClientID req)) None w)
          else (case Now w of (now, w1) \<Rightarrow> (case UpsertClient (registered_client req now) w1 of
              (Inl _, w2) \<Rightarrow> (Refused 1011 ''store error'', w2)
            | (Inr _, w2) \<Rightarrow>
                (case LoadAllSettings (appendClientRegisterDetail req w2) of (sr, w3) \<Rightarrow>
                (case Now w3 of (t, w4) \<Rightarrow>
                  (let resp = register_response_env t (case sr of Inl _ \<Rightarrow> [] | Inr m \<Rightarrow> m) in
                   case written of
                     Inl _ \<Rightarrow> (Lost, w4)
                   | Inr _ \<Rightarrow> (case NewConn (rr_ClientID req) (net w4) of (i, h) \<Rightarrow>
                       (Served i resp, w4\<lparr>net := hub_Register i h\<rparr>)))))))))"

section \<open>Directory listings\<close>

text \<open>
  \<open>SendAndWait\<close> as one call: \<open>others\<close> is what the other goroutines do to the hub while the call
  waits, and which branch of its select is taken.
\<close>

definition hub_SendAndWait :: "(nat \<Rightarrow> hub \<Rightarrow> wake \<times> hub) \<Rightarrow> string \<Rightarrow> Envelope \<Rightarrow> hub \<Rightarrow> Envelope result \<times> hub" where
  "hub_SendAndWait others cid env h = (case SendAndWait_begin cid env h of
       (Inl e, h1) \<Rightarrow> (Inl e, h1)
     | (Inr ch, h1) \<Rightarrow> (case others ch h1 of (k, h2) \<Rightarrow> SendAndWait_end (CorrelationID env) ch k h2))"

definition parseClientID :: "httpreq \<Rightarrow> string option" where
  "parseClientID r = (case SplitN2 slash (TrimPrefix (url_path (rq_URL r)) ''/v1/clients/'') of
       [cid, action] \<Rightarrow> if action \<noteq> ''listdir'' then None else Some cid
     | _ \<Rightarrow> None)"

definition listdir_request :: "string \<Rightarrow> string \<Rightarrow> Envelope" where
  "listdir_request corrID relPath = \<lparr>Type = TypeListDirRequest, CorrelationID = corrID,
     Payload = enc_ListDirRequest \<lparr>ldr_RelPath = relPath\<rparr>\<rparr>"

definition sendListDirRequest :: "(nat \<Rightarrow> hub \<Rightarrow> wake \<times> hub) \<Rightarrow> string \<Rightarrow> string \<Rightarrow> string \<Rightarrow> hub world \<Rightarrow> Envelope result \<times> hub world" where
  "sendListDirRequest others corrID clientID relPath w =
     (case hub_SendAndWait others clientID (listdir_request corrID relPath) (net w) of (r, n1) \<Rightarrow> (r, w\<lparr>net := n1\<rparr>))"

definition json_resp :: "int \<Rightarrow> json \<Rightarrow> httpresp" where
  "json_resp code j = \<lparr>rs_Status = code, rs_Header = [(''Content-Type'', ''application/json'')], rs_Body = Json j\<rparr>"

definition handleClientError :: "string \<Rightarrow> string \<Rightarrow> 'z st_scheme \<Rightarrow> httpresp \<times> 'z st_scheme" where
  "handleClientError clientID errMsg w =
     (json_resp 400 (JObj [(''error'', JStr errMsg)]),
      if HasPrefix errMsg ''path escape:'' then audit_now ''path_escape_blocked'' (Some clientID) None w else w)"

definition listdir_ServeHTTP :: "(nat \<Rightarrow> hub \<Rightarrow> wake \<times> hub) \<Rightarrow> string \<Rightarrow> httpreq \<Rightarrow> hub world \<Rightarrow> httpresp \<times> hub world" where
  "listdir_ServeHTTP others corrID r w =
     (if rq_Method r \<noteq> ''GET'' then (http_Error ''method not allowed'' 405, w)
      else (case parseClientID r of
        None \<Rightarrow> (http_NotFound, w)
      | Some clientID \<Rightarrow>
          (let p = Get_value ''path'' (rq_Query r); relPath = (if p = [] then ''.'' else p) in
           if \<not> IsOnline clientID (net w) then (http_Error ''client offline'' 503, w)
           else (case sendListDirRequest others corrID clientID relPath w of
               (Inl e, w1) \<Rightarrow> if errors_Is e ErrTimeout then (http_Error ''client did not respond'' 504, w1)
                              else (http_Error (err_Error e) 502, w1)
             | (Inr env, w1) \<Rightarrow> (case dec_ListDirResponse (Payload env) of
                 Inl e \<Rightarrow> (http_Error (''invalid client response: '' @ err_Error e) 502, w1)
               | Inr resp \<Rightarrow> if ld_Error resp \<noteq> [] then handleClientError clientID (ld_Error resp) w1
                             else (json_resp 200 (enc_ListDirResponse resp), w1))))))"

section \<open>Lemmas\<close>

lemma audit_now_frame [simp]:
  "clients (db (audit_now k i d w)) = clients (db w)" "sync_pairs (db (audit_now k i d w)) = sync_pairs (db w)"
  "file_state (db (audit_now k i d w)) = file_state (db w)" "settings (db (audit_now k i d w)) = settings (db w)"
  "sqlerr (audit_now k i d w) = sqlerr w" "clock (audit_now k i d w) = clock w"
  by (auto simp: audit_now_def AppendAuditLog_def db_exec Now_def split: option.splits)

lemma net_audit_now [simp]: "net (audit_now k i d w) = net w"
  by (simp add: audit_now_def AppendAuditLog_def Now_def)

text \<open>What a registration on a working driver does.\<close>

definition settings_map :: "database \<Rightarrow> (string \<times> string) list" where
  "settings_map d = fold (\<lambda>s. AList.update (se_Key s) (se_Value s)) (settings d) []"

lemma settings_map_simps: "distinct (map fst (settings_map d))"
proof -
  have *: "distinct (map fst m) \<Longrightarrow> distinct (map fst (fold (\<lambda>s. AList.update (se_Key s) (se_Value s)) ss m))" for ss m
    by (induction ss arbitrary: m) (simp_all add: distinct_update)
  show ?thesis using * [of "[]" "settings d"] by (simp add: settings_map_def)
qed

lemma settings_map_of: "distinct (map se_Key (settings d)) \<Longrightarrow> map_of (settings_map d) k = map_option se_Value (find_setting k d)"
proof -
  have *: "distinct (map se_Key ss) \<Longrightarrow> map_of (fold (\<lambda>s. AList.update (se_Key s) (se_Value s)) ss m) k =
      (case List.find (\<lambda>s. se_Key s = k) ss of None \<Rightarrow> map_of m k | Some s \<Rightarrow> Some (se_Value s))" for ss m
  proof (induction ss arbitrary: m)
    case (Cons s ss)
    then show ?case
      by (auto simp: update_conv' find_None_iff split: option.splits dest!: find_Some_iff')
  qed simp
  show "distinct (map se_Key (settings d)) \<Longrightarrow> map_of (settings_map d) k = map_option se_Value (find_setting k d)"
    using * [of "settings d" "[]"] by (simp add: settings_map_def find_setting_def split: option.splits)
qed

lemma ws_ServeHTTP_ok:
  assumes "sql_ok w" "receiveRegisterRequest frame = Inr req" "protoVersionCompatible (rr_ProtoVersion req) ProtoVersion"
  shows "\<exists>t w4. ws_ServeHTTP True frame written w = (case written of Inl _ \<Rightarrow> (Lost, w4)
      | Inr _ \<Rightarrow> (case NewConn (rr_ClientID req) (net w4) of (i, h) \<Rightarrow>
          (Served i (register_response_env t (settings_map (db w))), w4\<lparr>net := hub_Register i h\<rparr>))) \<and>
    net w4 = net w \<and> sql_ok w4 \<and> clients (db w4) = clients (snd (upsert_client_sql (registered_client req (clock w (ticks w))) (db w))) \<and>
    sync_pairs (db w4) = sync_pairs (db w) \<and> (\<exists>k. t = clock w k)"
proof -
  let ?c = "registered_client req (clock w (ticks w))"
  let ?w1 = "w\<lparr>ticks := Suc (ticks w)\<rparr>"
  obtain w2 where u: "UpsertClient ?c ?w1 = (Inr (), w2)" "db w2 = snd (upsert_client_sql ?c (db w))" "net w2 = net w"
    "sqlerr w2 = sqlerr w" "clock w2 = clock w"
    using assms(1) by (auto simp: UpsertClient_def exec_def sql_ok_def upsert_client_sql_def)
  let ?w = "appendClientRegisterDetail req w2"
  have f: "clients (db ?w) = clients (db w2)" "sync_pairs (db ?w) = sync_pairs (db w2)" "settings (db ?w) = settings (db w2)"
    "sqlerr ?w = sqlerr w" "net ?w = net w" "clock ?w = clock w"
    using u(3-5) by (simp_all only: appendClientRegisterDetail_def audit_now_frame net_audit_now)
  have "settings (db w2) = settings (db w)" by (simp add: u(2) upsert_client_sql_def)
  then have l: "LoadAllSettings ?w = (Inr (settings_map (db w)), ?w\<lparr>stmts := Suc (stmts ?w)\<rparr>)"
    using f assms(1) by (simp add: LoadAllSettings_def query_def exec_def sql_ok_def settings_map_def)
  let ?w4 = "?w\<lparr>stmts := Suc (stmts ?w), ticks := Suc (ticks ?w)\<rparr>"
  have n: "Now (?w\<lparr>stmts := Suc (stmts ?w)\<rparr>) = (clock w (ticks ?w), ?w4)" by (simp add: Now_def f)
  have "sql_ok ?w4" using assms(1) f by (simp add: sql_ok_def)
  moreover have "sync_pairs (db w2) = sync_pairs (db w)" by (simp add: u(2) upsert_client_sql_def)
  ultimately show ?thesis
    by (intro exI [of _ "clock w (ticks ?w)"] exI [of _ ?w4])
      (use assms u f in \<open>auto simp add: ws_ServeHTTP_def Now_def [of w] l n Let_def split: sum.split prod.split\<close>)
qed

text \<open>The row of a client after its registration.\<close>

lemma registered_row:
  "\<exists>c. find_client (c_ID c0) (snd (upsert_client_sql c0 d)) = Some c \<and> c_Status c = c_Status c0 \<and>
     c_DisplayName c = c_DisplayName c0 \<and> c_Hostname c = c_Hostname c0 \<and> c_ID c = c_ID c0"
  by (auto simp: upsert_client_sql_def find_client_def find_upsert_row split: option.splits dest: find_Some_iff')

end
