(* ===== verification/Subscriber.thy ===== *)
theory Subscriber
  imports SyncHub
begin

text \<open>
  Subscriptions (\<open>internal/server/syncengine/subscriber.go\<close>): which client is told to watch which
  directory, when a client connects and when a pair is created, changed, disabled or deleted.
\<close>

section \<open>Operations\<close>

definition sideAndPathFor :: "SyncPair \<Rightarrow> string \<Rightarrow> string \<times> string" where
  "sideAndPathFor p clientID =
     (if clientID = p_ClientAID p then (''a'', p_PathA p)
      else if clientID = p_ClientBID p then (''b'', p_PathB p)
      else ([], []))"

definition subscribe_env :: "SyncPair \<Rightarrow> string \<Rightarrow> string \<Rightarrow> string \<Rightarrow> Envelope" where
  "subscribe_env p side path dir = \<lparr>Type = TypeSubscribePair, CorrelationID = [],
     Payload = enc_SubscribePair \<lparr>sp_PairID = p_ID p, sp_Side = side, sp_RootSubpath = path, sp_Direction = dir\<rparr>\<rparr>"

definition sendSubscribe ::
  "'h send_fn \<Rightarrow> string \<Rightarrow> SyncPair \<Rightarrow> string \<Rightarrow> string \<Rightarrow> 'h world \<Rightarrow> unit result \<times> 'h world" where
  "sendSubscribe send cid p side path w = engine_Send send cid (subscribe_env p side path (p_Direction p)) w"

fun subscribe_loop :: "'h send_fn \<Rightarrow> string \<Rightarrow> SyncPair list \<Rightarrow> 'h world \<Rightarrow> 'h world" where
  "subscribe_loop send cid [] w = w"
| "subscribe_loop send cid (p # ps) w =
     (if \<not> p_Enabled p then subscribe_loop send cid ps w
      else (case sideAndPathFor p cid of (side, path) \<Rightarrow>
        if side = [] then subscribe_loop send cid ps w
        else subscribe_loop send cid ps (snd (sendSubscribe send cid p side path w))))"

definition PublishSubscriptions :: "'h send_fn \<Rightarrow> string \<Rightarrow> 'h world \<Rightarrow> unit result \<times> 'h world" where
  "PublishSubscriptions send cid w =
     (case ListPairsForClient cid w of
        (Inl e, w1) \<Rightarrow> (Inl (Wrap (''list pairs for client '' @ cid) e), w1)
      | (Inr ps, w1) \<Rightarrow> (Inr (), subscribe_loop send cid ps w1))"

definition PublishPairUnsubscribe :: "'h send_fn \<Rightarrow> string \<Rightarrow> 'h world \<Rightarrow> unit result \<times> 'h world" where
  "PublishPairUnsubscribe send pid w =
     (case GetPair pid w of
        (Inl e, w1) \<Rightarrow> (Inl (Wrap (''get pair '' @ pid) e), w1)
      | (Inr p, w1) \<Rightarrow> (Inr (), fold (\<lambda>cid v. snd (engine_Send send cid
            (subscribe_env p (fst (sideAndPathFor p cid)) [] []) v)) [p_ClientAID p, p_ClientBID p] w1))"

definition PublishPairUpdate :: "'h send_fn \<Rightarrow> string \<Rightarrow> 'h world \<Rightarrow> unit result \<times> 'h world" where
  "PublishPairUpdate send pid w =
     (case GetPair pid w of
        (Inl e, w1) \<Rightarrow> (Inl (Wrap (''get pair '' @ pid) e), w1)
      | (Inr p, w1) \<Rightarrow>
          if \<not> p_Enabled p then PublishPairUnsubscribe send pid w1
          else (Inr (), fold (\<lambda>cid v. case sideAndPathFor p cid of (side, path) \<Rightarrow>
                 snd (sendSubscribe send cid p side path v)) [p_ClientAID p, p_ClientBID p] w1))"

section \<open>Lemmas\<close>

lemma sendSubscribe_reachable:
  assumes "reachable_client c (net w)"
  shows "\<exists>w'. engine_Send hub_Send c e w = (Inr (), w') \<and> reachable_client c (net w') \<and> hub_sent (net w') = hub_sent (net w) @ [(c, e)]"
  using reachable_Send [OF assms, of e] by (auto simp: engine_Send_def)

definition subscription_of :: "string \<Rightarrow> SyncPair \<Rightarrow> string \<times> Envelope" where
  "subscription_of cid p = (cid, subscribe_env p (fst (sideAndPathFor p cid)) (snd (sideAndPathFor p cid)) (p_Direction p))"

lemma subscribe_loop_sent:
  assumes "reachable_client cid (net w)" "\<And>p. p \<in> set ps \<Longrightarrow> p_ClientAID p = cid \<or> p_ClientBID p = cid"
  shows "hub_sent (net (subscribe_loop hub_Send cid ps w)) = hub_sent (net w) @ map (subscription_of cid) (filter p_Enabled ps)"
  using assms
proof (induction ps arbitrary: w)
  case (Cons p ps)
  obtain side path where sp: "sideAndPathFor p cid = (side, path)" by fastforce
  have ne: "side \<noteq> []" using sp Cons.prems(2) [of p] by (auto simp: sideAndPathFor_def split: if_splits)
  from sendSubscribe_reachable [OF Cons.prems(1), of "subscribe_env p side path (p_Direction p)"]
  obtain w' where w': "engine_Send hub_Send cid (subscribe_env p side path (p_Direction p)) w = (Inr (), w')"
    "reachable_client cid (net w')" "hub_sent (net w') = hub_sent (net w) @ [(cid, subscribe_env p side path (p_Direction p))]"
    by blast
  show ?case using Cons.IH [OF Cons.prems(1)] Cons.IH [OF w'(2)] Cons.prems(2) w'(1,3) sp ne
    by (simp add: sendSubscribe_def subscription_of_def)
qed simp

lemma net_ListPairsForClient: "ListPairsForClient cid w = (r, w') \<Longrightarrow> net w' = net w"
  using net_store_ops(2) [of "\<lambda>d. (Inr (pairs_for_client cid d), d)" w]
    snd_wrap_err [of "''list pairs for client''" "query (pairs_for_client cid) w"]
  by (simp add: ListPairsForClient_def query_def)

text \<open>
  A client that connects learns all its work: on a working driver and connection it is sent one
  subscription for each enabled pair it belongs to, in creation order, with its own side and
  directory, and no other.
\<close>

theorem PublishSubscriptions_complete:
  assumes "sql_ok w" "reachable_client cid (net w)" "PublishSubscriptions hub_Send cid w = (r, w')"
  shows "r = Inr () \<and> hub_sent (net w') = hub_sent (net w) @
     map (subscription_of cid) (filter p_Enabled (pairs_for_client cid (db w)))"
proof -
  let ?w1 = "w\<lparr>stmts := Suc (stmts w)\<rparr>"
  have l: "ListPairsForClient cid w = (Inr (pairs_for_client cid (db w)), ?w1)"
    using assms(1) by (simp add: ListPairsForClient_def query_def exec_ok)
  have "reachable_client cid (net ?w1)" using assms(2) by simp
  from subscribe_loop_sent [OF this, of "pairs_for_client cid (db w)"] show ?thesis
    using assms(3) l by (auto simp: PublishSubscriptions_def pairs_for_client_def)
qed

theorem PublishSubscriptions_complete_witness:
  "hub_sent (net (snd (PublishSubscriptions hub_Send ''cb'' (demo_world ''a_to_b'' [])))) =
     [(''cb'', subscribe_env (demo_pair ''a_to_b'') ''b'' ''mirror'' ''a_to_b'')]"
  using PublishSubscriptions_complete [of "demo_world ''a_to_b'' []" "''cb''", OF _ _ prod.collapse [symmetric]]
  by (simp add: demo_world_def pairs_for_client_def subscription_of_def sideAndPathFor_def demo_pair_def sql_ok_def)

text \<open>
  A deleted pair can no longer be unsubscribed: after \<open>DeletePair\<close> the notification fails because
  the pair is gone, and nothing is sent, so the order \<open>DeletePair\<close>, \<open>PublishPairUnsubscribe\<close> of
  \<open>handlePairDelete\<close> leaves both clients subscribed.
\<close>

theorem unsubscribe_after_delete_sends_nothing:
  assumes "sql_ok w" "DeletePair pid w = (r, w1)" "PublishPairUnsubscribe send pid w1 = (r', w2)"
  shows "r = Inr () \<and> (\<exists>e. r' = Inl e \<and> errors_Is e ErrNoRows) \<and> net w2 = net w"
proof -
  have w1: "r = Inr ()" "w1 = w\<lparr>stmts := Suc (stmts w), db := delete_pairs_where (\<lambda>p. p_ID p = pid) (db w)\<rparr>"
    using assms(2) by (auto simp: DeletePair_def exec_ok [OF assms(1)] delete_pair_sql_def)
  have "sql_ok w1" using assms(1) by (simp add: w1 sql_ok_def)
  moreover have "find_pair pid (db w1) = None"
    by (simp add: w1 find_pair_def delete_pairs_where_def Let_def find_None_iff)
  ultimately show ?thesis using assms(3)
    by (auto simp: PublishPairUnsubscribe_def GetPair_ok scanPair_def scan_row_def w1 ErrNoRows_def)
qed

theorem unsubscribe_after_delete_sends_nothing_witness:
  "net (snd (PublishPairUnsubscribe hub_Send ''p1'' (snd (DeletePair ''p1'' (demo_world ''a_to_b'' []))))) = demo_hub"
  using unsubscribe_after_delete_sends_nothing [of "demo_world ''a_to_b'' []" "''p1''", OF _ prod.collapse [symmetric] prod.collapse [symmetric], of hub_Send]
  by simp

end
