(* ===== verification/Web.thy ===== *)
theory Web
  imports Mux Subscriber Diff
begin

text \<open>
  The administration pages (\<open>internal/server/web\<close>): clients (\<open>web.go\<close>), sync pairs
  (\<open>pairs.go\<close>), settings (\<open>settings.go\<close>), recent runs (\<open>runs.go\<close>) and the directory browser
  (\<open>browse.go\<close>). A handler is a function from a request and the world of the engine (database and
  network) to a response and the world after it.

  Parameters, gathered in \<open>webcfg\<close>: the template engine (\<open>html/template\<close> with the embedded
  templates) gives the text written and its error, if any; \<open>time.Format\<close> and \<open>Year\<close> depend on the
  local time zone; \<open>wc_newID\<close> is what \<open>uuid.NewString\<close> draws during the request; the embedded static
  files and the upgrade of \<open>/admin/ws\<close> are answers of \<open>net/http\<close> and of the WebSocket library.
\<close>

section \<open>Views\<close>

record ClientView =
  cv_Client :: Client
  cv_LastSeenString :: string

record PairView =
  pv_Pair :: SyncPair
  pv_ClientAName :: string
  pv_ClientBName :: string
  pv_CSRFToken :: string

record pairEditData =
  pe_Action :: string
  pe_Pair :: PairView
  pe_Clients :: "Client list"
  pe_CSRFToken :: string

record SettingView =
  sv_Key :: string
  sv_Value :: string
  sv_CSRFToken :: string

record RunView =
  rv_ID :: int
  rv_PairID :: string
  rv_PairName :: string
  rv_SrcClientID :: string
  rv_DstClientID :: string
  rv_RelPath :: string
  rv_SHA256Short :: string
  rv_Bytes :: int
  rv_Status :: string
  rv_Error :: string
  rv_StartedAtString :: string
  rv_FinishedAtString :: string
  rv_DurationMs :: int

record runsPageData =
  rp_Title :: string
  rp_Runs :: "RunView list"
  rp_Pairs :: "SyncPair list"
  rp_SelectedPairID :: string
  rp_SelectedStatus :: string
  rp_Limit :: int
  rp_CSRFToken :: string

record browseData =
  bd_Title :: string
  bd_ClientID :: string
  bd_ClientLabel :: string
  bd_CurrentPath :: string
  bd_Parent :: string
  bd_Entries :: "DirEntry list"
  bd_Error :: string
  bd_CSRFToken :: string

text \<open>A template with its data: full pages start at \<open>base\<close>, the others are named blocks.\<close>

datatype view =
    ClientsPage string "ClientView list" string
  | ClientRow ClientView
  | ClientRowWithTr ClientView
  | ClientEditRow ClientView string
  | PairsPage string "PairView list"
  | PairsContent "PairView list"
  | PairRow PairView
  | PairEditForm pairEditData
  | SettingsPage string "SettingView list"
  | SettingRow SettingView
  | SettingEditRow SettingView
  | RunsPage runsPageData
  | BrowsePage browseData
  | BrowseListing browseData

section \<open>Configuration\<close>

type_synonym 'h publish_fn = "string \<Rightarrow> 'h world \<Rightarrow> unit result \<times> 'h world"

record 'h PairPublisher =
  PublishUpdate :: "'h publish_fn"
  PublishUnsubscribe :: "'h publish_fn"

record 'h HubSender =
  hs_IsOnline :: "string \<Rightarrow> 'h \<Rightarrow> bool"
  hs_SendAndWait :: "'h request_fn"

record 'h webcfg =
  wc_Publisher :: "'h PairPublisher option"
  wc_Hub :: "'h HubSender option"
  wc_adminWS :: "httpresp option"
  wc_tmpl :: "view \<Rightarrow> string \<times> string option"
  wc_Year :: "int \<Rightarrow> int"
  wc_Format :: "int \<Rightarrow> string"
  wc_newID :: string
  wc_static :: "httpreq \<Rightarrow> httpresp"

type_synonym 'h webhandler = "httpreq \<Rightarrow> 'h world \<Rightarrow> httpresp \<times> 'h world"

definition html_resp :: "string \<Rightarrow> httpresp" where
  "html_resp t = \<lparr>rs_Status = 200, rs_Header = [(''Content-Type'', ''text/html; charset=utf-8'')], rs_Body = Text t\<rparr>"

text \<open>
  A failing template of a page: \<open>http.Error\<close> can only set the status when nothing was written before.
\<close>

definition late_error :: "string \<Rightarrow> string \<Rightarrow> httpresp" where
  "late_error t m = (if t = [] then http_Error m 500 else html_resp (t @ m @ [CHR 10]))"

definition render :: "'h webcfg \<Rightarrow> view \<Rightarrow> httpresp" where
  "render cfg v = html_resp (fst (wc_tmpl cfg v))"

definition renderPage :: "'h webcfg \<Rightarrow> view \<Rightarrow> httpresp" where
  "renderPage cfg v = (case wc_tmpl cfg v of
       (t, None) \<Rightarrow> html_resp t
     | (t, Some _) \<Rightarrow> late_error t ''internal server error'')"

definition internal_error :: httpresp where
  "internal_error = http_Error ''internal server error'' 500"

definition method_not_allowed :: httpresp where
  "method_not_allowed = http_Error ''method not allowed'' 405"

definition Query_Get :: "httpreq \<Rightarrow> string \<Rightarrow> string" where
  "Query_Get r k = Get_value k (rq_Query r)"

definition PostFormValue :: "httpreq \<Rightarrow> string \<Rightarrow> string" where
  "PostFormValue r k = Get_value k (rq_Form r)"

abbreviation req_path :: "httpreq \<Rightarrow> string" where
  "req_path r \<equiv> url_path (rq_URL r)"

section \<open>Clients\<close>

definition toClientView :: "'h webcfg \<Rightarrow> Client \<Rightarrow> ClientView" where
  "toClientView cfg c = \<lparr>cv_Client = c,
     cv_LastSeenString = (if wc_Year cfg (c_LastSeen c) > 1970 then wc_Format cfg (c_LastSeen c) else ''never'')\<rparr>"

definition clientsListHandler :: "'h webcfg \<Rightarrow> 'h webhandler" where
  "clientsListHandler cfg r w =
     (if req_path r \<noteq> ''/'' then (http_NotFound, w)
      else (case ListClients w of
        (Inl e, w1) \<Rightarrow> (http_Error (err_Error e) 500, w1)
      | (Inr cs, w1) \<Rightarrow> (renderPage cfg (ClientsPage ''Clients'' (map (toClientView cfg) cs) (CSRFTokenFromContext r)), w1)))"

definition handleClientEdit :: "'h webcfg \<Rightarrow> string \<Rightarrow> 'h webhandler" where
  "handleClientEdit cfg cid r w =
     (if rq_Method r \<noteq> ''GET'' then (method_not_allowed, w)
      else (case GetClient cid w of
        (Inl _, w1) \<Rightarrow> (http_NotFound, w1)
      | (Inr c, w1) \<Rightarrow> (render cfg (ClientEditRow (toClientView cfg c) (CSRFTokenFromContext r)), w1)))"

definition handleClientCancel :: "'h webcfg \<Rightarrow> string \<Rightarrow> 'h webhandler" where
  "handleClientCancel cfg cid r w =
     (if rq_Method r \<noteq> ''GET'' then (method_not_allowed, w)
      else (case GetClient cid w of
        (Inl _, w1) \<Rightarrow> (http_NotFound, w1)
      | (Inr c, w1) \<Rightarrow> (render cfg (ClientRow (toClientView cfg c)), w1)))"

definition edit_conflict :: httpresp where
  "edit_conflict = \<lparr>rs_Status = 412, rs_Header = [], rs_Body = Text
     (''<td colspan='' @ [CHR 0x22] @ ''6'' @ [CHR 0x22] @ ''>Edit conflict: client was modified by another user. <a href='' @
      [CHR 0x22] @ ''/'' @ [CHR 0x22] @ ''>Refresh</a></td>'')\<rparr>"

definition handleClientDisplayName :: "'h webcfg \<Rightarrow> string \<Rightarrow> 'h webhandler" where
  "handleClientDisplayName cfg cid r w =
     (if rq_Method r \<noteq> ''POST'' then (method_not_allowed, w)
      else (case ParseInt (PostFormValue r ''etag'') of
        Inl _ \<Rightarrow> (http_Error ''invalid etag'' 400, w)
      | Inr etag \<Rightarrow> (case UpdateClientDisplayName cid (PostFormValue r ''display_name'') etag w of
          (Inl e, w1) \<Rightarrow> if errors_Is e ErrEtagMismatch then (edit_conflict, w1)
                         else (http_Error (err_Error e) 500, w1)
        | (Inr _, w1) \<Rightarrow> (case GetClient cid w1 of
            (Inl _, w2) \<Rightarrow> (http_Error ''client not found after update'' 500, w2)
          | (Inr c, w2) \<Rightarrow> (render cfg (ClientRow (toClientView cfg c)), w2)))))"

definition client_delete_detail :: "Client \<Rightarrow> string" where
  "client_delete_detail c = ''{'' @ [CHR 0x22] @ ''hostname'' @ [CHR 0x22] @ '':'' @ Sprintf_q (c_Hostname c) @
     '','' @ [CHR 0x22] @ ''root_path'' @ [CHR 0x22] @ '':'' @ Sprintf_q (c_RootPath c) @ ''}''"

definition handleClientDelete :: "string \<Rightarrow> 'h webhandler" where
  "handleClientDelete cid r w = (case GetClient cid w of
       (Inl _, w1) \<Rightarrow> (http_NotFound, w1)
     | (Inr c, w1) \<Rightarrow>
         if c_Status c = ''online'' then (http_Error ''cannot delete online client'' 409, w1)
         else (case DeleteClient cid w1 of
             (Inl e, w2) \<Rightarrow> (http_Error (err_Error e) 500, w2)
           | (Inr _, w2) \<Rightarrow> (status_only 200, audit_now ''client_delete'' (Some cid) (Some (client_delete_detail c)) w2)))"

definition clientRowHandler :: "'h webcfg \<Rightarrow> 'h webhandler" where
  "clientRowHandler cfg r w = (case SplitN2 slash (TrimPrefix (req_path r) ''/clients/'') of
       [cid, action] \<Rightarrow>
         if action = ''edit'' then handleClientEdit cfg cid r w
         else if action = ''cancel'' then handleClientCancel cfg cid r w
         else if action = ''display-name'' then handleClientDisplayName cfg cid r w
         else (http_NotFound, w)
     | _ \<Rightarrow> (http_NotFound, w))"

section \<open>Sync pairs\<close>

definition clientDisplayName :: "Client \<Rightarrow> string" where
  "clientDisplayName c = (if c_DisplayName c \<noteq> [] then c_DisplayName c else c_Hostname c)"

definition clientsMap :: "Client list \<Rightarrow> string \<rightharpoonup> Client" where
  "clientsMap cs = by_path c_ID cs"

definition toPairView :: "SyncPair \<Rightarrow> (string \<rightharpoonup> Client) \<Rightarrow> string \<Rightarrow> PairView" where
  "toPairView p m csrf = \<lparr>pv_Pair = p,
     pv_ClientAName = (case m (p_ClientAID p) of None \<Rightarrow> [] | Some c \<Rightarrow> clientDisplayName c),
     pv_ClientBName = (case m (p_ClientBID p) of None \<Rightarrow> [] | Some c \<Rightarrow> clientDisplayName c),
     pv_CSRFToken = csrf\<rparr>"

definition loadPairsAndClients :: "'z st_scheme \<Rightarrow> (SyncPair list \<times> Client list) result \<times> 'z st_scheme" where
  "loadPairsAndClients w = (case ListPairs w of
       (Inl e, w1) \<Rightarrow> (Inl (Wrap ''list pairs'' e), w1)
     | (Inr ps, w1) \<Rightarrow> (case ListClients w1 of
         (Inl e, w2) \<Rightarrow> (Inl (Wrap ''list clients'' e), w2)
       | (Inr cs, w2) \<Rightarrow> (Inr (ps, cs), w2)))"

definition auditPairAction :: "string \<Rightarrow> string \<Rightarrow> 'z st_scheme \<Rightarrow> 'z st_scheme" where
  "auditPairAction kind pid w = audit kind None (Some pid) None
     (''{'' @ [CHR 0x22] @ ''pair_id'' @ [CHR 0x22] @ '':'' @ Sprintf_q pid @ ''}'') w"

definition publishPairUpdate :: "'h webcfg \<Rightarrow> string \<Rightarrow> 'h world \<Rightarrow> 'h world" where
  "publishPairUpdate cfg pid w = (case wc_Publisher cfg of None \<Rightarrow> w | Some pub \<Rightarrow> snd (PublishUpdate pub pid w))"

definition publishPairUnsubscribe :: "'h webcfg \<Rightarrow> string \<Rightarrow> 'h world \<Rightarrow> 'h world" where
  "publishPairUnsubscribe cfg pid w = (case wc_Publisher cfg of None \<Rightarrow> w | Some pub \<Rightarrow> snd (PublishUnsubscribe pub pid w))"

definition pairsListHandler :: "'h webcfg \<Rightarrow> 'h webhandler" where
  "pairsListHandler cfg r w =
     (if rq_Method r \<noteq> ''GET'' then (method_not_allowed, w)
      else (case loadPairsAndClients w of
        (Inl _, w1) \<Rightarrow> (internal_error, w1)
      | (Inr (ps, cs), w1) \<Rightarrow>
          (renderPage cfg (PairsPage ''Sync Pairs'' (map (\<lambda>p. toPairView p (clientsMap cs) (CSRFTokenFromContext r)) ps)), w1)))"

text \<open>The zero pair of the form for a new one.\<close>

definition new_pair :: SyncPair where
  "new_pair = \<lparr>p_ID = [], p_Name = [], p_ClientAID = [], p_PathA = [], p_ClientBID = [], p_PathB = [],
     p_Direction = [], p_Enabled = True, p_CreatedAt = zero_UnixNano, p_UpdatedAt = zero_UnixNano, p_Etag = 0\<rparr>"

definition handlePairNewForm :: "'h webcfg \<Rightarrow> 'h webhandler" where
  "handlePairNewForm cfg r w = (case ListClients w of
       (Inl _, w1) \<Rightarrow> (internal_error, w1)
     | (Inr cs, w1) \<Rightarrow> (let csrf = CSRFTokenFromContext r in
         (render cfg (PairEditForm \<lparr>pe_Action = ''new'', pe_Pair = \<lparr>pv_Pair = new_pair, pv_ClientAName = [], pv_ClientBName = [], pv_CSRFToken = csrf\<rparr>,
            pe_Clients = cs, pe_CSRFToken = csrf\<rparr>), w1)))"

definition form_pair :: "httpreq \<Rightarrow> string \<Rightarrow> int \<Rightarrow> int \<Rightarrow> SyncPair" where
  "form_pair r pid created updated = \<lparr>p_ID = pid, p_Name = PostFormValue r ''name'', p_ClientAID = PostFormValue r ''client_a_id'',
     p_PathA = PostFormValue r ''path_a'', p_ClientBID = PostFormValue r ''client_b_id'', p_PathB = PostFormValue r ''path_b'',
     p_Direction = PostFormValue r ''direction'', p_Enabled = (PostFormValue r ''enabled'' = ''1''),
     p_CreatedAt = created, p_UpdatedAt = updated, p_Etag = 0\<rparr>"

definition handlePairCreate :: "'h webcfg \<Rightarrow> 'h webhandler" where
  "handlePairCreate cfg r w =
     (if rq_FormErr r \<noteq> None then (http_Error ''bad request'' 400, w)
      else (case Now w of (t1, w1) \<Rightarrow> (case Now w1 of (t2, w2) \<Rightarrow>
        (let p = form_pair r (wc_newID cfg) t1 t2 in
         case UpsertPair p w2 of
           (Inl _, w3) \<Rightarrow> (internal_error, w3)
         | (Inr _, w3) \<Rightarrow>
             (case loadPairsAndClients (publishPairUpdate cfg (p_ID p) (auditPairAction ''pair_create'' (p_ID p) w3)) of
                (Inl _, w4) \<Rightarrow> (internal_error, w4)
              | (Inr (ps, cs), w4) \<Rightarrow>
                  (render cfg (PairsContent (map (\<lambda>q. toPairView q (clientsMap cs) (CSRFTokenFromContext r)) ps)), w4))))))"

definition handlePairEditForm :: "'h webcfg \<Rightarrow> string \<Rightarrow> 'h webhandler" where
  "handlePairEditForm cfg pid r w = (case GetPair pid w of
       (Inl _, w1) \<Rightarrow> (http_NotFound, w1)
     | (Inr p, w1) \<Rightarrow> (case ListClients w1 of
         (Inl _, w2) \<Rightarrow> (internal_error, w2)
       | (Inr cs, w2) \<Rightarrow> (let csrf = CSRFTokenFromContext r in
           (render cfg (PairEditForm \<lparr>pe_Action = pid, pe_Pair = toPairView p (clientsMap cs) csrf,
              pe_Clients = cs, pe_CSRFToken = csrf\<rparr>), w2))))"

definition handlePairCancelEdit :: "'h webcfg \<Rightarrow> string \<Rightarrow> 'h webhandler" where
  "handlePairCancelEdit cfg pid r w = (case GetPair pid w of
       (Inl _, w1) \<Rightarrow> (http_NotFound, w1)
     | (Inr p, w1) \<Rightarrow> (case ListClients w1 of
         (Inl _, w2) \<Rightarrow> (internal_error, w2)
       | (Inr cs, w2) \<Rightarrow> (render cfg (PairRow (toPairView p (clientsMap cs) (CSRFTokenFromContext r))), w2)))"

text \<open>What \<open>handlePairUpdate\<close> sends out, and the row it answers with.\<close>

definition publish_update :: "'h webcfg \<Rightarrow> bool \<Rightarrow> SyncPair \<Rightarrow> 'h world \<Rightarrow> 'h world" where
  "publish_update cfg wasEnabled p w =
     (if p_Enabled p then publishPairUpdate cfg (p_ID p) w
      else if wasEnabled then publishPairUnsubscribe cfg (p_ID p) w
      else w)"

definition updated_row :: "'h webcfg \<Rightarrow> string \<Rightarrow> 'h webhandler" where
  "updated_row cfg pid r w = (case GetPair pid w of
       (Inl _, w1) \<Rightarrow> (internal_error, w1)
     | (Inr p, w1) \<Rightarrow> (case ListClients w1 of
         (Inl _, w2) \<Rightarrow> (internal_error, w2)
       | (Inr cs, w2) \<Rightarrow> (render cfg (PairRow (toPairView p (clientsMap cs) (CSRFTokenFromContext r))), w2)))"

text \<open>
  \<open>handlePairUpdate\<close> in two halves: up to the comparison of the versions, and from there. The handlers of
  other requests can run between the two statements; the second half does not look at the version again.
\<close>

definition handlePairUpdate_read :: "string \<Rightarrow> httpreq \<Rightarrow> 'h world \<Rightarrow> (httpresp + SyncPair) \<times> 'h world" where
  "handlePairUpdate_read pid r w =
     (if rq_FormErr r \<noteq> None then (Inl (http_Error ''bad request'' 400), w)
      else (case GetPair pid w of
        (Inl _, w1) \<Rightarrow> (Inl http_NotFound, w1)
      | (Inr existing, w1) \<Rightarrow>
          if ParseInt (PostFormValue r ''etag'') \<noteq> Inr (p_Etag existing)
          then (Inl (http_Error ''precondition failed: etag mismatch'' 412), w1)
          else (Inr existing, w1)))"

definition handlePairUpdate_write :: "'h webcfg \<Rightarrow> string \<Rightarrow> httpreq \<Rightarrow> SyncPair \<Rightarrow> 'h world \<Rightarrow> httpresp \<times> 'h world" where
  "handlePairUpdate_write cfg pid r existing w =
     (case Now w of (t, w1) \<Rightarrow>
       (let p = form_pair r pid (p_CreatedAt existing) t in
        case UpsertPair p w1 of
          (Inl _, w2) \<Rightarrow> (internal_error, w2)
        | (Inr _, w2) \<Rightarrow>
            updated_row cfg pid r (publish_update cfg (p_Enabled existing) p (auditPairAction ''pair_update'' pid w2))))"

definition handlePairUpdate :: "'h webcfg \<Rightarrow> string \<Rightarrow> 'h webhandler" where
  "handlePairUpdate cfg pid r w = (case handlePairUpdate_read pid r w of
       (Inl resp, w1) \<Rightarrow> (resp, w1)
     | (Inr existing, w1) \<Rightarrow> handlePairUpdate_write cfg pid r existing w1)"

lemmas handlePairUpdate_defs = handlePairUpdate_def handlePairUpdate_read_def handlePairUpdate_write_def

definition handlePairDelete :: "'h webcfg \<Rightarrow> string \<Rightarrow> 'h webhandler" where
  "handlePairDelete cfg pid r w = (case DeletePair pid w of
       (Inl _, w1) \<Rightarrow> (internal_error, w1)
     | (Inr _, w1) \<Rightarrow> (status_only 200, publishPairUnsubscribe cfg pid (auditPairAction ''pair_delete'' pid w1)))"

definition pairFormHandler :: "'h webcfg \<Rightarrow> 'h webhandler" where
  "pairFormHandler cfg r w =
     (let path = TrimPrefix (req_path r) ''/pairs/''; meth = rq_Method r in
      if path = ''new'' \<and> meth = ''GET'' then handlePairNewForm cfg r w
      else if path = ''new/cancel'' \<and> meth = ''GET'' then (html_resp [], w)
      else if path = ''new'' \<and> meth = ''POST'' then handlePairCreate cfg r w
      else if HasSuffix path ''/edit'' \<and> meth = ''GET'' then handlePairEditForm cfg (TrimSuffix path ''/edit'') r w
      else if HasSuffix path ''/cancel'' \<and> meth = ''GET'' then handlePairCancelEdit cfg (TrimSuffix path ''/cancel'') r w
      else if meth = ''POST'' then handlePairUpdate cfg path r w
      else if meth = ''DELETE'' then handlePairDelete cfg path r w
      else (http_NotFound, w))"

section \<open>Settings\<close>

text \<open>The loop over the map gives its entries in some order, and the sort by key fixes it.\<close>

definition settingViews :: "(string \<times> string) list \<Rightarrow> string \<Rightarrow> SettingView list" where
  "settingViews m csrf = sort_key sv_Key (map (\<lambda>(k, v). \<lparr>sv_Key = k, sv_Value = v, sv_CSRFToken = csrf\<rparr>) m)"

definition settingsListHandler :: "'h webcfg \<Rightarrow> 'h webhandler" where
  "settingsListHandler cfg r w =
     (if req_path r \<noteq> ''/settings'' then (http_NotFound, w)
      else (case LoadAllSettings w of
        (Inl e, w1) \<Rightarrow> (http_Error (err_Error e) 500, w1)
      | (Inr m, w1) \<Rightarrow> (renderPage cfg (SettingsPage ''Settings'' (settingViews m (CSRFTokenFromContext r))), w1)))"

definition settingRowHandler :: "'h webcfg \<Rightarrow> 'h webhandler" where
  "settingRowHandler cfg r w =
     (let path = TrimPrefix (req_path r) ''/settings/''; csrf = CSRFTokenFromContext r in
      if rq_Method r = ''POST'' then
        (let k = TrimSuffix path ''/''; v = PostFormValue r ''value'' in
         case SetSetting k v w of
           (Inl e, w1) \<Rightarrow> (http_Error (err_Error e) 500, w1)
         | (Inr _, w1) \<Rightarrow> (render cfg (SettingRow \<lparr>sv_Key = k, sv_Value = v, sv_CSRFToken = csrf\<rparr>), w1))
      else (case SplitN2 slash path of
        [k, action] \<Rightarrow> (case GetSetting k w of
            (Inl _, w1) \<Rightarrow> (http_NotFound, w1)
          | (Inr v, w1) \<Rightarrow>
              (let view = \<lparr>sv_Key = k, sv_Value = v, sv_CSRFToken = csrf\<rparr> in
               if action = ''edit'' then (render cfg (SettingEditRow view), w1)
               else if action = ''cancel'' then (render cfg (SettingRow view), w1)
               else (http_NotFound, w1)))
      | _ \<Rightarrow> (http_NotFound, w)))"

section \<open>Recent runs\<close>

definition defaultRunsLimit :: int where "defaultRunsLimit = 100"
definition maxRunsLimit :: int where "maxRunsLimit = 1000"

definition parseRunsLimit :: "string \<Rightarrow> int" where
  "parseRunsLimit s = (case ParseInt s of
       Inl _ \<Rightarrow> defaultRunsLimit
     | Inr n \<Rightarrow> if n \<le> 0 then defaultRunsLimit else if n > maxRunsLimit then maxRunsLimit else n)"

definition filterRunsByStatus :: "SyncRun list \<Rightarrow> string \<Rightarrow> SyncRun list" where
  "filterRunsByStatus runs status = filter (\<lambda>r. sr_Status r = status) runs"

definition indexPairsByID :: "SyncPair list \<Rightarrow> string \<rightharpoonup> SyncPair" where
  "indexPairsByID ps = by_path p_ID ps"

text \<open>\<open>Time.Sub\<close> saturates; \<open>Milliseconds\<close> truncates towards zero.\<close>

definition Sub_Milliseconds :: "int \<Rightarrow> int \<Rightarrow> int" where
  "Sub_Milliseconds t u =
     (let d = max (- 9223372036854775808) (min 9223372036854775807 (t - u))
      in if d < 0 then - (- d div 1000000) else d div 1000000)"

definition toRunView :: "'h webcfg \<Rightarrow> SyncRun \<Rightarrow> (string \<rightharpoonup> SyncPair) \<Rightarrow> RunView" where
  "toRunView cfg r m = \<lparr>rv_ID = sr_ID r, rv_PairID = sr_PairID r,
     rv_PairName = (case m (sr_PairID r) of None \<Rightarrow> [] | Some p \<Rightarrow> p_Name p),
     rv_SrcClientID = sr_SrcClientID r, rv_DstClientID = sr_DstClientID r, rv_RelPath = sr_RelPath r,
     rv_SHA256Short = (case sr_SHA256 r of None \<Rightarrow> [] | Some h \<Rightarrow> if length h \<ge> 8 then take 8 h else []),
     rv_Bytes = sr_Bytes r, rv_Status = sr_Status r, rv_Error = (case sr_Error r of None \<Rightarrow> [] | Some e \<Rightarrow> e),
     rv_StartedAtString = wc_Format cfg (sr_StartedAt r), rv_FinishedAtString = wc_Format cfg (sr_FinishedAt r),
     rv_DurationMs = Sub_Milliseconds (sr_FinishedAt r) (sr_StartedAt r)\<rparr>"

definition toRunViews :: "'h webcfg \<Rightarrow> SyncRun list \<Rightarrow> (string \<rightharpoonup> SyncPair) \<Rightarrow> RunView list" where
  "toRunViews cfg runs m = map (\<lambda>r. toRunView cfg r m) runs"

definition runsListHandler :: "'h webcfg \<Rightarrow> 'h webhandler" where
  "runsListHandler cfg r w =
     (if req_path r \<noteq> ''/runs'' then (http_NotFound, w)
      else (let lim = parseRunsLimit (Query_Get r ''limit''); pairFilter = Query_Get r ''pair_id''; status = Query_Get r ''status'' in
        case ListRecentSyncRuns pairFilter lim w of
          (Inl e, w1) \<Rightarrow> (http_Error (err_Error e) 500, w1)
        | (Inr runs, w1) \<Rightarrow> (case ListPairs w1 of
            (Inl e, w2) \<Rightarrow> (http_Error (err_Error e) 500, w2)
          | (Inr ps, w2) \<Rightarrow>
              (let shown = (if status \<noteq> [] then filterRunsByStatus runs status else runs) in
               (renderPage cfg (RunsPage \<lparr>rp_Title = ''Sync Runs'', rp_Runs = toRunViews cfg shown (indexPairsByID ps), rp_Pairs = ps,
                  rp_SelectedPairID = pairFilter, rp_SelectedStatus = status, rp_Limit = lim,
                  rp_CSRFToken = CSRFTokenFromContext r\<rparr>), w2)))))"

section \<open>Directory browser\<close>

text \<open>\<open>path.Clean\<close> of the empty string and \<open>path.Dir\<close>.\<close>

definition path_Clean :: "string \<Rightarrow> string" where
  "path_Clean s = (if s = [] then ''.'' else Clean s)"

definition path_Dir :: "string \<Rightarrow> string" where
  "path_Dir s = path_Clean (rev (dropWhile (\<lambda>c. c \<noteq> slash) (rev s)))"

definition parseBrowsePath :: "string \<Rightarrow> string option" where
  "parseBrowsePath urlPath = (case SplitN2 slash (TrimPrefix urlPath ''/clients/'') of
       [cid, action] \<Rightarrow> if action \<noteq> ''browse'' then None else Some cid
     | _ \<Rightarrow> None)"

definition cleanBrowsePath :: "string \<Rightarrow> string" where
  "cleanBrowsePath raw = (if raw = [] then ''.'' else (let c = path_Clean raw in if c = [] then ''.'' else c))"

definition clientLabel :: "string \<Rightarrow> string \<Rightarrow> string \<Rightarrow> string" where
  "clientLabel displayName hostname rootPath =
     (if displayName = [] then hostname else displayName) @ '' ('' @ rootPath @ '')''"

definition parentPath :: "string \<Rightarrow> string" where
  "parentPath p = (if p = ''.'' \<or> p = ''/'' then ''.'' else (let d = path_Dir p in if d = [] then ''.'' else d))"

definition renderBrowse :: "'h webcfg \<Rightarrow> browseData \<Rightarrow> bool \<Rightarrow> httpresp" where
  "renderBrowse cfg d isHTMX = (case wc_tmpl cfg (if isHTMX then BrowseListing d else BrowsePage d) of
       (t, None) \<Rightarrow> html_resp t
     | (t, Some m) \<Rightarrow> late_error t (''template error: '' @ m))"

definition list_dir_env :: "string \<Rightarrow> string \<Rightarrow> Envelope" where
  "list_dir_env corr rel = \<lparr>Type = TypeListDirRequest, CorrelationID = corr,
     Payload = enc_ListDirRequest \<lparr>ldr_RelPath = rel\<rparr>\<rparr>"

text \<open>What the page shows, once the client is known: its state is only the hub's.\<close>

definition browse_listing :: "'h webcfg \<Rightarrow> string \<Rightarrow> browseData \<Rightarrow> 'h \<Rightarrow> browseData \<times> 'h" where
  "browse_listing cfg cid d n = (case wc_Hub cfg of
       None \<Rightarrow> (d\<lparr>bd_Error := ''client offline''\<rparr>, n)
     | Some h \<Rightarrow>
         if \<not> hs_IsOnline h cid n then (d\<lparr>bd_Error := ''client offline''\<rparr>, n)
         else (case hs_SendAndWait h cid (list_dir_env (wc_newID cfg) (bd_CurrentPath d)) n of
             (Inl e, n1) \<Rightarrow> (d\<lparr>bd_Error := ''client did not respond: '' @ err_Error e\<rparr>, n1)
           | (Inr env, n1) \<Rightarrow> (case dec_ListDirResponse (Payload env) of
               Inl e \<Rightarrow> (d\<lparr>bd_Error := ''bad response: '' @ err_Error e\<rparr>, n1)
             | Inr resp \<Rightarrow> (d\<lparr>bd_Error := ld_Error resp, bd_Entries := ld_Entries resp\<rparr>, n1))))"

definition browseHandler :: "'h webcfg \<Rightarrow> 'h webhandler" where
  "browseHandler cfg r w = (case parseBrowsePath (req_path r) of
       None \<Rightarrow> (http_NotFound, w)
     | Some cid \<Rightarrow> (case GetClient cid w of
         (Inl _, w1) \<Rightarrow> (http_NotFound, w1)
       | (Inr c, w1) \<Rightarrow>
           (let cur = cleanBrowsePath (Query_Get r ''path'');
                d = \<lparr>bd_Title = ''Browse: '' @ c_DisplayName c @ '' '' @ c_RootPath c, bd_ClientID = cid,
                     bd_ClientLabel = clientLabel (c_DisplayName c) (c_Hostname c) (c_RootPath c),
                     bd_CurrentPath = cur, bd_Parent = parentPath cur, bd_Entries = [], bd_Error = [],
                     bd_CSRFToken = CSRFTokenFromContext r\<rparr>
            in case browse_listing cfg cid d (net w1) of (d1, n1) \<Rightarrow>
                 (renderBrowse cfg d1 (Get_value ''Hx-Request'' (rq_Header r) = ''true''), w1\<lparr>net := n1\<rparr>))))"

section \<open>The handler of the pages\<close>

definition clientsHandler :: "'h webcfg \<Rightarrow> 'h webhandler" where
  "clientsHandler cfg r w = (case SplitN2 slash (TrimPrefix (req_path r) ''/clients/'') of
       [cid] \<Rightarrow> if rq_Method r = ''DELETE'' then handleClientDelete cid r w else (http_NotFound, w)
     | [cid, action] \<Rightarrow> if action = ''browse'' then browseHandler cfg r w else clientRowHandler cfg r w
     | _ \<Rightarrow> (http_NotFound, w))"

definition web_routes :: "'h webcfg \<Rightarrow> (string \<times> 'h webhandler) list" where
  "web_routes cfg =
     [(''/static/'', \<lambda>r w. (wc_static cfg r, w)),
      (''/'', clientsListHandler cfg),
      (''/clients/'', clientsHandler cfg),
      (''/pairs'', pairsListHandler cfg),
      (''/pairs/'', pairFormHandler cfg),
      (''/settings'', settingsListHandler cfg),
      (''/settings/'', settingRowHandler cfg),
      (''/runs'', runsListHandler cfg)] @
     (case wc_adminWS cfg of None \<Rightarrow> [] | Some resp \<Rightarrow> [(''/admin/ws'', \<lambda>r w. (resp, w))])"

definition buildHandler :: "'h webcfg \<Rightarrow> 'h webhandler" where
  "buildHandler cfg = ServeMux (web_routes cfg)"

section \<open>Reading pages changes nothing\<close>

named_theorems reads \<open>reading operations leave the database as it is\<close>

lemma db_query_row: "query_row f m sc w = (r, w') \<Longrightarrow> db w' = db w"
  using query_row_env(1) [of f m sc w] by simp

lemma db_wrap_query: "wrap_err m (query f w) = (r, w') \<Longrightarrow> db w' = db w"
  using list_query_db [of m f w r w'] by simp

lemma store_reads [reads]:
  "GetClient i w = (rc, w') \<Longrightarrow> db w' = db w"
  "GetPair i w = (rp, w') \<Longrightarrow> db w' = db w"
  "ListClients w = (rcs, w') \<Longrightarrow> db w' = db w"
  "ListPairs w = (rps, w') \<Longrightarrow> db w' = db w"
  "ListRecentSyncRuns i n w = (rr, w') \<Longrightarrow> db w' = db w"
  "LoadAllSettings w = (rm, w') \<Longrightarrow> db w' = db w"
  by (auto simp: GetClient_def GetPair_def ListClients_def ListPairs_def ListRecentSyncRuns_def LoadAllSettings_def
      dest: db_query_row db_wrap_query)

lemma GetSetting_reads [reads]: "GetSetting k w = (r, w') \<Longrightarrow> db w' = db w"
  by (auto simp: GetSetting_def split: prod.splits sum.splits dest: db_query_row)

lemma loadPairsAndClients_reads [reads]: "loadPairsAndClients w = (r, w') \<Longrightarrow> db w' = db w"
  by (auto simp: loadPairsAndClients_def split: prod.splits sum.splits dest!: reads)

lemma page_reads [reads]:
  "clientsListHandler cfg r w = (resp, w') \<Longrightarrow> db w' = db w"
  "handleClientEdit cfg i r w = (resp, w') \<Longrightarrow> db w' = db w"
  "handleClientCancel cfg i r w = (resp, w') \<Longrightarrow> db w' = db w"
  "pairsListHandler cfg r w = (resp, w') \<Longrightarrow> db w' = db w"
  "handlePairNewForm cfg r w = (resp, w') \<Longrightarrow> db w' = db w"
  "handlePairEditForm cfg i r w = (resp, w') \<Longrightarrow> db w' = db w"
  "handlePairCancelEdit cfg i r w = (resp, w') \<Longrightarrow> db w' = db w"
  "settingsListHandler cfg r w = (resp, w') \<Longrightarrow> db w' = db w"
  "runsListHandler cfg r w = (resp, w') \<Longrightarrow> db w' = db w"
  "updated_row cfg i r w = (resp, w') \<Longrightarrow> db w' = db w"
  by (auto simp: clientsListHandler_def handleClientEdit_def handleClientCancel_def pairsListHandler_def
      handlePairNewForm_def handlePairEditForm_def handlePairCancelEdit_def settingsListHandler_def
      runsListHandler_def updated_row_def Let_def split: prod.splits sum.splits if_splits dest!: reads)

lemma browse_reads [reads]: "browseHandler cfg r w = (resp, w') \<Longrightarrow> db w' = db w"
  by (auto simp: browseHandler_def Let_def split: prod.splits sum.splits option.splits dest!: reads)

definition safe_method :: "string \<Rightarrow> bool" where
  "safe_method m \<longleftrightarrow> m = ''GET'' \<or> m = ''HEAD'' \<or> m = ''OPTIONS''"

lemma clientRow_reads:
  "clientRowHandler cfg r w = (resp, w') \<Longrightarrow> rq_Method r \<noteq> ''POST'' \<Longrightarrow> db w' = db w"
  by (auto simp: clientRowHandler_def handleClientDisplayName_def split: list.splits if_splits dest!: reads)

lemma settingRow_reads:
  "settingRowHandler cfg r w = (resp, w') \<Longrightarrow> rq_Method r \<noteq> ''POST'' \<Longrightarrow> db w' = db w"
  by (auto simp: settingRowHandler_def Let_def split: list.splits prod.splits sum.splits if_splits dest!: reads)

lemma pairForm_reads:
  "pairFormHandler cfg r w = (resp, w') \<Longrightarrow> rq_Method r \<noteq> ''POST'' \<Longrightarrow> rq_Method r \<noteq> ''DELETE'' \<Longrightarrow> db w' = db w"
  by (auto simp: pairFormHandler_def Let_def split: if_splits dest!: reads)

lemma clients_reads:
  "clientsHandler cfg r w = (resp, w') \<Longrightarrow> rq_Method r \<noteq> ''POST'' \<Longrightarrow> rq_Method r \<noteq> ''DELETE'' \<Longrightarrow> db w' = db w"
  by (auto simp: clientsHandler_def split: list.splits if_splits dest!: reads clientRow_reads)

lemma safe_method_neq: "safe_method m \<Longrightarrow> m \<noteq> ''POST'' \<and> m \<noteq> ''DELETE''"
  by (auto simp: safe_method_def)

lemma route_reads:
  assumes "(pat, h) \<in> set (web_routes cfg)" "safe_method (rq_Method r)" "h r w = (resp, w')"
  shows "db w' = db w"
  using assms(1,3) safe_method_neq [OF assms(2)]
  by (auto simp: web_routes_def split: option.splits dest: page_reads clients_reads pairForm_reads settingRow_reads)

lemma buildHandler_reads:
  assumes "safe_method (rq_Method r)" "buildHandler cfg r w = (resp, w')"
  shows "db w' = db w"
proof (cases rule: ServeMux_cases [of "web_routes cfg" r w])
  case 1
  then show ?thesis using assms(2) by (simp add: buildHandler_def)
next
  case (2 pat h)
  then show ?thesis using route_reads [OF 2(1) assms(1)] assms(2) by (simp add: buildHandler_def)
qed

end
