(* ===== verification/Admin.thy ===== *)
theory Admin
  imports Web
begin

text \<open>
  What the administration pages promise: a page that is only read changes nothing, a change needs the
  credentials and the token of the form, edits made from the same version of a pair do not overwrite each
  other, a client that is online is not deleted. The notifications of a change go through the interface
  \<open>PairPublisher\<close> of \<open>pairs.go\<close>, stated as a locale and interpreted on the engine.
\<close>

section \<open>The interface PairPublisher\<close>

lemma auditPairAction_logs: "logs_only w (auditPairAction kind pid w)"
  by (simp add: auditPairAction_def logs_only_audit)

lemma net_auditPairAction [simp]: "net (auditPairAction kind pid w) = net w"
  by (simp add: auditPairAction_def audit_def AppendAuditLog_def Now_def)

lemma updated_row_ok:
  assumes "sql_ok v" "find_pair pid (db v) = Some q"
  shows "\<exists>resp. updated_row cfg pid r v = (resp, v\<lparr>stmts := Suc (Suc (stmts v))\<rparr>) \<and> rs_Status resp = 200"
proof -
  have "GetPair pid v = (Inr q, v\<lparr>stmts := Suc (stmts v)\<rparr>)"
    using assms by (simp add: GetPair_ok scanPair_def scan_row_def)
  moreover have "ListClients (v\<lparr>stmts := Suc (stmts v)\<rparr>) =
      (Inr (sort_key c_CreatedAt (clients (db v))), v\<lparr>stmts := Suc (Suc (stmts v))\<rparr>)"
    using assms(1) by (simp add: ListClients_def query_def exec_def sql_ok_def)
  ultimately show ?thesis by (simp add: updated_row_def render_def html_resp_def)
qed

text \<open>What a form makes of a row.\<close>

definition form_row :: "httpreq \<Rightarrow> int \<Rightarrow> SyncPair \<Rightarrow> SyncPair" where
  "form_row r t p = p\<lparr>p_Name := PostFormValue r ''name'', p_PathA := PostFormValue r ''path_a'',
     p_PathB := PostFormValue r ''path_b'', p_Direction := PostFormValue r ''direction'',
     p_Enabled := (PostFormValue r ''enabled'' = ''1''), p_UpdatedAt := t, p_Etag := p_Etag p + 1\<rparr>"

text \<open>Notifying the clients of a pair reads the database only.\<close>

locale pair_publisher =
  fixes pub :: "'h PairPublisher"
  assumes update_db: "db (snd (PublishUpdate pub pid w)) = db w"
    and unsubscribe_db: "db (snd (PublishUnsubscribe pub pid w)) = db w"
    and update_env: "sqlerr (snd (PublishUpdate pub pid w)) = sqlerr w"
    and unsubscribe_env: "sqlerr (snd (PublishUnsubscribe pub pid w)) = sqlerr w"
begin

lemma publish_update_db:
  "wc_Publisher cfg = Some pub \<Longrightarrow> db (publish_update cfg was p w) = db w \<and> sqlerr (publish_update cfg was p w) = sqlerr w"
  by (simp add: publish_update_def publishPairUpdate_def publishPairUnsubscribe_def
      update_db unsubscribe_db update_env unsubscribe_env)

text \<open>The second half of an update: the row takes the form's values and the version after its own.\<close>

lemma update_write:
  assumes cfg: "wc_Publisher cfg = Some pub" and ok: "sql_ok w" and p: "find_pair pid (db w) = Some p"
    and h: "handlePairUpdate_write cfg pid r existing w = (resp, w')"
  shows "rs_Status resp = 200 \<and> sql_ok w' \<and> find_pair pid (db w') = Some (form_row r (clock w (ticks w)) p) \<and>
    (wf_db (db w) \<longrightarrow> wf_db (db w'))"
proof -
  let ?w2 = "w\<lparr>ticks := Suc (ticks w)\<rparr>"
  let ?f = "form_pair r pid (p_CreatedAt existing) (clock w (ticks w))"
  let ?d = "snd (upsert_pair_sql ?f (db w))"
  let ?w3 = "?w2\<lparr>stmts := Suc (stmts w), db := ?d\<rparr>"
  let ?w4 = "publish_update cfg (p_Enabled existing) ?f (auditPairAction ''pair_update'' pid ?w3)"
  have in_d: "\<exists>q \<in> set (sync_pairs (db w)). p_ID q = p_ID ?f"
    using p by (auto simp: form_pair_def find_pair_def dest: find_Some_iff')
  have u: "UpsertPair ?f ?w2 = (Inr (), ?w3)"
    using in_d ok by (simp add: UpsertPair_def exec_def sql_ok_def upsert_pair_sql_def)
  have h': "updated_row cfg pid r ?w4 = (resp, w')"
    using h by (simp add: handlePairUpdate_write_def Now_def u Let_def)
  have row: "find_pair pid ?d = Some (form_row r (clock w (ticks w)) p)"
    using p in_d by (simp add: upsert_pair_sql_def find_pair_def find_upsert_row form_pair_def form_row_def)
  have l: "logs_only ?w3 (auditPairAction ''pair_update'' pid ?w3)" by (rule auditPairAction_logs)
  have w4: "find_pair pid (db ?w4) = Some (form_row r (clock w (ticks w)) p)" "sql_ok ?w4" "wf_db (db w) \<longrightarrow> wf_db (db ?w4)"
    using publish_update_db [OF cfg] logs_only_find(1) [OF l] l row ok wf_upsert_pair [of "db w" ?f] by (simp_all add: logs_only_def sql_ok_def)
  with updated_row_ok [OF w4(2,1), of cfg r] h' w4 show ?thesis
    by (auto simp: sql_ok_def)
qed

end

text \<open>The first half: it passes from the current version only, and refuses every other.\<close>

lemma update_read:
  assumes "sql_ok w" "rq_FormErr r = None" "find_pair pid (db w) = Some p"
  shows "handlePairUpdate_read pid r w = (if ParseInt (PostFormValue r ''etag'') = Inr (p_Etag p) then Inr p
      else Inl (http_Error ''precondition failed: etag mismatch'' 412), w\<lparr>stmts := Suc (stmts w)\<rparr>)"
  using assms by (simp add: handlePairUpdate_read_def GetPair_ok scanPair_def scan_row_def)

lemma update_stale:
  assumes "find_pair pid (db w) = Some p" "sql_ok w" "rq_FormErr r = None"
    and "ParseInt (PostFormValue r ''etag'') \<noteq> Inr (p_Etag p)" "handlePairUpdate cfg pid r w = (resp, w')"
  shows "rs_Status resp = 412 \<and> db w' = db w"
  using assms update_read [OF assms(2,3,1)] by (auto simp: handlePairUpdate_def http_Error_def)

definition engine_publisher :: "'h send_fn \<Rightarrow> 'h PairPublisher" where
  "engine_publisher send = \<lparr>PublishUpdate = PublishPairUpdate send, PublishUnsubscribe = PublishPairUnsubscribe send\<rparr>"

lemma fold_sends: "(\<And>c v. db (f c v) = db v \<and> sqlerr (f c v) = sqlerr v) \<Longrightarrow>
    db (fold f cs w) = db w \<and> sqlerr (fold f cs w) = sqlerr w"
  by (induction cs arbitrary: w) auto

lemma engine_Send_db: "db (snd (engine_Send send c e w)) = db w \<and> sqlerr (snd (engine_Send send c e w)) = sqlerr w"
  by (simp add: engine_Send_def split: prod.splits)

lemma GetPair_env: "GetPair i w = (r, w') \<Longrightarrow> db w' = db w \<and> sqlerr w' = sqlerr w"
  using query_row_env [of "find_pair i" "''scan pair''" scanPair w] by (simp add: GetPair_def)

lemma PublishPairUnsubscribe_db:
  "db (snd (PublishPairUnsubscribe send pid w)) = db w \<and> sqlerr (snd (PublishPairUnsubscribe send pid w)) = sqlerr w"
  using fold_sends [of "\<lambda>cid v. snd (engine_Send send cid (subscribe_env p (fst (sideAndPathFor p cid)) [] []) v)" for p]
  by (auto simp: PublishPairUnsubscribe_def engine_Send_db split: prod.splits sum.splits dest!: GetPair_env)

lemma PublishPairUpdate_db:
  "db (snd (PublishPairUpdate send pid w)) = db w \<and> sqlerr (snd (PublishPairUpdate send pid w)) = sqlerr w"
  using PublishPairUnsubscribe_db [of send pid]
    fold_sends [of "\<lambda>cid v. case sideAndPathFor p cid of (side, path) \<Rightarrow> snd (sendSubscribe send cid p side path v)" for p]
  by (auto simp: PublishPairUpdate_def sendSubscribe_def engine_Send_db split: prod.splits sum.splits dest!: GetPair_env)

interpretation engpub: pair_publisher "engine_publisher send" for send
  by unfold_locales (simp_all add: engine_publisher_def PublishPairUpdate_db PublishPairUnsubscribe_db)

section \<open>Access\<close>

definition admin_handler :: "byte list \<Rightarrow> string \<Rightarrow> string \<Rightarrow> 'h webcfg \<Rightarrow> 'h webhandler" where
  "admin_handler rnd user pass cfg = BasicAuth user pass (CSRF rnd (buildHandler cfg))"

lemma CSRF_cases:
  assumes "CSRF rnd nxt r s = (resp, s')" "readOrIssueToken rnd r = (tok, hs)"
  obtains "s' = s" "rs_Status resp = 403"
  | resp1 where "nxt (r\<lparr>rq_ctxCSRF := tok\<rparr>) s = (resp1, s')" "rs_Status resp = rs_Status resp1"
      "safe_method (rq_Method r) \<or> tok \<noteq> [] \<and> (Get_value csrfHeaderName (rq_Header r) = tok \<or> Get_value csrfFormField (rq_Form r) = tok)"
proof -
  let ?n = "nxt (r\<lparr>rq_ctxCSRF := tok\<rparr>) s"
  obtain resp1 s1 where n: "?n = (resp1, s1)" by fastforce
  show ?thesis
    using assms n that by (auto simp: CSRF_def safe_method_def http_Error_def Let_def split: if_splits)
qed

lemma readOrIssueToken_cases:
  "readOrIssueToken rnd r = (tok, hs) \<Longrightarrow> map_of (rq_Cookies r) csrfCookieName = Some tok \<or> tok = EncodeToString rnd"
  by (auto simp: readOrIssueToken_def split: option.splits if_splits)

text \<open>
  A page cannot be made to change the server from outside: when a request to the pages changes the
  database at all, it carries the credentials of the administrator (if the server has them), it is not a
  \<open>GET\<close>, \<open>HEAD\<close> or \<open>OPTIONS\<close>, and its header or form repeats the token of its cookie (or the random
  token drawn for it when it had none).
\<close>

theorem admin_change_needs_token:
  assumes "admin_handler rnd user pass cfg r w = (resp, w')" "db w' \<noteq> db w"
  shows "(user \<noteq> [] \<and> pass \<noteq> [] \<longrightarrow> rq_BasicAuth r = Some (user, pass)) \<and>
    rq_Method r \<notin> {''GET'', ''HEAD'', ''OPTIONS''} \<and>
    (\<exists>tok. tok \<noteq> [] \<and> (map_of (rq_Cookies r) csrfCookieName = Some tok \<or> tok = EncodeToString rnd) \<and>
       (Get_value csrfHeaderName (rq_Header r) = tok \<or> Get_value csrfFormField (rq_Form r) = tok))"
proof -
  have auth: "(user \<noteq> [] \<and> pass \<noteq> [] \<longrightarrow> rq_BasicAuth r = Some (user, pass)) \<and> CSRF rnd (buildHandler cfg) r w = (resp, w')"
    using assms by (auto simp: admin_handler_def BasicAuth_def split: if_splits option.splits)
  obtain tok hs where t: "readOrIssueToken rnd r = (tok, hs)" by fastforce
  from auth have c: "CSRF rnd (buildHandler cfg) r w = (resp, w')" by simp
  show ?thesis
  proof (cases rule: CSRF_cases [OF c t])
    case 1
    then show ?thesis using assms(2) by simp
  next
    case (2 resp1)
    have m: "rq_Method (r\<lparr>rq_ctxCSRF := tok\<rparr>) = rq_Method r" by simp
    have "\<not> safe_method (rq_Method r)"
      using buildHandler_reads [OF _ 2(1), unfolded m] assms(2) by blast
    then show ?thesis using auth 2(3) readOrIssueToken_cases [OF t] by (auto simp: safe_method_def)
  qed
qed

text \<open>A configuration and a request for the examples.\<close>

definition demo_webcfg :: "hub webcfg" where
  "demo_webcfg = \<lparr>wc_Publisher = Some (engine_publisher hub_Send), wc_Hub = None, wc_adminWS = None,
     wc_tmpl = (\<lambda>_. (''<html>'', None)), wc_Year = (\<lambda>_. 2024), wc_Format = (\<lambda>_. ''now''), wc_newID = ''p9'',
     wc_static = (\<lambda>_. http_NotFound)\<rparr>"

definition demo_form :: "string \<Rightarrow> string \<Rightarrow> (string \<times> string) list \<Rightarrow> httpreq" where
  "demo_form meth url form = \<lparr>rq_Method = meth, rq_URL = url, rq_Query = [], rq_Header = [(csrfHeaderName, ''t0'')],
     rq_Cookies = [(csrfCookieName, ''t0'')], rq_Form = form, rq_FormErr = None, rq_BasicAuth = Some (''admin'', ''pw''),
     rq_ContentLength = 0, rq_Body = \<lparr>rd_data = [], rd_err = None\<rparr>, rq_ctxClientID = [], rq_ctxCSRF = []\<rparr>"

lemma demo_delete: "sync_pairs (db (snd (admin_handler [1] ''admin'' ''pw'' demo_webcfg (demo_form ''DELETE'' ''/pairs/p1'' []) (demo_world ''a_to_b'' [])))) = []"
  by code_simp

theorem admin_change_needs_token_witness:
  "rq_BasicAuth (demo_form ''DELETE'' ''/pairs/p1'' []) = Some (''admin'', ''pw'')"
proof -
  have "db (snd (admin_handler [1] ''admin'' ''pw'' demo_webcfg (demo_form ''DELETE'' ''/pairs/p1'' []) (demo_world ''a_to_b'' [])))
      \<noteq> db (demo_world ''a_to_b'' [])"
    using demo_delete by (auto simp: demo_world_def)
  from admin_change_needs_token [OF prod.collapse [symmetric] this] show ?thesis by simp
qed

section \<open>Sync pairs\<close>

lemma GetPair_found: "GetPair pid w = (Inr p, w') \<Longrightarrow> find_pair pid (db w) = Some p"
  by (auto simp: GetPair_def query_row_def scanPair_def scan_row_def query_def exec_def split: prod.splits sum.splits option.splits)

lemma update_read_passed:
  assumes "handlePairUpdate_read pid r w = (Inr q, w')"
  shows "find_pair pid (db w) = Some q \<and> db w' = db w \<and> sqlerr w' = sqlerr w \<and> ParseInt (PostFormValue r ''etag'') = Inr (p_Etag q)"
proof -
  obtain x w1 where g: "GetPair pid w = (x, w1)" by fastforce
  then have "x = Inr q \<and> w' = w1 \<and> ParseInt (PostFormValue r ''etag'') = Inr (p_Etag q)"
    using assms by (cases x) (simp_all add: handlePairUpdate_read_def split: if_splits)
  then show ?thesis using GetPair_found [of pid w q w1] GetPair_env [of pid w x w1] g by simp
qed

text \<open>The version of a pair grows as long as the pair is in the table.\<close>

definition etag_grows :: "string \<Rightarrow> database \<Rightarrow> database \<Rightarrow> bool" where
  "etag_grows pid d d' \<longleftrightarrow> (case (find_pair pid d, find_pair pid d') of (Some p, Some p') \<Rightarrow> p_Etag p \<le> p_Etag p' | _ \<Rightarrow> True)"

lemma etag_grows_same: "sync_pairs d' = sync_pairs d \<Longrightarrow> etag_grows pid d d'"
  by (simp add: etag_grows_def find_pair_def split: option.splits)

lemma find_filter_distinct:
  "distinct (map key ps) \<Longrightarrow> List.find (\<lambda>r. key r = k) (filter Q ps) \<in> {None, List.find (\<lambda>r. key r = k) ps}"
  by (induction ps) (auto simp: find_None_iff image_iff)

lemma etag_grows_delete: "distinct (map p_ID (sync_pairs d)) \<Longrightarrow> etag_grows pid d (delete_pairs_where P d)"
  using find_filter_distinct [of p_ID "sync_pairs d" pid "\<lambda>p. \<not> P p"]
  by (auto simp: etag_grows_def find_pair_def delete_pairs_where_def Let_def split: option.splits)

lemma etag_grows_upsert: "etag_grows pid d (snd (upsert_pair_sql p d))"
  by (auto simp: etag_grows_def find_pair_def upsert_pair_sql_def find_upsert_row split: option.splits)

lemma etag_grows_exec: "(\<And>d. wf_db d \<Longrightarrow> etag_grows pid d (snd (f d))) \<Longrightarrow> wf_db (db w) \<Longrightarrow> etag_grows pid (db w) (db (snd (exec f w)))"
  by (simp add: db_exec etag_grows_same split: option.splits)

lemma etag_grows_step: "wf_db (db w) \<Longrightarrow> etag_grows pid (db w) (db (store_step x w))"
proof (cases x)
  case (OpUpdateClientStatus i st t)
  have "sync_pairs (db (snd (UpdateClientStatus i st t w))) = sync_pairs (db w)"
    by (auto simp: UpdateClientStatus_def Now_def exec_def update_client_rows_def split: prod.splits sum.splits option.splits)
  then show ?thesis by (simp add: OpUpdateClientStatus etag_grows_same)
next
  case (OpUpdateClientDisplayName i n e)
  have "sync_pairs (db (snd (UpdateClientDisplayName i n e w))) = sync_pairs (db w)"
    by (auto simp: UpdateClientDisplayName_def Now_def exec_def update_client_rows_def
        split: prod.splits sum.splits option.splits if_splits dest: query_row_db)
  then show ?thesis by (simp add: OpUpdateClientDisplayName etag_grows_same)
next
  case (OpDeleteClient i)
  assume "wf_db (db w)"
  have "etag_grows pid d (snd (delete_client_sql i d))" if wf: "wf_db d" for d
  proof -
    let ?e = "delete_pairs_where (\<lambda>p. p_ClientAID p = i \<or> p_ClientBID p = i) d"
    have "etag_grows pid d ?e" using wf by (simp add: etag_grows_delete wf_db_def keys_ok_def)
    then show ?thesis by (simp add: delete_client_sql_def etag_grows_def find_pair_def)
  qed
  from etag_grows_exec [OF this \<open>wf_db (db w)\<close>] show ?thesis by (simp add: OpDeleteClient DeleteClient_def)
next
  case (OpDeletePair i)
  assume wf: "wf_db (db w)"
  have "etag_grows pid d (snd (delete_pair_sql i d))" if "wf_db d" for d
    using that by (simp add: delete_pair_sql_def etag_grows_delete wf_db_def keys_ok_def)
  from etag_grows_exec [OF this wf] show ?thesis by (simp add: OpDeletePair DeletePair_def)
next
  case (OpSetSetting k v)
  then show ?thesis
    by (auto simp: SetSetting_def Now_def db_exec intro!: etag_grows_same split: option.splits)
qed (simp_all add: UpsertClient_def UpsertPair_def UpsertFileState_def DeleteFileState_def InsertSyncRun_def AppendAuditLog_def
    upsert_client_sql_def upsert_file_state_sql_def insert_run_sql_def
    etag_grows_exec etag_grows_upsert etag_grows_same)

primrec pair_stays :: "string \<Rightarrow> store_op list \<Rightarrow> 'z st_scheme \<Rightarrow> bool" where
  "pair_stays pid [] w \<longleftrightarrow> find_pair pid (db w) \<noteq> None"
| "pair_stays pid (x # xs) w \<longleftrightarrow> find_pair pid (db w) \<noteq> None \<and> pair_stays pid xs (store_step x w)"

lemma etag_grows_run:
  "wf_db (db w) \<Longrightarrow> pair_stays pid xs w \<Longrightarrow> etag_grows pid (db w) (db (fold store_step xs w)) \<and> find_pair pid (db (fold store_step xs w)) \<noteq> None"
proof (induction xs arbitrary: w)
  case (Cons x xs)
  note s = etag_grows_step [OF Cons.prems(1), of pid x] and r = Cons.IH [of "store_step x w", OF wf_store_step [OF Cons.prems(1)]]
  have "find_pair pid (db (store_step x w)) \<noteq> None" using Cons.prems(2) by (cases xs) auto
  then show ?case using s r Cons.prems(2) by (auto simp: etag_grows_def split: option.splits)
qed (simp add: etag_grows_same)

text \<open>
  C17. An edit of a pair does not overwrite one it has not seen: when an edit has read the pair and passed the
  comparison of the versions, and writes after any other statements of the server, and a second edit that
  was made from the same version reads after that write, again with any statements in between (in all of
  which the pair stays in the table), then the first is stored, with the form's name, directories, direction
  and switch and the next version, and the second is refused with status 412 and changes nothing. The
  clients of the pair stay the stored ones whatever the forms say. (Two edits that both read before either
  writes are the theorem \<open>overlapping_edits_lose_one\<close> below.)
\<close>

theorem pair_update_no_lost_update:
  assumes "wc_Publisher cfg = Some (engine_publisher send)" "rq_FormErr r2 = None" "wf_db (db v)"
    and "handlePairUpdate_read pid r1 v = (Inr q, v1)"
    and "db w = db (fold store_step ops v1)" "pair_stays pid ops v1" "sql_ok w"
    and "handlePairUpdate_write cfg pid r1 q w = (resp1, w1)"
    and "db w2 = db (fold store_step ops' w1)" "pair_stays pid ops' w1" "sql_ok w2"
    and "ParseInt (PostFormValue r2 ''etag'') = Inr (p_Etag q)" "handlePairUpdate cfg pid r2 w2 = (resp2, w3)"
  shows "rs_Status resp1 = 200 \<and> ParseInt (PostFormValue r1 ''etag'') = Inr (p_Etag q) \<and>
    (\<exists>p. find_pair pid (db w) = Some p \<and> p_Etag q \<le> p_Etag p \<and> find_pair pid (db w1) = Some (form_row r1 (clock w (ticks w)) p)) \<and>
    rs_Status resp2 = 412 \<and> db w3 = db w2"
proof -
  have r: "find_pair pid (db v) = Some q" "db v1 = db v" "ParseInt (PostFormValue r1 ''etag'') = Inr (p_Etag q)"
    using update_read_passed [OF assms(4)] by simp_all
  have g: "etag_grows pid (db v1) (db w)" "find_pair pid (db w) \<noteq> None"
    using etag_grows_run [of v1 pid ops] assms(3,5,6) r(2) by simp_all
  then obtain p where p: "find_pair pid (db w) = Some p" "p_Etag q \<le> p_Etag p" using r by (auto simp: etag_grows_def)
  note f = engpub.update_write [OF assms(1,7) p(1) assms(8)]
  have wf: "wf_db (db w1)" using f wf_store_run [of v1 ops] assms(3,5) r(2) by simp
  have "etag_grows pid (db w1) (db w2)" "find_pair pid (db w2) \<noteq> None"
    using etag_grows_run [OF wf assms(10)] assms(9) by simp_all
  then obtain p2 where p2: "find_pair pid (db w2) = Some p2" "p_Etag q < p_Etag p2" using f p(2) by (auto simp: etag_grows_def form_row_def)
  then have "rs_Status resp2 = 412 \<and> db w3 = db w2"
    using update_stale [OF p2(1) assms(11,2) _ assms(13)] assms(12) by simp
  then show ?thesis using f p r(3) by blast
qed

theorem pair_update_no_lost_update_witness:
  "p_ClientAID (the (find_pair ''p1'' (db (snd (handlePairUpdate_write demo_webcfg ''p1''
     (demo_form ''POST'' ''/pairs/p1'' [(''etag'', ''1''), (''client_a_id'', ''cc'')]) (demo_pair ''a_to_b'')
     (store_step (OpSetSetting ''k'' ''v'') (snd (handlePairUpdate_read ''p1'' (demo_form ''POST'' ''/pairs/p1'' [(''etag'', ''1''), (''client_a_id'', ''cc'')])
       (demo_world ''a_to_b'' []))))))))) = ''ca''"
proof -
  let ?r = "demo_form ''POST'' ''/pairs/p1'' [(''etag'', ''1''), (''client_a_id'', ''cc'')]" and ?v = "demo_world ''a_to_b'' []"
  let ?p = "demo_pair ''a_to_b''"
  have e: "ParseInt (PostFormValue ?r ''etag'') = Inr 1" by code_simp
  have f: "rq_FormErr ?r = None" by (simp add: demo_form_def)
  have c: "wc_Publisher demo_webcfg = Some (engine_publisher hub_Send)" by (simp add: demo_webcfg_def)
  have rd: "handlePairUpdate_read ''p1'' ?r ?v = (Inr ?p, ?v\<lparr>stmts := 1\<rparr>)"
    using update_read [OF demo_world_simps(1) f demo_world_simps(6)] e by (simp add: demo_pair_def)
  let ?v1 = "?v\<lparr>stmts := 1\<rparr>"
  let ?w = "store_step (OpSetSetting ''k'' ''v'') ?v1"
  have o: "sql_ok ?v1" by (simp add: sql_ok_def demo_world_def)
  have w: "sql_ok ?w" "find_pair ''p1'' (db ?w) = Some ?p" "pair_stays ''p1'' [OpSetSetting ''k'' ''v''] ?v1"
    using o by (simp_all add: SetSetting_def Now_def exec_ok sql_ok_def find_pair_def demo_world_def demo_pair_def)
  obtain resp1 w1 where w1: "handlePairUpdate_write demo_webcfg ''p1'' ?r ?p ?w = (resp1, w1)" by fastforce
  note f1 = engpub.update_write [OF c w(1,2) w1]
  have s1: "db w1 = db (fold store_step [] w1)" "pair_stays ''p1'' [] w1" "sql_ok w1" using f1 by simp_all
  have q: "ParseInt (PostFormValue ?r ''etag'') = Inr (p_Etag ?p)" using e by (simp add: demo_pair_def)
  have "db ?w = db (fold store_step [OpSetSetting ''k'' ''v''] ?v1)" by simp
  from pair_update_no_lost_update [OF c f demo_wf rd this w(3,1) w1 s1 q prod.collapse [symmetric]]
  have "find_pair ''p1'' (db w1) = Some (form_row ?r (clock ?w (ticks ?w)) ?p)" using w(2) by auto
  then show ?thesis unfolding rd snd_conv w1 by (simp add: form_row_def)
qed

text \<open>
  Edits of a pair that overlap lose one of them: when two edits read the pair before either of them writes,
  both pass the comparison, both are answered with 200, and of the first nothing is left.
\<close>

theorem overlapping_edits_lose_one:
  assumes "wc_Publisher cfg = Some (engine_publisher send)" "sql_ok w"
    and "handlePairUpdate_read pid r1 w = (Inr q, w1)" "handlePairUpdate_read pid r2 w1 = (Inr q, w2)"
    and "handlePairUpdate_write cfg pid r1 q w2 = (resp1, w3)" "handlePairUpdate_write cfg pid r2 q w3 = (resp2, w4)"
  shows "rs_Status resp1 = 200 \<and> rs_Status resp2 = 200 \<and>
    (\<exists>t. find_pair pid (db w4) = Some ((form_row r2 t q)\<lparr>p_Etag := p_Etag q + 2\<rparr>))"
proof -
  have rd: "find_pair pid (db v) = Some q \<and> db v' = db v \<and> sqlerr v' = sqlerr v" if "handlePairUpdate_read pid r v = (Inr q, v')" for r v v'
    using update_read_passed [OF that] by simp
  have w2: "sql_ok w2" "find_pair pid (db w2) = Some q" using rd [OF assms(3)] rd [OF assms(4)] assms(2) by (simp_all add: sql_ok_def)
  note f1 = engpub.update_write [OF assms(1) w2 assms(5)]
  then have f: "sql_ok w3" "find_pair pid (db w3) = Some (form_row r1 (clock w2 (ticks w2)) q)" by blast+
  note f2 = engpub.update_write [OF assms(1) f assms(6)]
  moreover have "form_row r2 t (form_row r1 u q) = (form_row r2 t q)\<lparr>p_Etag := p_Etag q + 2\<rparr>" for t u
    by (simp add: form_row_def)
  ultimately show ?thesis using f1 by auto
qed

definition demo_edit :: "string \<Rightarrow> httpreq" where
  "demo_edit name = demo_form ''POST'' ''/pairs/p1'' [(''etag'', ''1''), (''name'', name)]"

theorem overlapping_edits_lose_one_witness:
  "\<exists>t. find_pair ''p1'' (db (snd (handlePairUpdate_write demo_webcfg ''p1'' (demo_edit ''two'') (demo_pair ''a_to_b'')
     (snd (handlePairUpdate_write demo_webcfg ''p1'' (demo_edit ''one'') (demo_pair ''a_to_b'') ((demo_world ''a_to_b'' [])\<lparr>stmts := 2\<rparr>)))))) =
   Some ((form_row (demo_edit ''two'') t (demo_pair ''a_to_b''))\<lparr>p_Etag := 3\<rparr>)"
proof -
  let ?r1 = "demo_edit ''one''" and ?r2 = "demo_edit ''two''" and ?v = "demo_world ''a_to_b'' []" and ?p = "demo_pair ''a_to_b''"
  have e: "ParseInt (PostFormValue ?r1 ''etag'') = Inr (p_Etag ?p)" "ParseInt (PostFormValue ?r2 ''etag'') = Inr (p_Etag ?p)" by code_simp+
  have f: "rq_FormErr ?r1 = None" "rq_FormErr ?r2 = None" by (simp_all add: demo_edit_def demo_form_def)
  have c: "wc_Publisher demo_webcfg = Some (engine_publisher hub_Send)" by (simp add: demo_webcfg_def)
  have o: "sql_ok (?v\<lparr>stmts := n\<rparr>)" "find_pair ''p1'' (db (?v\<lparr>stmts := n\<rparr>)) = Some ?p" for n by (simp_all add: sql_ok_def demo_world_def find_pair_def demo_pair_def)
  have rd1: "handlePairUpdate_read ''p1'' ?r1 ?v = (Inr ?p, ?v\<lparr>stmts := 1\<rparr>)"
    using update_read [OF demo_world_simps(1) f(1) demo_world_simps(6)] e(1) by simp
  have rd2: "handlePairUpdate_read ''p1'' ?r2 (?v\<lparr>stmts := 1\<rparr>) = (Inr ?p, ?v\<lparr>stmts := 2\<rparr>)"
    using update_read [OF o(1) f(2) o(2), of 1] e(2) by simp
  obtain resp1 w3 where w3: "handlePairUpdate_write demo_webcfg ''p1'' ?r1 ?p (?v\<lparr>stmts := 2\<rparr>) = (resp1, w3)" by fastforce
  obtain resp2 w4 where w4: "handlePairUpdate_write demo_webcfg ''p1'' ?r2 ?p w3 = (resp2, w4)" by fastforce
  have "p_Etag ?p + 2 = 3" by (simp add: demo_pair_def)
  with overlapping_edits_lose_one [OF c demo_world_simps(1) rd1 rd2 w3 w4] show ?thesis unfolding w3 w4 snd_conv by metis
qed

text \<open>
  Deleting a pair in the administration pages tells no client: the request is answered with 200, the
  pair and its file states are gone, but nothing is sent, because the notification reads the pair after
  it was deleted; both clients keep their subscription and go on reporting changes.
\<close>

theorem pair_delete_sends_nothing:
  assumes "wc_Publisher cfg = Some (engine_publisher send)" "sql_ok w" "handlePairDelete cfg pid r w = (resp, w')"
  shows "rs_Status resp = 200 \<and> find_pair pid (db w') = None \<and>
    (\<forall>f \<in> set (file_state (db w')). fs_PairID f = pid \<longrightarrow> find_pair pid (db w) = None) \<and> net w' = net w"
proof -
  obtain w1 where d: "DeletePair pid w = (Inr (), w1)" "db w1 = delete_pairs_where (\<lambda>p. p_ID p = pid) (db w)"
    "sql_ok w1" "net w1 = net w"
    using assms(2) by (auto simp: DeletePair_def exec_ok delete_pair_sql_def sql_ok_def)
  let ?w2 = "auditPairAction ''pair_delete'' pid w1"
  have l: "logs_only w1 ?w2" by (rule auditPairAction_logs)
  have gone: "find_pair pid (db w1) = None"
    by (simp add: d(2) find_pair_def delete_pairs_where_def Let_def find_None_iff)
  have n: "sql_ok ?w2" "net ?w2 = net w" "find_pair pid (db ?w2) = None"
    using l gone d(3,4) logs_only_find(1) [OF l] by (simp_all add: logs_only_def sql_ok_def)
  have w': "resp = status_only 200" "w' = snd (PublishPairUnsubscribe send pid ?w2)"
    using assms(1,3) d(1) by (auto simp: handlePairDelete_def publishPairUnsubscribe_def engine_publisher_def)
  have "net w' = net ?w2"
    using n by (simp add: w' PublishPairUnsubscribe_def GetPair_ok scanPair_def scan_row_def)
  moreover have "file_state (db w') = file_state (db w1)"
    using l PublishPairUnsubscribe_db [of send pid ?w2] by (simp add: w' logs_only_def)
  then have "\<forall>f \<in> set (file_state (db w')). fs_PairID f = pid \<longrightarrow> find_pair pid (db w) = None"
    by (auto simp: d(2) delete_pairs_where_def Let_def find_pair_def find_None_iff)
  ultimately show ?thesis
    using n PublishPairUnsubscribe_db [of send pid ?w2] by (simp add: w' status_only_def)
qed

theorem pair_delete_sends_nothing_witness:
  "net (snd (handlePairDelete demo_webcfg ''p1'' (demo_form ''DELETE'' ''/pairs/p1'' []) (demo_world ''a_to_b'' []))) = demo_hub"
  using pair_delete_sends_nothing [OF _ _ prod.collapse [symmetric], of demo_webcfg hub_Send "demo_world ''a_to_b'' []" "''p1''"]
  by (simp add: demo_webcfg_def demo_world_def sql_ok_def)

section \<open>Clients\<close>

lemma handleClientDelete_ok:
  assumes "sql_ok w" "find_client cid (db w) = Some c" "handleClientDelete cid r w = (resp, w')"
  shows "if c_Status c = ''online'' then rs_Status resp = 409 \<and> db w' = db w
    else rs_Status resp = 200 \<and> clients (db w') = filter (\<lambda>x. c_ID x \<noteq> cid) (clients (db w)) \<and>
      sync_pairs (db w') = filter (\<lambda>p. p_ClientAID p \<noteq> cid \<and> p_ClientBID p \<noteq> cid) (sync_pairs (db w)) \<and>
      (\<forall>f \<in> set (file_state (db w')). fs_PairID f \<notin> p_ID ` {p \<in> set (sync_pairs (db w)). p_ClientAID p = cid \<or> p_ClientBID p = cid})"
proof -
  let ?w1 = "w\<lparr>stmts := Suc (stmts w)\<rparr>"
  have g: "GetClient cid w = (Inr c, ?w1)"
    using assms(1,2) by (simp add: GetClient_def query_row_def query_def exec_ok scanClient_def scan_row_def)
  obtain w2 where d: "DeleteClient cid ?w1 = (Inr (), w2)" "db w2 = snd (delete_client_sql cid (db w))"
    using assms(1) by (auto simp: DeleteClient_def exec_def delete_client_sql_def sql_ok_def)
  have a: "clients (db (audit_now k i dt v)) = clients (db v) \<and> sync_pairs (db (audit_now k i dt v)) = sync_pairs (db v) \<and>
      file_state (db (audit_now k i dt v)) = file_state (db v)" for k i dt and v :: "'a world"
    by (auto simp: audit_now_def AppendAuditLog_def db_exec split: prod.splits option.splits) (metis Now_simps(1) snd_conv)+
  show ?thesis
  proof (cases "c_Status c = ''online''")
    case True
    then show ?thesis using assms(3) by (auto simp: handleClientDelete_def g http_Error_def)
  next
    case False
    then have "resp = status_only 200" "w' = audit_now ''client_delete'' (Some cid) (Some (client_delete_detail c)) w2"
      using assms(3) by (auto simp: handleClientDelete_def g d(1))
    then show ?thesis using False a [of "''client_delete''" _ _ w2]
      by (auto simp: d(2) delete_client_sql_def delete_pairs_where_def Let_def status_only_def)
  qed
qed

text \<open>
  A client is deleted only while it is offline: a request for one that is online is answered with 409
  and changes nothing; otherwise the client goes, with every pair that names it and the states of their
  files, and the other clients and pairs stay.
\<close>

theorem client_delete_guarded:
  assumes "sql_ok w" "find_client cid (db w) = Some c" "handleClientDelete cid r w = (resp, w')"
  shows "if c_Status c = ''online'' then rs_Status resp = 409 \<and> db w' = db w
    else rs_Status resp = 200 \<and> clients (db w') = filter (\<lambda>x. c_ID x \<noteq> cid) (clients (db w)) \<and>
      sync_pairs (db w') = filter (\<lambda>p. p_ClientAID p \<noteq> cid \<and> p_ClientBID p \<noteq> cid) (sync_pairs (db w)) \<and>
      (\<forall>f \<in> set (file_state (db w')). fs_PairID f \<notin> p_ID ` {p \<in> set (sync_pairs (db w)). p_ClientAID p = cid \<or> p_ClientBID p = cid})"
  using assms by (rule handleClientDelete_ok)

theorem client_delete_guarded_witness:
  "rs_Status (fst (handleClientDelete ''ca'' (demo_form ''DELETE'' ''/clients/ca'' []) (demo_world ''a_to_b'' []))) = 409"
  using client_delete_guarded [OF _ _ prod.collapse [symmetric], of "demo_world ''a_to_b'' []" "''ca''" "demo_client ''ca''"]
  by (simp add: demo_world_def sql_ok_def find_client_def demo_client_def)

end
