(* ===== verification/Broadcast.thy ===== *)
theory Broadcast
  imports Prelude
begin

text \<open>
  The push channel of the web interface (\<open>internal/server/web/htmx.go\<close>): \<open>Broadcaster\<close> hands
  a fragment of HTML to every open page. A subscriber is a channel, named by a number, with its buffer of
  at most 16 fragments; \<open>bc_subs\<close> is the map of the subscribers and every critical section under
  \<open>b.mu\<close> is one operation. Publishing never waits: a fragment for a full buffer is dropped.
\<close>

section \<open>Operations\<close>

record Broadcaster =
  bc_subs :: "(nat \<times> string list) list"
  bc_next :: nat

definition NewBroadcaster :: Broadcaster where
  "NewBroadcaster = \<lparr>bc_subs = [], bc_next = 0\<rparr>"

definition bc_capacity :: nat where
  "bc_capacity = 16"

definition Subscribe :: "Broadcaster \<Rightarrow> nat \<times> Broadcaster" where
  "Subscribe b = (bc_next b, b\<lparr>bc_subs := bc_subs b @ [(bc_next b, [])], bc_next := Suc (bc_next b)\<rparr>)"

text \<open>The function \<open>Subscribe\<close> returns to take the subscription back.\<close>

definition cancel_sub :: "nat \<Rightarrow> Broadcaster \<Rightarrow> Broadcaster" where
  "cancel_sub ch b = b\<lparr>bc_subs := AList.delete ch (bc_subs b)\<rparr>"

text \<open>The \<open>select\<close> of \<open>Publish\<close> on one channel.\<close>

definition offer :: "string \<Rightarrow> string list \<Rightarrow> string list" where
  "offer html q = (if length q < bc_capacity then q @ [html] else q)"

definition bc_Publish :: "string \<Rightarrow> Broadcaster \<Rightarrow> Broadcaster" where
  "bc_Publish html b = b\<lparr>bc_subs := map (\<lambda>(ch, q). (ch, offer html q)) (bc_subs b)\<rparr>"

text \<open>\<open>PublishClientStatus\<close> publishes what the template \<open>client_row_with_tr\<close> gives, if it succeeds.\<close>

definition PublishClientStatus :: "string \<times> string option \<Rightarrow> Broadcaster \<Rightarrow> Broadcaster" where
  "PublishClientStatus rendered b = (case rendered of
       (html, None) \<Rightarrow> bc_Publish html b
     | (_, Some _) \<Rightarrow> b)"

text \<open>One round of the loop of \<open>adminWSHandler\<close> on channel \<open>ch\<close>: the oldest fragment is taken.\<close>

definition admin_receive :: "nat \<Rightarrow> Broadcaster \<Rightarrow> string option \<times> Broadcaster" where
  "admin_receive ch b = (case map_of (bc_subs b) ch of
       Some (m # q) \<Rightarrow> (Some m, b\<lparr>bc_subs := AList.update ch q (bc_subs b)\<rparr>)
     | _ \<Rightarrow> (None, b))"

section \<open>What a subscriber sees\<close>

datatype bc_op = BcPublish string | BcSubscribe | BcCancel nat | BcReceive nat

fun bc_step :: "bc_op \<Rightarrow> Broadcaster \<Rightarrow> Broadcaster" where
  "bc_step (BcPublish m) b = bc_Publish m b"
| "bc_step BcSubscribe b = snd (Subscribe b)"
| "bc_step (BcCancel ch) b = cancel_sub ch b"
| "bc_step (BcReceive ch) b = snd (admin_receive ch b)"

definition bc_run :: "bc_op list \<Rightarrow> Broadcaster \<Rightarrow> Broadcaster" where
  "bc_run = fold bc_step"

definition bc_ok :: "Broadcaster \<Rightarrow> bool" where
  "bc_ok b \<longleftrightarrow> distinct (map fst (bc_subs b)) \<and>
     list_all (\<lambda>(ch, q). ch < bc_next b \<and> length q \<le> bc_capacity) (bc_subs b)"

text \<open>The fragments published in a run, and those the subscriber \<open>ch\<close> takes out.\<close>

definition published :: "bc_op list \<Rightarrow> string list" where
  "published ops = concat (map (\<lambda>op. case op of BcPublish m \<Rightarrow> [m] | _ \<Rightarrow> []) ops)"

fun received :: "nat \<Rightarrow> bc_op list \<Rightarrow> Broadcaster \<Rightarrow> string list" where
  "received ch [] b = []"
| "received ch (op # ops) b =
     (case op of BcReceive c \<Rightarrow> if c = ch then (case fst (admin_receive c b) of None \<Rightarrow> [] | Some m \<Rightarrow> [m]) else [] | _ \<Rightarrow> [])
     @ received ch ops (bc_step op b)"

definition queue_of :: "nat \<Rightarrow> Broadcaster \<Rightarrow> string list" where
  "queue_of ch b = (case map_of (bc_subs b) ch of None \<Rightarrow> [] | Some q \<Rightarrow> q)"

lemma bc_simps [simp]:
  "bc_subs (bc_Publish m b) = map (\<lambda>(ch, q). (ch, offer m q)) (bc_subs b)" "bc_next (bc_Publish m b) = bc_next b"
  "bc_subs (cancel_sub ch b) = AList.delete ch (bc_subs b)" "bc_next (cancel_sub ch b) = bc_next b"
  "bc_subs (snd (Subscribe b)) = bc_subs b @ [(bc_next b, [])]" "bc_next (snd (Subscribe b)) = Suc (bc_next b)"
  "bc_next (snd (admin_receive ch b)) = bc_next b"
  by (simp_all add: bc_Publish_def cancel_sub_def Subscribe_def admin_receive_def split: option.splits list.splits)

lemma subs_receive:
  "bc_subs (snd (admin_receive ch b)) =
     (case queue_of ch b of [] \<Rightarrow> bc_subs b | m # q \<Rightarrow> AList.update ch q (bc_subs b))"
  by (simp add: admin_receive_def queue_of_def split: option.splits list.splits)

lemma fst_receive: "fst (admin_receive ch b) = (case queue_of ch b of [] \<Rightarrow> None | m # q \<Rightarrow> Some m)"
  by (simp add: admin_receive_def queue_of_def split: option.splits list.splits)

lemma queue_bounded: "bc_ok b \<Longrightarrow> length (queue_of ch b) \<le> bc_capacity"
  by (auto simp: bc_ok_def queue_of_def list_all_iff split: option.splits dest!: map_of_SomeD)

lemma bc_ok_step: "bc_ok b \<Longrightarrow> bc_ok (bc_step op b)"
proof (cases op)
  case (BcPublish m)
  assume "bc_ok b"
  then show ?thesis unfolding BcPublish
    by (auto simp: bc_ok_def list_all_iff offer_def comp_def case_prod_beta)
next
  case BcSubscribe
  assume "bc_ok b"
  then show ?thesis unfolding BcSubscribe by (fastforce simp: bc_ok_def list_all_iff)
next
  case (BcCancel ch)
  assume "bc_ok b"
  then show ?thesis unfolding BcCancel
    by (auto simp: bc_ok_def intro: distinct_delete list_all_delete)
next
  case (BcReceive ch)
  assume ok: "bc_ok b"
  show ?thesis
  proof (cases "queue_of ch b")
    case Nil
    then show ?thesis using ok unfolding BcReceive by (simp add: bc_ok_def subs_receive)
  next
    case (Cons m q)
    then have "ch < bc_next b" "length q \<le> bc_capacity"
      using ok queue_bounded [OF ok, of ch]
      by (auto simp: queue_of_def bc_ok_def list_all_iff split: option.splits dest!: map_of_SomeD)
    then show ?thesis using ok Cons unfolding BcReceive
      by (auto simp: bc_ok_def subs_receive intro: distinct_update list_all_update)
  qed
qed

lemma map_of_offer: "map_of (map (\<lambda>(ch, q). (ch, offer m q)) xs) ch = map_option (offer m) (map_of xs ch)"
  by (induction xs) auto

text \<open>How one step changes the buffer of a subscriber that is not taken back.\<close>

lemma map_of_step:
  assumes "bc_ok b" "map_of (bc_subs b) ch = Some q" "op \<noteq> BcCancel ch"
  shows "map_of (bc_subs (bc_step op b)) ch = Some (case op of
     BcPublish m \<Rightarrow> offer m q | BcReceive c \<Rightarrow> if c = ch then tl q else q | _ \<Rightarrow> q)"
proof (cases op)
  case (BcReceive c)
  have "queue_of ch b = q" using assms(2) by (simp add: queue_of_def)
  then show ?thesis using assms(2) unfolding BcReceive
    by (auto simp: subs_receive update_conv' split: list.splits)
next
  case BcSubscribe
  then show ?thesis using assms(2) by (simp add: map_add_def)
qed (use assms in \<open>auto simp: map_of_offer delete_conv'\<close>)

lemma broadcast_order:
  assumes "bc_ok b" "map_of (bc_subs b) ch = Some q" "BcCancel ch \<notin> set ops"
  shows "subseq (received ch ops b @ queue_of ch (bc_run ops b)) (q @ published ops) \<and>
    (length q + length (published ops) \<le> bc_capacity \<longrightarrow> received ch ops b @ queue_of ch (bc_run ops b) = q @ published ops)"
  using assms
proof (induction ops arbitrary: b q)
  case Nil
  then show ?case by (simp add: bc_run_def published_def queue_of_def)
next
  case (Cons op ops)
  have q: "queue_of ch b = q" using Cons.prems(2) by (simp add: queue_of_def)
  have run: "bc_run (op # ops) b = bc_run ops (bc_step op b)" for op by (simp add: bc_run_def)
  have "op \<noteq> BcCancel ch" using Cons.prems(3) by auto
  note m = map_of_step [OF Cons.prems(1,2) this]
  have IH: "subseq (received ch ops (bc_step op b) @ queue_of ch (bc_run ops (bc_step op b))) (q' @ published ops) \<and>
    (length q' + length (published ops) \<le> bc_capacity \<longrightarrow>
       received ch ops (bc_step op b) @ queue_of ch (bc_run ops (bc_step op b)) = q' @ published ops)"
    if "map_of (bc_subs (bc_step op b)) ch = Some q'" for q'
    using Cons.IH [OF bc_ok_step [OF Cons.prems(1)] that] Cons.prems(3) by auto
  show ?case
  proof (cases op)
    case (BcPublish x)
    have p: "published (BcPublish x # ops) = x # published ops" by (simp add: published_def)
    show ?thesis
    proof (cases "length q < bc_capacity")
      case True
      then show ?thesis using IH [of "q @ [x]"] m by (simp add: BcPublish offer_def run p)
    next
      case False
      have "subseq (q @ published ops) (q @ x # published ops)" by (intro list_emb_append_mono list_emb_Cons) simp_all
      then show ?thesis using IH [of q] m False
        by (auto simp: BcPublish offer_def run p intro: subseq_order.trans)
    qed
  next
    case (BcReceive c)
    then show ?thesis using IH [of "if c = ch then tl q else q"] m q
      by (cases q) (auto simp: run published_def fst_receive)
  qed (use IH [of q] m in \<open>auto simp: run published_def\<close>)
qed

text \<open>
  A page sees the fragments in the order they were published: what a subscriber has received and still
  has in its buffer is a subsequence of what was published since, whatever the other subscribers do, and
  all of it when no more than the 16 places of the buffer were needed.
\<close>

theorem broadcast_in_order:
  assumes "bc_ok b" "Subscribe b = (ch, b1)" "BcCancel ch \<notin> set ops"
  shows "subseq (received ch ops b1 @ queue_of ch (bc_run ops b1)) (published ops) \<and>
    (length (published ops) \<le> 16 \<longrightarrow> received ch ops b1 @ queue_of ch (bc_run ops b1) = published ops)"
proof -
  have b1: "b1 = bc_step BcSubscribe b" "ch = bc_next b" using assms(2) by (auto simp: Subscribe_def)
  have "bc_next b \<notin> fst ` set (bc_subs b)" using assms(1) by (fastforce simp: bc_ok_def list_all_iff)
  then have "map_of (bc_subs b1) ch = Some []"
    by (simp add: b1 map_add_def map_of_eq_None_iff [THEN iffD2])
  from broadcast_order [OF bc_ok_step [OF assms(1)], of BcSubscribe, folded b1(1), OF this assms(3)]
  show ?thesis by (simp add: bc_capacity_def)
qed

theorem broadcast_in_order_witness:
  "subseq (received 0 [BcPublish ''on'', BcReceive 0, BcPublish ''off''] (snd (Subscribe NewBroadcaster)) @ [''off'']) [''on'', ''off'']"
  using broadcast_in_order [of NewBroadcaster, OF _ prod.collapse [symmetric], of "[BcPublish ''on'', BcReceive 0, BcPublish ''off'']"]
  by (simp add: NewBroadcaster_def bc_ok_def Subscribe_def published_def bc_run_def bc_Publish_def offer_def
      bc_capacity_def admin_receive_def queue_of_def)

end
