(* ===== verification/BlobGC.thy ===== *)
theory BlobGC
  imports Blobstore
begin

text \<open>
  What garbage collection (\<open>internal/server/blobstore/gc.go\<close>) may delete: it is a property of the
  blob store and the database together. The operations are in \<open>Blobstore\<close>.
\<close>

section \<open>The collector\<close>

lemma blob_path_inject [simp]: "blob_path a = blob_path b \<longleftrightarrow> a = b"
  by (auto simp: blob_path_def)

lemma blob_Delete_other:
  assumes "blob_Delete sha w = (r, w')" "h \<noteq> sha"
  shows "blobs w' (blob_path h) = blobs w (blob_path h)"
  using blob_Delete_blobs [OF assms(1)] assms(2) by auto

text \<open>A blob stays if every entry of its name is referenced or young.\<close>

lemma gc_loop_keeps:
  "gc_loop ctx k refs cutoff bs n w = (r, w') \<Longrightarrow>
   (\<And>b. b \<in> set bs \<Longrightarrow> bi_SHA b = h \<Longrightarrow> h \<in> refs \<or> bi_CreatedAt b > cutoff) \<Longrightarrow>
   blobs w' (blob_path h) = blobs w (blob_path h)"
proof (induction ctx k refs cutoff bs n w rule: gc_loop.induct)
  case (2 ctx k refs cutoff b bs n w)
  have keep: "\<And>x. x \<in> set bs \<Longrightarrow> bi_SHA x = h \<Longrightarrow> h \<in> refs \<or> bi_CreatedAt x > cutoff" using 2(6) by simp
  show ?case
  proof (cases "ctx k = None \<and> bi_SHA b \<notin> refs \<and> \<not> bi_CreatedAt b > cutoff")
    case True
    then have neq: "h \<noteq> bi_SHA b" using 2(6) [of b] by auto
    obtain r1 w1 where d: "blob_Delete (bi_SHA b) w = (r1, w1)" by fastforce
    then show ?thesis using 2 True keep blob_Delete_other [OF d neq] by (cases r1) auto
  next
    case False
    then show ?thesis using 2 keep by (auto split: option.splits if_splits)
  qed
qed simp

text \<open>On a working file system the entries that are neither referenced nor young are deleted.\<close>

lemma blob_Delete_ok:
  assumes "os_ok w" "validateSHA sha = Inr ()"
  shows "os_ok (snd (blob_Delete sha w)) \<and> blobs (snd (blob_Delete sha w)) = (blobs w)(blob_path sha := None)"
  using assms partial_simps(2) [of sha]
  by (auto simp: blob_Delete_def os_Remove_def os_call_ok blobs_def fun_eq_iff delete_conv' split: option.splits)

lemma gc_loop_deletes:
  "gc_loop (\<lambda>_. None) k refs cutoff bs n w = (r, w') \<Longrightarrow> os_ok w \<Longrightarrow> \<forall>b \<in> set bs. validateSHA (bi_SHA b) = Inr () \<Longrightarrow>
   b \<in> set bs \<Longrightarrow> bi_SHA b \<notin> refs \<Longrightarrow> \<not> bi_CreatedAt b > cutoff \<Longrightarrow> blobs w' (blob_path (bi_SHA b)) = None"
proof (induction bs arbitrary: k n w)
  case (Cons x xs)
  obtain r1 w1 where d: "blob_Delete (bi_SHA x) w = (r1, w1)" by fastforce
  have 1: "os_ok w1" "blobs w1 = (blobs w)(blob_path (bi_SHA x) := None)"
    using blob_Delete_ok [OF Cons.prems(2), of "bi_SHA x"] Cons.prems(3) d by simp_all
  show ?case
  proof (cases "bi_SHA x \<in> refs \<or> bi_CreatedAt x > cutoff")
    case True
    then have "b \<in> set xs" using Cons.prems(4-6) by auto
    moreover have "gc_loop (\<lambda>_. None) (Suc k) refs cutoff xs n w = (r, w')"
      using True Cons.prems(1) by (auto split: if_splits)
    ultimately show ?thesis using Cons.IH [of "Suc k" n w] Cons.prems by simp
  next
    case False
    then obtain n' where g: "gc_loop (\<lambda>_. None) (Suc k) refs cutoff xs n' w1 = (r, w')"
      using Cons.prems(1) d by (cases r1) auto
    show ?thesis
    proof (cases "b \<in> set xs")
      case True
      then show ?thesis using Cons.IH [OF g 1(1)] Cons.prems by simp
    next
      case False
      then have "b = x" using Cons.prems(4) by simp
      then show ?thesis using gc_loop_blobs [OF g] 1(2) by (metis domIff fun_upd_same map_le_implies_dom_le subsetD)
    qed
  qed
qed simp

lemma blob_List_files: "blob_List w = (r, w') \<Longrightarrow> files w' = files w"
  by (auto simp: blob_List_def split: prod.splits sum.splits dest!: os_call_files)

section \<open>The references\<close>

lemma ListFileStates_Inr:
  assumes "ListFileStates pid side w = (Inr fs, w')"
  shows "fs = file_states_of pid side (db w) \<and> db w' = db w"
proof -
  have "query (file_states_of pid side) w = (Inr fs, w')" using assms by (simp add: ListFileStates_def)
  then show ?thesis by (auto simp: query_def exec_def split: option.splits)
qed

lemma collect_pairs_complete:
  assumes "collect_pairs ps acc w = (Inr refs, w')"
  shows "acc \<subseteq> refs \<and> (\<forall>p \<in> set ps. \<forall>side \<in> {''a'', ''b''}. state_shas (file_states_of (p_ID p) side (db w)) \<subseteq> refs)"
  using assms
proof (induction ps arbitrary: acc w)
  case (Cons p ps)
  obtain as w1 where a: "ListFileStates (p_ID p) ''a'' w = (Inr as, w1)"
    and "collect_pairs (p # ps) acc w = (case ListFileStates (p_ID p) ''b'' w1 of
        (Inl e, w2) \<Rightarrow> (Inl e, w2) | (Inr bs, w2) \<Rightarrow> collect_pairs ps (acc \<union> state_shas as \<union> state_shas bs) w2)"
    using Cons.prems by (auto split: prod.splits sum.splits)
  then obtain bs w2 where b: "ListFileStates (p_ID p) ''b'' w1 = (Inr bs, w2)"
    "collect_pairs ps (acc \<union> state_shas as \<union> state_shas bs) w2 = (Inr refs, w')"
    using Cons.prems by (auto split: prod.splits sum.splits)
  note d = ListFileStates_Inr [OF a] ListFileStates_Inr [OF b(1)]
  from Cons.IH [OF b(2)] show ?case using d by auto
qed simp

lemma collectReferencedSHAs_complete:
  assumes "collectReferencedSHAs w = (Inr refs, w')" "wf_db (db w)"
    and "f \<in> set (file_state (db w))" "fs_Side f = ''a'' \<or> fs_Side f = ''b''" "fs_SHA256 f = Some h" "h \<noteq> []"
  shows "h \<in> refs"
proof -
  obtain ps w1 where l: "ListPairs w = (Inr ps, w1)" "collect_pairs ps {} w1 = (Inr refs, w')"
    using assms(1) by (auto simp: collectReferencedSHAs_def split: prod.splits sum.splits)
  have "query (\<lambda>d. sort_key p_CreatedAt (sync_pairs d)) w = (Inr ps, w1)" using l(1) by (simp add: ListPairs_def)
  then have ps: "set ps = set (sync_pairs (db w))" "db w1 = db w"
    by (auto simp: query_def exec_def split: option.splits)
  obtain p where p: "p \<in> set ps" "p_ID p = fs_PairID f"
    using assms(2,3) ps(1) by (auto simp: wf_db_def refs_ok_def pair_ids_def)
  have "h \<in> state_shas (file_states_of (p_ID p) (fs_Side f) (db w))"
    using assms(3,5,6) p(2) by (force simp: mem_state_shas file_states_of_def)
  then show ?thesis using collect_pairs_complete [OF l(2)] p(1) assms(4) ps(2) by (auto dest!: bspec [OF _ p(1)])
qed

section \<open>Properties\<close>

lemma GC_keeps_referenced:
  assumes "GC ctx refs age b = (r, b')" "h \<in> refs"
  shows "blobs b' (blob_path h) = blobs b (blob_path h)"
proof -
  obtain x b1 where l: "blob_List (b\<lparr>bticks := Suc (bticks b)\<rparr>) = (x, b1)" by fastforce
  then have "blobs b1 = blobs b" using blobs_cong [OF blob_List_files [OF l]] by (simp add: blobs_def fun_eq_iff)
  then show ?thesis using assms(1) l assms(2)
    by (auto simp: GC_def Let_def split: sum.splits dest!: gc_loop_keeps [where h = h])
qed

text \<open>
  C24. Garbage collection keeps what is in use: whatever statements and calls fail and whenever the
  context ends, a tick of the collector keeps the blob of every hash that a file state of side A
  or B of a consistent database refers to when the tick begins.
\<close>

theorem gc_keeps_referenced:
  assumes "gc_tick ctx age w b = (w', b')" "wf_db (db w)"
    and "f \<in> set (file_state (db w))" "fs_Side f = ''a'' \<or> fs_Side f = ''b''" "fs_SHA256 f = Some h" "h \<noteq> []"
  shows "blobs b' (blob_path h) = blobs b (blob_path h)"
proof (cases "fst (collectReferencedSHAs w)")
  case (Inl e)
  then show ?thesis using assms(1) by (auto simp: gc_tick_def split: prod.splits)
next
  case (Inr refs)
  then obtain w1 where c: "collectReferencedSHAs w = (Inr refs, w1)" by (cases "collectReferencedSHAs w") auto
  then have "h \<in> refs" using collectReferencedSHAs_complete assms(2-6) by blast
  then show ?thesis using assms(1) c GC_keeps_referenced [OF prod.collapse [symmetric]] by (auto simp: gc_tick_def)
qed

text \<open>A store with a referenced blob and one that nothing refers to, both old.\<close>

definition demo_gc_db :: database where
  "demo_gc_db = sample_db\<lparr>file_state := [sample_state (toy_sha 3) 5]\<rparr>"

definition demo_gc_store :: bstore where
  "demo_gc_store = empty_store\<lparr>files := [(blob_path (toy_sha 3), \<lparr>f_data = [1, 2, 3], f_mtime = -9\<rparr>),
     (blob_path (toy_sha 4), \<lparr>f_data = [1, 2, 3, 4], f_mtime = -9\<rparr>)]\<rparr>"

definition demo_gc_after :: bstore where
  "demo_gc_after = snd (gc_tick (\<lambda>_. None) 5 (sample_store demo_gc_db) demo_gc_store)"

theorem gc_keeps_referenced_witness:
  "blobs demo_gc_after (blob_path (toy_sha 3)) = Some \<lparr>f_data = [1, 2, 3], f_mtime = -9\<rparr> \<and>
   blobs demo_gc_store (blob_path (toy_sha 4)) \<noteq> None \<and> blobs demo_gc_after (blob_path (toy_sha 4)) = None"
proof -
  have "wf_db (db (sample_store demo_gc_db))"
    by (simp add: demo_gc_db_def sample_defs wf_db_def keys_ok_def refs_ok_def client_ids_def pair_ids_def)
  moreover have "sample_state (toy_sha 3) 5 \<in> set (file_state (db (sample_store demo_gc_db)))" by (simp add: demo_gc_db_def sample_store_def)
  moreover have "toy_sha 3 \<noteq> []" by code_simp
  ultimately have "blobs demo_gc_after (blob_path (toy_sha 3)) = blobs demo_gc_store (blob_path (toy_sha 3))"
    using gc_keeps_referenced [OF prod.collapse [symmetric], of "sample_store demo_gc_db" "sample_state (toy_sha 3) 5" "toy_sha 3"]
    by (simp add: demo_gc_after_def sample_state_def)
  moreover have "blobs demo_gc_store (blob_path (toy_sha 3)) = Some \<lparr>f_data = [1, 2, 3], f_mtime = -9\<rparr>" by code_simp
  moreover have "\<not> Option.is_none (blobs demo_gc_store (blob_path (toy_sha 4)))" "Option.is_none (blobs demo_gc_after (blob_path (toy_sha 4)))"
    by code_simp+
  ultimately show ?thesis by (simp add: Option.is_none_def)
qed

text \<open>
  C25. Garbage collection is exact: on a working file system with only valid names, one run removes
  precisely the blobs whose hash is not referenced and whose file is not younger than the limit.
\<close>

theorem GC_exact:
  assumes "os_ok b" "\<forall>p f. blobs b p = Some f \<longrightarrow> validateSHA (snd p) = Inr () \<and> p = blob_path (snd p)"
    and "distinct (map fst (files b))" "GC (\<lambda>_. None) refs age b = (r, b')" "blobs b (blob_path h) = Some f"
  shows "blobs b' (blob_path h) = (if h \<in> refs \<or> f_mtime f > bclock b (bticks b) - age then Some f else None)"
proof -
  let ?b0 = "b\<lparr>bticks := Suc (bticks b)\<rparr>" and ?cut = "bclock b (bticks b) - age"
  define bs where "bs = map (\<lambda>(p, f). \<lparr>bi_SHA = snd p, bi_Size = int (length (f_data f)), bi_CreatedAt = f_mtime f\<rparr>)
          (filter (\<lambda>(p, f). \<not> HasSuffix (snd p) ''.partial'') (sort_key fst (files b)))"
  define b1 where "b1 = ?b0\<lparr>oscalls := Suc (oscalls b)\<rparr>"
  have ok: "os_ok ?b0" "os_ok b1" using assms(1) by (simp_all add: os_ok_def b1_def)
  have "blob_List ?b0 = (Inr bs, b1)" using ok(1) by (simp add: blob_List_def os_call_ok bs_def b1_def)
  then have g: "gc_loop (\<lambda>_. None) 0 refs ?cut bs 0 b1 = (r, b')"
    using assms(4) by (simp add: GC_def Let_def)
  have same: "blobs b1 = blobs b" by (simp add: b1_def blobs_def fun_eq_iff)
  have entry: "\<exists>p g. blobs b p = Some g \<and> bi_SHA x = snd p \<and> bi_CreatedAt x = f_mtime g" if "x \<in> set bs" for x
    using that assms(3) by (auto simp: bs_def blobs_def is_partial_def) (metis map_of_is_SomeI snd_conv)
  have mine: "\<exists>x \<in> set bs. bi_SHA x = h \<and> bi_CreatedAt x = f_mtime f"
    using assms(5) by (auto simp: bs_def blobs_def is_partial_def blob_path_def split: if_splits dest!: map_of_SomeD)
  have uniq: "bi_CreatedAt x = f_mtime f" if x: "x \<in> set bs" "bi_SHA x = h" for x
  proof -
    obtain p g where g: "blobs b p = Some g" "snd p = h" "bi_CreatedAt x = f_mtime g"
      using entry [OF x(1)] x(2) by metis
    have "p = blob_path (snd p)" using assms(2) g(1) by (elim allE [of _ p]) (drule spec, erule (1) impE, erule conjunct2)
    then have "p = blob_path h" unfolding g(2) .
    then show ?thesis using assms(5) g(1,3) by simp
  qed
  have valid: "\<forall>x \<in> set bs. validateSHA (bi_SHA x) = Inr ()" using entry assms(2) by metis
  show ?thesis
  proof (cases "h \<in> refs \<or> f_mtime f > ?cut")
    case True
    then have "blobs b' (blob_path h) = blobs b1 (blob_path h)" using uniq by (intro gc_loop_keeps [OF g]) auto
    then show ?thesis using True same assms(5) by simp
  next
    case False
    obtain x where "x \<in> set bs" "bi_SHA x = h" "bi_CreatedAt x = f_mtime f" using mine by blast
    then show ?thesis using gc_loop_deletes [OF g ok(2) valid, of x] False by simp
  qed
qed

theorem GC_exact_witness:
  "blobs (snd (GC (\<lambda>_. None) {} 5 (empty_store\<lparr>files := [(blob_path (toy_sha 3), \<lparr>f_data = [], f_mtime = -9\<rparr>)]\<rparr>))) (blob_path (toy_sha 3)) = None"
proof -
  let ?b = "empty_store\<lparr>files := [(blob_path (toy_sha 3), \<lparr>f_data = [], f_mtime = -9\<rparr>)]\<rparr>"
  have "os_ok ?b" "distinct (map fst (files ?b))" by (simp_all add: os_ok_def empty_store_def)
  moreover have "\<forall>p f. blobs ?b p = Some f \<longrightarrow> validateSHA (snd p) = Inr () \<and> p = blob_path (snd p)"
    using toy_valid(1) by (auto simp: blobs_def blob_path_def empty_store_def split: if_splits)
  moreover have "blobs ?b (blob_path (toy_sha 3)) = Some \<lparr>f_data = [], f_mtime = -9\<rparr>"
    using partial_simps(2) [OF toy_valid(1)] by (simp add: blobs_def)
  ultimately show ?thesis
    using GC_exact [OF _ _ _ prod.collapse [symmetric], of ?b "toy_sha 3" "\<lparr>f_data = [], f_mtime = -9\<rparr>" "{}" 5]
    by (simp add: empty_store_def)
qed

end
