(* ===== verification/ServerApp.thy ===== *)
theory ServerApp
  imports WsHandler Admin Broadcast BlobGC
begin

text \<open>
  The server program: how \<open>internal/server/app/app.go\<close> wires the store, the engine, the hub, the blob
  store and the pages together, and the routes of \<open>internal/server/http/router.go\<close>. The engine sends
  through the hub (\<open>hubSenderProxy\<close>), messages of the clients go to the engine, and two callbacks run
  when a client connects and disconnects. Callbacks and the comparison of a client's files are goroutines,
  so each is a step of its own; \<open>others\<close> is what happens in the hub while one of them waits.
\<close>

section \<open>Settings\<close>

definition perClientQuotaBytes :: int where
  "perClientQuotaBytes = 10 * 1024 * 1024 * 1024"

definition parseInt64Setting :: "(string \<times> string) list \<Rightarrow> string \<Rightarrow> int \<Rightarrow> int result" where
  "parseInt64Setting m key fallback = (case map_of m key of
       None \<Rightarrow> Inr fallback
     | Some v \<Rightarrow> (case ParseInt v of
         Inl e \<Rightarrow> Inl (Wrap (''invalid setting '' @ key @ ''='' @ Sprintf_q v) e)
       | Inr n \<Rightarrow> Inr n))"

definition defaultBlobGCAge :: int where
  "defaultBlobGCAge = 7 * 24 * 3600 * 1000000000"

text \<open>\<open>time.Duration(n) * time.Second\<close> is a product of two \<open>int64\<close>.\<close>

definition blobGCMaxAge :: "'z st_scheme \<Rightarrow> int \<times> 'z st_scheme" where
  "blobGCMaxAge w = (case LoadAllSettings w of
       (Inl _, w1) \<Rightarrow> (defaultBlobGCAge, w1)
     | (Inr m, w1) \<Rightarrow> (case map_of m ''blob_gc_age_seconds'' of
         None \<Rightarrow> (defaultBlobGCAge, w1)
       | Some v \<Rightarrow> (case ParseInt v of
           Inl _ \<Rightarrow> (defaultBlobGCAge, w1)
         | Inr n \<Rightarrow> (wrap64 (n * 1000000000), w1))))"

text \<open>\<open>RunGCLoop\<close> asks for the age on every tick.\<close>

definition srv_gc :: "(nat \<Rightarrow> err option) \<Rightarrow> 'z st_scheme \<Rightarrow> bstore \<Rightarrow> 'z st_scheme \<times> bstore" where
  "srv_gc ctx w b = (case blobGCMaxAge w of (age, w1) \<Rightarrow> gc_tick ctx age w1 b)"

section \<open>Messages of the clients\<close>

definition srv_handle :: "string \<Rightarrow> Envelope \<Rightarrow> hub world \<Rightarrow> unit result \<times> hub world" where
  "srv_handle clientID env w =
     (if Type env = TypeFileChangedEvent then
        (case dec_FileChangedEvent (Payload env) of
           Inl e \<Rightarrow> (Inl (Wrap ''unmarshal file_changed_event'' e), w)
         | Inr ev \<Rightarrow> HandleFileChanged hub_Send clientID ev w)
      else if Type env = TypeFileSyncAck then
        (case dec_FileSyncAck (Payload env) of
           Inl e \<Rightarrow> (Inl (Wrap ''unmarshal file_sync_ack'' e), w)
         | Inr ack \<Rightarrow> HandleFileSyncAck clientID ack w)
      else (Inr (), w))"

text \<open>One message on the connection of a client, routed by its read loop.\<close>

definition srv_message :: "string \<Rightarrow> Envelope \<Rightarrow> hub world \<Rightarrow> unit result \<times> hub world" where
  "srv_message clientID env w = (case readLoop_route env (net w) of
       (Skipped, h) \<Rightarrow> (Inr (), w\<lparr>net := h\<rparr>)
     | (Resolved, h) \<Rightarrow> (Inr (), w\<lparr>net := h\<rparr>)
     | (ToHandler m, h) \<Rightarrow> srv_handle clientID m (w\<lparr>net := h\<rparr>))"

section \<open>Callbacks\<close>

definition NotifyClientChange :: "hub webcfg \<Rightarrow> Client \<Rightarrow> Broadcaster \<Rightarrow> Broadcaster" where
  "NotifyClientChange cfg c b = (case wc_adminWS cfg of
       None \<Rightarrow> b
     | Some _ \<Rightarrow> PublishClientStatus (wc_tmpl cfg (ClientRowWithTr (toClientView cfg c))) b)"

definition notify_client :: "hub webcfg \<Rightarrow> string \<Rightarrow> hub world \<times> Broadcaster \<Rightarrow> hub world \<times> Broadcaster" where
  "notify_client cfg clientID s = (case GetClient clientID (fst s) of
       (Inr c, w1) \<Rightarrow> (w1, NotifyClientChange cfg c (snd s))
     | (Inl _, w1) \<Rightarrow> (w1, snd s))"

definition srv_onConnect :: "hub webcfg \<Rightarrow> string \<Rightarrow> hub world \<times> Broadcaster \<Rightarrow> hub world \<times> Broadcaster" where
  "srv_onConnect cfg clientID s =
     notify_client cfg clientID (snd (PublishSubscriptions hub_Send clientID (fst s)), snd s)"

definition pair_side :: "string \<Rightarrow> SyncPair \<Rightarrow> string" where
  "pair_side clientID p = (if p_ClientBID p = clientID then ''b'' else ''a'')"

text \<open>The goroutine of \<open>onConnect\<close>; \<open>others pid\<close> and \<open>newID pid\<close> belong to the request for pair \<open>pid\<close>.\<close>

fun resync_loop ::
  "(string \<Rightarrow> nat \<Rightarrow> hub \<Rightarrow> wake \<times> hub) \<Rightarrow> (string \<Rightarrow> string) \<Rightarrow> string \<Rightarrow> SyncPair list \<Rightarrow> hub world \<Rightarrow> hub world" where
  "resync_loop others newID clientID [] w = w"
| "resync_loop others newID clientID (p # ps) w =
     (if \<not> p_Enabled p then resync_loop others newID clientID ps w
      else resync_loop others newID clientID ps
        (snd (RequestSnapshotAndDiff hub_Send (hub_SendAndWait (others (p_ID p))) (newID (p_ID p)) clientID (p_ID p)
           (pair_side clientID p) w)))"

definition srv_resync ::
  "(string \<Rightarrow> nat \<Rightarrow> hub \<Rightarrow> wake \<times> hub) \<Rightarrow> (string \<Rightarrow> string) \<Rightarrow> string \<Rightarrow> hub world \<Rightarrow> hub world" where
  "srv_resync others newID clientID w = (case ListPairsForClient clientID w of
       (Inl _, w1) \<Rightarrow> w1
     | (Inr ps, w1) \<Rightarrow> resync_loop others newID clientID ps w1)"

definition srv_onDisconnect :: "hub webcfg \<Rightarrow> string \<Rightarrow> hub world \<times> Broadcaster \<Rightarrow> hub world \<times> Broadcaster" where
  "srv_onDisconnect cfg clientID s = (case Now (fst s) of (t, w1) \<Rightarrow>
     notify_client cfg clientID (snd (UpdateClientStatus clientID ''offline'' t w1), snd s))"

section \<open>Routes\<close>

text \<open>
  What the WebSocket library adds: the outcome of the upgrade, the first frame, whether the response was
  written, and its answer to the HTTP request.
\<close>

record wsio =
  io_upgraded :: bool
  io_frame :: ws_frame
  io_written :: "unit result"
  io_answer :: "ws_result \<Rightarrow> httpresp"

record srvconfig =
  sc_PSK :: string
  sc_AdminUser :: string
  sc_AdminPassword :: string
  sc_Limits :: BlobsHandler
  sc_Web :: "hub webcfg"
  sc_Hash :: "byte list \<Rightarrow> byte list"

type_synonym srvstate = "hub world \<times> bstore"

definition ws_http :: "wsio \<Rightarrow> srvstate handler" where
  "ws_http io r s = (case ws_ServeHTTP (io_upgraded io) (io_frame io) (io_written io) (fst s) of
       (res, w1) \<Rightarrow> (io_answer io res, (w1, snd s)))"

definition on_world :: "(httpreq \<Rightarrow> hub world \<Rightarrow> httpresp \<times> hub world) \<Rightarrow> srvstate handler" where
  "on_world h r s = (case h r (fst s) of (resp, w1) \<Rightarrow> (resp, (w1, snd s)))"

definition NewRouter ::
  "srvconfig \<Rightarrow> wsio \<Rightarrow> (nat \<Rightarrow> hub \<Rightarrow> wake \<times> hub) \<Rightarrow> string \<Rightarrow> byte list \<Rightarrow> srvstate handler" where
  "NewRouter sc io others corrID rnd = ServeMux
     [(''/v1/ws'', AuthBearer (sc_PSK sc) (ws_http io)),
      (''/v1/clients/'', AuthBearer (sc_PSK sc) (on_world (listdir_ServeHTTP others corrID))),
      (''/v1/blobs/'', blobs_route (sc_Hash sc) (sc_PSK sc) (sc_Limits sc)),
      (''/'', on_world (admin_handler rnd (sc_AdminUser sc) (sc_AdminPassword sc) (sc_Web sc)))]"

end
