(* ===== verification/Server.thy ===== *)
theory Server
  imports ServerApp
begin

text \<open>
  The server as one machine: a request on any route, a message of a client, the callbacks of a
  connection, the comparison that follows a connection, a tick of the collector and the life of the
  connections are its steps, in any order. Its invariant puts the components together: the tables are
  well-formed, the hub moves by its own steps only, whatever is on the wire can be read by the client it
  is for, and every finished blob has the hash it is named after.
\<close>

section \<open>Messages a client understands\<close>

definition for_client :: "Envelope \<Rightarrow> bool" where
  "for_client env \<longleftrightarrow>
     (Type env = TypeSubscribePair \<and> \<not> isl (dec_SubscribePair (Payload env))) \<or>
     (Type env = TypeFileSyncCommand \<and> \<not> isl (dec_FileSyncCommand (Payload env))) \<or>
     (Type env = TypeListDirRequest \<and> \<not> isl (dec_ListDirRequest (Payload env))) \<or>
     (Type env = TypeListFilesRequest \<and> \<not> isl (dec_ListFilesRequest (Payload env)))"

lemma for_client_envs [simp]:
  "for_client (command_env c)" "for_client (subscribe_env p s path dir)"
  "for_client (list_files_env corr pid side)" "for_client (listdir_request corr rel)"
  by (simp_all add: for_client_def command_env_def subscribe_env_def list_files_env_def listdir_request_def
      FileSyncCommand_roundtrip SubscribePair_roundtrip ListFilesRequest_roundtrip ListDirRequest_roundtrip)

definition typed_wire :: "hub \<Rightarrow> bool" where
  "typed_wire h \<longleftrightarrow> (\<forall>m \<in> set (wire h). for_client (snd m))"

section \<open>Moves\<close>

text \<open>Any number of steps of the hub that put nothing on the wire but messages a client understands.\<close>

definition hub_moves :: "hub \<Rightarrow> hub \<Rightarrow> bool" where
  "hub_moves h h' \<longleftrightarrow> hub_step\<^sup>*\<^sup>* h h' \<and> (typed_wire h \<longrightarrow> typed_wire h')"

lemma hub_moves_refl [simp]: "hub_moves h h"
  by (simp add: hub_moves_def)

lemma hub_moves_trans: "hub_moves a b \<Longrightarrow> hub_moves b c \<Longrightarrow> hub_moves a c"
  by (auto simp: hub_moves_def)

lemma hub_moves_step: "hub_step h h' \<Longrightarrow> wire h' = wire h \<Longrightarrow> hub_moves h h'"
  by (simp add: hub_moves_def typed_wire_def)

lemma hub_moves_Send: "for_client env \<Longrightarrow> hub_moves h (snd (hub_Send cid env h))"
  using hub_step.send [of h cid env]
  by (auto simp: hub_moves_def typed_wire_def hub_Send_def WriteEnvelope_def split: option.splits)

lemma hub_moves_request: "for_client env \<Longrightarrow> hub_moves h (snd (SendAndWait_begin cid env h))"
  using hub_step.request [of h cid env]
  by (auto simp: hub_moves_def typed_wire_def SendAndWait_begin_def pending_Register_def pending_Cancel_def
      hub_Send_def WriteEnvelope_def split: option.splits)

lemma hub_moves_incoming: "hub_moves h (snd (readLoop_route env h))"
  by (rule hub_moves_step [OF hub_step.incoming])
    (auto simp: readLoop_route_def pending_Resolve_def split: option.splits)

lemma hub_moves_wake: "wake_ready ch k h \<Longrightarrow> hub_moves h (snd (SendAndWait_end corr ch k h))"
  by (rule hub_moves_step [OF hub_step.wake])
    (auto simp: SendAndWait_end_def pending_Cancel_def split: wake.splits)

lemma hub_moves_connect: "NewConn cid h = (i, h1) \<Longrightarrow> hub_moves h (hub_Register i h1)"
  by (rule hub_moves_step [OF hub_step.connect])
    (auto simp: NewConn_def hub_Register_def conn_Close_def Let_def split: option.splits)

text \<open>The goroutines that run while a request waits, and the branch of its select they leave ready.\<close>

definition others_ok :: "(nat \<Rightarrow> hub \<Rightarrow> wake \<times> hub) \<Rightarrow> bool" where
  "others_ok others \<longleftrightarrow> (\<forall>ch h. hub_moves h (snd (others ch h)) \<and> wake_ready ch (fst (others ch h)) (snd (others ch h)))"

lemma hub_moves_SendAndWait:
  assumes "others_ok others" "for_client env" "hub_SendAndWait others cid env h = (r, h')"
  shows "hub_moves h h'"
proof -
  obtain r1 h1 where b: "SendAndWait_begin cid env h = (r1, h1)" by fastforce
  have 1: "hub_moves h h1" using hub_moves_request [OF assms(2), of h cid] b by simp
  show ?thesis
  proof (cases r1)
    case (Inl e)
    then show ?thesis using assms(3) b 1 by (simp add: hub_SendAndWait_def)
  next
    case (Inr ch)
    obtain k h2 where o: "others ch h1 = (k, h2)" by fastforce
    have 2: "hub_moves h1 h2" "wake_ready ch k h2"
      using assms(1) o by (auto simp: others_ok_def dest!: spec [of _ ch] spec [of _ h1])
    have "hub_moves h2 h'"
      using hub_moves_wake [OF 2(2), of "CorrelationID env"] assms(3) b Inr o by (simp add: hub_SendAndWait_def)
    then show ?thesis using 1 2(1) hub_moves_trans by blast
  qed
qed

section \<open>The store\<close>

text \<open>What an operation may do to the hub and the database.\<close>

definition moves :: "hub world \<Rightarrow> hub world \<Rightarrow> bool" where
  "moves w w' \<longleftrightarrow> hub_moves (net w) (net w') \<and> (wf_db (db w) \<longrightarrow> wf_db (db w'))"

lemma moves_refl [simp]: "moves w w"
  by (simp add: moves_def)

lemma moves_trans [trans]: "moves a b \<Longrightarrow> moves b c \<Longrightarrow> moves a c"
  unfolding moves_def using hub_moves_trans by blast

named_theorems steps \<open>operations of the server move the hub and keep the tables\<close>

lemma moves_same_net: "net w' = net w \<Longrightarrow> (wf_db (db w) \<Longrightarrow> wf_db (db w')) \<Longrightarrow> moves w w'"
  by (simp add: moves_def)

lemma moves_net: "hub_moves (net w) h \<Longrightarrow> moves w (w\<lparr>net := h\<rparr>)"
  by (simp add: moves_def)


lemma net_store_step: "net (store_step x w) = net w"
proof (cases x)
  case (OpUpdateClientDisplayName i n e)
  then show ?thesis
    by (auto simp: UpdateClientDisplayName_def Now_def exec_def query_row_def query_def
        split: prod.splits sum.splits option.splits)
next
  case (OpUpdateClientStatus i s t)
  then show ?thesis
    by (auto simp: UpdateClientStatus_def Now_def exec_def update_client_rows_def split: prod.splits sum.splits option.splits)
qed (simp_all add: UpsertClient_def DeleteClient_def UpsertPair_def DeletePair_def UpsertFileState_def
    DeleteFileState_def InsertSyncRun_def AppendAuditLog_def SetSetting_def Now_def)

lemma moves_store_step: "moves w (store_step x w)"
  by (rule moves_same_net [OF net_store_step]) (rule wf_store_step)

lemma moves_writes [steps]:
  "UpsertClient c w = (r, w') \<Longrightarrow> moves w w'"
  "UpdateClientStatus i st t w = (r, w') \<Longrightarrow> moves w w'"
  "UpdateClientDisplayName i n e w = (rn, w') \<Longrightarrow> moves w w'"
  "DeleteClient i w = (r, w') \<Longrightarrow> moves w w'"
  "UpsertPair p w = (r, w') \<Longrightarrow> moves w w'"
  "DeletePair i w = (r, w') \<Longrightarrow> moves w w'"
  "SetSetting k v w = (r, w') \<Longrightarrow> moves w w'"
  using moves_store_step [of w "OpUpsertClient c"] moves_store_step [of w "OpUpdateClientStatus i st t"]
    moves_store_step [of w "OpUpdateClientDisplayName i n e"] moves_store_step [of w "OpDeleteClient i"]
    moves_store_step [of w "OpUpsertPair p"] moves_store_step [of w "OpDeletePair i"]
    moves_store_step [of w "OpSetSetting k v"]
  by auto

lemma moves_query_row: "query_row f m sc w = (r, w') \<Longrightarrow> moves w w'"
  using net_store_ops(3) [of f m sc w] query_row_db [of f m sc w r w'] by (intro moves_same_net) auto

lemma moves_query: "wrap_err m (query f w) = (r, w') \<Longrightarrow> moves w w'"
  using net_store_ops(2) [of "\<lambda>d. (Inr (f d), d)" w] list_query_db [of m f w r w'] snd_wrap_err [of m "query f w"]
  by (intro moves_same_net) (auto simp: query_def)

lemma moves_reads [steps]:
  "GetClient i w = (rc, w') \<Longrightarrow> moves w w'"
  "GetPair i w = (rp, w') \<Longrightarrow> moves w w'"
  "ListClients w = (rcs, w') \<Longrightarrow> moves w w'"
  "ListPairs w = (rps, w') \<Longrightarrow> moves w w'"
  "ListPairsForClient i w = (rps, w') \<Longrightarrow> moves w w'"
  "ListFileStates p s w = (rfs, w') \<Longrightarrow> moves w w'"
  "ListRecentSyncRuns i n w = (rr, w') \<Longrightarrow> moves w w'"
  "LoadAllSettings w = (rm, w') \<Longrightarrow> moves w w'"
  by (auto simp: GetClient_def GetPair_def ListClients_def ListPairs_def ListRecentSyncRuns_def LoadAllSettings_def
      ListPairsForClient_def ListFileStates_def dest: moves_query_row moves_query)

lemma moves_GetSetting [steps]: "GetSetting k w = (r, w') \<Longrightarrow> moves w w'"
  by (auto simp: GetSetting_def split: prod.splits sum.splits dest: moves_query_row)

lemma moves_Now [steps]: "Now w = (t, w') \<Longrightarrow> moves w w'"
  by (rule moves_same_net) (auto simp: Now_def)

lemma moves_logs: "logs_only w w' \<Longrightarrow> net w' = net w \<Longrightarrow> moves w w'"
  by (rule moves_same_net) (auto simp: logs_only_def)

lemma moves_audit_now [simp]: "moves w (audit_now k i d w)"
proof -
  obtain t w1 where n: "Now w = (t, w1)" by fastforce
  show ?thesis
    using moves_trans [OF moves_Now [OF n] moves_store_step [of w1 "OpAppendAuditLog
      \<lparr>au_TS = t, au_Kind = k, au_ClientID = i, au_PairID = None, au_RelPath = None, au_Detail = d\<rparr>"]]
    by (simp add: audit_now_def n)
qed

lemma moves_auditPairAction [simp]: "moves w (auditPairAction k p w)"
  by (rule moves_logs [OF auditPairAction_logs net_auditPairAction])

section \<open>The engine\<close>

lemma moves_engine_Send: "for_client env \<Longrightarrow> engine_Send hub_Send cid env w = (r, w') \<Longrightarrow> moves w w'"
  using hub_moves_Send [of env "net w" cid] by (auto simp: engine_Send_def moves_def split: prod.splits)

lemma moves_engine_Send_snd: "for_client env \<Longrightarrow> moves w (snd (engine_Send hub_Send cid env w))"
  using moves_engine_Send [of env cid w] by (metis prod.collapse)

lemma moves_recordSyncRun [simp]: "moves w (recordSyncRun p s d r h st m w)"
  by (rule moves_logs [OF logs_only_recordSyncRun]) simp

lemma moves_audits [simp]:
  "moves w (auditConflictDetected pid rel w)" "moves w (auditConflictRenamed pid rel n w)"
  "moves w (auditDeleteVsEdit pid rel c w)"
  by (simp_all add: moves_logs)

lemma moves_dispatchSync [steps]: "dispatchSync hub_Send src pair t ev w = (r, w') \<Longrightarrow> moves w w'"
  by (auto simp: dispatchSync_def split: prod.splits sum.splits
      dest!: moves_engine_Send [rotated] intro: moves_trans [OF _ moves_recordSyncRun])

lemma moves_dispatchFetch [steps]: "dispatchFetch hub_Send src pair t rel sha w = (r, w') \<Longrightarrow> moves w w'"
  by (auto simp: dispatchFetch_def dest!: moves_engine_Send [rotated])

lemma moves_send_plan:
  "send_plan hub_Send xs w = (r, w') \<Longrightarrow> list_all (\<lambda>(m, c, e). for_client e) xs \<Longrightarrow> moves w w'"
proof (induction xs arbitrary: w)
  case (Cons x xs)
  obtain m c e where x: "x = (m, c, e)" by (cases x)
  obtain r1 w1 where s: "engine_Send hub_Send c e w = (r1, w1)" by fastforce
  have "moves w w1" using moves_engine_Send [OF _ s] Cons.prems(2) x by simp
  then show ?case using Cons s x by (cases r1) (auto intro: moves_trans)
qed simp

lemma moves_dispatchConflict [steps]:
  assumes "dispatchConflict hub_Send pair ws win ls lc lh w = (r, w')"
  shows "moves w w'"
proof -
  obtain t w1 where n: "Now w = (t, w1)" by fastforce
  let ?n = "conflictFilename (fs_RelPath win) lc t"
  obtain r2 w2 where s: "send_plan hub_Send (conflict_plan pair ws win ls lc ?n) w1 = (r2, w2)" by fastforce
  have "moves w1 w2" by (rule moves_send_plan [OF s]) (simp add: conflict_plan_def)
  with moves_Now [OF n] have "moves w w2" by (rule moves_trans)
  then show ?thesis
    using assms n s moves_trans [OF _ moves_audits(2)] by (auto simp: dispatchConflict_eq split: sum.splits)
qed

lemma moves_bidirectional_act [steps]: "bidirectional_act hub_Send src pair ev fs oth w = (r, w') \<Longrightarrow> moves w w'"
  by (auto simp: bidirectional_act_def handleEditWins_def Let_def split: LWWAction.splits option.splits if_splits
      dest!: steps intro: moves_trans [OF moves_audits(1)] moves_trans [OF moves_audits(3)])

lemma moves_GetFileState [steps]: "GetFileState p s r w = (x, w') \<Longrightarrow> moves w w'"
  by (auto simp: GetFileState_def dest: moves_query_row)

lemma moves_handleBidirectional [steps]: "handleBidirectional hub_Send src pair ev fs w = (r, w') \<Longrightarrow> moves w w'"
  by (auto simp: handleBidirectional_def split: prod.splits sum.splits if_splits dest!: steps intro: moves_trans)

lemma moves_mirror_loop: "moves w (mirror_loop hub_Send src pair ev ts w)"
proof (induction ts arbitrary: w)
  case (Cons t ts)
  obtain r1 w1 where d: "dispatchSync hub_Send src pair t ev w = (r1, w1)" by fastforce
  note m = moves_dispatchSync [OF d]
  show ?case
    using d Cons.IH [of w1] Cons.IH m moves_trans [OF moves_trans [OF m moves_recordSyncRun] Cons.IH] moves_trans
    by (cases r1) auto
qed simp

lemma moves_upsertFileState [steps]: "upsertFileState ev w = (r, w') \<Longrightarrow> moves w w'"
proof -
  assume u: "upsertFileState ev w = (r, w')"
  obtain t w1 where n: "Now w = (t, w1)" by fastforce
  obtain r2 w2 where f: "UpsertFileState (event_state ev t) w1 = (r2, w2)" by fastforce
  have "moves w1 w2" using moves_store_step [of w1 "OpUpsertFileState (event_state ev t)"] f by simp
  with moves_Now [OF n] have "moves w w2" by (rule moves_trans)
  moreover have "w' = w2" using u n f by (auto simp: upsertFileState_eq split: sum.splits)
  ultimately show ?thesis by simp
qed

lemma moves_HandleFileChanged [steps]: "HandleFileChanged hub_Send src ev w = (r, w') \<Longrightarrow> moves w w'"
  by (auto simp: HandleFileChanged_def split: prod.splits sum.splits if_splits dest!: steps
      intro: moves_trans moves_trans [OF moves_trans moves_mirror_loop])

lemma moves_handle_all: "moves w (handle_all hub_Send cid evs w)"
proof (induction evs arbitrary: w)
  case (Cons ev evs)
  show ?case
    using moves_trans [OF moves_HandleFileChanged [OF prod.collapse [symmetric]] Cons.IH] by simp
qed simp

lemma moves_applyDiff [steps]: "applyDiff hub_Send cid pid side snaps w = (r, w') \<Longrightarrow> moves w w'"
  by (auto simp: applyDiff_def snapshot_loop_eq missing_loop_eq Let_def split: prod.splits sum.splits
      dest!: steps intro: moves_trans [OF moves_trans [OF _ moves_handle_all] moves_handle_all])

section \<open>Subscriptions\<close>

lemma moves_fold: "(\<And>c v. moves v (f c v)) \<Longrightarrow> moves w (fold f cs w)"
proof (induction cs arbitrary: w)
  case (Cons c cs)
  show ?case by simp (rule moves_trans [OF Cons.prems Cons.IH [OF Cons.prems]])
qed simp

lemma moves_subscribe_loop: "moves w (subscribe_loop hub_Send cid ps w)"
proof (induction ps arbitrary: w)
  case (Cons p ps)
  obtain side path where sp: "sideAndPathFor p cid = (side, path)" by fastforce
  have "moves w (subscribe_loop hub_Send cid ps (snd (sendSubscribe hub_Send cid p side path w)))"
    unfolding sendSubscribe_def by (rule moves_trans [OF moves_engine_Send_snd Cons.IH]) simp
  then show ?case using Cons.IH sp by simp
qed simp

lemma moves_PublishSubscriptions [steps]: "PublishSubscriptions hub_Send cid w = (r, w') \<Longrightarrow> moves w w'"
  by (auto simp: PublishSubscriptions_def split: prod.splits sum.splits dest!: steps
      intro: moves_trans [OF _ moves_subscribe_loop])

lemma moves_PublishPairUnsubscribe [steps]: "PublishPairUnsubscribe hub_Send pid w = (r, w') \<Longrightarrow> moves w w'"
proof -
  assume u: "PublishPairUnsubscribe hub_Send pid w = (r, w')"
  have f: "moves v (fold (\<lambda>cid v. snd (engine_Send hub_Send cid (subscribe_env p (fst (sideAndPathFor p cid)) [] []) v)) cs v)" for p cs v
    by (rule moves_fold) (simp add: moves_engine_Send_snd)
  obtain r1 w1 where g: "GetPair pid w = (r1, w1)" by fastforce
  show ?thesis
    using u g moves_reads(2) [OF g] moves_trans [OF moves_reads(2) [OF g] f]
    by (cases r1) (auto simp: PublishPairUnsubscribe_def simp del: fold_simps(2) fold.simps)
qed

lemma moves_PublishPairUpdate [steps]: "PublishPairUpdate hub_Send pid w = (r, w') \<Longrightarrow> moves w w'"
proof -
  assume u: "PublishPairUpdate hub_Send pid w = (r, w')"
  have f: "moves v (fold (\<lambda>cid v. case sideAndPathFor p cid of (side, path) \<Rightarrow> snd (sendSubscribe hub_Send cid p side path v)) cs v)" for p cs v
    by (rule moves_fold) (simp add: sendSubscribe_def moves_engine_Send_snd split: prod.split)
  obtain r1 w1 where g: "GetPair pid w = (r1, w1)" by fastforce
  show ?thesis
    using u g moves_reads(2) [OF g] moves_trans [OF moves_reads(2) [OF g] f]
      moves_trans [OF moves_reads(2) [OF g] moves_PublishPairUnsubscribe]
    by (cases r1) (auto simp: PublishPairUpdate_def simp del: fold_simps(2) fold.simps split: if_splits)
qed

section \<open>Pages\<close>

text \<open>The pages as the server configures them: they publish through the engine, and no hub is given.\<close>

definition server_pages :: "hub webcfg \<Rightarrow> bool" where
  "server_pages cfg \<longleftrightarrow> wc_Publisher cfg = Some (engine_publisher hub_Send) \<and> wc_Hub cfg = None"

lemma moves_publish:
  assumes "server_pages cfg"
  shows "moves w (publishPairUpdate cfg pid w)" "moves w (publishPairUnsubscribe cfg pid w)"
    "moves w (publish_update cfg was p w)"
proof -
  have pub: "wc_Publisher cfg = Some (engine_publisher hub_Send)" using assms by (simp add: server_pages_def)
  show u: "moves w (publishPairUpdate cfg pid w)" "moves w (publishPairUnsubscribe cfg pid w)" for pid
    using moves_PublishPairUpdate [where pid = pid and w = w, OF prod.collapse [symmetric]]
      moves_PublishPairUnsubscribe [where pid = pid and w = w, OF prod.collapse [symmetric]] pub
    by (simp_all add: publishPairUpdate_def publishPairUnsubscribe_def engine_publisher_def)
  show "moves w (publish_update cfg was p w)" using u by (simp add: publish_update_def)
qed

lemma moves_loadPairsAndClients [steps]: "loadPairsAndClients w = (r, w') \<Longrightarrow> moves w w'"
  by (auto simp: loadPairsAndClients_def split: prod.splits sum.splits dest!: steps intro: moves_trans)

lemma moves_read_pages [steps]:
  "clientsListHandler cfg r w = (resp, w') \<Longrightarrow> moves w w'"
  "handleClientEdit cfg i r w = (resp, w') \<Longrightarrow> moves w w'"
  "handleClientCancel cfg i r w = (resp, w') \<Longrightarrow> moves w w'"
  "pairsListHandler cfg r w = (resp, w') \<Longrightarrow> moves w w'"
  "handlePairNewForm cfg r w = (resp, w') \<Longrightarrow> moves w w'"
  "handlePairEditForm cfg i r w = (resp, w') \<Longrightarrow> moves w w'"
  "handlePairCancelEdit cfg i r w = (resp, w') \<Longrightarrow> moves w w'"
  "settingsListHandler cfg r w = (resp, w') \<Longrightarrow> moves w w'"
  "runsListHandler cfg r w = (resp, w') \<Longrightarrow> moves w w'"
  "updated_row cfg i r w = (resp, w') \<Longrightarrow> moves w w'"
  by (auto simp: clientsListHandler_def handleClientEdit_def handleClientCancel_def pairsListHandler_def
      handlePairNewForm_def handlePairEditForm_def handlePairCancelEdit_def settingsListHandler_def
      runsListHandler_def updated_row_def Let_def split: prod.splits sum.splits if_splits dest!: steps intro: moves_trans)

lemma moves_handleClientDisplayName [steps]: "handleClientDisplayName cfg i r w = (resp, w') \<Longrightarrow> moves w w'"
  by (auto simp: handleClientDisplayName_def split: prod.splits sum.splits if_splits dest!: steps intro: moves_trans)

lemma moves_handleClientDelete [steps]: "handleClientDelete i r w = (resp, w') \<Longrightarrow> moves w w'"
  by (auto simp: handleClientDelete_def split: prod.splits sum.splits if_splits dest!: steps
      intro: moves_trans moves_trans [OF moves_trans moves_audit_now])

lemma moves_clientRowHandler [steps]: "clientRowHandler cfg r w = (resp, w') \<Longrightarrow> moves w w'"
  by (auto simp: clientRowHandler_def split: list.splits if_splits dest!: steps)

lemma moves_settingRowHandler [steps]: "settingRowHandler cfg r w = (resp, w') \<Longrightarrow> moves w w'"
  by (auto simp: settingRowHandler_def Let_def split: list.splits prod.splits sum.splits if_splits dest!: steps)

lemma moves_handlePairDelete:
  "server_pages cfg \<Longrightarrow> handlePairDelete cfg i r w = (resp, w') \<Longrightarrow> moves w w'"
  by (auto simp: handlePairDelete_def split: prod.splits sum.splits dest!: steps
      intro: moves_trans [OF moves_trans [OF _ moves_auditPairAction] moves_publish(2)])

lemma moves_handlePairUpdate:
  assumes "server_pages cfg" "handlePairUpdate cfg i r w = (resp, w')"
  shows "moves w w'"
proof -
  have p: "moves v w'" if "updated_row cfg i r (publish_update cfg was q (auditPairAction k i v)) = (resp, w')" for v was q k
    using moves_trans [OF moves_trans [OF moves_auditPairAction moves_publish(3) [OF assms(1)]] moves_read_pages(10) [OF that]] .
  show ?thesis
    using assms(2)
    by (auto simp: handlePairUpdate_defs Let_def split: prod.splits sum.splits if_splits
        dest!: moves_writes(5) moves_reads(2) moves_Now p intro: moves_trans)
qed

lemma moves_handlePairCreate:
  assumes "server_pages cfg" "handlePairCreate cfg r w = (resp, w')"
  shows "moves w w'"
proof -
  have p: "moves v w1" if "loadPairsAndClients (publishPairUpdate cfg i (auditPairAction k i v)) = (x, w1)" for v i k x w1
    using moves_trans [OF moves_trans [OF moves_auditPairAction moves_publish(1) [OF assms(1)]] moves_loadPairsAndClients [OF that]] .
  show ?thesis
    using assms(2)
    by (auto simp: handlePairCreate_def Let_def split: prod.splits sum.splits if_splits
        dest!: moves_writes(5) moves_Now p intro: moves_trans)
qed

lemma moves_pairFormHandler: "server_pages cfg \<Longrightarrow> pairFormHandler cfg r w = (resp, w') \<Longrightarrow> moves w w'"
  by (auto simp: pairFormHandler_def Let_def split: if_splits
      dest!: steps dest: moves_handlePairDelete moves_handlePairUpdate moves_handlePairCreate)

lemma moves_browseHandler: "server_pages cfg \<Longrightarrow> browseHandler cfg r w = (resp, w') \<Longrightarrow> moves w w'"
  by (auto simp: browseHandler_def browse_listing_def server_pages_def Let_def
      split: prod.splits sum.splits option.splits dest!: steps)

lemma moves_clientsHandler: "server_pages cfg \<Longrightarrow> clientsHandler cfg r w = (resp, w') \<Longrightarrow> moves w w'"
  by (auto simp: clientsHandler_def split: list.splits if_splits dest!: steps dest: moves_browseHandler)

lemma moves_buildHandler:
  assumes "server_pages cfg" "buildHandler cfg r w = (resp, w')"
  shows "moves w w'"
proof (cases rule: ServeMux_cases [of "web_routes cfg" r w])
  case 1
  then show ?thesis using assms(2) by (simp add: buildHandler_def)
next
  case (2 pat h)
  then have "h r w = (resp, w')" using assms(2) by (simp add: buildHandler_def)
  then show ?thesis using 2(1)
    by (auto simp: web_routes_def split: option.splits
        dest: moves_read_pages moves_settingRowHandler moves_clientsHandler [OF assms(1)] moves_pairFormHandler [OF assms(1)])
qed

lemma moves_admin:
  assumes "server_pages cfg" "admin_handler rnd user pass cfg r w = (resp, w')"
  shows "moves w w'"
proof -
  have c: "moves w w'" if c: "CSRF rnd (buildHandler cfg) r w = (resp, w')" for resp
  proof -
    obtain tok hs where t: "readOrIssueToken rnd r = (tok, hs)" by fastforce
    show ?thesis
      by (cases rule: CSRF_cases [OF c t]) (auto dest: moves_buildHandler [OF assms(1)])
  qed
  then show ?thesis using assms(2) by (auto simp: admin_handler_def BasicAuth_def split: if_splits option.splits)
qed

section \<open>Clients\<close>

lemma moves_ws_ServeHTTP: "ws_ServeHTTP up frame written w = (res, w') \<Longrightarrow> moves w w'"
proof -
  assume a: "ws_ServeHTTP up frame written w = (res, w')"
  obtain t w1 where n: "Now w = (t, w1)" by fastforce
  have reg: "moves w w'" if "up" "receiveRegisterRequest frame = Inr req"
    "protoVersionCompatible (rr_ProtoVersion req) ProtoVersion" for req
  proof -
    obtain u w2 where u: "UpsertClient (registered_client req t) w1 = (u, w2)" by fastforce
    have 2: "moves w w2" using moves_Now [OF n] moves_writes(1) [OF u] moves_trans by blast
    obtain sr w3 where l: "LoadAllSettings (appendClientRegisterDetail req w2) = (sr, w3)" by fastforce
    obtain t4 w4 where n4: "Now w3 = (t4, w4)" by fastforce
    have "moves w2 (appendClientRegisterDetail req w2)" by (simp add: appendClientRegisterDetail_def)
    then have 4: "moves w w4"
      using 2 moves_reads(8) [OF l] moves_Now [OF n4] moves_trans by blast
    have "moves w4 (w4\<lparr>net := hub_Register i h\<rparr>)" if "NewConn (rr_ClientID req) (net w4) = (i, h)" for i h
      by (rule moves_net [OF hub_moves_connect [OF that]])
    then show ?thesis
      using a that n u l n4 2 4 moves_trans [OF 4]
      by (auto simp: ws_ServeHTTP_def Let_def split: sum.splits prod.splits)
  qed
  then show ?thesis
    using a by (auto simp: ws_ServeHTTP_def simp del: split_paired_All split: if_splits sum.splits prod.splits)
qed

lemma moves_listdir:
  assumes "others_ok others" "listdir_ServeHTTP others corr r w = (resp, w')"
  shows "moves w w'"
proof -
  have s: "moves w w1" if "sendListDirRequest others corr cid rel w = (x, w1)" for cid rel x w1
    using that hub_moves_SendAndWait [OF assms(1) for_client_envs(4)]
    by (auto simp: sendListDirRequest_def moves_def split: prod.splits)
  have e: "moves v v'" if "handleClientError cid m v = (x, v')" for cid m v x v'
    using that by (auto simp: handleClientError_def split: if_splits)
  show ?thesis
    using assms(2)
    by (auto simp: listdir_ServeHTTP_def Let_def split: if_splits option.splits prod.splits sum.splits
        dest!: s dest: e intro: moves_trans)
qed

lemma moves_srv_message:
  assumes "srv_message cid env w = (r, w')" shows "moves w w'"
proof -
  have h: "moves v v'" if "srv_handle cid m v = (x, v')" for m v x v'
    using that by (auto simp: srv_handle_def HandleFileSyncAck_def split: if_splits sum.splits dest: moves_HandleFileChanged)
  obtain x h1 where x: "readLoop_route env (net w) = (x, h1)" by fastforce
  have "moves w (w\<lparr>net := h1\<rparr>)" using hub_moves_incoming [of "net w" env] x by (intro moves_net) simp
  then show ?thesis
    using assms x h by (auto simp: srv_message_def split: routed.splits intro: moves_trans)
qed

lemma moves_notify: "notify_client cfg cid s = s' \<Longrightarrow> moves (fst s) (fst s')"
  by (auto simp: notify_client_def split: prod.splits sum.splits dest: moves_reads(1))

lemma moves_onConnect: "moves (fst s) (fst (srv_onConnect cfg cid s))"
  using moves_trans [OF moves_PublishSubscriptions [where cid = cid and w = "fst s", OF prod.collapse [symmetric]]]
    moves_notify [of cfg cid "(snd (PublishSubscriptions hub_Send cid (fst s)), snd s)"]
  by (simp add: srv_onConnect_def)

lemma moves_onDisconnect: "moves (fst s) (fst (srv_onDisconnect cfg cid s))"
proof -
  obtain t w1 where n: "Now (fst s) = (t, w1)" by fastforce
  obtain r w2 where u: "UpdateClientStatus cid ''offline'' t w1 = (r, w2)" by fastforce
  have "moves (fst s) w2" using moves_Now [OF n] moves_writes(2) [OF u] moves_trans by blast
  then show ?thesis
    using moves_trans [OF _ moves_notify [of cfg cid "(w2, snd s)"]] by (simp add: srv_onDisconnect_def n u)
qed

lemma moves_request:
  assumes "others_ok others" "RequestSnapshotAndDiff hub_Send (hub_SendAndWait others) corr cid pid side w = (r, w')"
  shows "moves w w'"
proof -
  obtain g w1 where g: "GetPair pid w = (g, w1)" by fastforce
  obtain x n where x: "hub_SendAndWait others cid (list_files_env corr pid side) (net w1) = (x, n)" by fastforce
  have "moves w1 (w1\<lparr>net := n\<rparr>)" by (rule moves_net [OF hub_moves_SendAndWait [OF assms(1) _ x]]) simp
  with moves_reads(2) [OF g] have 1: "moves w (w1\<lparr>net := n\<rparr>)" by (rule moves_trans)
  show ?thesis
    using assms(2) g x moves_reads(2) [OF g] 1
    by (auto simp: RequestSnapshotAndDiff_def split: sum.splits dest!: moves_applyDiff intro: moves_trans)
qed

lemma moves_resync_loop:
  assumes "\<And>pid. others_ok (others pid)"
  shows "moves w (resync_loop others newID cid ps w)"
proof (induction ps arbitrary: w)
  case (Cons p ps)
  show ?case
    using Cons.IH moves_trans [OF moves_request [OF assms prod.collapse [symmetric]] Cons.IH] by simp
qed simp

lemma moves_resync: "(\<And>pid. others_ok (others pid)) \<Longrightarrow> moves w (srv_resync others newID cid w)"
  by (auto simp: srv_resync_def split: prod.splits sum.splits
      dest!: moves_reads(5) intro: moves_trans [OF _ moves_resync_loop])

section \<open>Blobs\<close>

lemma moves_usage_loop: "usage_loop cid ps tot w = (r, w') \<Longrightarrow> moves w w'"
proof (induction cid ps tot w rule: usage_loop.induct)
  case (2 cid p ps tot w)
  then show ?case by (auto split: prod.splits sum.splits dest!: moves_reads(6) intro: moves_trans)
qed simp

lemma moves_computeClientUsage: "computeClientUsage cid w = (r, w') \<Longrightarrow> moves w w'"
  by (auto simp: computeClientUsage_def split: prod.splits sum.splits dest!: moves_reads(5) moves_usage_loop intro: moves_trans)

definition blob_moves :: "(byte list \<Rightarrow> byte list) \<Rightarrow> hub world \<times> bstore \<Rightarrow> hub world \<times> bstore \<Rightarrow> bool" where
  "blob_moves H s s' \<longleftrightarrow> moves (fst s) (fst s') \<and> (blob_ok H (snd s) \<longrightarrow> blob_ok H (snd s'))"

lemma blob_moves_trans: "blob_moves H a b \<Longrightarrow> blob_moves H b c \<Longrightarrow> blob_moves H a c"
  unfolding blob_moves_def using moves_trans by blast

lemma blob_moves_world: "moves w w' \<Longrightarrow> blob_moves H (w, b) (w', b)"
  by (simp add: blob_moves_def)

lemma handlePutError_moves: "handlePutError e cid sha s = (resp, s') \<Longrightarrow> blob_moves H s s'"
  by (auto simp: handlePutError_def auditDiskFull_def blob_moves_def split: if_splits)

lemma blob_ok_same: "blobs b' = blobs b \<Longrightarrow> blob_ok H b' = blob_ok H b"
  by (simp add: blob_ok_def)

lemma blob_reads:
  "Has sha b = (rh, b') \<Longrightarrow> blobs b' = blobs b"
  "blob_Stat sha b = (rs, b') \<Longrightarrow> blobs b' = blobs b"
  "Get sha b = (rg, b') \<Longrightarrow> blobs b' = blobs b"
  "GetRange sha off len b = (rr, b') \<Longrightarrow> blobs b' = blobs b"
  by (auto simp: Has_def blob_Stat_def Get_def GetRange_def split: sum.splits prod.splits if_splits
      dest!: os_Stat_files os_call_files intro!: blobs_cong)

lemma put_moves:
  "Put H sha rd n b = (x, b') \<Longrightarrow> blob_ok H b \<Longrightarrow> blob_ok H b'"
  "PutRange H sha off rd n b = (x, b') \<Longrightarrow> blob_ok H b \<Longrightarrow> blob_ok H b'"
  using stores_blob_ok [OF Put_stores] stores_blob_ok [OF PutRange_stores] by blast+

lemma handlePUT_moves:
  assumes "handlePUT H h r sha s = (resp, s')" shows "blob_moves H s s'"
proof -
  obtain u w1 where u: "computeClientUsage (ClientIDFromContext r) (fst s) = (u, w1)" by fastforce
  have 1: "blob_moves H s (w1, snd s)" using moves_computeClientUsage [OF u] by (simp add: blob_moves_def)
  have e: "blob_moves H (w1, b) s'" if "handlePutError e (ClientIDFromContext r) sha (w1, b) = (resp, s')" for e b
    using handlePutError_moves [OF that] .
  have b: "blob_moves H s (w1, b1)" if "blob_ok H (snd s) \<Longrightarrow> blob_ok H b1" for b1
    using 1 that by (simp add: blob_moves_def)
  have q: "blob_moves H s (auditQuotaExceeded i sha' us n l w1, snd s)" for i sha' us n l
    using blob_moves_trans [OF 1 blob_moves_world [OF moves_audit_now]] by (simp add: auditQuotaExceeded_def)
  show ?thesis
    using assms u 1 q put_moves
    by (auto simp: handlePUT_def Let_def split: if_splits sum.splits prod.splits
        dest!: e intro: b blob_moves_trans [OF b] simp del: split_paired_All)
      (auto simp: blob_moves_def intro: moves_trans [OF moves_computeClientUsage [OF u]])
qed

lemma handleHEAD_moves: "handleHEAD sha s = (resp, s') \<Longrightarrow> blob_moves H s s'"
  by (auto simp: handleHEAD_def blob_moves_def blob_ok_def split: prod.splits sum.splits bool.splits dest!: blob_reads)

lemma handleGET_moves: "handleGET r sha s = (resp, s') \<Longrightarrow> blob_moves H s s'"
  by (auto simp: handleGET_def blob_moves_def blob_ok_def Let_def split: prod.splits sum.splits if_splits dest!: blob_reads)

lemma blobs_route_moves: "blobs_route H psk h r s = (resp, s') \<Longrightarrow> blob_moves H s s'"
  by (auto simp: blobs_route_def AuthBearerWithClientID_def blobs_ServeHTTP_def Let_def split: if_splits
      dest: handlePUT_moves handleHEAD_moves handleGET_moves) (auto simp: blob_moves_def)

section \<open>The router and the collector\<close>

lemma router_moves:
  assumes "server_pages (sc_Web sc)" "others_ok others" "NewRouter sc io others corr rnd r s = (resp, s')"
  shows "blob_moves (sc_Hash sc) s s'"
proof -
  have auth: "blob_moves H s s'" if "AuthBearer psk h r s = (resp, s')" "\<And>x s1. h r s = (x, s1) \<Longrightarrow> blob_moves H s s1" for H psk h
    using that by (auto simp: AuthBearer_def split: if_splits) (simp add: blob_moves_def)
  have ws: "blob_moves H s s1" if "ws_http io r s = (x, s1)" for H x s1
    using that moves_ws_ServeHTTP by (auto simp: ws_http_def blob_moves_def split: prod.splits)
  have on: "blob_moves H s s1" if "on_world h r s = (x, s1)" "\<And>y w1. h r (fst s) = (y, w1) \<Longrightarrow> moves (fst s) w1" for H h x s1
    using that by (auto simp: on_world_def blob_moves_def split: prod.splits)
  let ?R = "[(''/v1/ws'', AuthBearer (sc_PSK sc) (ws_http io)),
      (''/v1/clients/'', AuthBearer (sc_PSK sc) (on_world (listdir_ServeHTTP others corr))),
      (''/v1/blobs/'', blobs_route (sc_Hash sc) (sc_PSK sc) (sc_Limits sc)),
      (''/'', on_world (admin_handler rnd (sc_AdminUser sc) (sc_AdminPassword sc) (sc_Web sc)))]"
  show ?thesis
  proof (cases rule: ServeMux_cases [of ?R r s])
    case 1
    then show ?thesis using assms(3) by (simp add: NewRouter_def blob_moves_def)
  next
    case (2 pat h)
    have h: "h r s = (resp, s')" using 2(3) assms(3) by (simp add: NewRouter_def)
    from 2(1) consider "h = AuthBearer (sc_PSK sc) (ws_http io)"
      | "h = AuthBearer (sc_PSK sc) (on_world (listdir_ServeHTTP others corr))"
      | "h = blobs_route (sc_Hash sc) (sc_PSK sc) (sc_Limits sc)"
      | "h = on_world (admin_handler rnd (sc_AdminUser sc) (sc_AdminPassword sc) (sc_Web sc))"
      by auto
    then show ?thesis
    proof cases
      case 1
      then show ?thesis using h auth ws by blast
    next
      case c: 2
      show ?thesis by (rule auth [OF h [unfolded c]]) (erule on, erule moves_listdir [OF assms(2)])
    next
      case 3
      then show ?thesis using h blobs_route_moves by blast
    next
      case 4
      show ?thesis by (rule on [OF h [unfolded 4]]) (erule moves_admin [OF assms(1)])
    qed
  qed
qed

lemma moves_collect_pairs: "collect_pairs ps refs w = (r, w') \<Longrightarrow> moves w w'"
proof (induction ps arbitrary: refs w)
  case (Cons p ps)
  then show ?case by (auto split: prod.splits sum.splits dest!: moves_reads(6) intro: moves_trans)
qed simp

lemma gc_moves:
  assumes "srv_gc ctx w b = (w', b')" shows "blob_moves H (w, b) (w', b')"
proof -
  have t: "blob_moves H (v, b) (w', b')" if "gc_tick ctx age v b = (w', b')" for age v
  proof -
    obtain c v1 where c: "collectReferencedSHAs v = (c, v1)" by fastforce
    have "moves v v1"
      using c by (auto simp: collectReferencedSHAs_def split: prod.splits sum.splits
          dest!: moves_reads(4) moves_collect_pairs intro: moves_trans)
    then show ?thesis
      using that c blob_ok_mono [OF GC_blobs [OF prod.collapse [symmetric]]]
      by (auto simp: gc_tick_def blob_moves_def split: sum.splits)
  qed
  obtain age w1 where a: "blobGCMaxAge w = (age, w1)" by fastforce
  have "moves w w1"
    using a by (auto simp: blobGCMaxAge_def split: prod.splits sum.splits option.splits dest: moves_reads(8))
  then show ?thesis
    using assms a t [of age w1] blob_moves_trans [OF blob_moves_world] by (simp add: srv_gc_def)
qed

end
