(* ===== verification/System.thy ===== *)
theory System
  imports Server Runner
begin

text \<open>
  The steps of the whole server (\<open>internal/server/app/app.go\<close>) in any order, the invariant of the states
  they reach, and the two programs together: every message the server puts on the wire is one the client
  can read.
\<close>

section \<open>Steps\<close>

text \<open>The state of the process: the database and the hub, the blobs, the subscribers of the pages.\<close>

record server =
  sv_world :: "hub world"
  sv_blobs :: bstore
  sv_bc :: Broadcaster

text \<open>
  \<open>connection\<close> is a step of the hub that writes nothing: a connection opens, ends its read loop, calls
  back or is closed. The callbacks a connection calls and the goroutine they start are the steps
  \<open>connected\<close>, \<open>compare\<close> and \<open>disconnected\<close>, at any time.
\<close>

inductive server_step :: "srvconfig \<Rightarrow> server \<Rightarrow> server \<Rightarrow> bool" for sc where
  request: "others_ok others \<Longrightarrow> NewRouter sc io others corr rnd r (sv_world s, sv_blobs s) = (resp, (w, b)) \<Longrightarrow>
     server_step sc s (s\<lparr>sv_world := w, sv_blobs := b\<rparr>)"
| message: "srv_message cid env (sv_world s) = (res, w) \<Longrightarrow> server_step sc s (s\<lparr>sv_world := w\<rparr>)"
| connected: "srv_onConnect (sc_Web sc) cid (sv_world s, sv_bc s) = (w, bc) \<Longrightarrow>
     server_step sc s (s\<lparr>sv_world := w, sv_bc := bc\<rparr>)"
| compare: "\<forall>pid. others_ok (others pid) \<Longrightarrow> srv_resync others newID cid (sv_world s) = w \<Longrightarrow>
     server_step sc s (s\<lparr>sv_world := w\<rparr>)"
| disconnected: "srv_onDisconnect (sc_Web sc) cid (sv_world s, sv_bc s) = (w, bc) \<Longrightarrow>
     server_step sc s (s\<lparr>sv_world := w, sv_bc := bc\<rparr>)"
| collect: "srv_gc ctx (sv_world s) (sv_blobs s) = (w, b) \<Longrightarrow> server_step sc s (s\<lparr>sv_world := w, sv_blobs := b\<rparr>)"
| connection: "hub_step (net (sv_world s)) h \<Longrightarrow> wire h = wire (net (sv_world s)) \<Longrightarrow>
     server_step sc s (s\<lparr>sv_world := (sv_world s)\<lparr>net := h\<rparr>\<rparr>)"
| page: "\<forall>m. op \<noteq> BcPublish m \<Longrightarrow> server_step sc s (s\<lparr>sv_bc := bc_step op (sv_bc s)\<rparr>)"

text \<open>A process starts on tables and blobs that an earlier one left, with a new hub and no page open.\<close>

definition server_start :: "srvconfig \<Rightarrow> server \<Rightarrow> bool" where
  "server_start sc s \<longleftrightarrow> wf_db (db (sv_world s)) \<and> blob_ok (sc_Hash sc) (sv_blobs s) \<and>
     net (sv_world s) = hub_New True (ws_write (net (sv_world s))) \<and> sv_bc s = NewBroadcaster"

inductive server_reachable :: "srvconfig \<Rightarrow> server \<Rightarrow> bool" for sc where
  start: "server_start sc s \<Longrightarrow> server_reachable sc s"
| step: "server_reachable sc s \<Longrightarrow> server_step sc s s' \<Longrightarrow> server_reachable sc s'"

inductive_cases server_stepE: "server_step sc s s'"

lemma type_neqs:
  "TypeFileSyncCommand \<noteq> TypeSubscribePair" "TypeListDirRequest \<noteq> TypeSubscribePair" "TypeListDirRequest \<noteq> TypeFileSyncCommand"
  "TypeListFilesRequest \<noteq> TypeSubscribePair" "TypeListFilesRequest \<noteq> TypeFileSyncCommand" "TypeListFilesRequest \<noteq> TypeListDirRequest"
  by (simp_all add: msg_type_defs)

section \<open>The invariant\<close>

definition server_ok :: "srvconfig \<Rightarrow> server \<Rightarrow> bool" where
  "server_ok sc s \<longleftrightarrow> wf_db (db (sv_world s)) \<and> hub_reachable (net (sv_world s)) \<and> typed_wire (net (sv_world s)) \<and>
     blob_ok (sc_Hash sc) (sv_blobs s) \<and> bc_ok (sv_bc s)"

lemma hub_reachable_moves: "hub_reachable h \<Longrightarrow> hub_step\<^sup>*\<^sup>* h h' \<Longrightarrow> hub_reachable h'"
  by (rotate_tac, induction rule: rtranclp_induct) (auto intro: hub_reachable.step)

lemma server_ok_moves:
  assumes "server_ok sc s" "blob_moves (sc_Hash sc) (sv_world s, sv_blobs s) (w, b)" "bc_ok bc"
  shows "server_ok sc (s\<lparr>sv_world := w, sv_blobs := b, sv_bc := bc\<rparr>)"
  using assms hub_reachable_moves by (auto simp: server_ok_def blob_moves_def moves_def hub_moves_def)

lemma server_ok_world:
  assumes "server_ok sc s" "moves (sv_world s) w" shows "server_ok sc (s\<lparr>sv_world := w\<rparr>)"
  using server_ok_moves [OF assms(1) blob_moves_world [OF assms(2)], of "sv_bc s"] assms(1) by (simp add: server_ok_def)

lemma bc_ok_notify: "bc_ok (snd s) \<Longrightarrow> bc_ok (snd (notify_client cfg cid s))"
  using bc_ok_step [of "snd s" "BcPublish m" for m]
  by (auto simp: notify_client_def NotifyClientChange_def PublishClientStatus_def split: prod.splits sum.splits option.splits)

lemma bc_ok_callbacks:
  "bc_ok (snd s) \<Longrightarrow> bc_ok (snd (srv_onConnect cfg cid s))" "bc_ok (snd s) \<Longrightarrow> bc_ok (snd (srv_onDisconnect cfg cid s))"
  using bc_ok_notify [of "(_, snd s)"] by (auto simp: srv_onConnect_def srv_onDisconnect_def split: prod.splits)

lemma server_ok_step:
  assumes "server_pages (sc_Web sc)" "server_step sc s s'" "server_ok sc s"
  shows "server_ok sc s'"
  using assms(2)
proof cases
  case (request others io corr rnd r resp w b)
  from router_moves [OF assms(1) request(2,3)] show ?thesis
    using server_ok_moves [OF assms(3), of w b "sv_bc s"] assms(3) request(1) by (simp add: server_ok_def)
next
  case (message cid env res w)
  then show ?thesis using server_ok_world [OF assms(3)] moves_srv_message by blast
next
  case (connected cid w bc)
  have "moves (sv_world s) w" using moves_onConnect [of "(sv_world s, sv_bc s)" "sc_Web sc" cid] connected(2) by simp
  moreover have "bc_ok bc" using bc_ok_callbacks(1) [of "(sv_world s, sv_bc s)" "sc_Web sc" cid] connected(2) assms(3)
    by (simp add: server_ok_def)
  ultimately show ?thesis
    using server_ok_moves [OF assms(3) blob_moves_world, of w bc] connected(1) by simp
next
  case (compare others newID cid w)
  then show ?thesis using server_ok_world [OF assms(3)] moves_resync by metis
next
  case (disconnected cid w bc)
  have "moves (sv_world s) w" using moves_onDisconnect [of "(sv_world s, sv_bc s)" "sc_Web sc" cid] disconnected(2) by simp
  moreover have "bc_ok bc" using bc_ok_callbacks(2) [of "(sv_world s, sv_bc s)" "sc_Web sc" cid] disconnected(2) assms(3)
    by (simp add: server_ok_def)
  ultimately show ?thesis
    using server_ok_moves [OF assms(3) blob_moves_world, of w bc] disconnected(1) by simp
next
  case (collect ctx w b)
  then show ?thesis
    using server_ok_moves [OF assms(3) gc_moves [OF collect(2)], of "sv_bc s"] assms(3) by (simp add: server_ok_def)
next
  case (connection h)
  then show ?thesis
    using server_ok_world [OF assms(3) moves_net [OF hub_moves_step]] by simp
next
  case (page op)
  then show ?thesis using assms(3) bc_ok_step by (simp add: server_ok_def)
qed

lemma server_reachable_ok:
  assumes "server_reachable sc s" "server_pages (sc_Web sc)" shows "server_ok sc s"
  using assms(1)
proof induction
  case (start s)
  have "typed_wire (hub_New True ws)" "hub_reachable (hub_New True ws)" for ws
    by (simp_all add: typed_wire_def hub_New_def [of True ws]) (rule hub_reachable.start [of True ws, unfolded hub_New_def])
  moreover have "bc_ok NewBroadcaster" by (simp add: bc_ok_def NewBroadcaster_def)
  ultimately show ?case using start unfolding server_ok_def server_start_def by metis
next
  case (step s s')
  then show ?case using server_ok_step [OF assms(2)] by blast
qed

text \<open>
  The server keeps its invariants: starting from well-formed tables and blobs named after their hash,
  after any sequence of requests on any route, messages, connections, callbacks, comparisons and
  collections, with any failing database statements, system calls and writes, the tables are well-formed,
  the hub is in one of its reachable states, whatever a download is answered with has the requested hash,
  and no subscriber of the pages has more than 16 fragments waiting.
\<close>

theorem server_keeps_invariants:
  assumes "server_reachable sc s" "server_pages (sc_Web sc)"
  shows "wf_db (db (sv_world s)) \<and> hub_reachable (net (sv_world s)) \<and>
    (\<forall>sha data b. Get sha (sv_blobs s) = (Inr data, b) \<longrightarrow> EncodeToString (sc_Hash sc data) = ToLower sha) \<and>
    (\<forall>ch. length (queue_of ch (sv_bc s)) \<le> bc_capacity)"
proof (intro conjI allI impI)
  note ok = server_reachable_ok [OF assms, unfolded server_ok_def]
  show "wf_db (db (sv_world s))" "hub_reachable (net (sv_world s))" using ok by simp_all
  show "length (queue_of ch (sv_bc s)) \<le> bc_capacity" for ch using ok queue_bounded by blast
  fix sha data b
  assume "Get sha (sv_blobs s) = (Inr data, b)"
  from Get_Inr [OF this] show "EncodeToString (sc_Hash sc data) = ToLower sha"
    using ok by (auto simp: blob_ok_def blob_path_def)
qed

text \<open>
  C9. The client understands the server: whatever is on the wire of a reachable server is a subscription, a
  command, or a request for a listing that decodes on the client; the client's handler, in any state,
  accepts it, and the only error it can return, which ends the connection, is that its own answer, which
  carries the identifier of the request, could not be sent.
\<close>

theorem server_messages_understood:
  assumes "server_reachable sc s" "server_pages (sc_Web sc)" "(i, env) \<in> set (wire (net (sv_world s)))"
    and "HandleEnvelope H c ctx env rn = (r, rn')"
  shows "Type env \<in> {TypeSubscribePair, TypeFileSyncCommand} \<and> r = Inr () \<or>
    Type env \<in> {TypeListDirRequest, TypeListFilesRequest} \<and>
      (\<exists>resp. CorrelationID resp = CorrelationID env \<and> r = fst (rc_Send c resp (rn_net rn)))"
proof -
  have f: "for_client env"
    using server_reachable_ok [OF assms(1,2)] assms(3) by (fastforce simp: server_ok_def typed_wire_def)
  from f consider (sub) x where "Type env = TypeSubscribePair" "dec_SubscribePair (Payload env) = Inr x"
    | (cmd) x where "Type env = TypeFileSyncCommand" "dec_FileSyncCommand (Payload env) = Inr x"
    | (dir) x where "Type env = TypeListDirRequest" "dec_ListDirRequest (Payload env) = Inr x"
    | (files) x where "Type env = TypeListFilesRequest" "dec_ListFilesRequest (Payload env) = Inr x"
    by (auto simp: for_client_def isl_def) (metis sum.exhaust)+
  then show ?thesis
  proof cases
    case sub
    then show ?thesis using assms(4) by (simp add: HandleEnvelope_def)
  next
    case cmd
    then show ?thesis using assms(4) by (simp add: HandleEnvelope_def type_neqs)
  next
    case dir
    let ?resp = "\<lparr>Type = TypeListDirResponse, CorrelationID = CorrelationID env, Payload = enc_ListDirResponse (HandleListDir c (rn_fs rn) x)\<rparr>"
    have "r = fst (rn_Send c ?resp rn)" using assms(4) dir by (simp add: HandleEnvelope_def type_neqs)
    then have "r = fst (rc_Send c ?resp (rn_net rn))" by (simp add: rn_Send_def split: prod.splits)
    then show ?thesis using dir(1) by (intro disjI2 conjI exI [of _ ?resp]) simp_all
  next
    case files
    let ?resp = "\<lparr>Type = TypeListFilesResponse, CorrelationID = CorrelationID env, Payload = enc_ListFilesResponse (HandleListFiles H c ctx x rn)\<rparr>"
    have "r = fst (rn_Send c ?resp rn)" using assms(4) files by (simp add: HandleEnvelope_def type_neqs)
    then have "r = fst (rc_Send c ?resp (rn_net rn))" by (simp add: rn_Send_def split: prod.splits)
    then show ?thesis using files(1) by (intro disjI2 conjI exI [of _ ?resp]) simp_all
  qed
qed

section \<open>Examples\<close>

definition demo_srvconfig :: srvconfig where
  "demo_srvconfig = \<lparr>sc_PSK = ''k'', sc_AdminUser = ''admin'', sc_AdminPassword = ''pw'', sc_Limits = demo_limits,
     sc_Web = demo_webcfg, sc_Hash = toy_hash\<rparr>"

definition demo_start :: server where
  "demo_start = \<lparr>sv_world = (demo_world ''a_to_b'' [])\<lparr>net := hub_New True demo_ws\<rparr>, sv_blobs = empty_store,
     sv_bc = NewBroadcaster\<rparr>"

definition demo_io :: wsio where
  "demo_io = \<lparr>io_upgraded = False, io_frame = OtherFrame, io_written = Inr (), io_answer = (\<lambda>_. http_NotFound)\<rparr>"

lemma demo_pages [simp]: "server_pages (sc_Web demo_srvconfig)"
  by (simp add: server_pages_def demo_srvconfig_def demo_webcfg_def)

lemma demo_start_reachable: "server_reachable demo_srvconfig demo_start"
  by (rule server_reachable.start)
    (simp add: server_start_def demo_start_def, simp add: hub_New_def blob_ok_def blobs_def empty_store_def)

theorem server_keeps_invariants_witness:
  "wf_db (db (fst (snd (NewRouter demo_srvconfig demo_io (\<lambda>ch h. (Timer, h)) ''id'' [1] (demo_form ''DELETE'' ''/pairs/p1'' [])
     (sv_world demo_start, sv_blobs demo_start)))))"
proof -
  let ?n = "NewRouter demo_srvconfig demo_io (\<lambda>ch h. (Timer, h)) ''id'' [1] (demo_form ''DELETE'' ''/pairs/p1'' [])
     (sv_world demo_start, sv_blobs demo_start)"
  have "others_ok (\<lambda>ch h. (Timer, h))" by (simp add: others_ok_def wake_ready_def)
  moreover have "?n = (fst ?n, (fst (snd ?n), snd (snd ?n)))" by simp
  ultimately have "server_reachable demo_srvconfig (demo_start\<lparr>sv_world := fst (snd ?n), sv_blobs := snd (snd ?n)\<rparr>)"
    by (rule server_reachable.step [OF demo_start_reachable server_step.request])
  from server_keeps_invariants [OF this demo_pages] show ?thesis by simp
qed

theorem server_messages_understood_witness:
  "fst (HandleEnvelope toy_hash demo_rconfig (\<lambda>_. None) (subscribe_env (demo_pair ''a_to_b'') ''b'' ''mirror'' ''a_to_b'') (demo_runner '''')) = Inr ()"
proof -
  let ?h = "hub_Register (fst (NewConn ''cb'' (net (sv_world demo_start)))) (snd (NewConn ''cb'' (net (sv_world demo_start))))"
  let ?s1 = "demo_start\<lparr>sv_world := (sv_world demo_start)\<lparr>net := ?h\<rparr>\<rparr>"
  have "hub_step (net (sv_world demo_start)) ?h" by (rule hub_step.connect [OF prod.collapse [symmetric]])
  moreover have "wire ?h = wire (net (sv_world demo_start))"
    by (simp add: demo_start_def NewConn_def hub_Register_def hub_New_def Let_def)
  ultimately have 1: "server_reachable demo_srvconfig ?s1"
    by (rule server_reachable.step [OF demo_start_reachable server_step.connection])
  let ?c = "srv_onConnect (sc_Web demo_srvconfig) ''cb'' (sv_world ?s1, sv_bc ?s1)"
  have 2: "server_reachable demo_srvconfig (?s1\<lparr>sv_world := fst ?c, sv_bc := snd ?c\<rparr>)"
    by (rule server_reachable.step [OF 1 server_step.connected [OF prod.collapse [symmetric]]])
  have "wire (net (fst ?c)) = [(0, subscribe_env (demo_pair ''a_to_b'') ''b'' ''mirror'' ''a_to_b'')]" by code_simp
  then have "(0, subscribe_env (demo_pair ''a_to_b'') ''b'' ''mirror'' ''a_to_b'') \<in>
      set (wire (net (sv_world (?s1\<lparr>sv_world := fst ?c, sv_bc := snd ?c\<rparr>))))" by simp
  from server_messages_understood [OF 2 demo_pages this prod.collapse [symmetric]] show ?thesis
    by (simp add: subscribe_env_def msg_type_defs)
qed

section \<open>Access\<close>

definition tables :: "database \<Rightarrow> Client list \<times> SyncPair list \<times> FileState list \<times> SyncRun list \<times> Setting list" where
  "tables d = (clients d, sync_pairs d, file_state d, sync_runs d, settings d)"

lemma tables_audit_now [simp]: "tables (db (audit_now k i d w)) = tables (db w)"
  by (auto simp: tables_def audit_now_def AppendAuditLog_def db_exec Now_def split: option.splits)

definition bearer :: "httpreq \<Rightarrow> string" where
  "bearer r = extractBearer (Get_value ''Authorization'' (rq_Header r))"

text \<open>
  C10. What a request needs to change the server: when a request on any route changes a table other than the
  audit log (where refused requests are recorded), or the blobs, it carries the key of the clients, or it is a
  request to the pages that changes only the database, with a method that is not \<open>GET\<close>, \<open>HEAD\<close> or
  \<open>OPTIONS\<close>, and the token of its cookie (or the one drawn for it) in its header or form; and when a name and a
  password of the administrator are both configured, such a request carries them. By default neither is
  configured: then the token, which a page hands to everyone who asks for it, is all a request needs.
\<close>

theorem router_access:
  assumes "NewRouter sc io others corr rnd r (w, b) = (resp, (w', b'))" "tables (db w') \<noteq> tables (db w) \<or> b' \<noteq> b"
  shows "bearer r = sc_PSK sc \<or>
    b' = b \<and> (sc_AdminUser sc \<noteq> [] \<and> sc_AdminPassword sc \<noteq> [] \<longrightarrow> rq_BasicAuth r = Some (sc_AdminUser sc, sc_AdminPassword sc)) \<and>
    rq_Method r \<notin> {''GET'', ''HEAD'', ''OPTIONS''} \<and>
    (\<exists>tok. tok \<noteq> [] \<and> (map_of (rq_Cookies r) csrfCookieName = Some tok \<or> tok = EncodeToString rnd) \<and>
       (Get_value csrfHeaderName (rq_Header r) = tok \<or> Get_value csrfFormField (rq_Form r) = tok))"
proof (rule disj_imp [THEN iffD2], rule impI)
  assume nb: "bearer r \<noteq> sc_PSK sc"
  have auth: "tables (db w') = tables (db w) \<and> b' = b"
    if "h = AuthBearer (sc_PSK sc) g \<or> h = AuthBearerWithClientID (sc_PSK sc) g" "h r (w, b) = (resp, (w', b'))" for h g
    using nb that by (auto simp: AuthBearer_def AuthBearerWithClientID_def bearer_def)
  let ?R = "[(''/v1/ws'', AuthBearer (sc_PSK sc) (ws_http io)),
      (''/v1/clients/'', AuthBearer (sc_PSK sc) (on_world (listdir_ServeHTTP others corr))),
      (''/v1/blobs/'', blobs_route (sc_Hash sc) (sc_PSK sc) (sc_Limits sc)),
      (''/'', on_world (admin_handler rnd (sc_AdminUser sc) (sc_AdminPassword sc) (sc_Web sc)))]"
  show "b' = b \<and> (sc_AdminUser sc \<noteq> [] \<and> sc_AdminPassword sc \<noteq> [] \<longrightarrow> rq_BasicAuth r = Some (sc_AdminUser sc, sc_AdminPassword sc)) \<and>
    rq_Method r \<notin> {''GET'', ''HEAD'', ''OPTIONS''} \<and>
    (\<exists>tok. tok \<noteq> [] \<and> (map_of (rq_Cookies r) csrfCookieName = Some tok \<or> tok = EncodeToString rnd) \<and>
       (Get_value csrfHeaderName (rq_Header r) = tok \<or> Get_value csrfFormField (rq_Form r) = tok))"
  proof (cases rule: ServeMux_cases [of ?R r "(w, b)"])
    case 1
    then show ?thesis using assms by (simp add: NewRouter_def)
  next
    case (2 pat h)
    have h: "h r (w, b) = (resp, (w', b'))" using 2(3) assms(1) by (simp add: NewRouter_def)
    have "h = on_world (admin_handler rnd (sc_AdminUser sc) (sc_AdminPassword sc) (sc_Web sc))"
      using 2(1) auth [of h, OF _ h] assms(2) by (auto simp: blobs_route_def)
    then have a: "admin_handler rnd (sc_AdminUser sc) (sc_AdminPassword sc) (sc_Web sc) r w = (resp, w')" "b' = b"
      using h by (auto simp: on_world_def split: prod.splits)
    then have "db w' \<noteq> db w" using assms(2) by (auto simp: tables_def)
    then show ?thesis using admin_change_needs_token [OF a(1)] a(2) by blast
  qed
qed

theorem router_access_witness:
  "rq_BasicAuth (demo_form ''DELETE'' ''/pairs/p1'' []) = Some (''admin'', ''pw'')"
proof -
  let ?r = "demo_form ''DELETE'' ''/pairs/p1'' []" and ?w = "demo_world ''a_to_b'' []"
  let ?n = "NewRouter demo_srvconfig demo_io (\<lambda>ch h. (Timer, h)) ''id'' [1] ?r (?w, empty_store)"
  have "sync_pairs (db (fst (snd ?n))) = []" by code_simp
  then have t: "tables (db (fst (snd ?n))) \<noteq> tables (db ?w) \<or> snd (snd ?n) \<noteq> empty_store"
    by (auto simp: tables_def demo_world_def)
  have "?n = (fst ?n, (fst (snd ?n), snd (snd ?n)))" by simp
  from router_access [OF this t] show ?thesis
    by (simp add: bearer_def demo_form_def Get_value_def csrfHeaderName_def extractBearer_def HasPrefix_def demo_srvconfig_def)
qed

section \<open>A late disconnection\<close>

lemma find_client_status:
  "find_client i (snd (update_client_rows (\<lambda>r. c_ID r = i) (\<lambda>r. r\<lparr>c_Status := s, c_LastSeen := t, c_UpdatedAt := u\<rparr>) d)) =
     map_option (\<lambda>r. r\<lparr>c_Status := s, c_LastSeen := t, c_UpdatedAt := u\<rparr>) (find_client i d)"
proof -
  have "List.find (\<lambda>r. c_ID r = i) (map (\<lambda>r. if c_ID r = i then r\<lparr>c_Status := s, c_LastSeen := t, c_UpdatedAt := u\<rparr> else r) cs) =
     map_option (\<lambda>r. r\<lparr>c_Status := s, c_LastSeen := t, c_UpdatedAt := u\<rparr>) (List.find (\<lambda>r. c_ID r = i) cs)" for cs
    by (induction cs) auto
  then show ?thesis by (simp add: find_client_def update_client_rows_def)
qed

lemma UpdateClientStatus_ok:
  "sql_ok w \<Longrightarrow> \<exists>w'. UpdateClientStatus i s t w = (Inr (), w') \<and> sql_ok w' \<and> net w' = net w \<and>
     db w' = snd (update_client_rows (\<lambda>r. c_ID r = i) (\<lambda>r. r\<lparr>c_Status := s, c_LastSeen := t, c_UpdatedAt := clock w (ticks w)\<rparr>) (db w))"
  by (simp add: UpdateClientStatus_def Now_def exec_def sql_ok_def update_client_rows_def)

lemma net_GetClient: "GetClient i w = (x, w') \<Longrightarrow> net w' = net w"
  using net_store_ops(3) [of "find_client i" "''scan client''" scanClient w] by (simp add: GetClient_def)

lemma net_DeleteClient: "DeleteClient i w = (x, w') \<Longrightarrow> net w' = net w"
  using net_store_step [of "OpDeleteClient i" w] by simp

text \<open>
  A client that is connected can be deleted: when the callback of a replaced connection runs late, the
  row of the client says \<open>offline\<close> although its new connection is registered; the pages, which look at
  the row only, then delete the client with its pairs, and it stays connected.
\<close>

theorem late_disconnect_deletes_online_client:
  assumes "sql_ok w" "find_client cid (db w) = Some c" "IsOnline cid (net w)"
    and "srv_onDisconnect cfg cid (w, bc) = (w1, bc1)" "handleClientDelete cid r w1 = (resp, w2)"
  shows "rs_Status resp = 200 \<and> find_client cid (db w2) = None \<and> IsOnline cid (net w2)"
proof -
  let ?w0 = "w\<lparr>ticks := Suc (ticks w)\<rparr>"
  obtain w' where u: "UpdateClientStatus cid ''offline'' (clock w (ticks w)) ?w0 = (Inr (), w')" "sql_ok w'" "net w' = net w"
    "db w' = snd (update_client_rows (\<lambda>r. c_ID r = cid)
       (\<lambda>r. r\<lparr>c_Status := ''offline'', c_LastSeen := clock w (ticks w), c_UpdatedAt := clock w (Suc (ticks w))\<rparr>) (db w))"
    using UpdateClientStatus_ok [of ?w0 cid "''offline''" "clock w (ticks w)"] assms(1) by (auto simp: sql_ok_def)
  let ?c = "c\<lparr>c_Status := ''offline'', c_LastSeen := clock w (ticks w), c_UpdatedAt := clock w (Suc (ticks w))\<rparr>"
  have f: "find_client cid (db w') = Some ?c" using assms(2) by (simp add: u(4) find_client_status)
  then have "GetClient cid w' = (Inr ?c, w'\<lparr>stmts := Suc (stmts w')\<rparr>)"
    using u(2) by (simp add: GetClient_def query_row_def query_def exec_ok scanClient_def scan_row_def)
  then have "w1 = w'\<lparr>stmts := Suc (stmts w')\<rparr>"
    using assms(4) u(1) by (simp add: srv_onDisconnect_def Now_def notify_client_def)
  then have w1: "sql_ok w1" "find_client cid (db w1) = Some ?c" "net w1 = net w"
    using u f by (simp_all add: sql_ok_def)
  have "net w2 = net w1"
    using assms(5) by (auto simp: handleClientDelete_def split: prod.splits sum.splits if_splits dest!: net_GetClient net_DeleteClient)
  then show ?thesis
    using handleClientDelete_ok [OF w1(1,2) assms(5)] w1(3) assms(3) by (auto simp: find_client_def find_None_iff)
qed

theorem late_disconnect_deletes_online_client_witness:
  "IsOnline ''ca'' (net (snd (handleClientDelete ''ca'' (demo_form ''DELETE'' ''/clients/ca'' [])
     (fst (srv_onDisconnect demo_webcfg ''ca'' (demo_world ''a_to_b'' [], NewBroadcaster))))))"
  using late_disconnect_deletes_online_client [OF _ _ _ prod.collapse [symmetric] prod.collapse [symmetric],
      of "demo_world ''a_to_b'' []" "''ca''" "demo_client ''ca''"]
  by (simp add: IsOnline_def) (simp add: demo_world_def find_client_def demo_client_def)

end
