(* ===== verification/ClientConn.thy ===== *)
theory ClientConn
  imports Proto Complex_Main
begin

text \<open>
  The connection of the client (\<open>internal/client/conn\<close>): the waiting times between attempts
  (\<open>backoff.go\<close>) and the loop that connects, registers, reads and connects again (\<open>conn.go\<close>).

  The WebSocket library and the context are the environment \<open>wsenv\<close>. Its calls are numbered by the
  field \<open>cc_tick\<close>: \<open>e_done k\<close> says whether the context is done at the \<open>k\<close>-th call, \<open>e_dial k\<close>,
  \<open>e_write k\<close> and \<open>e_read k\<close> what a call made then gives (a frame that is read is an envelope or the
  error of decoding it), \<open>e_rand k\<close> the number \<open>Float64\<close> draws and \<open>e_waited k\<close> whether the select of a
  wait takes the timer. The callbacks work on a state of the application. The loop may run for ever, so
  it is a partial function.
\<close>

section \<open>Waiting times\<close>

text \<open>
  Durations are nanoseconds. The computation in \<open>float64\<close> is done in rational numbers: the values are
  below \<open>2 ^ 37\<close>, so the rounding it leaves out is far below a nanosecond. \<open>math.Pow\<close> overflows to
  infinity only where the minimum is the upper limit anyway.
\<close>

record ExponentialBackoff =
  bo_min :: int
  bo_max :: int
  bo_jitterFrac :: rat
  bo_attempt :: nat

definition NewExponentialBackoff :: ExponentialBackoff where
  "NewExponentialBackoff = \<lparr>bo_min = 1000000000, bo_max = 60 * 1000000000, bo_jitterFrac = 1 / 5, bo_attempt = 0\<rparr>"

definition bo_delay :: "ExponentialBackoff \<Rightarrow> int" where
  "bo_delay b = min (bo_min b * 2 ^ bo_attempt b) (bo_max b)"

definition Next :: "rat \<Rightarrow> ExponentialBackoff \<Rightarrow> int \<times> ExponentialBackoff" where
  "Next u b =
     (let delay = of_int (bo_delay b); jitter = delay * bo_jitterFrac b * (u * 2 - 1); d = delay + jitter
      in (if d < 0 then - \<lfloor>- d\<rfloor> else \<lfloor>d\<rfloor>, b\<lparr>bo_attempt := Suc (bo_attempt b)\<rparr>))"

definition Reset :: "ExponentialBackoff \<Rightarrow> ExponentialBackoff" where
  "Reset b = b\<lparr>bo_attempt := 0\<rparr>"

section \<open>The connection\<close>

definition ErrNotConnected :: err where
  "ErrNotConnected = Sentinel ''conn: not connected''"

definition Canceled :: err where
  "Canceled = Sentinel ''context canceled''"

record cconfig =
  cf_ClientID :: string
  cf_Hostname :: string
  cf_RootPath :: string
  cf_Version :: string

record wsenv =
  e_done :: "nat \<Rightarrow> bool"
  e_dial :: "nat \<Rightarrow> unit result"
  e_write :: "nat \<Rightarrow> unit result"
  e_read :: "nat \<Rightarrow> (err + Envelope) result"
  e_rand :: "nat \<Rightarrow> rat"
  e_waited :: "nat \<Rightarrow> bool"

text \<open>\<open>cc_waits\<close> records the waiting times, \<open>cc_sent\<close> the envelopes written.\<close>

record cconn =
  cc_bo :: ExponentialBackoff
  cc_ws :: bool
  cc_closed :: bool
  cc_tick :: nat
  cc_waits :: "int list"
  cc_sent :: "Envelope list"

definition cconn_New :: cconn where
  "cconn_New = \<lparr>cc_bo = NewExponentialBackoff, cc_ws = False, cc_closed = False, cc_tick = 0, cc_waits = [], cc_sent = []\<rparr>"

definition tick :: "cconn \<Rightarrow> cconn" where
  "tick c = c\<lparr>cc_tick := Suc (cc_tick c)\<rparr>"

definition ws_Write :: "wsenv \<Rightarrow> Envelope \<Rightarrow> cconn \<Rightarrow> unit result \<times> cconn" where
  "ws_Write E env c = (case e_write E (cc_tick c) of
       Inl e \<Rightarrow> (Inl e, tick c)
     | Inr _ \<Rightarrow> (Inr (), (tick c)\<lparr>cc_sent := cc_sent c @ [env]\<rparr>))"

definition cconn_Send :: "wsenv \<Rightarrow> Envelope \<Rightarrow> cconn \<Rightarrow> unit result \<times> cconn" where
  "cconn_Send E env c = (if \<not> cc_ws c then (Inl ErrNotConnected, c) else ws_Write E env c)"

text \<open>
  \<open>Close\<close> closes the channel \<open>closed\<close>, which nothing reads, and the current connection; a second
  call panics. Closing the connection shows as an error of the next read.
\<close>

definition cconn_Close :: "cconn \<Rightarrow> cconn option" where
  "cconn_Close c = (if cc_closed c then None else Some (c\<lparr>cc_closed := True\<rparr>))"

definition dial :: "wsenv \<Rightarrow> cconn \<Rightarrow> unit result \<times> cconn" where
  "dial E c = (case e_dial E (cc_tick c) of
       Inl e \<Rightarrow> (Inl (Wrap ''conn: dial'' e), tick c)
     | Inr _ \<Rightarrow> (Inr (), tick c))"

definition register_env :: "cconfig \<Rightarrow> Envelope" where
  "register_env cf = \<lparr>Type = TypeRegisterRequest, CorrelationID = [],
     Payload = enc_RegisterRequest \<lparr>rr_ClientID = cf_ClientID cf, rr_Hostname = cf_Hostname cf,
       rr_RootPath = cf_RootPath cf, rr_Version = cf_Version cf, rr_ProtoVersion = ProtoVersion\<rparr>\<rparr>"

text \<open>What \<open>register\<close> does with the first frame it reads.\<close>

definition register_response :: "err + Envelope \<Rightarrow> (string \<times> string) list result" where
  "register_response frame = (case frame of
       Inl e \<Rightarrow> Inl (Wrap ''conn: unmarshal register response'' e)
     | Inr resp \<Rightarrow>
         if Type resp \<noteq> TypeRegisterResponse
         then Inl (Opaque (''conn: expected register_response, got '' @ Sprintf_q (Type resp)))
         else (case dec_RegisterResponse (Payload resp) of
             Inl e \<Rightarrow> Inl (Wrap ''conn: decode register response payload'' e)
           | Inr r \<Rightarrow> if \<not> rgr_OK r then Inl (Opaque (''conn: register rejected: '' @ rgr_Reason r))
                      else Inr (rgr_Settings r)))"

definition register :: "wsenv \<Rightarrow> cconfig \<Rightarrow> cconn \<Rightarrow> (string \<times> string) list result \<times> cconn" where
  "register E cf c = (case ws_Write E (register_env cf) c of
       (Inl e, c1) \<Rightarrow> (Inl (Wrap ''conn: send register request'' e), c1)
     | (Inr _, c1) \<Rightarrow> (case e_read E (cc_tick c1) of
         Inl e \<Rightarrow> (Inl (Wrap ''conn: read register response'' e), tick c1)
       | Inr frame \<Rightarrow> (register_response frame, tick c1)))"

type_synonym 's onConnected = "(string \<times> string) list \<Rightarrow> 's \<Rightarrow> 's"
type_synonym 's onMessage = "Envelope \<Rightarrow> 's \<Rightarrow> unit result \<times> 's"

text \<open>\<open>readLoop\<close> ends with the first error of a read or of \<open>onMessage\<close>.\<close>

partial_function (option) readLoop :: "wsenv \<Rightarrow> 's onMessage \<Rightarrow> cconn \<Rightarrow> 's \<Rightarrow> (err \<times> cconn \<times> 's) option" where
  "readLoop E onMessage c s = (case e_read E (cc_tick c) of
       Inl e \<Rightarrow> Some (e, tick c, s)
     | Inr frame \<Rightarrow> (case frame of
         Inl e \<Rightarrow> readLoop E onMessage (tick c) s
       | Inr env \<Rightarrow>
           if Type env = TypePong then readLoop E onMessage (tick c) s
           else (case onMessage env s of (r, s1) \<Rightarrow> (case r of
               Inl e \<Rightarrow> Some (e, tick c, s1)
             | Inr u \<Rightarrow> readLoop E onMessage (tick c) s1))))"

text \<open>\<open>wait := c.bo.Next()\<close> and the select: whether the loop goes on.\<close>

definition wait_next :: "wsenv \<Rightarrow> cconn \<Rightarrow> bool \<times> cconn" where
  "wait_next E c = (case Next (e_rand E (cc_tick c)) (cc_bo c) of (d, b) \<Rightarrow>
     (e_waited E (cc_tick c), (tick c)\<lparr>cc_bo := b, cc_waits := cc_waits c @ [d]\<rparr>))"

text \<open>
  \<open>Run\<close>: one round, which ends the loop (with \<open>nil\<close>, the only value it returns) or goes on.
\<close>

datatype 's round = Return "cconn \<times> 's" | Again "cconn \<times> 's"

definition after_wait :: "wsenv \<Rightarrow> cconn \<Rightarrow> 's \<Rightarrow> 's round" where
  "after_wait E c s =
     (if e_done E (cc_tick c) then Return (tick c, s)
      else (case wait_next E (tick c) of (go, c1) \<Rightarrow> if go then Again (c1, s) else Return (c1, s)))"

definition after_read :: "wsenv \<Rightarrow> err \<Rightarrow> cconn \<Rightarrow> 's \<Rightarrow> 's round" where
  "after_read E e c s =
     (let c1 = c\<lparr>cc_ws := False\<rparr> in
      if e_done E (cc_tick c1) \<or> errors_Is e Canceled then Return (tick c1, s)
      else (case wait_next E (tick c1) of (go, c2) \<Rightarrow> if go then Again (c2, s) else Return (c2, s)))"

definition run_round :: "wsenv \<Rightarrow> cconfig \<Rightarrow> 's onConnected \<Rightarrow> 's onMessage \<Rightarrow> cconn \<Rightarrow> 's \<Rightarrow> 's round option" where
  "run_round E cf onConnected onMessage c s =
     (if e_done E (cc_tick c) then Some (Return (tick c, s))
      else (case dial E (tick c) of
        (Inl e, c1) \<Rightarrow> Some (after_wait E c1 s)
      | (Inr _, c1) \<Rightarrow>
          (case register E cf (c1\<lparr>cc_ws := True, cc_bo := Reset (cc_bo c1)\<rparr>) of
             (Inl e, c2) \<Rightarrow> Some (after_wait E (c2\<lparr>cc_ws := False\<rparr>) s)
           | (Inr settings, c2) \<Rightarrow>
               (case readLoop E onMessage c2 (onConnected settings s) of
                  None \<Rightarrow> None
                | Some (e, c3, s3) \<Rightarrow> Some (after_read E e c3 s3)))))"

partial_function (option) Run :: "wsenv \<Rightarrow> cconfig \<Rightarrow> 's onConnected \<Rightarrow> 's onMessage \<Rightarrow> cconn \<Rightarrow> 's \<Rightarrow> (cconn \<times> 's) option" where
  "Run E cf onConnected onMessage c s = (case run_round E cf onConnected onMessage c s of
       None \<Rightarrow> None
     | Some (Return x) \<Rightarrow> Some x
     | Some (Again x) \<Rightarrow> (case x of (c1, s1) \<Rightarrow> Run E cf onConnected onMessage c1 s1))"

section \<open>Bounds of the waiting times\<close>

definition bo_ok :: "ExponentialBackoff \<Rightarrow> bool" where
  "bo_ok b \<longleftrightarrow> bo_min b = 1000000000 \<and> bo_max b = 60 * 1000000000 \<and> bo_jitterFrac b = 1 / 5"

definition rand_ok :: "wsenv \<Rightarrow> bool" where
  "rand_ok E \<longleftrightarrow> (\<forall>k. 0 \<le> e_rand E k \<and> e_rand E k < 1)"

lemma bo_ok_ops [simp]:
  "bo_ok NewExponentialBackoff" "bo_ok (Reset b) = bo_ok b" "bo_ok (snd (Next u b)) = bo_ok b"
  by (simp_all add: bo_ok_def NewExponentialBackoff_def Reset_def Next_def Let_def)

lemma bo_delay_range:
  assumes "bo_ok b"
  shows "5 dvd bo_delay b" "1000000000 \<le> bo_delay b" "bo_delay b \<le> 60000000000"
proof -
  have "(1::int) \<le> 2 ^ bo_attempt b" by simp
  then have "1000000000 \<le> 1000000000 * (2 ^ bo_attempt b :: int)" by linarith
  then show "5 dvd bo_delay b" "1000000000 \<le> bo_delay b" "bo_delay b \<le> 60000000000"
    using assms by (auto simp: bo_delay_def bo_ok_def min_def)
qed

lemma bo_ok_Next: "Next u b = (d, b') \<Longrightarrow> bo_ok b' = bo_ok b"
  by (auto simp: Next_def Let_def bo_ok_def)

text \<open>A waiting time is within a fifth of the delay, which doubles from one second up to sixty.\<close>

lemma Next_bounds:
  assumes "bo_ok b" "0 \<le> u" "u < 1"
  shows "4 * bo_delay b \<le> 5 * fst (Next u b) \<and> 5 * fst (Next u b) \<le> 6 * bo_delay b"
proof -
  obtain k where k: "bo_delay b = 5 * k" using bo_delay_range(1) [OF assms(1)] by blast
  have k0: "0 \<le> k" using bo_delay_range(2) [OF assms(1)] k by simp
  let ?x = "of_int (5 * k) + of_int (5 * k) * (1 / 5) * (u * 2 - 1) :: rat"
  have x: "?x = of_int (4 * k) + of_int (2 * k) * u" by (simp add: algebra_simps)
  have lo: "of_int (4 * k) \<le> ?x" using k0 assms(2) unfolding x by simp
  have "of_int (2 * k) * u \<le> of_int (2 * k) * 1"
    using k0 assms(3) by (intro mult_left_mono) simp_all
  then have hi: "?x \<le> of_int (6 * k)" unfolding x by simp
  have "0 \<le> of_int (4 * k) + (0 :: rat)" using k0 by simp
  then have "\<not> ?x < 0" using lo by linarith
  moreover have j: "bo_jitterFrac b = 1 / 5" using assms(1) by (simp add: bo_ok_def)
  ultimately have "fst (Next u b) = \<lfloor>?x\<rfloor>"
    unfolding Next_def Let_def k j by (simp only: if_False fst_conv)
  moreover have "4 * k \<le> \<lfloor>?x\<rfloor>" using lo by (simp only: le_floor_iff)
  moreover have "\<lfloor>?x\<rfloor> \<le> 6 * k" using hi by (metis floor_of_int floor_mono)
  ultimately show ?thesis using k by simp
qed

definition wait_range :: "int \<Rightarrow> bool" where
  "wait_range d \<longleftrightarrow> 800000000 \<le> d \<and> d \<le> 72000000000"

lemma Next_range: "bo_ok b \<Longrightarrow> 0 \<le> u \<Longrightarrow> u < 1 \<Longrightarrow> wait_range (fst (Next u b))"
  using Next_bounds [of b u] bo_delay_range(2,3) [of b] by (auto simp: wait_range_def)

section \<open>The loop ends when the context is cancelled\<close>

text \<open>The context is done from the \<open>N\<close>-th call on at the latest, and reads then fail.\<close>

definition cancels :: "wsenv \<Rightarrow> nat \<Rightarrow> bool" where
  "cancels E N \<longleftrightarrow> e_done E N \<and> (\<forall>k m. e_done E k \<longrightarrow> k \<le> m \<longrightarrow> e_done E m) \<and> (\<forall>k. e_done E k \<longrightarrow> isl (e_read E k))"

lemma cancelsD: "cancels E N \<Longrightarrow> N \<le> k \<Longrightarrow> e_done E k \<and> (\<exists>e. e_read E k = Inl e)"
  by (fastforce simp: cancels_def isl_def)

text \<open>What every piece of the loop keeps, and that it uses at least one call.\<close>

definition steps_to :: "cconn \<Rightarrow> cconn \<Rightarrow> bool" where
  "steps_to c c' \<longleftrightarrow> cc_tick c < cc_tick c' \<and> (bo_ok (cc_bo c) \<longrightarrow> bo_ok (cc_bo c')) \<and>
     (bo_ok (cc_bo c) \<longrightarrow> list_all wait_range (cc_waits c) \<longrightarrow> list_all wait_range (cc_waits c'))"

lemma steps_to_trans: "steps_to a b \<Longrightarrow> steps_to b c \<Longrightarrow> steps_to a c"
  by (auto simp: steps_to_def)

lemma steps_to_tick: "steps_to c (tick c)"
  by (simp add: steps_to_def tick_def)

lemma steps_to_ws: "steps_to c (c'\<lparr>cc_ws := x\<rparr>) = steps_to c c'" "steps_to (c\<lparr>cc_ws := x\<rparr>) c' = steps_to c c'"
  by (simp_all add: steps_to_def)

lemma steps_to_Write: "ws_Write E env c = (r, c') \<Longrightarrow> steps_to c c'"
  by (auto simp: ws_Write_def steps_to_def tick_def split: sum.splits)

lemma steps_to_dial: "dial E c = (r, c') \<Longrightarrow> steps_to c c' \<and> cc_ws c' = cc_ws c"
  by (auto simp: dial_def steps_to_def tick_def split: sum.splits)

lemma steps_to_register: "register E cf c = (r, c') \<Longrightarrow> steps_to c c'"
  by (auto simp: register_def split: prod.splits sum.splits dest!: steps_to_Write
      intro: steps_to_trans [OF _ steps_to_tick])

lemma steps_to_wait: "rand_ok E \<Longrightarrow> wait_next E c = (go, c') \<Longrightarrow> steps_to c c' \<and> cc_ws c' = cc_ws c"
  using Next_range [of "cc_bo c" "e_rand E (cc_tick c)"]
  by (auto simp: wait_next_def steps_to_def tick_def rand_ok_def split: prod.splits dest: bo_ok_Next)

definition round_to :: "cconn \<Rightarrow> 's round \<Rightarrow> bool" where
  "round_to c rd \<longleftrightarrow> (case rd of Return (c', s') \<Rightarrow> steps_to c c' \<and> \<not> cc_ws c' | Again (c', s') \<Rightarrow> steps_to c c' \<and> \<not> cc_ws c')"

lemma round_to_trans: "steps_to c c1 \<Longrightarrow> round_to c1 rd \<Longrightarrow> round_to c rd"
  by (auto simp: round_to_def split: round.splits intro: steps_to_trans)

lemma after_wait_round: "rand_ok E \<Longrightarrow> \<not> cc_ws c \<Longrightarrow> round_to c (after_wait E c s)"
  using steps_to_wait [of E "tick c"] steps_to_tick [of c]
  by (auto simp: after_wait_def round_to_def tick_def split: prod.splits intro: steps_to_trans)

lemma after_read_round:
  assumes "rand_ok E"
  shows "round_to c (after_read E e c s)"
proof -
  let ?c = "tick (c\<lparr>cc_ws := False\<rparr>)"
  have st: "steps_to c ?c" "\<not> cc_ws ?c" by (simp_all add: steps_to_def tick_def)
  obtain go c2 where w: "wait_next E ?c = (go, c2)" by fastforce
  have "steps_to c c2" "\<not> cc_ws c2"
    using steps_to_wait [OF assms w] st steps_to_trans [OF st(1)] by simp_all
  then show ?thesis using st by (auto simp: after_read_def round_to_def Let_def w)
qed

lemma readLoop_returns:
  assumes "cancels E N"
  shows "\<exists>e c' s'. readLoop E onMessage c s = Some (e, c', s') \<and> steps_to c c'"
proof (induction "N - cc_tick c" arbitrary: c s rule: less_induct)
  case less
  have next_ok: "\<exists>e c' s'. readLoop E onMessage (tick c) s1 = Some (e, c', s') \<and> steps_to c c'"
    if "\<not> isl (e_read E (cc_tick c))" for s1
  proof -
    have "cc_tick c < N" using cancelsD [OF assms, of "cc_tick c"] that by (auto simp: isl_def not_le [symmetric])
    then have "N - cc_tick (tick c) < N - cc_tick c" by (simp add: tick_def)
    from less [OF this] show ?thesis using steps_to_trans [OF steps_to_tick] by blast
  qed
  show ?case
  proof (cases "e_read E (cc_tick c)")
    case (Inl e)
    then show ?thesis using steps_to_tick by (subst readLoop.simps) simp
  next
    case (Inr frame)
    then have n: "\<exists>e c' s'. readLoop E onMessage (tick c) s1 = Some (e, c', s') \<and> steps_to c c'" for s1
      using next_ok by simp
    show ?thesis
    proof (cases frame)
      case Inl': (Inl e)
      show ?thesis using n [of s] by (subst readLoop.simps) (simp add: Inr Inl')
    next
      case Inr': (Inr env)
      obtain r s1 where m: "onMessage env s = (r, s1)" by fastforce
      show ?thesis
        using n [of s] n [of s1] steps_to_tick [of c]
        by (subst readLoop.simps, cases r) (auto simp: Inr Inr' m)
    qed
  qed
qed

lemma run_round_returns:
  assumes "cancels E N" "rand_ok E" "\<not> cc_ws c"
  shows "\<exists>rd. run_round E cf onConnected onMessage c s = Some rd \<and> round_to c rd \<and> (N \<le> cc_tick c \<longrightarrow> (\<exists>x. rd = Return x))"
proof (cases "e_done E (cc_tick c)")
  case True
  then show ?thesis using assms(3) steps_to_tick [of c] by (simp add: run_round_def round_to_def tick_def)
next
  case False
  then have N: "\<not> N \<le> cc_tick c" using cancelsD [OF assms(1)] by blast
  obtain r c1 where d: "dial E (tick c) = (r, c1)" by fastforce
  have c1: "steps_to c c1" "\<not> cc_ws c1"
    using steps_to_dial [OF d] steps_to_trans [OF steps_to_tick] assms(3) by (auto simp: tick_def)
  show ?thesis
  proof (cases r)
    case (Inl e)
    then show ?thesis using False N d round_to_trans [OF c1(1) after_wait_round [OF assms(2) c1(2)]]
      by (simp add: run_round_def)
  next
    case (Inr u)
    let ?c = "c1\<lparr>cc_ws := True, cc_bo := Reset (cc_bo c1)\<rparr>"
    obtain q c2 where g: "register E cf ?c = (q, c2)" by fastforce
    have "steps_to c c2" using steps_to_register [OF g] c1(1) by (auto simp: steps_to_def)
    note c2 = this
    show ?thesis
    proof (cases q)
      case q: (Inl e)
      have "round_to c (after_wait E (c2\<lparr>cc_ws := False\<rparr>) s)"
        using c2 by (intro round_to_trans [OF _ after_wait_round [OF assms(2)]]) (simp_all add: steps_to_ws)
      then show ?thesis using False N d Inr g q by (simp add: run_round_def)
    next
      case q: (Inr settings)
      obtain e c3 s3 where l: "readLoop E onMessage c2 (onConnected settings s) = Some (e, c3, s3)" "steps_to c2 c3"
        using readLoop_returns [OF assms(1), of onMessage c2 "onConnected settings s"] by blast
      have "round_to c (after_read E e c3 s3)"
        using steps_to_trans [OF c2 l(2)] by (rule round_to_trans) (rule after_read_round [OF assms(2)])
      then show ?thesis using False N d Inr g q l(1) by (simp add: run_round_def)
    qed
  qed
qed

lemma Run_Return:
  "run_round E cf onConnected onMessage c s = Some (Return x) \<Longrightarrow> Run E cf onConnected onMessage c s = Some x"
  by (subst Run.simps) simp

lemma Run_Again:
  "run_round E cf onConnected onMessage c s = Some (Again (c1, s1)) \<Longrightarrow>
   Run E cf onConnected onMessage c s = Run E cf onConnected onMessage c1 s1"
  by (subst Run.simps) simp

text \<open>
  C30. The client's loop ends when it is told to: if the context is cancelled at some point, however often
  dialling, registering and reading succeed or fail before and whatever the callbacks do, \<open>Run\<close> returns,
  without a connection, and every time it waited for between 0.8 and 72 seconds.
\<close>

theorem Run_returns:
  assumes "cancels E N" "rand_ok E"
  shows "\<exists>c s'. Run E cf onConnected onMessage cconn_New s = Some (c, s') \<and> \<not> cc_ws c \<and>
    (\<forall>d \<in> set (cc_waits c). 800000000 \<le> d \<and> d \<le> 72000000000)"
proof -
  have "\<exists>c' s'. Run E cf onConnected onMessage c s = Some (c', s') \<and> \<not> cc_ws c' \<and> steps_to c c'"
    if "\<not> cc_ws c" for c s
    using that
  proof (induction "N - cc_tick c" arbitrary: c s rule: less_induct)
    case less
    obtain rd where rd: "run_round E cf onConnected onMessage c s = Some rd" "round_to c rd"
      "N \<le> cc_tick c \<longrightarrow> (\<exists>x. rd = Return x)"
      using run_round_returns [OF assms less.prems, of cf onConnected onMessage s] by blast
    show ?case
    proof (cases rd)
      case (Return x)
      obtain c1 s1 where x: "x = (c1, s1)" by fastforce
      have "steps_to c c1 \<and> \<not> cc_ws c1" using rd(2) Return x by (simp add: round_to_def)
      then show ?thesis using Run_Return [OF rd(1) [unfolded Return]] x by blast
    next
      case (Again x)
      obtain c1 s1 where x: "x = (c1, s1)" by fastforce
      have 1: "steps_to c c1" "\<not> cc_ws c1" using rd(2) Again x by (simp_all add: round_to_def)
      have "N - cc_tick c1 < N - cc_tick c" using 1(1) rd(3) Again by (auto simp: steps_to_def)
      from less.hyps [OF this 1(2)] show ?thesis
        using Run_Again [OF rd(1) [unfolded Again x]] steps_to_trans [OF 1(1)] by metis
    qed
  qed
  from this [of cconn_New s] obtain c s' where "Run E cf onConnected onMessage cconn_New s = Some (c, s')"
    "\<not> cc_ws c" "steps_to cconn_New c"
    by (auto simp: cconn_New_def)
  moreover from this(3) have "list_all wait_range (cc_waits c)"
    by (simp add: steps_to_def cconn_New_def)
  ultimately show ?thesis by (auto simp: wait_range_def list_all_iff)
qed

definition demo_wsenv :: wsenv where
  "demo_wsenv = \<lparr>e_done = (\<lambda>k. k \<ge> 9), e_dial = (\<lambda>k. if k < 5 then Inl (Opaque ''refused'') else Inr ()),
     e_write = (\<lambda>_. Inr ()), e_read = (\<lambda>_. Inl (Opaque ''closed'')), e_rand = (\<lambda>_. 1 / 2), e_waited = (\<lambda>_. True)\<rparr>"

theorem Run_returns_witness:
  "\<exists>c s'. Run demo_wsenv \<lparr>cf_ClientID = ''ca'', cf_Hostname = ''h'', cf_RootPath = ''/r'', cf_Version = ''1''\<rparr>
     (\<lambda>_ s. s) (\<lambda>_ s. (Inr (), s)) cconn_New () = Some (c, s') \<and> \<not> cc_ws c"
proof -
  have "cancels demo_wsenv 9" "rand_ok demo_wsenv"
    by (simp_all add: demo_wsenv_def cancels_def rand_ok_def)
  from Run_returns [OF this, of "\<lparr>cf_ClientID = ''ca'', cf_Hostname = ''h'', cf_RootPath = ''/r'', cf_Version = ''1''\<rparr>"
      "\<lambda>_ s. s" "\<lambda>_ s. (Inr (), s)" "()"] show ?thesis by blast
qed

text \<open>
  A registration that is refused is tried again after about a second, however often it was refused: the
  delay was reset when the connection was made, before the server answered.
\<close>

theorem refused_registration_no_backoff:
  assumes "rand_ok E" "bo_ok (cc_bo c)" "register E cf (c\<lparr>cc_ws := True, cc_bo := Reset (cc_bo c)\<rparr>) = (Inl e, c2)"
    and "after_wait E (c2\<lparr>cc_ws := False\<rparr>) s = Again (c', s')"
  shows "\<exists>d. cc_waits c' = cc_waits c @ [d] \<and> 800000000 \<le> d \<and> d \<le> 1200000000"
proof -
  let ?b = "Reset (cc_bo c)"
  have c2: "cc_bo c2 = ?b" "cc_waits c2 = cc_waits c"
    using assms(3) by (auto simp: register_def ws_Write_def tick_def split: sum.splits)
  let ?u = "e_rand E (Suc (cc_tick c2))"
  have "bo_delay ?b = 1000000000" using assms(2) by (simp add: bo_delay_def Reset_def bo_ok_def)
  moreover have "cc_waits c' = cc_waits c @ [fst (Next ?u ?b)]"
    using assms(4) c2 by (auto simp: after_wait_def wait_next_def tick_def split: if_splits prod.splits)
  ultimately show ?thesis using Next_bounds [of ?b ?u] assms(1,2) by (auto simp: rand_ok_def)
qed

end
