(* ===== verification/ClientApp.thy ===== *)
theory ClientApp
  imports Runner ClientConn
begin

text \<open>
  The client program (\<open>internal/client/app/app.go\<close>): what it does when a connection is registered and
  when a message arrives, and the patterns it ignores. The variable \<open>r\<close> of \<open>Run\<close> holds the newest
  runner; a runner that is replaced after a reconnection is not stopped, so the goroutines of every runner
  that was started go on, on the same files and the same connection. Parsing the text of JSON is a
  parameter.
\<close>

section \<open>Ignored patterns\<close>

definition DefaultIgnoreList :: "string list" where
  "DefaultIgnoreList =
     [''.git'', ''.hg'', ''.svn'', ''.DS_Store'', ''Thumbs.db'', ''node_modules'', ''.direnv'',
      ''__pycache__'', ''.venv'', ''venv'', ''target'', ''dist'', ''build'', ''out'',
      ''.next'', ''.nuxt'', ''.svelte-kit'', ''.cache'', ''.idea'', ''.vscode'', ''result'', ''result-*'',
      ''.gradle'', ''.terraform'', ''*.pyc'', ''*.tmp'', ''*.swp'', ''*~'', ''*.bak'']"

definition parseIgnoreList :: "(string \<Rightarrow> json result) \<Rightarrow> string \<Rightarrow> string list" where
  "parseIgnoreList parse raw = (if raw = [] then []
     else (case parse raw of
       Inl _ \<Rightarrow> []
     | Inr j \<Rightarrow> (case rbind (as_arr j) (rmap as_str) of Inl _ \<Rightarrow> [] | Inr xs \<Rightarrow> xs)))"

text \<open>The loops of \<open>mergeIgnoreList\<close>: \<open>seen\<close> holds what \<open>out\<close> holds.\<close>

definition merge_step :: "string \<Rightarrow> string set \<times> string list \<Rightarrow> string set \<times> string list" where
  "merge_step p s = (if p = [] \<or> p \<in> fst s then s else (insert p (fst s), snd s @ [p]))"

definition mergeIgnoreList :: "string list list \<Rightarrow> string list" where
  "mergeIgnoreList ls = snd (fold (\<lambda>l s. fold merge_step l s) ls ({}, []))"

lemma merge_fold:
  "fst s = set (snd s) \<Longrightarrow> distinct (snd s) \<Longrightarrow> [] \<notin> set (snd s) \<Longrightarrow>
   (let t = fold merge_step l s in fst t = set (snd t) \<and> distinct (snd t) \<and> set (snd t) = set (snd s) \<union> (set l - {[]}) \<and>
      prefix (snd s) (snd t))"
proof (induction l arbitrary: s)
  case (Cons p l)
  let ?s = "merge_step p s"
  have "fst ?s = set (snd ?s)" "distinct (snd ?s)" "[] \<notin> set (snd ?s)"
    "set (snd ?s) = set (snd s) \<union> ({p} - {[]})" "prefix (snd s) (snd ?s)"
    using Cons.prems by (auto simp: merge_step_def)
  with Cons.IH [of ?s] show ?case by (auto simp: Let_def intro: prefix_order.trans)
qed simp

lemma merge_all:
  "fst s = set (snd s) \<Longrightarrow> distinct (snd s) \<Longrightarrow> [] \<notin> set (snd s) \<Longrightarrow>
   (let t = fold (\<lambda>l s. fold merge_step l s) ls s in distinct (snd t) \<and> set (snd t) = set (snd s) \<union> (set (concat ls) - {[]}) \<and>
      prefix (snd s) (snd t))"
proof (induction ls arbitrary: s)
  case (Cons l ls)
  let ?s = "fold merge_step l s"
  have "fst ?s = set (snd ?s)" "distinct (snd ?s)" "[] \<notin> set (snd ?s)"
    "set (snd ?s) = set (snd s) \<union> (set l - {[]})" "prefix (snd s) (snd ?s)"
    using merge_fold [OF Cons.prems, of l] Cons.prems(3) by (auto simp: Let_def)
  with Cons.IH [of ?s] show ?case by (auto simp: Let_def intro: prefix_order.trans)
qed simp

text \<open>Merging keeps every pattern that is not empty, once, and the first list in front.\<close>

lemma mergeIgnoreList_spec:
  "distinct (mergeIgnoreList ls) \<and> set (mergeIgnoreList ls) = set (concat ls) - {[]}"
  using merge_all [of "({}, [])" ls] by (simp add: mergeIgnoreList_def Let_def)

section \<open>Runners\<close>

text \<open>What a runner owns; files, connection and clock are shared.\<close>

record inst =
  in_ignore :: "string list"
  in_reg :: Registry
  in_supp :: Suppressor
  in_started :: "FileSyncCommand list"
  in_watching :: bool

record 'n capp =
  ca_fs :: cfs
  ca_net :: 'n
  ca_clock :: "nat \<Rightarrow> int"
  ca_ticks :: nat
  ca_runners :: "inst list"

record 'n capp_config =
  cc_Jail :: Jail
  cc_Upload :: "'n upload_fn"
  cc_Download :: "'n download_fn"
  cc_Send :: "'n client_send"

definition inst_config :: "'n capp_config \<Rightarrow> inst \<Rightarrow> 'n rconfig" where
  "inst_config c i = \<lparr>rc_Jail = cc_Jail c, rc_Upload = cc_Upload c, rc_Download = cc_Download c, rc_Send = cc_Send c,
     rc_IgnoreList = in_ignore i\<rparr>"

definition runner_of :: "'n capp \<Rightarrow> inst \<Rightarrow> 'n runner" where
  "runner_of a i = \<lparr>rn_fs = ca_fs a, rn_net = ca_net a, rn_reg = in_reg i, rn_supp = in_supp i, rn_clock = ca_clock a,
     rn_ticks = ca_ticks a, rn_started = in_started i\<rparr>"

definition put_runner :: "nat \<Rightarrow> 'n runner \<Rightarrow> 'n capp \<Rightarrow> 'n capp" where
  "put_runner k s a = a\<lparr>ca_fs := rn_fs s, ca_net := rn_net s, ca_ticks := rn_ticks s,
     ca_runners := (ca_runners a)[k := (ca_runners a ! k)\<lparr>in_reg := rn_reg s, in_supp := rn_supp s, in_started := rn_started s\<rparr>]\<rparr>"

text \<open>
  The callback of a registered connection. \<open>started\<close> says whether \<open>Start\<close> succeeded; the runner is
  kept either way. \<open>runner.New\<close> cannot fail here, its three arguments are given.
\<close>

definition onConnected :: "(string \<Rightarrow> json result) \<Rightarrow> bool \<Rightarrow> (string \<times> string) list \<Rightarrow> 'n capp \<Rightarrow> 'n capp" where
  "onConnected parse started cfgs a =
     (let ignoreList = mergeIgnoreList [DefaultIgnoreList, parseIgnoreList parse
            (case map_of cfgs ''ignore_list'' of None \<Rightarrow> [] | Some v \<Rightarrow> v)]
      in a\<lparr>ca_runners := ca_runners a @ [\<lparr>in_ignore = ignoreList, in_reg = NewRegistry, in_supp = NewSuppressor,
             in_started = [], in_watching = started\<rparr>]\<rparr>)"

definition onMessage ::
  "(byte list \<Rightarrow> byte list) \<Rightarrow> 'n capp_config \<Rightarrow> (string \<Rightarrow> err option) \<Rightarrow> Envelope \<Rightarrow> 'n capp \<Rightarrow> unit result \<times> 'n capp" where
  "onMessage H c ctx env a =
     (if ca_runners a = [] then (Inr (), a)
      else (let k = length (ca_runners a) - 1; i = ca_runners a ! k in
        case HandleEnvelope H (inst_config c i) ctx env (runner_of a i) of
          (r, s) \<Rightarrow> (r, put_runner k s a)))"

text \<open>A started command of the \<open>k\<close>-th runner runs, and its event loop handles one event.\<close>

definition app_command :: "'n capp_config \<Rightarrow> nat \<Rightarrow> nat \<Rightarrow> 'n capp \<Rightarrow> 'n capp" where
  "app_command c k n a = (let i = ca_runners a ! k in put_runner k (run_started (inst_config c i) n (runner_of a i)) a)"

definition app_local :: "'n capp_config \<Rightarrow> nat \<Rightarrow> FileChangedEvent \<Rightarrow> 'n capp \<Rightarrow> 'n capp" where
  "app_local c k ev a = (let i = ca_runners a ! k in
     if \<not> in_watching i then a else put_runner k (handleLocalChange (inst_config c i) ev (runner_of a i)) a)"

text \<open>The connection of the client and its application: \<open>conn.Run\<close> over these callbacks.\<close>

definition client_Run ::
  "wsenv \<Rightarrow> cconfig \<Rightarrow> (byte list \<Rightarrow> byte list) \<Rightarrow> 'n capp_config \<Rightarrow> (string \<Rightarrow> json result) \<Rightarrow> (string \<Rightarrow> err option) \<Rightarrow>
    'n capp \<Rightarrow> (cconn \<times> 'n capp) option" where
  "client_Run E cf H c parse ctx a = Run E cf (onConnected parse True) (onMessage H c ctx) cconn_New a"

section \<open>Runners are never stopped\<close>

lemma runners_put [simp]: "length (ca_runners (put_runner k s a)) = length (ca_runners a)"
  by (simp add: put_runner_def)

lemma nth_put: "k < length (ca_runners a) \<Longrightarrow> ca_runners (put_runner k s a) ! m =
   (if m = k then (ca_runners a ! k)\<lparr>in_reg := rn_reg s, in_supp := rn_supp s, in_started := rn_started s\<rparr> else ca_runners a ! m)"
  by (simp add: put_runner_def)

lemma runner_of_put:
  "m \<noteq> k \<Longrightarrow> k < length (ca_runners a) \<Longrightarrow>
   runner_of (put_runner k s a) (ca_runners (put_runner k s a) ! m) =
     (runner_of a (ca_runners a ! m))\<lparr>rn_fs := rn_fs s, rn_net := rn_net s, rn_ticks := rn_ticks s\<rparr>"
  by (simp add: nth_put) (simp add: runner_of_def put_runner_def)

text \<open>
  After a reconnection a fetched file is reported back: the runner of the first connection still
  watches, but only the newest runner fetches and enters the suppression, so when the newest one has
  fetched a file, the old one, which has a subscription for the pair, uploads it again and reports it to
  the server as a local change.
\<close>

theorem reconnect_echoes_fetched_file:
  assumes "ca_runners a = [old, new]" "in_watching old" "in_started new = [cmd]"
    and "lookupSubscription (cmd_PairID cmd) (in_reg old) = Some sub" "sup_m (in_supp old) (cmd_RelPath cmd) = None"
    and "a1 = app_command c 1 0 a"
    and "ev_Op ev = ''write''" "ev_RelPath ev = cmd_RelPath cmd" "ev_PairID ev = cmd_PairID cmd"
    and "cc_Upload c (Join (su_RootSubpath sub) (ev_RelPath ev)) (ca_fs a1, ca_net a1) = (Inr u, (f2, n2))"
  shows "ca_net (app_local c 0 ev a1) =
     snd (cc_Send c \<lparr>Type = TypeFileChangedEvent, CorrelationID = [], Payload = enc_FileChangedEvent ev\<rparr> n2)"
proof -
  define s1 where "s1 = run_started (inst_config c new) 0 (runner_of a new)"
  have a1: "a1 = put_runner 1 s1 a" using assms(1,6) by (simp add: app_command_def s1_def)
  let ?s = "runner_of a1 (ca_runners a1 ! 0)"
  have s: "?s = (runner_of a old)\<lparr>rn_fs := rn_fs s1, rn_net := rn_net s1, rn_ticks := rn_ticks s1\<rparr>"
    using runner_of_put [of 0 1 a s1] assms(1) a1 by simp
  have i: "ca_runners a1 ! 0 = old" using assms(1) a1 by (simp add: nth_put)
  have fs: "rn_fs ?s = ca_fs a1" "rn_net ?s = ca_net a1" by (simp_all add: runner_of_def)
  have "rn_net (handleLocalChange (inst_config c old) ev ?s) =
     snd (rc_Send (inst_config c old) \<lparr>Type = TypeFileChangedEvent, CorrelationID = [], Payload = enc_FileChangedEvent ev\<rparr> n2)"
  proof (rule reported_write [OF assms(7)])
    have "sup_m (rn_supp ?s) (cmd_RelPath cmd) = None" using assms(5) by (simp add: s) (simp add: runner_of_def)
    then show "\<not> fst (HitWithSHA (rn_clock ?s (rn_ticks ?s)) (ev_RelPath ev) (ev_SHA256 ev) (rn_supp ?s))"
      using assms(8) by (simp add: HitWithSHA_def)
    show "lookupSubscription (ev_PairID ev) (rn_reg ?s) = Some sub"
      using assms(4,9) by (simp add: s) (simp add: runner_of_def)
    show "rc_Upload (inst_config c old) (Join (su_RootSubpath sub) (ev_RelPath ev)) (rn_fs ?s, rn_net ?s) = (Inr u, f2, n2)"
      using assms(10) fs by (simp add: inst_config_def)
  qed
  then show ?thesis using assms(2) i
    by (simp add: app_local_def inst_config_def put_runner_def)
qed

definition demo_instance :: "string \<Rightarrow> FileSyncCommand list \<Rightarrow> inst" where
  "demo_instance sub cmds = \<lparr>in_ignore = [], in_reg = rn_reg (demo_runner sub), in_supp = NewSuppressor,
     in_started = cmds, in_watching = True\<rparr>"

lemma demo_instance_simps:
  "in_started (demo_instance sub cmds) = cmds" "in_watching (demo_instance sub cmds)"
  "sup_m (in_supp (demo_instance sub cmds)) = Map.empty"
  by (simp_all add: demo_instance_def NewSuppressor_def)

definition demo_capp :: "Envelope list capp" where
  "demo_capp = \<lparr>ca_fs = rn_fs (demo_runner ''''), ca_net = [], ca_clock = rn_clock (demo_runner ''''), ca_ticks = 0,
     ca_runners = [demo_instance '''' [], demo_instance '''' [demo_fetch]]\<rparr>"

definition demo_capp_config :: "Envelope list capp_config" where
  "demo_capp_config = \<lparr>cc_Jail = demo_jail, cc_Upload = rc_Upload demo_rconfig, cc_Download = rc_Download demo_rconfig,
     cc_Send = rc_Send demo_rconfig\<rparr>"

theorem reconnect_echoes_fetched_file_witness:
  "last (ca_net (app_local demo_capp_config 0 demo_change (app_command demo_capp_config 1 0 demo_capp))) =
     \<lparr>Type = TypeFileChangedEvent, CorrelationID = [], Payload = enc_FileChangedEvent demo_change\<rparr>"
proof -
  define a1 where "a1 = app_command demo_capp_config 1 0 demo_capp"
  have l: "lookupSubscription (cmd_PairID demo_fetch) (in_reg (demo_instance '''' [])) = Some (demo_sub '''')"
    using demo_lookup by (simp add: demo_fetch_def demo_instance_def)
  have "isl (fst (cc_Upload demo_capp_config (Join (su_RootSubpath (demo_sub '''')) (ev_RelPath demo_change)) (ca_fs a1, ca_net a1))) = False"
    unfolding a1_def by code_simp
  then obtain u f2 n2 where u: "cc_Upload demo_capp_config (Join (su_RootSubpath (demo_sub '''')) (ev_RelPath demo_change)) (ca_fs a1, ca_net a1)
      = (Inr u, (f2, n2))"
    by (metis isl_def old.sum.exhaust prod.collapse)
  have "ca_net (app_local demo_capp_config 0 demo_change a1) =
     snd (cc_Send demo_capp_config \<lparr>Type = TypeFileChangedEvent, CorrelationID = [], Payload = enc_FileChangedEvent demo_change\<rparr> n2)"
    by (rule reconnect_echoes_fetched_file [OF _ demo_instance_simps(2) demo_instance_simps(1) l _ a1_def _ _ _ u])
      (simp_all add: demo_capp_def demo_instance_simps(3) demo_change_def demo_fetch_def)
  then show ?thesis by (simp add: a1_def demo_capp_config_def demo_rconfig_def)
qed

end
