(* ===== verification/EndToEnd.thy ===== *)
theory EndToEnd
  imports BlobTransfer
begin

text \<open>
  The client's transfers against the server's blob route: the network is the handler chain of
  \<open>Http\<close>, so an upload by one client and a download by another run through the same blob store.
\<close>

section \<open>The network\<close>

definition text_bytes :: "string \<Rightarrow> byte list" where
  "text_bytes s = map (\<lambda>c. word_of_nat (of_char c)) s"

fun rbody_bytes :: "rbody \<Rightarrow> byte list" where
  "rbody_bytes NoBody = []"
| "rbody_bytes (Bytes d) = d"
| "rbody_bytes (Json j) = text_bytes (json_text j @ [CHR 10])"
| "rbody_bytes (Text t) = text_bytes t"

definition server_http :: "(byte list \<Rightarrow> byte list) \<Rightarrow> string \<Rightarrow> BlobsHandler \<Rightarrow> ('z st_scheme \<times> bstore) doer" where
  "server_http H psk h r s = (case blobs_route H psk h r s of (resp, s') \<Rightarrow>
     (Inr \<lparr>hr_Status = rs_Status resp, hr_Body = \<lparr>rd_data = rbody_bytes (rs_Body resp), rd_err = None\<rparr>\<rparr>, s'))"

section \<open>Hexadecimal names\<close>

lemma hex_digit_range: "n < 16 \<Longrightarrow> is_hex (hex_digit n) \<and> to_lower_char (hex_digit n) = hex_digit n"
proof -
  have "list_all (\<lambda>n. is_hex (hex_digit n) \<and> to_lower_char (hex_digit n) = hex_digit n) [0..<16]" by code_simp
  then show "n < 16 \<Longrightarrow> ?thesis" by (simp add: list_all_iff)
qed

lemma byte_nibbles: "unat (b :: byte) div 16 < 16" "unat (b :: byte) mod 16 < 16"
proof -
  have "unat b < 2 ^ LENGTH(8)" by (rule unsigned_less)
  then show "unat b div 16 < 16" by (simp add: less_mult_imp_div_less)
qed simp

lemma EncodeToString_hex: "list_all is_hex (EncodeToString bs) \<and> ToLower (EncodeToString bs) = EncodeToString bs"
  by (induction bs) (auto simp: EncodeToString_def ToLower_def hex_digit_range byte_nibbles)

lemma validateSHA_digest: "length bs = 32 \<Longrightarrow> validateSHA (EncodeToString bs) = Inr ()"
  using EncodeToString_hex [of bs] by (simp add: validateSHA_def length_EncodeToString)

section \<open>One request through the handlers\<close>

definition routed :: "tclient \<Rightarrow> string \<Rightarrow> bool" where
  "routed c psk \<longleftrightarrow> tc_PSK c = psk \<and> (\<forall>x. url_path (tc_baseURL c @ ''/v1/blobs/'' @ x) = ''/v1/blobs/'' @ x)"

lemma route_request:
  assumes "routed c psk" "sha \<noteq> []"
  shows "blobs_route H psk h (setAuthHeaders c ((NewRequest meth (blobURL c sha) body)\<lparr>rq_ContentLength := n, rq_Header := hs\<rparr>)) s =
    (let r = (setAuthHeaders c ((NewRequest meth (blobURL c sha) body)\<lparr>rq_ContentLength := n, rq_Header := hs\<rparr>))\<lparr>rq_ctxClientID := tc_ClientID c\<rparr>
     in if meth = ''HEAD'' then handleHEAD sha s else if meth = ''PUT'' then handlePUT H h r sha s
        else if meth = ''GET'' then handleGET r sha s else (status_only 405, s))"
proof -
  have "extractBearer (''Bearer '' @ tc_PSK c) = tc_PSK c"
    unfolding extractBearer_def TrimPrefix_append by (simp add: HasPrefix_def)
  moreover have "TrimPrefix (url_path (blobURL c sha)) ''/v1/blobs/'' = sha"
    using assms(1) unfolding routed_def blobURL_def by (metis TrimPrefix_append)
  ultimately show ?thesis using assms
    by (simp add: blobs_route_def AuthBearerWithClientID_def blobs_ServeHTTP_def setAuthHeaders_def NewRequest_def
        Get_value_def Let_def routed_def)
qed

lemma NewRequest_upd: "NewRequest meth url body = (NewRequest meth url body)\<lparr>rq_ContentLength := 0, rq_Header := []\<rparr>"
  by (simp add: NewRequest_def)

lemma head_missing:
  assumes "routed c psk" "validateSHA sha = Inr ()" "os_ok b" "map_of (files b) (blob_path sha) = None"
  shows "headBlob (server_http H psk h) c sha (w, b) = (Inr False, (w, b\<lparr>oscalls := Suc (oscalls b)\<rparr>))"
proof -
  have ne: "sha \<noteq> []" using assms(2) by (auto simp: validateSHA_def)
  show ?thesis
    unfolding headBlob_def server_http_def
    by (subst NewRequest_upd, subst route_request [OF assms(1) ne])
      (use assms in \<open>simp add: Let_def handleHEAD_def Has_def os_Stat_def os_call_ok errors_Is.simps ErrNotExist_def status_only_def\<close>)
qed

lemma put_fresh:
  assumes "routed c psk" "sha = EncodeToString (H d)" "\<And>x. length (H x) = 32" "os_ok b" "map_of (files b) (blob_path sha) = None"
    and "computeClientUsage (tc_ClientID c) w = (Inr used, w1)" "d \<noteq> []" "int (length d) \<le> maxFileSizeBytes h"
    and "wrap64 (used + int (length d)) \<le> perClientQuota h"
  shows "\<exists>b1 bf. putBlob (server_http H psk h) c sha (int (length d)) d (w, b) = (Inr (), (w1, b1)) \<and> os_ok b1 \<and>
     map_of (files b1) (blob_path sha) = Some bf \<and> f_data bf = d"
proof -
  have v: "validateSHA sha = Inr ()" using assms(2,3) validateSHA_digest by simp
  then have ne: "sha \<noteq> []" by (auto simp: validateSHA_def)
  have eq: "EncodeToString (H (rd_data \<lparr>rd_data = d, rd_err = None\<rparr>)) = ToLower sha" using EncodeToString_hex assms(2) by simp
  note po = Put_ok [OF assms(4) v assms(5), of "\<lparr>rd_data = d, rd_err = None\<rparr>" H "int (length d)"]
  from po eq
  obtain b1 bf where p: "Put H sha \<lparr>rd_data = d, rd_err = None\<rparr> (int (length d)) b = (Inr (), b1)" "os_ok b1"
    "map_of (files b1) (blob_path sha) = Some bf" "f_data bf = d" by auto
  have "putBlob (server_http H psk h) c sha (int (length d)) d (w, b) = (Inr (), (w1, b1))"
    unfolding putBlob_def server_http_def
    by (subst route_request [OF assms(1) ne])
      (use assms p in \<open>simp add: Let_def handlePUT_def ClientIDFromContext_def setAuthHeaders_def NewRequest_def Get_value_def status_only_def\<close>)
  with p show ?thesis by blast
qed

lemma get_stored:
  assumes "routed c psk" "validateSHA sha = Inr ()" "os_ok b" "map_of (files b) (blob_path sha) = Some bf"
  shows "\<exists>b1. server_http H psk h (setAuthHeaders c (NewRequest ''GET'' (blobURL c sha) no_body)) (w, b) =
     (Inr \<lparr>hr_Status = 200, hr_Body = \<lparr>rd_data = f_data bf, rd_err = None\<rparr>\<rparr>, (w, b1))"
proof -
  have ne: "sha \<noteq> []" using assms(2) by (auto simp: validateSHA_def)
  show ?thesis unfolding server_http_def
    by (subst NewRequest_upd, subst route_request [OF assms(1) ne])
      (use assms in \<open>simp add: Let_def handleGET_def setAuthHeaders_def NewRequest_def Get_value_def Get_def
         os_Stat_def os_call_ok blob_Stat_def\<close>)
qed

section \<open>A download on a working file system\<close>

definition ready :: "apath \<Rightarrow> string list \<Rightarrow> cfs \<Rightarrow> bool" where
  "ready root cs f \<longleftrightarrow> jail_inv root f \<and> list_all proper cs \<and> cs \<noteq> [] \<and> (\<forall>k. cs_fail f k = None) \<and>
     real_dir f (root @ butlast cs) \<and> [] \<notin> set (cs_deny f) \<and> lookup f (root @ partial_comps cs) = Inl ErrNotExist \<and>
     (lookup f (root @ cs) = Inl ErrNotExist \<or> (\<exists>nd d. lookup f (root @ cs) = Inr nd \<and> n_kind nd = File d))"

lemma sys_call_ok: "(\<And>k. cs_fail f k = None) \<Longrightarrow> sys_call f = (Inr (), f\<lparr>cs_calls := Suc (cs_calls f)\<rparr>)"
  by (simp add: sys_call_def)

lemma lookup_calls [simp]: "lookup (f\<lparr>cs_calls := k\<rparr>) = lookup f"
  by (rule lookup_cong) simp_all

lemma cs_fail_put_node [simp]: "cs_fail (put_node p k f) = cs_fail f"
  by (simp add: put_node_def)

lemma real_dir_cong: "(\<And>q. prefix q d \<Longrightarrow> lookup g q = lookup f q) \<Longrightarrow> real_dir f d \<Longrightarrow> real_dir g d"
  by (simp add: real_dir_def dir_at_def)

lemma dir_exists:
  "real_dir f d \<Longrightarrow> list_all proper d \<Longrightarrow> [] \<notin> set (cs_deny f) \<Longrightarrow> os_MkdirAll d f = (Inr (), f)"
  using namei_real [OF real_dir_real, of f d True False] lookup_root [of f]
  by (subst os_MkdirAll.simps, cases "d = []")
    (auto simp: os_stat_def real_dir_def dir_at_def lookup_def split: if_splits)

lemma Download_ok:
  assumes rd: "ready (jail_root (tc_Jail c)) cs f"
    and h: "http (setAuthHeaders c (NewRequest ''GET'' (blobURL c sha) no_body)) n =
      (Inr \<lparr>hr_Status = 200, hr_Body = \<lparr>rd_data = d, rd_err = None\<rparr>\<rparr>, n1)" and sha: "EncodeToString (H d) = sha"
  shows "\<exists>f' nd. Download H http c (rel_path cs) sha (f, n) = (Inr (), (f', n1)) \<and>
     lookup f' (jail_root (tc_Jail c) @ cs) = Inr nd \<and> n_kind nd = File d"
proof -
  let ?j = "tc_Jail c" and ?root = "jail_root (tc_Jail c)" and ?part = "rel_path cs @ ''.partial''"
  define p where "p = ?root @ cs"
  define pp where "pp = ?root @ partial_comps cs"
  define dir where "dir = ?root @ butlast cs"
  from rd have inv: "jail_inv ?root f" and cs: "list_all proper cs" "cs \<noteq> []" and nf: "\<And>k. cs_fail f k = None"
    and rdir: "real_dir f dir" and root: "[] \<notin> set (cs_deny f)" and lpp: "lookup f pp = Inl ErrNotExist"
    and lp: "lookup f p = Inl ErrNotExist \<or> (\<exists>nd d. lookup f p = Inr nd \<and> n_kind nd = File d)"
    by (simp_all add: ready_def p_def pp_def dir_def)
  have pr: "list_all proper ?root" using inv by (simp add: jail_inv_def)
  note cr = cleaned_rel [OF pr cs]
  have res: "jail_Resolve g ?j ?part = Inr pp \<and> jail_Resolve g ?j (rel_path cs) = Inr p" if "jail_inv ?root g" for g
    using Resolve_inv [OF that cr(1,3)] Resolve_inv [OF that cr(2,4)] by (simp add: p_def pp_def)
  have sn: "pp = dir @ [last cs @ ''.partial'']" "p = dir @ [last cs]" using cs by (simp_all add: p_def pp_def dir_def partial_comps_def)
  have "list_all proper pp" "list_all proper p"
    using pr cs partial_proper [OF cs(2,1)] by (simp_all add: pp_def p_def)
  then have ppr: "list_all proper pp" "list_all proper p" "list_all proper dir" "proper (last cs @ ''.partial'')" "proper (last cs)"
    by (simp_all add: sn)
  have ne: "pp \<noteq> []" "p \<noteq> []" "p \<noteq> pp" using sn by auto
  have neq: "\<not> prefix pp p" using partial_neq(1) [OF cs(2)] by (simp add: p_def pp_def)
  have nmiss: "namei flw False f pp = Inl ErrNotExist" for flw
    using walk_real_dir [OF rdir ppr(3), of flw False 40 "[last cs @ ''.partial'']"] ppr(4) lpp
    by (simp add: namei_def sn(1) proper_def)
  have st: "isl (jail_Stat f ?j ?part)"
    using res [OF inv] nmiss cr(2,4) by (simp add: jail_Stat_def resolveChecked_def os_stat_def pp_def)
  define f1 where "f1 = put_node pp (File []) (f\<lparr>cs_calls := Suc (cs_calls f)\<rparr>)"
  have "namei True True f pp = Inr pp" using namei_create [OF rdir ppr(3,4)] lpp sn(1) by simp
  then have create: "jail_Create ?j ?part f = (Inr pp, f1)"
    using res [OF inv] dir_exists [OF rdir ppr(3) root] lpp sys_call_ok [OF nf]
    by (simp add: jail_Create_def os_OpenCreate_def sn(1) f1_def)
  have dn: "pp \<notin> set (cs_deny f)" using lpp by (auto simp: lookup_def errno_defs)
  have deny: "cs_deny f1 = cs_deny f" by (simp add: f1_def put_node_def)
  have l1: "lookup f1 q = (if q = pp then Inr \<lparr>n_kind = File [], n_mtime = cs_time f (Suc (cs_calls f))\<rparr> else lookup f q)" for q
    using dn ne by (simp add: f1_def lookup_put_node)
  obtain r3 f3 where s: "save_body H pp sha \<lparr>rd_data = d, rd_err = None\<rparr> f1 = (r3, f3)" by (meson surj_pair)
  have nf1: "cs_fail f1 k = None" for k using nf by (simp add: f1_def)
  have r3: "r3 = Inr ()" and f3: "\<And>k. cs_fail f3 k = None" "cs_deny f3 = cs_deny f"
    using s sys_call_ok [of f1, OF nf1] nf1 l1 [of pp] sha deny
    by (auto simp: save_body_def os_Write_def sys_call_def put_node_def)
  note se = save_body_effect [of f1 pp "\<lparr>n_kind = File [], n_mtime = cs_time f (Suc (cs_calls f))\<rparr>", OF _ _ ne(1) s]
  have l3: "lookup f3 q = lookup f q" if "q \<noteq> pp" for q using se l1 that by simp
  obtain nd where nd: "lookup f3 pp = Inr nd" "n_kind nd = File d" using se l1 r3 by auto
  have inv3: "jail_inv ?root f3"
  proof -
    have "confined ?root f f1" using jail_Create_confined(1) [OF inv, of ?part] create by simp
    moreover obtain rw fw where w: "os_Write pp d f1 = (rw, fw)" by (meson surj_pair)
    then have "confined ?root f1 fw" using os_Write_confined [of ?root pp f1 d] by (simp add: pp_def)
    moreover have "confined ?root fw f3"
      using s w sys_call_confined by (auto simp: save_body_def split: sum.splits prod.splits if_splits)
    ultimately show ?thesis using confined_inv [OF inv] confined_trans by blast
  qed
  have rd3: "real_dir f3 dir"
  proof (rule real_dir_cong [OF _ rdir])
    fix q assume "prefix q dir"
    then have "q \<noteq> pp" using prefix_length_le [of q dir] unfolding sn by auto
    then show "lookup f3 q = lookup f q" by (rule l3)
  qed
  have n1: "namei False False f3 pp = Inr pp"
    by (rule namei_real) (use rd3 nd ppr sn in \<open>auto simp: real_snoc\<close>)
  have n2: "namei False True f3 p = Inr p"
    using namei_create [OF rd3 ppr(3,5)] namei_real [of f3 p False True] lp l3 [OF ne(3)] rd3 ppr sn(2)
    by (auto simp: real_snoc)
  have ls: "\<And>nd'. os_Lstat f3 p = Inr nd' \<Longrightarrow> \<not> is_dir (n_kind nd')"
    using lp l3 [OF ne(3)] namei_below [OF inv3 _ ppr(2), of False False]
    by (auto simp: os_stat_def p_def split: sum.splits)
  have "os_RenameF pp p f3 = sys_rename pp p f3"
    using ls by (auto simp: os_RenameF_def split: sum.splits)
  also have "\<exists>f4. \<dots> = (Inr (), f4)"
    using n1 n2 nd ne(3) sys_call_ok [of f3, OF f3(1)] by (simp add: sys_rename_def)
  finally obtain f4 where rn: "os_RenameF pp p f3 = (Inr (), f4)" by blast
  have pre: "prefix ?root pp" "prefix ?root p" by (simp_all add: p_def pp_def)
  have l4: "lookup f4 p = lookup f3 pp"
    using Rename_effect [OF inv3 pre(1) ppr(1) ne(1) pre(2) ppr(2) ne(2) neq rn] by simp
  have "jail_Rename ?j ?part (rel_path cs) f3 = (Inr (), f4)" using rn res [OF inv3] by (simp add: jail_Rename_def)
  then have "Download H http c (rel_path cs) sha (f, n) = (Inr (), (f4, n1))"
    using st h create s r3 by (simp add: Download_def Let_def)
  then show ?thesis using l4 nd by (auto simp: p_def)
qed

section \<open>Both directions\<close>

lemma upload_stores:
  assumes "routed c psk" "\<And>x. length (H x) = 32" "os_ok b" "map_of (files b) (blob_path (EncodeToString (H d))) = None"
    and "computeClientUsage (tc_ClientID c) w = (Inr used, w1)" "int (length d) \<le> maxFileSizeBytes h"
    and "wrap64 (used + int (length d)) \<le> perClientQuota h"
    and "jail_Open f (tc_Jail c) rel = Inr q" "read_all f q = Inr d" "d \<noteq> []"
  shows "\<exists>b1 bf. Upload H (server_http H psk h) c rel f f (w, b) =
      (Inr \<lparr>ur_SHA256 = EncodeToString (H d), ur_Size = int (length d), ur_Skipped = False\<rparr>, (w1, b1)) \<and>
     os_ok b1 \<and> map_of (files b1) (blob_path (EncodeToString (H d))) = Some bf \<and> f_data bf = d"
proof -
  let ?sha = "EncodeToString (H d)" and ?b = "b\<lparr>oscalls := Suc (oscalls b)\<rparr>"
  have v: "validateSHA ?sha = Inr ()" using assms(2) by (rule validateSHA_digest)
  have h1: "headBlob (server_http H psk h) c ?sha (w, b) = (Inr False, (w, ?b))"
    by (rule head_missing [OF assms(1) v assms(3,4)])
  have "\<exists>b1 bf. putBlob (server_http H psk h) c ?sha (int (length d)) d (w, ?b) = (Inr (), (w1, b1)) \<and> os_ok b1 \<and>
     map_of (files b1) (blob_path ?sha) = Some bf \<and> f_data bf = d"
    by (rule put_fresh [OF assms(1) refl assms(2) _ _ assms(5,10,6,7)]) (use assms(3,4) in simp_all)
  then show ?thesis using assms(8,9) h1 by (fastforce simp: Upload_def tr_computeSHA_def)
qed

lemma download_fetches:
  assumes "routed c psk" "\<And>x. length (H x) = 32" "os_ok b" "map_of (files b) (blob_path (EncodeToString (H d))) = Some bf"
    and "f_data bf = d" "ready (jail_root (tc_Jail c)) cs f"
  shows "\<exists>f' b' nd. Download H (server_http H psk h) c (rel_path cs) (EncodeToString (H d)) (f, (w, b)) = (Inr (), (f', (w, b'))) \<and>
     lookup f' (jail_root (tc_Jail c) @ cs) = Inr nd \<and> n_kind nd = File d"
proof -
  let ?sha = "EncodeToString (H d)"
  have v: "validateSHA ?sha = Inr ()" using assms(2) by (rule validateSHA_digest)
  obtain b2 where g: "server_http H psk h (setAuthHeaders c (NewRequest ''GET'' (blobURL c ?sha) no_body)) (w, b) =
     (Inr \<lparr>hr_Status = 200, hr_Body = \<lparr>rd_data = d, rd_err = None\<rparr>\<rparr>, (w, b2))"
    using get_stored [OF assms(1) v assms(3,4), of H h w] assms(5) by auto
  have "\<exists>f' nd. Download H (server_http H psk h) c (rel_path cs) ?sha (f, (w, b)) = (Inr (), (f', (w, b2))) \<and>
     lookup f' (jail_root (tc_Jail c) @ cs) = Inr nd \<and> n_kind nd = File d"
    by (rule Download_ok) (simp_all add: g assms(6))
  then show ?thesis by blast
qed

section \<open>Properties\<close>

text \<open>
  A file travels unchanged: if a client uploads a non-empty file whose contents the server does not hold
  yet, within the limits, the upload succeeds, and any client that then downloads the reported hash to
  a path with an existing directory succeeds and has exactly the contents of the uploaded file there.
\<close>

theorem upload_then_download:
  assumes "routed cA psk" "routed cB psk" "\<And>x. length (H x) = 32" "os_ok b"
    and "map_of (files b) (blob_path (EncodeToString (H d))) = None"
    and "computeClientUsage (tc_ClientID cA) w = (Inr used, w1)" "int (length d) \<le> maxFileSizeBytes h"
    and "wrap64 (used + int (length d)) \<le> perClientQuota h"
    and "jail_Open fA (tc_Jail cA) rel = Inr q" "read_all fA q = Inr d" "d \<noteq> []"
    and "ready (jail_root (tc_Jail cB)) cs fB"
  shows "\<exists>s1. Upload H (server_http H psk h) cA rel fA fA (w, b) =
      (Inr \<lparr>ur_SHA256 = EncodeToString (H d), ur_Size = int (length d), ur_Skipped = False\<rparr>, s1) \<and>
     (\<exists>fB' s2 nd. Download H (server_http H psk h) cB (rel_path cs) (EncodeToString (H d)) (fB, s1) = (Inr (), (fB', s2)) \<and>
        lookup fB' (jail_root (tc_Jail cB) @ cs) = Inr nd \<and> n_kind nd = File d)"
proof -
  obtain b1 bf where u: "Upload H (server_http H psk h) cA rel fA fA (w, b) =
      (Inr \<lparr>ur_SHA256 = EncodeToString (H d), ur_Size = int (length d), ur_Skipped = False\<rparr>, (w1, b1))"
    "os_ok b1" "map_of (files b1) (blob_path (EncodeToString (H d))) = Some bf" "f_data bf = d"
    using upload_stores [where H = H, OF assms(1,3-11)] by blast
  from download_fetches [where H = H, OF assms(2,3) u(2-4) assms(12)] u(1) show ?thesis by blast
qed

text \<open>
  An empty file never reaches the server: its body has length 0, which the upload handler answers with
  411, so the client's upload fails, whatever the quota and the state of the store.
\<close>

theorem empty_file_rejected:
  assumes "routed c psk" "\<And>x. length (H x) = 32" "os_ok b" "map_of (files b) (blob_path (EncodeToString (H []))) = None"
    and "jail_Open f (tc_Jail c) rel = Inr q" "read_all f q = Inr []"
  shows "\<exists>m. fst (Upload H (server_http H psk h) c rel f f (w, b)) = Inl (Opaque (''PUT blob: status 411, body='' @ m)) \<and>
     files (snd (snd (Upload H (server_http H psk h) c rel f f (w, b)))) = files b"
proof -
  let ?sha = "EncodeToString (H [])"
  have v: "validateSHA ?sha = Inr ()" using assms(2) by (rule validateSHA_digest)
  then have ne: "?sha \<noteq> []" by (auto simp: validateSHA_def)
  have h1: "headBlob (server_http H psk h) c ?sha (w, b) = (Inr False, (w, b\<lparr>oscalls := Suc (oscalls b)\<rparr>))"
    by (rule head_missing [OF assms(1) v assms(3,4)])
  have "Sprint_int 411 = ''411''" by code_simp
  then have "\<exists>m. putBlob (server_http H psk h) c ?sha 0 [] (w, b\<lparr>oscalls := Suc (oscalls b)\<rparr>) =
     (Inl (Opaque (''PUT blob: status 411, body='' @ m)), (w, b\<lparr>oscalls := Suc (oscalls b)\<rparr>))"
    unfolding putBlob_def server_http_def
    by (subst route_request [OF assms(1) ne])
      (simp add: Let_def handlePUT_def ClientIDFromContext_def setAuthHeaders_def NewRequest_def writeError_def)
  then show ?thesis using assms(5,6) h1 by (auto simp: Upload_def tr_computeSHA_def)
qed

lemma demo_routed: "routed demo_tclient ''k''"
  by (simp add: routed_def demo_tclient_def url_path_def IsAbs_def slash_def SplitN2.simps TrimPrefix_def HasPrefix_def)

lemma toy_hash_length: "length (toy_hash x) = 32"
  by (simp add: toy_hash_def)

lemma demo_ready: "ready (jail_root (tc_Jail demo_tclient)) [''new''] demo_fs"
  using demo_inv jail_New_root [OF demo_New]
  by (simp add: ready_def demo_tclient_def) (simp add: demo_jail_def partial_comps_def demo_fs_def lookup_def proper_def slash_def)

theorem upload_then_download_witness:
  "\<exists>s1 fB' s2 nd. Upload toy_hash (server_http toy_hash ''k'' demo_limits) demo_tclient ''a'' demo_fs demo_fs
       (sample_store sample_db, empty_store) = (Inr \<lparr>ur_SHA256 = EncodeToString (toy_hash [1, 2]), ur_Size = 2, ur_Skipped = False\<rparr>, s1) \<and>
     Download toy_hash (server_http toy_hash ''k'' demo_limits) demo_tclient (rel_path [''new'']) (EncodeToString (toy_hash [1, 2])) (demo_fs, s1) =
       (Inr (), (fB', s2)) \<and>
     lookup fB' [''home'', ''u'', ''new''] = Inr nd \<and> n_kind nd = File [1, 2]"
proof -
  obtain r w1 where u: "computeClientUsage (tc_ClientID demo_tclient) (sample_store sample_db) = (r, w1)" by (meson surj_pair)
  have "fst (computeClientUsage (tc_ClientID demo_tclient) (sample_store sample_db)) = Inr 0" by code_simp
  then have u0: "computeClientUsage (tc_ClientID demo_tclient) (sample_store sample_db) = (Inr 0, w1)" using u by simp
  have b: "os_ok empty_store" "map_of (files empty_store) x = None" for x by (simp_all add: os_ok_def empty_store_def)
  have o: "jail_Open demo_fs (tc_Jail demo_tclient) ''a'' = Inr [''home'', ''u'', ''a'']"
    "read_all demo_fs [''home'', ''u'', ''a''] = Inr [1, 2]" by code_simp+
  have l: "int (length [1, 2 :: byte]) \<le> maxFileSizeBytes demo_limits"
    "wrap64 (0 + int (length [1, 2 :: byte])) \<le> perClientQuota demo_limits"
    by (simp_all add: demo_limits_def wrap64_def)
  have r: "jail_root (tc_Jail demo_tclient) @ [''new''] = [''home'', ''u'', ''new'']" "int (length [1, 2 :: byte]) = 2"
    by (simp_all add: demo_tclient_def demo_jail_def)
  show ?thesis
    using upload_then_download [where H = toy_hash and d = "[1, 2]", OF demo_routed demo_routed toy_hash_length b u0 l o list.distinct(2) demo_ready, unfolded r]
    by (elim exE conjE) (intro exI conjI)
qed

theorem empty_file_rejected_witness:
  "let f = demo_fs\<lparr>cs_nodes := ([''home'', ''u'', ''e''], \<lparr>n_kind = File [], n_mtime = 0\<rparr>) # cs_nodes demo_fs\<rparr>
   in \<exists>m. fst (Upload toy_hash (server_http toy_hash ''k'' demo_limits) demo_tclient ''e'' f f (sample_store sample_db, empty_store)) =
     Inl (Opaque (''PUT blob: status 411, body='' @ m))"
proof -
  define f where "f = demo_fs\<lparr>cs_nodes := ([''home'', ''u'', ''e''], \<lparr>n_kind = File [], n_mtime = 0\<rparr>) # cs_nodes demo_fs\<rparr>"
  have b: "os_ok empty_store" "map_of (files empty_store) x = None" for x by (simp_all add: os_ok_def empty_store_def)
  have o: "jail_Open f (tc_Jail demo_tclient) ''e'' = Inr [''home'', ''u'', ''e'']"
    "read_all f [''home'', ''u'', ''e''] = Inr []" unfolding f_def by code_simp+
  show ?thesis unfolding Let_def f_def [symmetric]
    using empty_file_rejected [where H = toy_hash, OF demo_routed toy_hash_length b o] by blast
qed

end
