(* ===== verification/FullSync.thy ===== *)
theory FullSync
  imports System ClientApp EndToEnd
begin

text \<open>
  Both programs together: what happens from a registration of a client to its first message, and from a
  write on one client to the file on the other. Each client's transfers go to the server's blob route
  and its messages to the server's read loop, as \<open>internal/client/app/app.go\<close> and
  \<open>internal/server/app/app.go\<close> wire them.
\<close>

section \<open>A client wired to the server\<close>

text \<open>
  The network of a client is the server's state and the envelopes it has sent that the server has not
  read yet.
\<close>

type_synonym netstate = "(hub world \<times> bstore) \<times> Envelope list"

definition wired :: "(byte list \<Rightarrow> byte list) \<Rightarrow> string \<Rightarrow> BlobsHandler \<Rightarrow> tclient \<Rightarrow> string list \<Rightarrow> netstate rconfig" where
  "wired H psk lims tc ign = \<lparr>rc_Jail = tc_Jail tc,
     rc_Upload = (\<lambda>rel (f, (s, out)). case Upload H (server_http H psk lims) tc rel f f s of (r, s1) \<Rightarrow> (r, (f, (s1, out)))),
     rc_Download = (\<lambda>rel sha (f, (s, out)). case Download H (server_http H psk lims) tc rel sha (f, s) of
        (r, (f1, s1)) \<Rightarrow> (r, (f1, (s1, out)))),
     rc_Send = (\<lambda>env (s, out). (Inr (), (s, out @ [env]))), rc_IgnoreList = ign\<rparr>"

lemma query_frame:
  fixes v :: "hub world"
  assumes "wrap_err m (query f v) = (x, v')" shows "db v' = db v \<and> sqlerr v' = sqlerr v \<and> net v' = net v"
  using assms snd_wrap_err [of m "query f v"] net_store_ops(2) [of "\<lambda>d. (Inr (f d), d)" v] list_query_db [of m f v x v']
    query_env(3) [of f v]
  by (auto simp: query_def)

lemma list_frames:
  fixes v :: "hub world"
  shows "ListFileStates pid side v = (x, v') \<Longrightarrow> db v' = db v \<and> sqlerr v' = sqlerr v \<and> net v' = net v"
    "ListPairsForClient cid v = (y, v') \<Longrightarrow> db v' = db v \<and> sqlerr v' = sqlerr v \<and> net v' = net v"
  unfolding ListFileStates_def ListPairsForClient_def by (erule query_frame)+

lemma computeClientUsage_env:
  fixes w :: "hub world"
  shows "computeClientUsage cid w = (r, w') \<Longrightarrow> db w' = db w \<and> sqlerr w' = sqlerr w \<and> net w' = net w"
proof -
  have u: "usage_loop cid ps t v = (x, v') \<Longrightarrow> db v' = db v \<and> sqlerr v' = sqlerr v \<and> net v' = net v" for ps t x and v v' :: "hub world"
    by (induction ps arbitrary: t v) (auto split: prod.splits sum.splits dest!: list_frames(1))
  show "computeClientUsage cid w = (r, w') \<Longrightarrow> ?thesis"
    by (auto simp: computeClientUsage_def split: prod.splits sum.splits dest!: list_frames(2) u)
qed

definition event_env :: "FileChangedEvent \<Rightarrow> Envelope" where
  "event_env ev = \<lparr>Type = TypeFileChangedEvent, CorrelationID = [], Payload = enc_FileChangedEvent ev\<rparr>"

lemma srv_message_event:
  "is64 (ev_Size ev) \<Longrightarrow> is64 (ev_ModTime ev) \<Longrightarrow> srv_message cid (event_env ev) w = HandleFileChanged hub_Send cid ev w"
  by (simp add: srv_message_def readLoop_route_def srv_handle_def event_env_def FileChangedEvent_roundtrip msg_type_defs)

lemma srv_message_ack:
  "srv_message cid (ack_env cmd st m) w = (Inr (), w)"
  by (simp add: srv_message_def readLoop_route_def srv_handle_def ack_env_def FileSyncAck_roundtrip msg_type_defs HandleFileSyncAck_def)

lemma HandleEnvelope_command:
  "HandleEnvelope H c ctx (command_env cmd) s = (Inr (), s\<lparr>rn_started := rn_started s @ [cmd]\<rparr>)"
  by (simp add: HandleEnvelope_def command_env_def FileSyncCommand_roundtrip type_neqs)

lemma run_last_started:
  "run_started c (length (rn_started s)) (s\<lparr>rn_started := rn_started s @ [cmd], rn_net := n\<rparr>) = handleSyncCommand c cmd (s\<lparr>rn_net := n\<rparr>)"
  by (simp add: run_started_def)

section \<open>A write reaches the other client\<close>

text \<open>A fetch that the blob store can serve.\<close>

lemma fetch_served:
  assumes "lookupSubscription (cmd_PairID cmd) (rn_reg s) = Some sub" "cmd_Op cmd = ''fetch''"
    and "Join (su_RootSubpath sub) (cmd_RelPath cmd) = rel_path cs" "rn_net s = (srv, [])"
    and "Download H (server_http H psk lims) tc (rel_path cs) (cmd_SHA256 cmd) (rn_fs s, srv) = (Inr (), (f1, srv1))"
  shows "rn_fs (handleSyncCommand (wired H psk lims tc ign) cmd s) = f1 \<and>
    rn_net (handleSyncCommand (wired H psk lims tc ign) cmd s) = (srv1, [ack_env cmd ''ok'' []])"
  using assms
  by (simp add: handleSyncCommand_def wired_def rn_Add_def rn_now_def sendAck_def rn_Send_def Let_def)

text \<open>
  A write reaches the other client: client A, the source of an enabled \<open>a_to_b\<close> pair, notices that a
  non-empty file of the pair was written (and did not write it itself). It uploads the contents and reports
  the change; the server records it and sends client B, which is connected, one message; B's handler
  accepts it and starts the command, and when the command has run, the file of B's directory has exactly the
  contents A had, and B's only answer is the acknowledgement \<open>ok\<close>, which the server accepts. The blob is new
  to the server, the limits allow it, no statement and no system call fails, and B has the directory.
\<close>

theorem write_reaches_peer:
  assumes "routed tcA psk" "routed tcB psk" "\<And>x. length (H x) = 32" "os_ok b" "sql_ok w"
    and "find_pair (ev_PairID ev) (db w) = Some p" "p_Enabled p" "p_Direction p = ''a_to_b''"
    and "reachable_client (p_ClientBID p) (net w)"
    and "lookupSubscription (ev_PairID ev) (rn_reg sA) = Some subA" "rn_net sA = ((w, b), [])"
    and "ev_Side ev = ''a''" "ev_Op ev = ''write''" "ev_SHA256 ev = EncodeToString (H d)" "is64 (ev_Size ev)" "is64 (ev_ModTime ev)"
    and "\<not> fst (HitWithSHA (rn_clock sA (rn_ticks sA)) (ev_RelPath ev) (ev_SHA256 ev) (rn_supp sA))"
    and "jail_Open (rn_fs sA) (tc_Jail tcA) (Join (su_RootSubpath subA) (ev_RelPath ev)) = Inr q" "read_all (rn_fs sA) q = Inr d" "d \<noteq> []"
    and "map_of (files b) (blob_path (EncodeToString (H d))) = None"
    and "computeClientUsage (tc_ClientID tcA) w = (Inr used, w1)" "int (length d) \<le> maxFileSizeBytes lims"
    and "wrap64 (used + int (length d)) \<le> perClientQuota lims"
    and "lookupSubscription (ev_PairID ev) (rn_reg sB) = Some subB" "Join (su_RootSubpath subB) (ev_RelPath ev) = rel_path cs"
    and "ready (jail_root (tc_Jail tcB)) cs (rn_fs sB)"
  shows "\<exists>b1 w2 env sB1. rn_net (handleLocalChange (wired H psk lims tcA ignA) ev sA) = ((w1, b1), [event_env ev]) \<and>
    srv_message (p_ClientAID p) (event_env ev) w1 = (Inr (), w2) \<and>
    hub_sent (net w2) = hub_sent (net w) @ [(p_ClientBID p, env)] \<and>
    HandleEnvelope H (wired H psk lims tcB ignB) ctx env sB = (Inr (), sB1) \<and>
    (let sB2 = run_started (wired H psk lims tcB ignB) (length (rn_started sB)) (sB1\<lparr>rn_net := ((w2, b1), [])\<rparr>) in
      (\<exists>nd. lookup (rn_fs sB2) (jail_root (tc_Jail tcB) @ cs) = Inr nd \<and> n_kind nd = File d) \<and>
      (\<exists>ack. snd (rn_net sB2) = [ack] \<and> (\<forall>v. srv_message (p_ClientBID p) ack v = (Inr (), v))))"
proof -
  let ?cA = "wired H psk lims tcA ignA" and ?cB = "wired H psk lims tcB ignB"
  let ?cmd = "sync_command (p_ClientAID p) p (mirror_target p) ev"
  obtain b1 bf where u: "Upload H (server_http H psk lims) tcA (Join (su_RootSubpath subA) (ev_RelPath ev)) (rn_fs sA) (rn_fs sA) (w, b) =
      (Inr \<lparr>ur_SHA256 = EncodeToString (H d), ur_Size = int (length d), ur_Skipped = False\<rparr>, (w1, b1))"
    "os_ok b1" "map_of (files b1) (blob_path (EncodeToString (H d))) = Some bf" "f_data bf = d"
    using upload_stores [where H = H, OF assms(1,3,4,21-24,18-20)] by blast
  have "rc_Upload ?cA (Join (su_RootSubpath subA) (ev_RelPath ev)) (rn_fs sA, rn_net sA) =
      (Inr \<lparr>ur_SHA256 = EncodeToString (H d), ur_Size = int (length d), ur_Skipped = False\<rparr>, (rn_fs sA, ((w1, b1), [])))"
    using u(1) assms(11) by (simp add: wired_def)
  from reported_write [OF assms(13,17,10) this]
  have a: "rn_net (handleLocalChange ?cA ev sA) = ((w1, b1), [event_env ev])" by (simp add: wired_def event_env_def)
  note e = computeClientUsage_env [OF assms(22)]
  have pid: "p_ID p = ev_PairID ev" using assms(6) find_pair_ids by blast
  have "sql_ok w1" "find_pair (ev_PairID ev) (db w1) = Some p" "reachable_client (p_ClientBID p) (net w1)"
    using e assms(5,6,9) by (simp_all add: sql_ok_def)
  from mirror_event [OF this(1,2) assms(7,8,12) this(3), of "p_ClientAID p"] obtain w2
    where w2: "HandleFileChanged hub_Send (p_ClientAID p) ev w1 = (Inr (), w2)"
      "hub_sent (net w2) = hub_sent (net w) @ [(p_ClientBID p, command_env ?cmd)]"
    using e by auto
  have m: "srv_message (p_ClientAID p) (event_env ev) w1 = (Inr (), w2)" using w2(1) srv_message_event [OF assms(15,16)] by simp
  obtain f' b' nd where dl: "Download H (server_http H psk lims) tcB (rel_path cs) (EncodeToString (H d)) (rn_fs sB, (w2, b1)) = (Inr (), (f', (w2, b')))"
    "lookup f' (jail_root (tc_Jail tcB) @ cs) = Inr nd" "n_kind nd = File d"
    using download_fetches [where H = H, OF assms(2,3) u(2-4) assms(27)] by blast
  let ?sB = "sB\<lparr>rn_net := ((w2, b1), [])\<rparr>"
  have "cmd_PairID ?cmd = ev_PairID ev" "cmd_Op ?cmd = ''fetch''" "cmd_RelPath ?cmd = ev_RelPath ev" "cmd_SHA256 ?cmd = EncodeToString (H d)"
    using assms(13,14) pid by (simp_all add: sync_command_def)
  then have f: "rn_fs (handleSyncCommand ?cB ?cmd ?sB) = f' \<and> rn_net (handleSyncCommand ?cB ?cmd ?sB) = ((w2, b'), [ack_env ?cmd ''ok'' []])"
    using fetch_served [of ?cmd ?sB subB cs "(w2, b1)" H psk lims tcB f' "(w2, b')" ignB] assms(25,26) dl(1) by simp
  show ?thesis
    by (rule exI [of _ b1], rule exI [of _ w2], rule exI [of _ "command_env ?cmd"], rule exI [of _ "sB\<lparr>rn_started := rn_started sB @ [?cmd]\<rparr>"])
      (use a m w2(2) f dl(2,3) in \<open>simp add: HandleEnvelope_command run_last_started Let_def srv_message_ack\<close>)
qed

definition demo_peer :: "cfs \<Rightarrow> hub world \<times> bstore \<Rightarrow> netstate runner" where
  "demo_peer f srv = \<lparr>rn_fs = f, rn_net = (srv, []), rn_reg = rn_reg (demo_runner ''''), rn_supp = NewSuppressor,
     rn_clock = int, rn_ticks = 0, rn_started = []\<rparr>"

definition demo_written :: cfs where
  "demo_written = demo_fs\<lparr>cs_nodes := ([''home'', ''u'', ''a''], \<lparr>n_kind = File [1, 2, 3], n_mtime = 9\<rparr>) # cs_nodes demo_fs\<rparr>"

definition demo_write :: FileChangedEvent where
  "demo_write = demo_change\<lparr>ev_Side := ''a''\<rparr>"

lemma demo_ready_a: "ready (jail_root (tc_Jail demo_tclient)) [''a''] demo_fs"
  using demo_inv jail_New_root [OF demo_New]
  by (simp add: ready_def demo_tclient_def) (simp add: demo_jail_def partial_comps_def demo_fs_def lookup_def proper_def slash_def)

lemma demo_write_simps:
  "ev_PairID demo_write = ''p1''" "ev_Side demo_write = ''a''" "ev_Op demo_write = ''write''" "ev_RelPath demo_write = ''a''"
  "ev_SHA256 demo_write = EncodeToString (toy_hash [1, 2, 3])" "is64 (ev_Size demo_write)" "is64 (ev_ModTime demo_write)"
  by (simp_all add: demo_write_def demo_change_def toy_hash_3 is64_def)

lemma demo_peer_simps:
  "lookupSubscription ''p1'' (rn_reg (demo_peer f srv)) = Some (demo_sub '''')" "rn_net (demo_peer f srv) = (srv, [])"
  "rn_fs (demo_peer f srv) = f" "rn_started (demo_peer f srv) = []"
  "\<not> fst (HitWithSHA t x y (rn_supp (demo_peer f srv)))"
  using demo_lookup by (simp_all add: demo_peer_def HitWithSHA_def NewSuppressor_def)

theorem write_reaches_peer_witness:
  "\<exists>b1 w2 env sB1 nd. hub_sent (net w2) = [(''cb'', env)] \<and>
     lookup (rn_fs (run_started (wired toy_hash ''k'' demo_limits demo_tclient []) 0 (sB1\<lparr>rn_net := ((w2, b1), [])\<rparr>))) [''home'', ''u'', ''a''] = Inr nd \<and>
     n_kind nd = File [1, 2, 3]"
proof -
  let ?w = "demo_world ''a_to_b'' []"
  obtain x w1 where u: "computeClientUsage (tc_ClientID demo_tclient) ?w = (x, w1)" by (meson surj_pair)
  have "fst (computeClientUsage (tc_ClientID demo_tclient) ?w) = Inr 0" by code_simp
  then have u0: "computeClientUsage (tc_ClientID demo_tclient) ?w = (Inr 0, w1)" using u by simp
  have b: "os_ok empty_store" "map_of (files empty_store) y = None" for y by (simp_all add: os_ok_def empty_store_def)
  have p: "find_pair (ev_PairID demo_write) (db ?w) = Some (demo_pair ''a_to_b'')" by (simp add: demo_write_simps)
  have r: "reachable_client (p_ClientBID (demo_pair ''a_to_b'')) (net ?w)" by simp
  have j: "Join (su_RootSubpath (demo_sub '''')) (ev_RelPath demo_write) = rel_path [''a'']"
    "jail_Open demo_written (tc_Jail demo_tclient) (rel_path [''a'']) = Inr [''home'', ''u'', ''a'']"
    "read_all demo_written [''home'', ''u'', ''a''] = Inr [1, 2, 3]" by code_simp+
  have l: "int (length [1, 2, 3 :: byte]) \<le> maxFileSizeBytes demo_limits"
    "wrap64 (0 + int (length [1, 2, 3 :: byte])) \<le> perClientQuota demo_limits"
    by (simp_all add: demo_limits_def wrap64_def)
  have s: "lookupSubscription (ev_PairID demo_write) (rn_reg (demo_peer f srv)) = Some (demo_sub '''')" for f srv
    by (simp add: demo_write_simps demo_peer_simps)
  have o: "jail_Open (rn_fs (demo_peer demo_written (?w, empty_store))) (tc_Jail demo_tclient)
      (Join (su_RootSubpath (demo_sub '''')) (ev_RelPath demo_write)) = Inr [''home'', ''u'', ''a'']"
    "read_all (rn_fs (demo_peer demo_written (?w, empty_store))) [''home'', ''u'', ''a''] = Inr [1, 2, 3]"
    using j by (simp_all add: demo_peer_simps)
  have rb: "ready (jail_root (tc_Jail demo_tclient)) [''a''] (rn_fs (demo_peer demo_fs (?w, empty_store)))"
    by (simp add: demo_peer_simps demo_ready_a)
  have root: "jail_root (tc_Jail demo_tclient) @ [''a''] = [''home'', ''u'', ''a'']" by (simp add: demo_tclient_def demo_jail_def)
  show ?thesis
    using write_reaches_peer [where H = toy_hash and d = "[1, 2, 3]" and ctx = "\<lambda>_. None" and ignA = "[]" and ignB = "[]",
        OF demo_routed demo_routed toy_hash_length b(1) demo_world_simps(1) p _ _ r s demo_peer_simps(2) demo_write_simps(2,3,5-7)
          demo_peer_simps(5) o list.distinct(2) b(2) u0 l s j(1) rb]
    by (auto simp: demo_peer_simps root Let_def)
qed

section \<open>Registration\<close>

lemma IsOnline_registered: "NewConn cid h = (i, h1) \<Longrightarrow> IsOnline cid (hub_Register i h1)"
  by (auto simp: NewConn_def hub_Register_def IsOnline_def Let_def split: option.splits)

lemma register_request_received: "receiveRegisterRequest (TextFrame (Inr (register_env cf))) =
   Inr \<lparr>rr_ClientID = cf_ClientID cf, rr_Hostname = cf_Hostname cf, rr_RootPath = cf_RootPath cf, rr_Version = cf_Version cf,
        rr_ProtoVersion = ProtoVersion\<rparr>"
  by (simp add: receiveRegisterRequest_def register_env_def RegisterRequest_roundtrip)

lemma register_response_received:
  assumes "is64 t" "distinct (map fst m)"
  shows "\<exists>m'. register_response (Inr (register_response_env t m)) = Inr m' \<and> map_of m' = map_of m"
proof -
  have "map_of (sort_key fst m) = map_of m"
    using map_of_inject_set [of "sort_key fst m" m] assms(2) by (simp add: distinct_map)
  then show ?thesis
    using RegisterResponse_roundtrip [of "\<lparr>rgr_OK = True, rgr_ServerTime = t, rgr_Settings = m, rgr_Reason = []\<rparr>"] assms
    by (simp add: register_response_def register_response_env_def)
qed

text \<open>
  C27. A registration gets the server's settings: when a client of this version connects, its request is
  accepted, and what it reads from the answer is exactly the settings in the database; the client is then
  online in the hub, and its row says so, under the host name it sent, also when the administrator had
  given it another display name.
\<close>

theorem registration_roundtrip:
  assumes "sql_ok w" "distinct (map se_Key (settings (db w)))" "\<And>k. is64 (clock w k)"
    and "ws_ServeHTTP True (TextFrame (Inr (register_env cf))) (Inr ()) w = (res, w')"
  shows "\<exists>i env m c. res = Served i env \<and> register_response (Inr env) = Inr m \<and>
    (\<forall>k. map_of m k = map_option se_Value (find_setting k (db w))) \<and> IsOnline (cf_ClientID cf) (net w') \<and>
    find_client (cf_ClientID cf) (db w') = Some c \<and> c_Status c = ''online'' \<and> c_DisplayName c = cf_Hostname cf"
proof -
  let ?req = "\<lparr>rr_ClientID = cf_ClientID cf, rr_Hostname = cf_Hostname cf, rr_RootPath = cf_RootPath cf, rr_Version = cf_Version cf,
        rr_ProtoVersion = ProtoVersion\<rparr>"
  let ?c = "registered_client ?req (clock w (ticks w))"
  have v: "protoVersionCompatible (rr_ProtoVersion ?req) ProtoVersion" by code_simp
  obtain t w4 where s: "ws_ServeHTTP True (TextFrame (Inr (register_env cf))) (Inr ()) w = (case NewConn (rr_ClientID ?req) (net w4) of (i, h) \<Rightarrow>
          (Served i (register_response_env t (settings_map (db w))), w4\<lparr>net := hub_Register i h\<rparr>))"
    and w4: "clients (db w4) = clients (snd (upsert_client_sql ?c (db w)))" and t: "\<exists>k. t = clock w k"
    using ws_ServeHTTP_ok [OF assms(1) register_request_received v, of "Inr ()"] by (auto simp: sum.case)
  obtain i h where n: "NewConn (cf_ClientID cf) (net w4) = (i, h)" by fastforce
  have r: "res = Served i (register_response_env t (settings_map (db w)))" "w' = w4\<lparr>net := hub_Register i h\<rparr>"
    using assms(4) s n by simp_all
  have "is64 t" using t assms(3) by auto
  from register_response_received [OF this settings_map_simps] obtain m where
    m: "register_response (Inr (register_response_env t (settings_map (db w)))) = Inr m" "map_of m = map_of (settings_map (db w))" by blast
  have "find_client (cf_ClientID cf) (db w') = find_client (c_ID ?c) (snd (upsert_client_sql ?c (db w)))"
    using w4 by (simp add: r(2) find_client_def registered_client_def)
  with registered_row [of ?c "db w"] obtain c where
    "find_client (cf_ClientID cf) (db w') = Some c" "c_Status c = ''online''" "c_DisplayName c = cf_Hostname cf"
    by (auto simp: registered_client_def)
  then show ?thesis
    using r m settings_map_of [OF assms(2)] IsOnline_registered [OF n]
    by (intro exI [of _ i] exI [of _ "register_response_env t (settings_map (db w))"] exI [of _ m] exI [of _ c]) simp
qed

definition demo_cconfig :: cconfig where
  "demo_cconfig = \<lparr>cf_ClientID = ''ca'', cf_Hostname = ''host'', cf_RootPath = ''/r'', cf_Version = ''0.2.3''\<rparr>"

theorem registration_roundtrip_witness:
  "\<exists>c. find_client ''ca'' (db (snd (ws_ServeHTTP True (TextFrame (Inr (register_env demo_cconfig))) (Inr ()) ((demo_world ''a_to_b'' [])\<lparr>clock := \<lambda>k. 5\<rparr>)))) = Some c \<and>
     c_DisplayName c = ''host''"
proof -
  let ?w = "(demo_world ''a_to_b'' [])\<lparr>clock := \<lambda>k. 5\<rparr>"
  have "sql_ok ?w" "distinct (map se_Key (settings (db ?w)))" "\<And>k. is64 (clock ?w k)"
    by (simp_all add: demo_world_def sql_ok_def is64_def)
  from registration_roundtrip [OF this prod.collapse [symmetric], of demo_cconfig] show ?thesis
    by (auto simp: demo_cconfig_def)
qed

section \<open>The age of blobs\<close>

text \<open>
  The age of the collection wraps around: the setting \<open>blob_gc_age_seconds\<close> is used as it is exactly when
  its number of nanoseconds fits into 64 bits, from -9223372036 to 9223372036 seconds; one second more is
  a negative age, with which the collector also removes the blobs of uploads that were just made.
\<close>

theorem blob_gc_age_exact:
  assumes "sql_ok w" "distinct (map se_Key (settings (db w)))" "find_setting ''blob_gc_age_seconds'' (db w) = Some s"
    and "ParseInt (se_Value s) = Inr n"
  shows "(fst (blobGCMaxAge w) = n * 1000000000 \<longleftrightarrow> - 9223372036 \<le> n \<and> n \<le> 9223372036) \<and>
    (n = 9223372037 \<longrightarrow> fst (blobGCMaxAge w) < 0)"
proof -
  have "LoadAllSettings w = (Inr (settings_map (db w)), w\<lparr>stmts := Suc (stmts w)\<rparr>)"
    using assms(1) by (simp add: LoadAllSettings_def query_def exec_def sql_ok_def settings_map_def)
  then have b: "fst (blobGCMaxAge w) = wrap64 (n * 1000000000)"
    using settings_map_of [OF assms(2), of "''blob_gc_age_seconds''"] assms(3,4) by (simp add: blobGCMaxAge_def)
  have "wrap64 x = x \<longleftrightarrow> is64 x" for x using wrap64_id [of x] is64_wrap64 [of x] by metis
  moreover have "is64 (n * 1000000000) \<longleftrightarrow> - 9223372036 \<le> n \<and> n \<le> 9223372036" by (auto simp: is64_def)
  moreover have "wrap64 (9223372037 * 1000000000) < 0" by (simp add: wrap64_def)
  ultimately show ?thesis by (auto simp: b)
qed

theorem blob_gc_age_exact_witness:
  "fst (blobGCMaxAge ((demo_world ''a_to_b'' [])\<lparr>db := (db (demo_world ''a_to_b'' []))\<lparr>settings :=
     [\<lparr>se_Key = ''blob_gc_age_seconds'', se_Value = Sprint_int 9223372037, se_UpdatedAt = 0\<rparr>]\<rparr>\<rparr>)) < 0"
proof -
  have "ParseInt (Sprint_int 9223372037) = Inr 9223372037" by (rule ParseInt_Sprint_int) (simp add: is64_def)
  then show ?thesis
    using blob_gc_age_exact [of "(demo_world ''a_to_b'' [])\<lparr>db := (db (demo_world ''a_to_b'' []))\<lparr>settings :=
     [\<lparr>se_Key = ''blob_gc_age_seconds'', se_Value = Sprint_int 9223372037, se_UpdatedAt = 0\<rparr>]\<rparr>\<rparr>"]
    by (simp add: find_setting_def sql_ok_def) (simp add: demo_world_def)
qed

end
