(* ===== verification/WatchRun.thy ===== *)
theory WatchRun
  imports Watcher
begin

text \<open>
  The life of a file watcher (\<open>New\<close>, \<open>Start\<close>, \<open>Stop\<close> and the two channels of
  \<open>internal/watcher/watcher.go\<close>, \<open>fsbacked.go\<close>): the walk that registers the directories, the loop
  that reads the notifications, and what a stopped watcher still does. The answers of \<open>fsnotify\<close> to
  \<open>NewWatcher\<close>, \<open>Add\<close> and \<open>Close\<close> are arguments.
\<close>

section \<open>Creation\<close>

definition defaultDebounceDelay :: int where
  "defaultDebounceDelay = 200 * 1000000"

record watchcfg =
  wn_Root :: apath
  wn_IgnoreList :: "string list"
  wn_DebounceDelay :: int
  wn_Opener :: "(cfs \<Rightarrow> opener) option"
  wn_Stater :: "(cfs \<Rightarrow> stater) option"

record wlife =
  wl_cfg :: wconfig
  wl_delay :: int
  wl_opener :: "cfs \<Rightarrow> opener"
  wl_stater :: "cfs \<Rightarrow> stater"
  wl_w :: watcher
  wl_errors :: "err list"
  wl_looping :: bool
  wl_closed :: bool

definition fsBackedFS_Open :: "cfs \<Rightarrow> opener" where
  "fsBackedFS_Open f p = (case os_Open f p of
       Inl e \<Rightarrow> Inl e
     | Inr q \<Rightarrow> (case lookup f q of
         Inl e \<Rightarrow> Inl e
       | Inr nd \<Rightarrow> (case n_kind nd of File d \<Rightarrow> Inr d | Dir _ \<Rightarrow> Inl EISDIR | _ \<Rightarrow> Inr [])))"

definition fsBackedFS_Stat :: "cfs \<Rightarrow> stater" where
  "fsBackedFS_Stat f p = os_StatF f p"

definition wl_New :: "unit result \<Rightarrow> watchcfg \<Rightarrow> wlife result" where
  "wl_New newWatcher cfg = (case newWatcher of
       Inl e \<Rightarrow> Inl e
     | Inr _ \<Rightarrow> Inr \<lparr>wl_cfg = \<lparr>wc_Root = wn_Root cfg, wc_IgnoreList = wn_IgnoreList cfg\<rparr>,
         wl_delay = (if wn_DebounceDelay cfg = 0 then defaultDebounceDelay else wn_DebounceDelay cfg),
         wl_opener = (case wn_Opener cfg of None \<Rightarrow> fsBackedFS_Open | Some o1 \<Rightarrow> o1),
         wl_stater = (case wn_Stater cfg of None \<Rightarrow> fsBackedFS_Stat | Some s1 \<Rightarrow> s1),
         wl_w = watcher_New, wl_errors = [], wl_looping = False, wl_closed = False\<rparr>)"

section \<open>The walk over the directories\<close>

text \<open>
  \<open>filepath.Walk\<close> with the callback of \<open>addDirRecursive\<close>. The callback gets the result of \<open>Lstat\<close>
  or of reading the directory; \<open>k\<close> is the number of levels the walk may still descend, and
  \<open>addDirRecursive\<close> starts with one more than the longest path of the file system has components.
\<close>

definition SkipDir :: err where
  "SkipDir = Sentinel ''skip this directory''"

definition walkFn ::
  "wconfig \<Rightarrow> (apath \<Rightarrow> unit result) \<Rightarrow> apath \<Rightarrow> node result \<Rightarrow> apath list \<Rightarrow> err option \<times> apath list" where
  "walkFn c add p r ws = (case r of
       Inl e \<Rightarrow> (Some e, ws)
     | Inr info \<Rightarrow>
         if shouldIgnore c p then (if is_dir (n_kind info) then (Some SkipDir, ws) else (None, ws))
         else if is_dir (n_kind info) then (case add p of Inl e \<Rightarrow> (Some e, ws) | Inr _ \<Rightarrow> (None, ws @ [p]))
         else (None, ws))"

fun walk_dir :: "wconfig \<Rightarrow> (apath \<Rightarrow> unit result) \<Rightarrow> cfs \<Rightarrow> nat \<Rightarrow> apath \<Rightarrow> node \<Rightarrow> apath list \<Rightarrow> err option \<times> apath list"
  and walk_names :: "wconfig \<Rightarrow> (apath \<Rightarrow> unit result) \<Rightarrow> cfs \<Rightarrow> nat \<Rightarrow> apath \<Rightarrow> string list \<Rightarrow> apath list \<Rightarrow> err option \<times> apath list" where
  "walk_dir c add f k p info ws =
     (if \<not> is_dir (n_kind info) then walkFn c add p (Inr info) ws
      else case os_ReadDir f p of
        Inl e \<Rightarrow> walkFn c add p (Inl e) ws
      | Inr es \<Rightarrow> (case walkFn c add p (Inr info) ws of
          (Some e, ws1) \<Rightarrow> (Some e, ws1)
        | (None, ws1) \<Rightarrow> (case k of 0 \<Rightarrow> (None, ws1) | Suc k1 \<Rightarrow> walk_names c add f k1 p (map fst es) ws1)))"
| "walk_names c add f k p [] ws = (None, ws)"
| "walk_names c add f k p (name # names) ws =
     (let filename = p @ [name] in
      case os_Lstat f filename of
        Inl e \<Rightarrow> (case walkFn c add filename (Inl e) ws of
            (Some e1, ws1) \<Rightarrow> if e1 \<noteq> SkipDir then (Some e1, ws1) else walk_names c add f k p names ws1
          | (None, ws1) \<Rightarrow> walk_names c add f k p names ws1)
      | Inr info \<Rightarrow> (case walk_dir c add f k filename info ws of
            (Some e1, ws1) \<Rightarrow> if \<not> is_dir (n_kind info) \<or> e1 \<noteq> SkipDir then (Some e1, ws1)
                               else walk_names c add f k p names ws1
          | (None, ws1) \<Rightarrow> walk_names c add f k p names ws1))"

declare walk_dir.simps [simp del]

definition levels :: "cfs \<Rightarrow> nat" where
  "levels f = fold max (map (length \<circ> fst) (cs_nodes f)) 0"

definition addDirRecursive :: "wconfig \<Rightarrow> (apath \<Rightarrow> unit result) \<Rightarrow> cfs \<Rightarrow> watcher \<Rightarrow> err option \<times> watcher" where
  "addDirRecursive c add f w =
     (case (case os_Lstat f (wc_Root c) of
              Inl e \<Rightarrow> walkFn c add (wc_Root c) (Inl e) (w_watched w)
            | Inr info \<Rightarrow> walk_dir c add f (Suc (levels f)) (wc_Root c) info (w_watched w)) of
        (r, ws) \<Rightarrow> (if r = Some SkipDir then None else r, w\<lparr>w_watched := ws\<rparr>))"

section \<open>Start, the loop and Stop\<close>

definition wl_Start :: "(apath \<Rightarrow> unit result) \<Rightarrow> cfs \<Rightarrow> wlife \<Rightarrow> unit result \<times> wlife" where
  "wl_Start add f x = (case addDirRecursive (wl_cfg x) add f (wl_w x) of
       (Some e, w1) \<Rightarrow> (Inl e, x\<lparr>wl_w := w1\<rparr>)
     | (None, w1) \<Rightarrow> (Inr (), x\<lparr>wl_w := w1, wl_looping := True\<rparr>))"

text \<open>One iteration of the loop, for a notification and for an error; a full channel drops the error.\<close>

definition wl_notify :: "apath \<Rightarrow> 32 word \<Rightarrow> wlife \<Rightarrow> wlife" where
  "wl_notify p bits x = (if wl_looping x then x\<lparr>wl_w := watch_notify (wl_cfg x) p bits (wl_w x)\<rparr> else x)"

definition wl_fserror :: "err \<Rightarrow> wlife \<Rightarrow> wlife" where
  "wl_fserror e x = (if wl_looping x \<and> length (wl_errors x) < 10 then x\<lparr>wl_errors := wl_errors x @ [e]\<rparr> else x)"

text \<open>A timer runs in a goroutine of its own and knows nothing of the context.\<close>

definition wl_fire :: "(byte list \<Rightarrow> byte list) \<Rightarrow> apath \<Rightarrow> cfs \<Rightarrow> wlife \<Rightarrow> wlife" where
  "wl_fire H p f x = x\<lparr>wl_w := watch_fire H (wl_cfg x) (wl_opener x f) (wl_stater x f) p (wl_w x)\<rparr>"

definition wl_Stop :: "unit result \<Rightarrow> wlife \<Rightarrow> unit result \<times> wlife" where
  "wl_Stop close x = (close, x\<lparr>wl_looping := False, wl_closed := True\<rparr>)"

definition wl_cancel :: "wlife \<Rightarrow> wlife" where
  "wl_cancel x = x\<lparr>wl_looping := False\<rparr>"

section \<open>Which directories are registered\<close>

text \<open>The specification: the directories below a path with no ignored directory on the way from it.\<close>

definition wanted :: "wconfig \<Rightarrow> cfs \<Rightarrow> apath \<Rightarrow> apath \<Rightarrow> bool" where
  "wanted c f p q \<longleftrightarrow> prefix p q \<and> dir_at f q \<and> (\<forall>r. prefix p r \<and> prefix r q \<longrightarrow> \<not> shouldIgnore c r)"

text \<open>A tree: every node below the root lies in a directory, every name is proper, and all can be read.\<close>

definition tree_ok :: "apath \<Rightarrow> cfs \<Rightarrow> bool" where
  "tree_ok root f \<longleftrightarrow> real_dir f root \<and> root \<noteq> [] \<and> [] \<notin> set (cs_deny f) \<and> list_all (\<lambda>(p, n). list_all proper p) (cs_nodes f) \<and>
     (\<forall>p \<in> set (map fst (cs_nodes f)). strict_prefix root p \<longrightarrow> dir_at f (butlast p)) \<and>
     (\<forall>p \<in> set (cs_deny f). \<not> prefix root p)"

lemma levels_bound: "(p, n) \<in> set (cs_nodes f) \<Longrightarrow> length p \<le> levels f"
proof -
  have mono: "fold max ls (x::nat) \<ge> x" for ls x by (induction ls arbitrary: x) (auto intro: le_trans [OF max.cobounded2])
  have "y \<in> set ls \<Longrightarrow> y \<le> fold max ls x" for y ls and x :: nat
    by (induction ls arbitrary: x) (auto intro: le_trans [OF max.cobounded1 mono])
  then show "(p, n) \<in> set (cs_nodes f) \<Longrightarrow> ?thesis" unfolding levels_def by force
qed

lemma lookup_node: "lookup f p = Inr nd \<Longrightarrow> p \<noteq> [] \<Longrightarrow> (p, nd) \<in> set (cs_nodes f)"
  by (auto simp: lookup_def split: if_splits option.splits dest: map_of_SomeD)

lemma Lstat_in_dir:
  assumes "real_dir f p" "list_all proper p" "proper n"
  shows "os_Lstat f (p @ [n]) = lookup f (p @ [n])"
proof -
  have "n \<noteq> []" "n \<noteq> ''.''" "n \<noteq> ''..''" using assms(3) by (auto simp: proper_def)
  then show ?thesis using walk_real_dir [OF assms(1,2), of False False 40 "[n]"]
    by (auto simp: os_stat_def namei_def split: sum.splits kind.splits)
qed

lemma Lstat_dir: "real_dir f p \<Longrightarrow> list_all proper p \<Longrightarrow> os_Lstat f p = lookup f p"
  using namei_real [OF real_dir_real, of f p False False] by (simp add: os_stat_def)

lemma ReadDir_names:
  assumes "real_dir f p" "list_all proper p" "p \<noteq> []"
  shows "\<exists>es. os_ReadDir f p = Inr es \<and> set (map fst es) = {n. p @ [n] \<in> set (map fst (cs_nodes f))}"
proof -
  obtain nd where nd: "lookup f p = Inr nd" "is_dir (n_kind nd)"
    using assms(1,3) by (auto simp: real_dir_def dir_at_def)
  have "os_Open f p = Inr p" using namei_real [OF real_dir_real [OF assms(1)] assms(2)] nd by (simp add: os_Open_def)
  moreover have "set (map fst (sort_key fst (map (\<lambda>(r, n). (last r, n)) (children f p)))) =
      {n. p @ [n] \<in> set (map fst (cs_nodes f))}"
  proof -
    have "(\<exists>r nd. (r, nd) \<in> set (cs_nodes f) \<and> r \<noteq> [] \<and> butlast r = p \<and> n = last r) \<longleftrightarrow> p @ [n] \<in> fst ` set (cs_nodes f)" for n
      by (force simp: image_iff)
    then show ?thesis unfolding children_def child_of_def by (auto simp: image_iff split: prod.splits) (metis append_butlast_last_id fst_conv)+
  qed
  ultimately show ?thesis using nd by (simp add: os_ReadDir_def)
qed

lemma tree_dirs:
  assumes "tree_ok root f" "prefix root p" "prefix p q" "dir_at f q"
  shows "real_dir f p \<and> list_all proper p \<and> p \<noteq> []"
proof -
  from assms have t: "real_dir f root" "root \<noteq> []" by (simp_all add: tree_ok_def)
  have up: "real_dir f q" if "prefix root q" "dir_at f q" for q
    using that
  proof (induction q rule: rev_induct)
    case (snoc x q)
    show ?case
    proof (cases "prefix root q")
      case True
      then have "strict_prefix root (q @ [x])" by (auto simp: strict_prefix_def prefix_def)
      moreover have "q @ [x] \<in> set (map fst (cs_nodes f))"
        using snoc.prems(2) by (auto simp: dir_at_def image_iff dest!: lookup_node) force
      ultimately have "dir_at f q" using assms(1) by (auto simp: tree_ok_def) (metis (no_types) butlast_snoc image_eqI fst_conv)
      with snoc.IH True snoc.prems(2) show ?thesis by (simp add: real_dir_snoc)
    next
      case False
      then have "q @ [x] = root" using snoc.prems(1) by auto
      with t show ?thesis by simp
    qed
  qed simp
  have q: "real_dir f q" using up [OF _ assms(4)] assms(2,3) by (meson prefix_order.trans)
  have p: "p \<noteq> []" using assms(2) t(2) by auto
  have "real_dir f p" using q assms(3) by (auto simp: real_dir_def intro: prefix_order.trans)
  moreover obtain nd where "lookup f p = Inr nd" using calculation p by (auto simp: real_dir_def dir_at_def)
  then have "list_all proper p" using lookup_node [OF _ p] assms(1) by (fastforce simp: tree_ok_def list_all_iff)
  ultimately show ?thesis using p by simp
qed

lemma wanted_below:
  assumes "tree_ok root f" "prefix root p" "dir_at f p"
  shows "{q. wanted c f p q} = (if shouldIgnore c p then {}
     else insert p (\<Union>n \<in> {n. p @ [n] \<in> set (map fst (cs_nodes f))}. {q. wanted c f (p @ [n]) q}))"
proof (cases "shouldIgnore c p")
  case True
  then show ?thesis by (auto simp: wanted_def)
next
  case False
  have "\<exists>n. p @ [n] \<in> set (map fst (cs_nodes f)) \<and> wanted c f (p @ [n]) q" if "wanted c f p q" "q \<noteq> p" for q
  proof -
    from that obtain zs where "q = p @ zs" "zs \<noteq> []" by (auto simp: wanted_def prefix_def)
    then obtain n r where q: "q = p @ n # r" by (cases zs) auto
    then have pn: "prefix (p @ [n]) q" "prefix root (p @ [n])" using assms(2) by (auto simp: prefix_def)
    from that have d: "dir_at f q" by (simp add: wanted_def)
    from tree_dirs [OF assms(1) pn(2,1) d] have "dir_at f (p @ [n])" by (simp add: real_dir_snoc)
    then have "p @ [n] \<in> set (map fst (cs_nodes f))" by (auto simp: dir_at_def image_iff dest!: lookup_node) force
    moreover have "wanted c f (p @ [n]) q" using that pn(1) d by (auto simp: wanted_def intro: append_prefixD)
    ultimately show ?thesis by blast
  qed
  moreover have "wanted c f p q" if "wanted c f (p @ [n]) q" for n q
    using that False unfolding wanted_def by (metis append_prefixD prefix_order.eq_iff prefix_snoc prefix_same_cases)
  moreover have "wanted c f p p" using False assms(3) by (auto simp: wanted_def dest: prefix_order.antisym)
  ultimately have "wanted c f p q \<longleftrightarrow> q = p \<or> (\<exists>n. p @ [n] \<in> set (map fst (cs_nodes f)) \<and> wanted c f (p @ [n]) q)" for q
    by blast
  then show ?thesis using False by auto
qed

lemma wanted_non_dir:
  assumes "tree_ok root f" "prefix root p" "\<not> dir_at f p"
  shows "{q. wanted c f p q} = {}"
proof -
  have "\<not> wanted c f p q" for q
  proof
    assume "wanted c f p q"
    then have "real_dir f p \<and> p \<noteq> []" using tree_dirs [OF assms(1,2), of q] by (simp add: wanted_def)
    then show False using assms(3) by (auto simp: real_dir_def)
  qed
  then show ?thesis by simp
qed

lemma walk_exact:
  assumes "tree_ok root f" "\<forall>p. add p = Inr ()"
  shows "prefix root p \<Longrightarrow> lookup f p = Inr info \<Longrightarrow> k + length p > levels f \<Longrightarrow>
    \<exists>xs. walk_dir c add f k p info ws =
      (if is_dir (n_kind info) \<and> shouldIgnore c p then Some SkipDir else None, ws @ xs) \<and> set xs = {q. wanted c f p q}"
proof (induction k arbitrary: p info ws rule: less_induct)
  case (less k)
  show ?case
  proof (cases "is_dir (n_kind info)")
    case False
    then have "\<not> dir_at f p" using less.prems(2) by (simp add: dir_at_def)
    from wanted_non_dir [OF assms(1) less.prems(1) this] False show ?thesis
      by (simp add: walk_dir.simps walkFn_def)
  next
    case True
    then have d: "dir_at f p" using less.prems(2) by (simp add: dir_at_def)
    note rp = tree_dirs [OF assms(1) less.prems(1) prefix_order.refl d]
    then obtain es where es: "os_ReadDir f p = Inr es" "set (map fst es) = {n. p @ [n] \<in> set (map fst (cs_nodes f))}"
      using ReadDir_names by blast
    show ?thesis
    proof (cases "shouldIgnore c p")
      case ig: True
      then show ?thesis using True es(1) wanted_below [OF assms(1) less.prems(1) d, of c]
        by (simp add: walk_dir.simps walkFn_def)
    next
      case ni: False
      have "length p \<le> levels f" using lookup_node [OF less.prems(2)] rp levels_bound by blast
      with less.prems(3) obtain k1 where k: "k = Suc k1" by (cases k) auto
      have names: "set ns \<subseteq> {n. p @ [n] \<in> set (map fst (cs_nodes f))} \<Longrightarrow>
        \<exists>xs. walk_names c add f k1 p ns ws = (None, ws @ xs) \<and> set xs = (\<Union>n \<in> set ns. {q. wanted c f (p @ [n]) q})" for ns ws
      proof (induction ns arbitrary: ws)
        case (Cons n ns)
        from Cons.prems obtain nd0 where m: "(p @ [n], nd0) \<in> set (cs_nodes f)" by auto
        then have pr: "proper n" using assms(1) by (auto simp: tree_ok_def list_all_iff)
        have nd: "p @ [n] \<notin> set (cs_deny f)" using assms(1) less.prems(1) by (auto simp: tree_ok_def)
        from m obtain nd where l: "lookup f (p @ [n]) = Inr nd" using nd
          by (cases "map_of (cs_nodes f) (p @ [n])") (auto simp: lookup_def map_of_eq_None_iff image_iff)
        have ls: "os_Lstat f (p @ [n]) = Inr nd" using Lstat_in_dir rp pr l by simp
        have "prefix root (p @ [n])" using less.prems(1) by (simp add: prefix_prefix)
        from less.IH [OF _ this l, of k1 ws] k less.prems(3) obtain xs where
          w: "walk_dir c add f k1 (p @ [n]) nd ws = (if is_dir (n_kind nd) \<and> shouldIgnore c (p @ [n]) then Some SkipDir else None, ws @ xs)"
            "set xs = {q. wanted c f (p @ [n]) q}" by auto
        from Cons.IH [of "ws @ xs"] Cons.prems obtain ys where
          "walk_names c add f k1 p ns (ws @ xs) = (None, (ws @ xs) @ ys)" "set ys = (\<Union>n \<in> set ns. {q. wanted c f (p @ [n]) q})" by auto
        then show ?case using ls w by (intro exI [of _ "xs @ ys"]) (simp add: Let_def)
      qed simp
      from names [of "map fst es" "ws @ [p]", unfolded es(2), OF order.refl] obtain xs where
        "walk_names c add f k1 p (map fst es) (ws @ [p]) = (None, (ws @ [p]) @ xs)"
        "set xs = (\<Union>n \<in> {n. p @ [n] \<in> set (map fst (cs_nodes f))}. {q. wanted c f (p @ [n]) q})" by blast
      then show ?thesis using True es(1) ni k spec [OF assms(2), of p] wanted_below [OF assms(1) less.prems(1) d, of c]
        by (intro exI [of _ "p # xs"]) (simp add: walk_dir.simps walkFn_def)
    qed
  qed
qed

text \<open>
  C37. A started watcher watches the right directories: on a readable tree, \<open>Start\<close> succeeds and has
  registered exactly the directories below the root that have no ignored directory on the way from the
  root to them, themselves included, however deep they are.
\<close>

theorem Start_watches:
  assumes "tree_ok (wc_Root (wl_cfg x)) f" "\<forall>p. add p = Inr ()" "wl_w x = watcher_New"
  shows "fst (wl_Start add f x) = Inr () \<and>
    set (w_watched (wl_w (snd (wl_Start add f x)))) = {q. wanted (wl_cfg x) f (wc_Root (wl_cfg x)) q}"
proof -
  let ?root = "wc_Root (wl_cfg x)"
  from assms(1) have r: "real_dir f ?root" "?root \<noteq> []" by (simp_all add: tree_ok_def)
  then have d: "dir_at f ?root" by (auto simp: real_dir_def)
  then obtain info where l: "lookup f ?root = Inr info" by (auto simp: dir_at_def)
  have "list_all proper ?root" using tree_dirs [OF assms(1) prefix_order.refl prefix_order.refl d] by simp
  then have ls: "os_Lstat f ?root = Inr info" using Lstat_dir r l by simp
  from walk_exact [OF assms(1,2) prefix_order.refl l, where k = "Suc (levels f)" and c = "wl_cfg x" and ws = "[]"] obtain xs where
    "walk_dir (wl_cfg x) add f (Suc (levels f)) ?root info [] =
       (if is_dir (n_kind info) \<and> shouldIgnore (wl_cfg x) ?root then Some SkipDir else None, xs)"
    "set xs = {q. wanted (wl_cfg x) f ?root q}" by auto
  then show ?thesis using ls assms(3) by (simp add: wl_Start_def addDirRecursive_def watcher_New_def)
qed
definition demo_wlife :: wlife where
  "demo_wlife = (case wl_New (Inr ()) \<lparr>wn_Root = [''home'', ''u''], wn_IgnoreList = [''.git'', ''*.tmp''], wn_DebounceDelay = 0,
       wn_Opener = None, wn_Stater = None\<rparr> of Inr x \<Rightarrow> x)"

definition demo_tree :: cfs where
  "demo_tree = \<lparr>cs_nodes = [([''home''], \<lparr>n_kind = Dir 0, n_mtime = 0\<rparr>), ([''home'', ''u''], \<lparr>n_kind = Dir 0, n_mtime = 0\<rparr>),
       ([''home'', ''u'', ''a''], \<lparr>n_kind = File [1, 2], n_mtime = 5\<rparr>), ([''home'', ''u'', ''d''], \<lparr>n_kind = Dir 0, n_mtime = 0\<rparr>),
       ([''home'', ''u'', ''.git''], \<lparr>n_kind = Dir 0, n_mtime = 0\<rparr>), ([''home'', ''u'', ''.git'', ''x''], \<lparr>n_kind = Dir 0, n_mtime = 0\<rparr>)],
     cs_deny = [], cs_fail = (\<lambda>_. None), cs_time = (\<lambda>_. 0), cs_calls = 0\<rparr>"

theorem Start_watches_witness:
  "set (w_watched (wl_w (snd (wl_Start (\<lambda>_. Inr ()) demo_tree demo_wlife)))) = {q. wanted (wl_cfg demo_wlife) demo_tree [''home'', ''u''] q} \<and>
   wanted (wl_cfg demo_wlife) demo_tree [''home'', ''u''] [''home'', ''u'', ''d'']"
proof -
  have w: "wl_w demo_wlife = watcher_New" "wc_Root (wl_cfg demo_wlife) = [''home'', ''u'']" by (simp_all add: demo_wlife_def wl_New_def)
  have l: "lookup demo_tree [''home''] = Inr \<lparr>n_kind = Dir 0, n_mtime = 0\<rparr>" "lookup demo_tree [''home'', ''u''] = Inr \<lparr>n_kind = Dir 0, n_mtime = 0\<rparr>"
    "lookup demo_tree [''home'', ''u'', ''.git''] = Inr \<lparr>n_kind = Dir 0, n_mtime = 0\<rparr>" by code_simp+
  then have d: "dir_at demo_tree [''home'']" "dir_at demo_tree [''home'', ''u'']" "dir_at demo_tree [''home'', ''u'', ''.git'']"
    by (simp_all add: dir_at_def)
  have "list_all (\<lambda>(p, n). list_all proper p) (cs_nodes demo_tree)" by code_simp
  moreover have "real_dir demo_tree [''home'', ''u'']" using d by (auto simp: real_dir_def prefix_Cons)
  ultimately have t: "tree_ok (wc_Root (wl_cfg demo_wlife)) demo_tree"
    using d unfolding tree_ok_def w by (auto simp: demo_tree_def)
  have "set (w_watched (wl_w (snd (wl_Start (\<lambda>_. Inr ()) demo_tree demo_wlife)))) =
      {q. wanted (wl_cfg demo_wlife) demo_tree (wc_Root (wl_cfg demo_wlife)) q}"
    using Start_watches [of demo_wlife demo_tree "\<lambda>_. Inr ()", OF t _ w(1)] by simp
  moreover have "[''home'', ''u'', ''d''] \<in> set (w_watched (wl_w (snd (wl_Start (\<lambda>_. Inr ()) demo_tree demo_wlife))))" by code_simp
  ultimately show ?thesis using w(2) by simp
qed

section \<open>What stops a start\<close>

lemma names_error:
  assumes "n \<in> set ns" "os_Lstat f (p @ [n]) = Inl e \<or>
    (\<exists>info. os_Lstat f (p @ [n]) = Inr info \<and> is_dir (n_kind info) \<and> os_ReadDir f (p @ [n]) = Inl e)" "e \<noteq> SkipDir"
  shows "\<exists>e1 ws1. walk_names c add f k p ns ws = (Some e1, ws1) \<and> e1 \<noteq> SkipDir"
  using assms(1)
proof (induction ns arbitrary: ws)
  case (Cons m ns)
  have files: "\<not> is_dir (n_kind info) \<Longrightarrow> walk_dir c add f k q info ws = (None, ws)" for q info ws
    by (simp add: walk_dir.simps walkFn_def)
  show ?case
  proof (cases "m = n")
    case True
    then show ?thesis using assms(2,3) by (auto simp: walkFn_def walk_dir.simps)
  next
    case False
    then have n: "n \<in> set ns" using Cons.prems by simp
    show ?thesis
    proof (cases "os_Lstat f (p @ [m])")
      case (Inl x)
      then show ?thesis using Cons.IH [OF n] by (auto simp: walkFn_def)
    next
      case (Inr info)
      obtain r ws1 where w: "walk_dir c add f k (p @ [m]) info ws = (r, ws1)" by fastforce
      show ?thesis
      proof (cases r)
        case None
        then show ?thesis using Inr w Cons.IH [OF n] by simp
      next
        case (Some x)
        then have "is_dir (n_kind info)" using files [of info "p @ [m]" ws] w by auto
        then show ?thesis using Inr w Some Cons.IH [OF n] by auto
      qed
    qed
  qed
qed simp

text \<open>
  An entry of the root that cannot be read stops the client: when one directory in the root refuses to be
  listed, or one entry cannot be looked up, \<open>Start\<close> fails and nothing is watched at all, also when a
  pattern ignores this entry, because the callback looks at the error before the patterns.
\<close>

theorem unreadable_entry_stops_start:
  assumes "os_Lstat f (wc_Root (wl_cfg x)) = Inr info" "is_dir (n_kind info)" "\<not> shouldIgnore (wl_cfg x) (wc_Root (wl_cfg x))"
    and "os_ReadDir f (wc_Root (wl_cfg x)) = Inr es" "n \<in> set (map fst es)" "e \<noteq> SkipDir"
    and "os_Lstat f (wc_Root (wl_cfg x) @ [n]) = Inl e \<or> (\<exists>info. os_Lstat f (wc_Root (wl_cfg x) @ [n]) = Inr info \<and>
      is_dir (n_kind info) \<and> os_ReadDir f (wc_Root (wl_cfg x) @ [n]) = Inl e)"
    and "add (wc_Root (wl_cfg x)) = Inr ()"
  shows "isl (fst (wl_Start add f x)) \<and> wl_looping (snd (wl_Start add f x)) = wl_looping x"
proof -
  obtain e1 ws1 where "walk_names (wl_cfg x) add f (levels f) (wc_Root (wl_cfg x)) (map fst es)
      (w_watched (wl_w x) @ [wc_Root (wl_cfg x)]) = (Some e1, ws1)" "e1 \<noteq> SkipDir"
    using names_error [OF assms(5,7,6)] by blast
  then show ?thesis using assms(1-4,8) by (simp add: wl_Start_def addDirRecursive_def walk_dir.simps walkFn_def)
qed

end
