(* ===== verification/Pipeline.thy ===== *)
theory Pipeline
  imports FullSync WatchRun
begin

text \<open>
  A running client runner (\<open>New\<close>, \<open>Start\<close>, \<open>Stop\<close> and the goroutines of
  \<open>internal/client/runner/app.go\<close> and \<open>watcher.go\<close>): a notification of the file system goes through
  the watcher, its channel of 100 events, the translation loop, a channel of 64 events and the event loop
  to the network. The goroutines are interleaved in any order; one step is one receive and what the loop
  does with it up to its next channel operation. The user and the server may change the files and the
  network between two steps.
\<close>

section \<open>State\<close>

record wrunner =
  wr_life :: wlife
  wr_out :: "FileChangedEvent list"
  wr_err :: "err list"
  wr_batch :: "FileChangedEvent list"
  wr_held :: "err option"
  wr_running :: bool

record 'n client =
  cl_run :: "'n runner"
  cl_once :: bool
  cl_wr :: "wrunner option"
  cl_running :: bool

text \<open>The fields of \<open>Config\<close> are interfaces and pointers, which may be missing.\<close>

record 'n runner_config =
  nc_Jail :: "Jail option"
  nc_Transfer :: "('n upload_fn \<times> 'n download_fn) option"
  nc_Sender :: "'n client_send option"
  nc_IgnoreList :: "string list"

definition runner_New :: "'n runner_config \<Rightarrow> 'n rconfig result" where
  "runner_New cfg = (case nc_Jail cfg of None \<Rightarrow> Inl (Opaque ''runner: Jail is required'')
     | Some j \<Rightarrow> (case nc_Transfer cfg of None \<Rightarrow> Inl (Opaque ''runner: Transfer is required'')
     | Some (up, down) \<Rightarrow> (case nc_Sender cfg of None \<Rightarrow> Inl (Opaque ''runner: Sender is required'')
     | Some send \<Rightarrow> Inr \<lparr>rc_Jail = j, rc_Upload = up, rc_Download = down, rc_Send = send, rc_IgnoreList = nc_IgnoreList cfg\<rparr>)))"

definition new_client :: "cfs \<Rightarrow> 'n \<Rightarrow> (nat \<Rightarrow> int) \<Rightarrow> 'n client" where
  "new_client f n clk = \<lparr>cl_run = \<lparr>rn_fs = f, rn_net = n, rn_reg = NewRegistry, rn_supp = NewSuppressor, rn_clock = clk,
     rn_ticks = 0, rn_started = []\<rparr>, cl_once = False, cl_wr = None, cl_running = False\<rparr>"

section \<open>The watcher of a runner\<close>

definition NewWatcherRunner :: "unit result \<Rightarrow> 'n rconfig \<Rightarrow> wrunner result" where
  "NewWatcherRunner newWatcher c =
     (case wl_New newWatcher \<lparr>wn_Root = jail_root (rc_Jail c), wn_IgnoreList = rc_IgnoreList c, wn_DebounceDelay = 0,
         wn_Opener = Some (\<lambda>f. jailOpener f (rc_Jail c)), wn_Stater = Some (\<lambda>f. jailStater f (rc_Jail c))\<rparr> of
        Inl e \<Rightarrow> Inl e
      | Inr w \<Rightarrow> Inr \<lparr>wr_life = w, wr_out = [], wr_err = [], wr_batch = [], wr_held = None, wr_running = False\<rparr>)"

definition wr_Start :: "(apath \<Rightarrow> unit result) \<Rightarrow> cfs \<Rightarrow> wrunner \<Rightarrow> unit result \<times> wrunner" where
  "wr_Start add f wr = (case wl_Start add f (wr_life wr) of
       (Inl e, w) \<Rightarrow> (Inl e, wr\<lparr>wr_life := w\<rparr>)
     | (Inr _, w) \<Rightarrow> (Inr (), wr\<lparr>wr_life := w, wr_running := True\<rparr>))"

definition wr_Stop :: "unit result \<Rightarrow> wrunner \<Rightarrow> unit result \<times> wrunner" where
  "wr_Stop close wr = (case wl_Stop close (wr_life wr) of (r, w) \<Rightarrow> (r, wr\<lparr>wr_life := w\<rparr>))"

text \<open>
  \<open>translateLoop\<close>: it takes the next event only when the matches of the last one have been sent, and
  blocks while the channel is full.
\<close>

definition translateLoop_take :: "Registry \<Rightarrow> wrunner \<Rightarrow> wrunner" where
  "translateLoop_take reg wr = (if wr_running wr \<and> wr_batch wr = [] then
       (case w_events (wl_w (wr_life wr)) of [] \<Rightarrow> wr
        | ev # evs \<Rightarrow> wr\<lparr>wr_life := (wr_life wr)\<lparr>wl_w := (wl_w (wr_life wr))\<lparr>w_events := evs\<rparr>\<rparr>, wr_batch := translate reg ev\<rparr>)
     else wr)"

definition translateLoop_put :: "wrunner \<Rightarrow> wrunner" where
  "translateLoop_put wr = (case wr_batch wr of [] \<Rightarrow> wr
     | out # rest \<Rightarrow> if wr_running wr \<and> length (wr_out wr) < 64 then wr\<lparr>wr_out := wr_out wr @ [out], wr_batch := rest\<rparr> else wr)"

definition wr_errorPump_take :: "wrunner \<Rightarrow> wrunner" where
  "wr_errorPump_take wr = (if wr_running wr \<and> wr_held wr = None then
       (case wl_errors (wr_life wr) of [] \<Rightarrow> wr
        | e # es \<Rightarrow> wr\<lparr>wr_life := (wr_life wr)\<lparr>wl_errors := es\<rparr>, wr_held := Some e\<rparr>)
     else wr)"

definition wr_errorPump_put :: "wrunner \<Rightarrow> wrunner" where
  "wr_errorPump_put wr = (case wr_held wr of None \<Rightarrow> wr
     | Some e \<Rightarrow> if wr_running wr \<and> length (wr_err wr) < 8 then wr\<lparr>wr_err := wr_err wr @ [e], wr_held := None\<rparr> else wr)"

section \<open>The runner\<close>

text \<open>\<open>startOnce\<close> runs its function once, whatever came of it: a later call returns no error.\<close>

definition runner_Start :: "unit result \<Rightarrow> (apath \<Rightarrow> unit result) \<Rightarrow> 'n rconfig \<Rightarrow> 'n client \<Rightarrow> unit result \<times> 'n client" where
  "runner_Start newWatcher add c s =
     (if cl_once s then (Inr (), s)
      else (let s1 = s\<lparr>cl_once := True\<rparr> in
        case NewWatcherRunner newWatcher c of
          Inl e \<Rightarrow> (Inl e, s1)
        | Inr wr \<Rightarrow> (case wr_Start add (rn_fs (cl_run s1)) wr of
            (Inl e, wr1) \<Rightarrow> (Inl e, s1\<lparr>cl_wr := Some wr1\<rparr>)
          | (Inr _, wr1) \<Rightarrow> (Inr (), s1\<lparr>cl_wr := Some wr1, cl_running := True,
              cl_run := (cl_run s1)\<lparr>rn_supp := StartGC (rn_supp (cl_run s1))\<rparr>\<rparr>))))"

definition runner_Stop :: "unit result \<Rightarrow> 'n client \<Rightarrow> unit result \<times> 'n client" where
  "runner_Stop close s =
     (let s1 = s\<lparr>cl_run := (cl_run s)\<lparr>rn_supp := StopGC (rn_supp (cl_run s))\<rparr>\<rparr> in
      case cl_wr s1 of
        None \<Rightarrow> (Inr (), s1)
      | Some wr \<Rightarrow> (case wr_Stop close wr of (r, wr1) \<Rightarrow> (r, s1\<lparr>cl_wr := Some wr1\<rparr>)))"

definition eventLoop :: "'n rconfig \<Rightarrow> 'n client \<Rightarrow> 'n client" where
  "eventLoop c s = (case cl_wr s of None \<Rightarrow> s
     | Some wr \<Rightarrow> (case wr_out wr of [] \<Rightarrow> s
       | ev # evs \<Rightarrow> if cl_running s then s\<lparr>cl_wr := Some (wr\<lparr>wr_out := evs\<rparr>), cl_run := handleLocalChange c ev (cl_run s)\<rparr> else s))"

definition errorPump :: "'n client \<Rightarrow> 'n client" where
  "errorPump s = (case cl_wr s of None \<Rightarrow> s
     | Some wr \<Rightarrow> if cl_running s then s\<lparr>cl_wr := Some (wr\<lparr>wr_err := tl (wr_err wr)\<rparr>)\<rparr> else s)"

section \<open>Steps\<close>

datatype 'n cstep =
    CStart "unit result" "apath \<Rightarrow> unit result" | CStop "unit result" | CCancel
  | CNotify apath "32 word" | CWatchError err | CFire apath
  | CTake | CPut | CHandle | CErrTake | CErrPut | CErrLog
  | CEnvelope Envelope | CRun nat | CFiles cfs | CNet "'n \<Rightarrow> 'n"

definition upd_wr :: "(wrunner \<Rightarrow> wrunner) \<Rightarrow> 'n client \<Rightarrow> 'n client" where
  "upd_wr g s = s\<lparr>cl_wr := map_option g (cl_wr s)\<rparr>"

definition upd_life :: "(wlife \<Rightarrow> wlife) \<Rightarrow> 'n client \<Rightarrow> 'n client" where
  "upd_life g = upd_wr (\<lambda>wr. wr\<lparr>wr_life := g (wr_life wr)\<rparr>)"

text \<open>A cancelled context ends all loops; the loops of the watcher end with \<open>Stop\<close> alone.\<close>

fun cstep_run :: "(byte list \<Rightarrow> byte list) \<Rightarrow> 'n rconfig \<Rightarrow> (string \<Rightarrow> err option) \<Rightarrow> 'n cstep \<Rightarrow> 'n client \<Rightarrow> 'n client" where
  "cstep_run H c ctx (CStart r add) s = snd (runner_Start r add c s)"
| "cstep_run H c ctx (CStop r) s = snd (runner_Stop r s)"
| "cstep_run H c ctx CCancel s = upd_wr (\<lambda>wr. wr\<lparr>wr_running := False, wr_life := wl_cancel (wr_life wr)\<rparr>) (s\<lparr>cl_running := False\<rparr>)"
| "cstep_run H c ctx (CNotify p bits) s = upd_life (wl_notify p bits) s"
| "cstep_run H c ctx (CWatchError e) s = upd_life (wl_fserror e) s"
| "cstep_run H c ctx (CFire p) s = upd_life (wl_fire H p (rn_fs (cl_run s))) s"
| "cstep_run H c ctx CTake s = upd_wr (translateLoop_take (rn_reg (cl_run s))) s"
| "cstep_run H c ctx CPut s = upd_wr translateLoop_put s"
| "cstep_run H c ctx CHandle s = eventLoop c s"
| "cstep_run H c ctx CErrTake s = upd_wr wr_errorPump_take s"
| "cstep_run H c ctx CErrPut s = upd_wr wr_errorPump_put s"
| "cstep_run H c ctx CErrLog s = errorPump s"
| "cstep_run H c ctx (CEnvelope env) s = s\<lparr>cl_run := snd (HandleEnvelope H c ctx env (cl_run s))\<rparr>"
| "cstep_run H c ctx (CRun i) s = s\<lparr>cl_run := run_started c i (cl_run s)\<rparr>"
| "cstep_run H c ctx (CFiles f) s = s\<lparr>cl_run := (cl_run s)\<lparr>rn_fs := f\<rparr>\<rparr>"
| "cstep_run H c ctx (CNet g) s = s\<lparr>cl_run := (cl_run s)\<lparr>rn_net := g (rn_net (cl_run s))\<rparr>\<rparr>"

section \<open>What an observer sees\<close>

text \<open>
  The steps that the watcher and its loops do not take are \<open>Other\<close>: the server's messages, the running
  commands, the user and the network, and a start or stop where it switches the suppressor's collector.
\<close>

datatype 'n obs = Fired apath cfs | Took Registry wevent | Handled FileChangedEvent | Other "'n cstep"

definition obs_of :: "'n rconfig \<Rightarrow> 'n cstep \<Rightarrow> 'n client \<Rightarrow> 'n obs list" where
  "obs_of c x s = (case x of
       CStart r add \<Rightarrow> if \<not> cl_once s \<and> \<not> isl (fst (runner_Start r add c s)) then [Other x] else []
     | CStop _ \<Rightarrow> [Other x] | CEnvelope _ \<Rightarrow> [Other x] | CRun _ \<Rightarrow> [Other x] | CFiles _ \<Rightarrow> [Other x] | CNet _ \<Rightarrow> [Other x]
     | _ \<Rightarrow> (case cl_wr s of None \<Rightarrow> [] | Some wr \<Rightarrow>
         (case x of
            CFire p \<Rightarrow> [Fired p (rn_fs (cl_run s))]
          | CTake \<Rightarrow> if wr_running wr \<and> wr_batch wr = [] then map (Took (rn_reg (cl_run s))) (take 1 (w_events (wl_w (wr_life wr)))) else []
          | CHandle \<Rightarrow> if cl_running s then map Handled (take 1 (wr_out wr)) else []
          | _ \<Rightarrow> [])))"

primrec history :: "(byte list \<Rightarrow> byte list) \<Rightarrow> 'n rconfig \<Rightarrow> (string \<Rightarrow> err option) \<Rightarrow> 'n cstep list \<Rightarrow> 'n client \<Rightarrow> 'n obs list" where
  "history H c ctx [] s = []"
| "history H c ctx (x # xs) s = obs_of c x s @ history H c ctx xs (cstep_run H c ctx x s)"

fun handled :: "'n obs list \<Rightarrow> FileChangedEvent list" where
  "handled [] = []"
| "handled (Handled ev # h) = ev # handled h"
| "handled (_ # h) = handled h"

fun translated :: "'n obs list \<Rightarrow> FileChangedEvent list" where
  "translated [] = []"
| "translated (Took reg ev # h) = translate reg ev @ translated h"
| "translated (_ # h) = translated h"

text \<open>What the observed actions do to a runner: a handled change goes through \<open>handleLocalChange\<close>.\<close>

fun obs_effect :: "(byte list \<Rightarrow> byte list) \<Rightarrow> 'n rconfig \<Rightarrow> (string \<Rightarrow> err option) \<Rightarrow> 'n obs \<Rightarrow> 'n runner \<Rightarrow> 'n runner" where
  "obs_effect H c ctx (Handled ev) r = handleLocalChange c ev r"
| "obs_effect H c ctx (Other (CEnvelope env)) r = snd (HandleEnvelope H c ctx env r)"
| "obs_effect H c ctx (Other (CRun i)) r = run_started c i r"
| "obs_effect H c ctx (Other (CFiles f)) r = r\<lparr>rn_fs := f\<rparr>"
| "obs_effect H c ctx (Other (CNet g)) r = r\<lparr>rn_net := g (rn_net r)\<rparr>"
| "obs_effect H c ctx (Other (CStart _ _)) r = r\<lparr>rn_supp := StartGC (rn_supp r)\<rparr>"
| "obs_effect H c ctx (Other (CStop _)) r = r\<lparr>rn_supp := StopGC (rn_supp r)\<rparr>"
| "obs_effect H c ctx _ r = r"

section \<open>Nothing is invented, lost or reordered\<close>

lemma took_effect: "fold (obs_effect H c ctx) (map (Took reg) es) r = r"
  by (induction es) simp_all

lemma step_effect: "cl_run (cstep_run H c ctx x s) = fold (obs_effect H c ctx) (obs_of c x s) (cl_run s)"
proof (cases x)
  case (CStart r add)
  then show ?thesis by (simp add: obs_of_def runner_Start_def Let_def split: sum.splits prod.splits)
next
  case CHandle
  then show ?thesis by (auto simp: obs_of_def eventLoop_def split: option.splits list.splits)
next
  case CTake
  then show ?thesis by (simp add: obs_of_def upd_wr_def took_effect split: option.splits)
qed (auto simp: obs_of_def runner_Stop_def upd_wr_def upd_life_def errorPump_def Let_def split: option.splits prod.splits)

lemma run_effect: "cl_run (fold (cstep_run H c ctx) xs s) = fold (obs_effect H c ctx) (history H c ctx xs s) (cl_run s)"
  by (induction xs arbitrary: s) (simp_all add: step_effect)

lemma obs_append [simp]: "handled (h @ h') = handled h @ handled h'" "translated (h @ h') = translated h @ translated h'"
  by (induction h rule: handled.induct) simp_all

definition watch_config :: "'n rconfig \<Rightarrow> wconfig" where
  "watch_config c = \<lparr>wc_Root = jail_root (rc_Jail c), wc_IgnoreList = rc_IgnoreList c\<rparr>"

text \<open>What a watcher event says about the files: the path is watched, and a hash was read when a timer fired.\<close>

definition genuine :: "(byte list \<Rightarrow> byte list) \<Rightarrow> 'n rconfig \<Rightarrow> 'n obs list \<Rightarrow> wevent \<Rightarrow> bool" where
  "genuine H c h e \<longleftrightarrow> (\<exists>p. we_RelPath e = Rel (jail_root (rc_Jail c)) p \<and> \<not> shouldIgnore (watch_config c) p \<and>
     (we_Op e = OpWrite \<longrightarrow> (\<exists>f d. Fired p f \<in> set h \<and> jailOpener f (rc_Jail c) p = Inr d \<and> we_SHA256 e = EncodeToString (H d))))"

lemma genuine_mono: "genuine H c h e \<Longrightarrow> genuine H c (h @ h') e"
  unfolding genuine_def by auto

definition wr_inv :: "(byte list \<Rightarrow> byte list) \<Rightarrow> 'n rconfig \<Rightarrow> 'n obs list \<Rightarrow> wrunner \<Rightarrow> bool" where
  "wr_inv H c h wr \<longleftrightarrow> translated h = handled h @ wr_out wr @ wr_batch wr \<and> length (wr_out wr) \<le> 64 \<and>
     length (w_events (wl_w (wr_life wr))) \<le> 100 \<and> list_all (genuine H c h) (w_events (wl_w (wr_life wr))) \<and>
     (\<forall>reg e. Took reg e \<in> set h \<longrightarrow> genuine H c h e) \<and>
     (\<forall>p \<in> dom (w_debouncer (wl_w (wr_life wr))). \<not> shouldIgnore (watch_config c) p) \<and>
     wl_cfg (wr_life wr) = watch_config c \<and> wl_opener (wr_life wr) = (\<lambda>f. jailOpener f (rc_Jail c))"

definition client_inv :: "(byte list \<Rightarrow> byte list) \<Rightarrow> 'n rconfig \<Rightarrow> 'n obs list \<Rightarrow> 'n client \<Rightarrow> bool" where
  "client_inv H c h s \<longleftrightarrow> (case cl_wr s of
       None \<Rightarrow> translated h = [] \<and> handled h = [] \<and> (\<forall>reg e. Took reg e \<notin> set h) | Some wr \<Rightarrow> cl_once s \<and> wr_inv H c h wr)"

lemma wr_inv_cong:
  "wr_inv H c h wr \<Longrightarrow> wr_out wr' = wr_out wr \<Longrightarrow> wr_batch wr' = wr_batch wr \<Longrightarrow> w_events (wl_w (wr_life wr')) = w_events (wl_w (wr_life wr)) \<Longrightarrow>
   w_debouncer (wl_w (wr_life wr')) = w_debouncer (wl_w (wr_life wr)) \<Longrightarrow> wl_cfg (wr_life wr') = wl_cfg (wr_life wr) \<Longrightarrow>
   wl_opener (wr_life wr') = wl_opener (wr_life wr) \<Longrightarrow> wr_inv H c h wr'"
  by (simp add: wr_inv_def)

lemma addDirRecursive_frame: "addDirRecursive cfg add f w = (r, w') \<Longrightarrow> w_events w' = w_events w \<and> w_debouncer w' = w_debouncer w"
  by (auto simp: addDirRecursive_def split: prod.splits)

lemma wr_Start_frame:
  "wr_Start add f wr = (r, wr') \<Longrightarrow> wr_out wr' = wr_out wr \<and> wr_batch wr' = wr_batch wr \<and>
     w_events (wl_w (wr_life wr')) = w_events (wl_w (wr_life wr)) \<and> w_debouncer (wl_w (wr_life wr')) = w_debouncer (wl_w (wr_life wr)) \<and>
     wl_cfg (wr_life wr') = wl_cfg (wr_life wr) \<and> wl_opener (wr_life wr') = wl_opener (wr_life wr)"
  by (auto simp: wr_Start_def wl_Start_def split: prod.splits option.splits sum.splits dest: addDirRecursive_frame)

lemma NewWatcherRunner_inv:
  "NewWatcherRunner newW c = Inr wr \<Longrightarrow> translated h = [] \<Longrightarrow> handled h = [] \<Longrightarrow> (\<forall>reg e. Took reg e \<notin> set h) \<Longrightarrow> wr_inv H c h wr"
  by (auto simp: NewWatcherRunner_def wl_New_def wr_inv_def watch_config_def watcher_New_def split: sum.splits)

lemma client_inv_Start: "client_inv H c h s \<Longrightarrow> client_inv H c h (snd (runner_Start newW add c s))"
proof (cases "cl_once s \<or> isl (NewWatcherRunner newW c)")
  case True
  then show "client_inv H c h s \<Longrightarrow> ?thesis"
    by (auto simp: runner_Start_def Let_def client_inv_def isl_def split: option.splits sum.splits)
next
  case False
  then obtain wr where wr: "NewWatcherRunner newW c = Inr wr" by (cases "NewWatcherRunner newW c") auto
  obtain r wr1 where st: "wr_Start add (rn_fs (cl_run s)) wr = (r, wr1)" by fastforce
  assume i: "client_inv H c h s"
  then have n: "cl_wr s = None" "translated h = []" "handled h = []" "\<forall>reg e. Took reg e \<notin> set h"
    using False by (auto simp: client_inv_def split: option.splits)
  have "wr_inv H c h wr1" using wr_inv_cong [OF NewWatcherRunner_inv [OF wr n(2-4)]] wr_Start_frame [OF st] by blast
  then show ?thesis using False wr st
    by (cases r) (simp_all add: runner_Start_def Let_def client_inv_def)
qed

lemma genuine_list_mono: "list_all (genuine H c h) es \<Longrightarrow> list_all (genuine H c (h @ h')) es"
  by (auto simp: list_all_iff genuine_mono)

lemma obs_others [simp]: "handled (map Other xs) = []" "translated (map Other xs) = []"
  by (induction xs) simp_all

lemma client_inv_others: "client_inv H c h s \<Longrightarrow> client_inv H c (h @ map Other xs) s"
  by (auto simp: client_inv_def wr_inv_def split: option.splits intro: genuine_mono genuine_list_mono)

lemma client_inv_other: "client_inv H c h s \<Longrightarrow> client_inv H c (h @ [Other x]) s"
  using client_inv_others [of H c h s "[x]"] by simp

lemma wr_inv_fire:
  assumes "wr_inv H c h wr" "wr' = wr\<lparr>wr_life := wl_fire H p f (wr_life wr)\<rparr>"
  shows "wr_inv H c (h @ [Fired p f]) wr'"
proof -
  let ?w = "wl_w (wr_life wr)" and ?h = "h @ [Fired p f]"
  from assms(1) have cfg: "wl_cfg (wr_life wr) = watch_config c" "wl_opener (wr_life wr) = (\<lambda>f. jailOpener f (rc_Jail c))"
    and l: "length (w_events ?w) \<le> 100" and g: "list_all (genuine H c ?h) (w_events ?w)"
    and d: "\<forall>p \<in> dom (w_debouncer ?w). \<not> shouldIgnore (watch_config c) p"
    by (simp_all add: wr_inv_def genuine_list_mono)
  let ?w' = "watch_fire H (watch_config c) (jailOpener f (rc_Jail c)) (wl_stater (wr_life wr) f) p ?w"
  have "length (w_events ?w') \<le> 100 \<and> list_all (genuine H c ?h) (w_events ?w') \<and>
      (\<forall>q \<in> dom (w_debouncer ?w'). \<not> shouldIgnore (watch_config c) q)"
  proof (cases "w_debouncer ?w p")
    case None
    then show ?thesis using l g d by (simp add: watch_fire_def)
  next
    case (Some bits)
    let ?v = "?w\<lparr>w_debouncer := (w_debouncer ?w)(p := None)\<rparr>"
    have np: "\<not> shouldIgnore (watch_config c) p" using d Some by blast
    have "genuine H c ?h e" if "e \<in> set (w_events (processEvent H (watch_config c) (jailOpener f (rc_Jail c)) (wl_stater (wr_life wr) f) p bits ?v))" for e
      using processEvent_events [OF that] g np by (auto simp: genuine_def list_all_iff watch_config_def)
    then show ?thesis using Some d processEvent_length [of ?v] l by (auto simp: watch_fire_def list_all_iff)
  qed
  then show ?thesis using assms cfg
    by (auto simp: wr_inv_def wl_fire_def intro: genuine_mono)
qed

lemma obs_other:
  "cl_wr s = None \<or> x \<notin> {CTake, CHandle} \<and> (\<forall>p. x \<noteq> CFire p) \<Longrightarrow> obs_of c x s = [] \<or> obs_of c x s = [Other x]"
  by (auto simp: obs_of_def split: cstep.splits option.splits)

text \<open>A step that is none of the watcher's and its loops' leaves the channels alone.\<close>

lemma client_inv_quiet:
  assumes "client_inv H c h s" "cl_wr s = None \<or> x \<notin> {CTake, CPut, CHandle} \<and> (\<forall>p. x \<noteq> CFire p) \<and> (\<forall>p bits. x \<noteq> CNotify p bits)"
  shows "client_inv H c h (cstep_run H c ctx x s)"
proof (cases "cl_wr s")
  case None
  then show ?thesis
    by (cases x) (use assms(1) in \<open>simp_all add: client_inv_Start\<close>,
        auto simp: client_inv_def runner_Stop_def upd_wr_def upd_life_def eventLoop_def errorPump_def)
next
  case (Some wr)
  then have o: "cl_once s" and w: "wr_inv H c h wr" using assms(1) by (simp_all add: client_inv_def)
  have q: "x \<notin> {CTake, CPut, CHandle}" "\<And>p. x \<noteq> CFire p" "\<And>p bits. x \<noteq> CNotify p bits" using assms(2) Some by auto
  show ?thesis
  proof (cases x)
    case (CStart r add)
    then show ?thesis using assms(1) by (simp add: client_inv_Start)
  qed (use Some o w q in \<open>auto simp: client_inv_def upd_wr_def upd_life_def runner_Stop_def wr_Stop_def wl_Stop_def
        wl_cancel_def wl_fserror_def wr_errorPump_take_def wr_errorPump_put_def errorPump_def Let_def
        elim!: wr_inv_cong split: list.splits option.splits if_splits\<close>)
qed

lemma client_inv_step: "client_inv H c h s \<Longrightarrow> client_inv H c (h @ obs_of c x s) (cstep_run H c ctx x s)"
proof (cases "cl_wr s = None \<or> x \<notin> {CTake, CPut, CHandle} \<and> (\<forall>p. x \<noteq> CFire p) \<and> (\<forall>p bits. x \<noteq> CNotify p bits)")
  case True
  assume i: "client_inv H c h s"
  have "obs_of c x s = [] \<or> obs_of c x s = [Other x]" using obs_other [of s x c] True by blast
  then show ?thesis using client_inv_quiet [OF i True, of ctx] client_inv_other by auto
next
  case False
  then obtain wr where Some: "cl_wr s = Some wr" by auto
  assume "client_inv H c h s"
  then have o: "cl_once s" and w: "wr_inv H c h wr" using Some by (simp_all add: client_inv_def)
  consider p bits where "x = CNotify p bits" | p where "x = CFire p" | "x = CTake" | "x = CPut" | "x = CHandle" using False by auto
  then show ?thesis
  proof cases
    case (1 p bits)
    then show ?thesis using Some o w
      by (auto simp: client_inv_def obs_of_def upd_life_def upd_wr_def wl_notify_def watch_notify_def wr_inv_def split: if_splits)
  next
    case (2 p)
    from wr_inv_fire [OF w refl] show ?thesis using 2 Some o
      by (simp add: client_inv_def obs_of_def upd_life_def upd_wr_def)
  next
    case 3
    show ?thesis
    proof (cases "wr_running wr \<and> wr_batch wr = [] \<and> w_events (wl_w (wr_life wr)) \<noteq> []")
      case True
      then obtain e es where e: "w_events (wl_w (wr_life wr)) = e # es" by (cases "w_events (wl_w (wr_life wr))") auto
      have "genuine H c h e" using w e by (simp add: wr_inv_def)
      then show ?thesis using 3 Some o w e True
        by (auto simp: client_inv_def obs_of_def upd_wr_def translateLoop_take_def wr_inv_def intro: genuine_mono genuine_list_mono)
    next
      case False
      then show ?thesis using 3 Some o w
        by (cases "w_events (wl_w (wr_life wr))") (auto simp: client_inv_def obs_of_def upd_wr_def translateLoop_take_def)
    qed
  next
    case 4
    then show ?thesis using Some o w
      by (auto simp: client_inv_def obs_of_def upd_wr_def translateLoop_put_def wr_inv_def split: list.splits)
  next
    case 5
    show ?thesis
    proof (cases "wr_out wr")
      case Nil
      then show ?thesis using 5 Some o w by (simp add: client_inv_def obs_of_def eventLoop_def)
    next
      case (Cons ev evs)
      then show ?thesis using 5 Some o w
        by (auto simp: client_inv_def obs_of_def eventLoop_def wr_inv_def intro: genuine_mono genuine_list_mono)
    qed
  qed
qed

lemma client_inv_run: "client_inv H c h s \<Longrightarrow> client_inv H c (h @ history H c ctx xs s) (fold (cstep_run H c ctx) xs s)"
proof (induction xs arbitrary: h s)
  case (Cons x xs)
  from Cons.IH [OF client_inv_step [OF Cons.prems]] show ?case by simp
qed simp

lemma client_inv_new: "client_inv H c [] (new_client f n clk)"
  by (simp add: client_inv_def new_client_def)

section \<open>What is sent\<close>

lemma other_types:
  "TypeListDirResponse \<noteq> TypeFileChangedEvent" "TypeListFilesResponse \<noteq> TypeFileChangedEvent" "TypeFileSyncAck \<noteq> TypeFileChangedEvent"
  by (simp_all add: msg_type_defs)

text \<open>A network whose transfers leave the log of sent messages alone, and whose \<open>Send\<close> adds at most one.\<close>

locale message_log =
  fixes sent :: "'n \<Rightarrow> Envelope list" and c :: "'n rconfig"
  assumes send_log: "rc_Send c env n = (r, n') \<Longrightarrow> sent n' = sent n \<or> sent n' = sent n @ [env]"
    and up_log: "rc_Upload c rel (f, n) = (r1, (f', n')) \<Longrightarrow> sent n' = sent n"
    and down_log: "rc_Download c rel sha (f, n) = (r2, (f', n')) \<Longrightarrow> sent n' = sent n"
begin

definition adds :: "'n runner \<Rightarrow> 'n runner \<Rightarrow> (Envelope \<Rightarrow> bool) \<Rightarrow> bool" where
  "adds s s' P \<longleftrightarrow> sent (rn_net s') = sent (rn_net s) \<or> (\<exists>env. sent (rn_net s') = sent (rn_net s) @ [env] \<and> P env)"

lemma rn_Send_adds: "P env \<Longrightarrow> adds s (snd (rn_Send c env s)) P"
  by (auto simp: adds_def rn_Send_def split: prod.splits dest: send_log)

lemma sendAck_adds: "sent (rn_net s1) = sent (rn_net s) \<Longrightarrow> adds s (sendAck c cmd st m s1) (\<lambda>env. Type env = TypeFileSyncAck)"
  using rn_Send_adds [of "\<lambda>env. Type env = TypeFileSyncAck" "ack_env cmd st m" s1]
  by (simp add: adds_def sendAck_def ack_env_def)

lemma command_adds: "adds s (handleSyncCommand c cmd s) (\<lambda>env. Type env = TypeFileSyncAck)"
proof -
  have a: "rn_net (rn_Add rel sha ttl s) = rn_net s" for rel sha ttl s by (simp add: rn_Add_def rn_now_def)
  show ?thesis
    by (auto simp: handleSyncCommand_def Let_def a split: option.splits prod.splits sum.splits dest!: down_log intro!: sendAck_adds)
qed

lemma change_adds: "adds s (handleLocalChange c ev s) (\<lambda>env. env = event_env ev)"
proof -
  obtain now s0 where n: "rn_now s = (now, s0)" by fastforce
  then have s0: "rn_net s0 = rn_net s" by (auto simp: rn_now_def)
  obtain sup supp1 where h: "(if ev_Op ev = ''write'' then HitWithSHA now (ev_RelPath ev) (ev_SHA256 ev) (rn_supp s0)
             else if ev_Op ev = ''delete'' then Hit now (ev_RelPath ev) (rn_supp s0)
             else (False, rn_supp s0)) = (sup, supp1)" by fastforce
  let ?s1 = "s0\<lparr>rn_supp := supp1\<rparr>"
  obtain go s2 where g: "(if ev_Op ev = ''write'' then
                (case lookupSubscription (ev_PairID ev) (rn_reg ?s1) of
                   None \<Rightarrow> (False, ?s1)
                 | Some sub \<Rightarrow> (case rc_Upload c (Join (su_RootSubpath sub) (ev_RelPath ev)) (rn_fs ?s1, rn_net ?s1) of
                     (r, (f2, n2)) \<Rightarrow> (\<not> isl r, ?s1\<lparr>rn_fs := f2, rn_net := n2\<rparr>)))
              else (True, ?s1)) = (go, s2)" by fastforce
  then have s2: "sent (rn_net s2) = sent (rn_net s)" using s0
    by (auto split: if_splits option.splits prod.splits dest!: up_log)
  have e: "handleLocalChange c ev s = (if sup then ?s1 else if \<not> go then s2
      else snd (rn_Send c (event_env ev) s2))"
    unfolding handleLocalChange_def n prod.case h Let_def using g by (simp add: event_env_def)
  show ?thesis using e s0 s2 rn_Send_adds [of "\<lambda>env. env = event_env ev" "event_env ev" s2] by (auto simp: adds_def)
qed

lemma envelope_adds: "adds s (snd (HandleEnvelope H c ctx env s)) (\<lambda>env. Type env \<noteq> TypeFileChangedEvent)"
proof -
  have "adds s s P" for P by (simp add: adds_def)
  moreover have "sent (rn_net s1) = sent (rn_net s) \<Longrightarrow> adds s s1 P" for s1 P by (simp add: adds_def)
  ultimately show ?thesis
    by (auto simp: HandleEnvelope_def other_types split: sum.splits intro!: rn_Send_adds)
qed

text \<open>Every report of a change on the wire is an event the loop has handled.\<close>

lemma step_log:
  assumes "\<And>g n. x = CNet g \<Longrightarrow> sent (g n) = sent n"
    and "\<And>env. env \<in> set (sent (rn_net (cl_run s))) \<Longrightarrow> Type env = TypeFileChangedEvent \<Longrightarrow> \<exists>ev \<in> set (handled h). env = event_env ev"
    and "env \<in> set (sent (rn_net (cl_run (cstep_run H c ctx x s))))" "Type env = TypeFileChangedEvent"
  shows "\<exists>ev \<in> set (handled (h @ obs_of c x s)). env = event_env ev"
proof -
  have old: "?thesis" if "env \<in> set (sent (rn_net (cl_run s)))" using assms(2) [OF that assms(4)] by auto
  show ?thesis
  proof (cases x)
    case CHandle
    show ?thesis
    proof (cases "cl_running s \<and> (\<exists>wr ev evs. cl_wr s = Some wr \<and> wr_out wr = ev # evs)")
      case True
      then obtain wr ev evs where e: "cl_wr s = Some wr" "wr_out wr = ev # evs" by blast
      then show ?thesis using CHandle True assms(3) old change_adds [of "cl_run s" ev]
        by (auto simp: eventLoop_def obs_of_def adds_def)
    next
      case False
      then show ?thesis using CHandle assms(3) old by (auto simp: eventLoop_def split: option.splits list.splits if_splits)
    qed
  next
    case (CEnvelope e)
    then show ?thesis using assms(3,4) old envelope_adds [of "cl_run s" H ctx e] by (auto simp: adds_def)
  next
    case (CRun i)
    have "adds (cl_run s) (run_started c i (cl_run s)) (\<lambda>env. Type env = TypeFileSyncAck)"
      using command_adds [of "(cl_run s)\<lparr>rn_started := take i (rn_started (cl_run s)) @ drop (Suc i) (rn_started (cl_run s))\<rparr>"
          "rn_started (cl_run s) ! i"] by (auto simp: run_started_def adds_def)
    then show ?thesis using CRun assms(3,4) old by (auto simp: adds_def other_types)
  next
    case (CNet g)
    then show ?thesis using assms(1) [OF CNet] assms(3) old by simp
  next
    case (CStart r add)
    have "rn_net (cl_run (snd (runner_Start r add c s))) = rn_net (cl_run s)"
      by (simp add: runner_Start_def Let_def split: sum.splits prod.splits)
    then show ?thesis using CStart assms(3) old by simp
  next
    case (CStop r)
    have "rn_net (cl_run (snd (runner_Stop r s))) = rn_net (cl_run s)"
      by (simp add: runner_Stop_def Let_def split: option.splits prod.splits)
    then show ?thesis using CStop assms(3) old by simp
  qed (use assms(3) old in \<open>simp_all add: upd_wr_def upd_life_def errorPump_def split: option.splits if_splits\<close>)
qed

lemma run_log:
  assumes "\<And>g n. CNet g \<in> set xs \<Longrightarrow> sent (g n) = sent n"
    and "\<And>env. env \<in> set (sent (rn_net (cl_run s))) \<Longrightarrow> Type env = TypeFileChangedEvent \<Longrightarrow> \<exists>ev \<in> set (handled h). env = event_env ev"
    and "env \<in> set (sent (rn_net (cl_run (fold (cstep_run H c ctx) xs s))))" "Type env = TypeFileChangedEvent"
  shows "\<exists>ev \<in> set (handled (h @ history H c ctx xs s)). env = event_env ev"
  using assms
proof (induction xs arbitrary: h s)
  case (Cons x xs)
  have "\<exists>ev \<in> set (handled ((h @ obs_of c x s) @ history H c ctx xs (cstep_run H c ctx x s))). env = event_env ev"
  proof (rule Cons.IH)
    show "env \<in> set (sent (rn_net (cl_run (fold (cstep_run H c ctx) xs (cstep_run H c ctx x s)))))" using Cons.prems(3) by simp
    show "\<exists>ev \<in> set (handled (h @ obs_of c x s)). e = event_env ev"
      if "e \<in> set (sent (rn_net (cl_run (cstep_run H c ctx x s))))" "Type e = TypeFileChangedEvent" for e
      using step_log [OF _ Cons.prems(2) that] Cons.prems(1) by (metis list.set_intros(1))
  qed (use Cons.prems(1,4) in auto)
  then show ?case by simp
qed simp

end

text \<open>The wired client keeps the messages it has sent in its network.\<close>

interpretation wiredlog: message_log "snd" "wired H psk lims tc ign" for H psk lims tc ign
  by unfold_locales (auto simp: wired_def split: prod.splits)
lemma translated_took: "ev \<in> set (translated h) \<Longrightarrow> \<exists>reg e. Took reg e \<in> set h \<and> ev \<in> set (translate reg e)"
  by (induction h rule: translated.induct) auto

text \<open>An entry of the history was made by a step of the run, in the state before it.\<close>

lemma history_step:
  "ob \<in> set (history H c ctx xs s) \<Longrightarrow>
   \<exists>ys x zs. xs = ys @ x # zs \<and> ob \<in> set (obs_of c x (fold (cstep_run H c ctx) ys s))"
proof (induction xs arbitrary: s)
  case (Cons x xs)
  show ?case
  proof (cases "ob \<in> set (obs_of c x s)")
    case True
    then show ?thesis by (intro exI [of _ "[]"] exI [of _ x] exI [of _ xs]) simp
  next
    case False
    then obtain ys y zs where "xs = ys @ y # zs" "ob \<in> set (obs_of c y (fold (cstep_run H c ctx) ys (cstep_run H c ctx x s)))"
      using Cons.IH [of "cstep_run H c ctx x s"] Cons.prems by auto
    then show ?thesis by (intro exI [of _ "x # ys"] exI [of _ y] exI [of _ zs]) simp
  qed
qed simp

lemma take_one: "e \<in> set (take (Suc 0) xs) \<Longrightarrow> \<exists>es. xs = e # es"
  by (cases xs) auto

lemma obs_took:
  assumes "Took reg e \<in> set (obs_of c x s)"
  shows "x = CTake \<and> reg = rn_reg (cl_run s) \<and> (\<exists>wr es. cl_wr s = Some wr \<and> w_events (wl_w (wr_life wr)) = e # es)"
  using assms by (auto simp: obs_of_def split: cstep.splits option.splits if_splits dest!: take_one dest: sym)

lemma obs_fired:
  assumes "Fired p f \<in> set (obs_of c x s)"
  shows "x = CFire p \<and> f = rn_fs (cl_run s)"
  using assms by (auto simp: obs_of_def split: cstep.splits option.splits if_splits)

lemma translate_member:
  assumes "ev \<in> set (translate reg e)"
  shows "\<exists>sub \<in> set (reg_All reg). resolve_one (Clean (we_RelPath e)) sub =
      Some \<lparr>re_PairID = ev_PairID ev, re_Side = ev_Side ev, re_SubRel = ev_RelPath ev\<rparr> \<and>
    ev_SHA256 ev = we_SHA256 e \<and> ev_Op ev = (if we_Op e = OpRemove then ''delete'' else ''write'')"
proof -
  obtain m where m: "m \<in> set (reg_Resolve (we_RelPath e) reg)" "re_PairID m = ev_PairID ev" "re_Side m = ev_Side ev" "re_SubRel m = ev_RelPath ev"
    "ev_SHA256 ev = we_SHA256 e" "ev_Op ev = (if we_Op e = OpRemove then ''delete'' else ''write'')"
    using assms by (auto simp: translate_def)
  have "\<exists>sub \<in> set ss. resolve_one q sub = Some m" if "m \<in> set (List.map_filter (resolve_one q) ss)" for q ss
    using that by (induction ss) (auto split: option.splits)
  then obtain sub where "sub \<in> set (reg_All reg)" "resolve_one (Clean (we_RelPath e)) sub = Some m"
    using m(1) unfolding reg_Resolve_def reg_All_def by blast
  moreover have "m = \<lparr>re_PairID = ev_PairID ev, re_Side = ev_Side ev, re_SubRel = ev_RelPath ev\<rparr>" using m(2-4) by (cases m) simp
  ultimately show ?thesis using m(5,6) by blast
qed

text \<open>
  C3. Between the watcher and the network no change is lost, invented or reordered: in every state of a
  client, the changes handled so far, those in the channel and those in the translation loop are, in this
  order, the translations of the watcher events taken so far, each under the subscriptions at that time,
  and handling is what \<open>handleLocalChange\<close> does: the runner is where the server's messages, the commands, the
  user and exactly these changes, each once and in the observed order, have brought it from the start. The two
  channels keep within 64 and 100; and each of those watcher events is about a path that no pattern ignores
  and, for a write, carries the hash of what the jail read at this path when a timer fired.
\<close>

theorem changes_in_order:
  assumes "s = fold (cstep_run H c ctx) xs (new_client f n clk)" "h = history H c ctx xs (new_client f n clk)"
    and "cl_wr s = Some wr"
  shows "translated h = handled h @ wr_out wr @ wr_batch wr \<and>
    cl_run s = fold (obs_effect H c ctx) h (cl_run (new_client f n clk)) \<and> length (wr_out wr) \<le> 64 \<and>
    length (w_events (wl_w (wr_life wr))) \<le> 100 \<and>
    (\<forall>reg e. Took reg e \<in> set h \<longrightarrow> (\<exists>p. we_RelPath e = Rel (jail_root (rc_Jail c)) p \<and>
       \<not> MatchIgnore (Rel (jail_root (rc_Jail c)) p) (rc_IgnoreList c) \<and>
       (we_Op e = OpWrite \<longrightarrow> (\<exists>f d. Fired p f \<in> set h \<and> jailOpener f (rc_Jail c) p = Inr d \<and> we_SHA256 e = EncodeToString (H d)))))"
  using client_inv_run [OF client_inv_new, of H c ctx xs f n clk] run_effect [of H c ctx xs "new_client f n clk"] assms
  by (simp add: client_inv_def wr_inv_def genuine_def shouldIgnore_def watch_config_def)

text \<open>
  C4. Every report on the wire is genuine: whatever the interleaving of the goroutines, the user's changes
  and what the server does in between, a \<open>file_changed\<close> message a client has sent goes back to an event that
  the translation loop took from its watcher. At that moment the client held the subscription the message
  names, with this side, and the message's path is the event's, below the subscription's directory; no
  pattern ignores it; and for a write, a timer for the path had fired before, and the message carries the
  hash of what the jail read in that file then.
\<close>

theorem reports_genuine:
  assumes "st = cstep_run H (wired H psk lims tc ign) ctx" "s0 = new_client f (srv, []) clk"
    and "\<forall>g. CNet g \<in> set xs \<longrightarrow> (\<forall>n. snd (g n) = snd n)"
    and "env \<in> set (snd (rn_net (cl_run (fold st xs s0))))" "Type env = TypeFileChangedEvent"
  shows "\<exists>ev ys zs wr e es sub p. env = event_env ev \<and> xs = ys @ CTake # zs \<and>
    cl_wr (fold st ys s0) = Some wr \<and> w_events (wl_w (wr_life wr)) = e # es \<and>
    sub \<in> set (reg_All (rn_reg (cl_run (fold st ys s0)))) \<and>
    resolve_one (Clean (we_RelPath e)) sub = Some \<lparr>re_PairID = ev_PairID ev, re_Side = ev_Side ev, re_SubRel = ev_RelPath ev\<rparr> \<and>
    ev_SHA256 ev = we_SHA256 e \<and> ev_Op ev = (if we_Op e = OpRemove then ''delete'' else ''write'') \<and>
    we_RelPath e = Rel (jail_root (tc_Jail tc)) p \<and> \<not> MatchIgnore (we_RelPath e) ign \<and>
    (we_Op e = OpWrite \<longrightarrow> (\<exists>us vs d. ys = us @ CFire p # vs \<and> jailOpener (rn_fs (cl_run (fold st us s0))) (tc_Jail tc) p = Inr d \<and>
       we_SHA256 e = EncodeToString (H d)))"
proof -
  let ?c = "wired H psk lims tc ign"
  let ?h = "\<lambda>xs. history H ?c ctx xs s0"
  have inv: "client_inv H ?c (?h ys) (fold st ys s0)" for ys
    using client_inv_run [OF client_inv_new, of H ?c ctx ys f "(srv, [])" clk] by (simp add: assms(1,2))
  have "\<exists>ev \<in> set (handled ([] @ ?h xs)). env = event_env ev"
    by (rule wiredlog.run_log [where h = "[]" and s = s0]) (use assms in \<open>auto simp: new_client_def\<close>)
  then obtain ev where ev: "ev \<in> set (handled (?h xs))" "env = event_env ev" by auto
  have "ev \<in> set (translated (?h xs))" using inv [of xs] ev(1)
    by (cases "cl_wr (fold st xs s0)") (simp_all add: client_inv_def wr_inv_def)
  then obtain reg e where e: "Took reg e \<in> set (?h xs)" "ev \<in> set (translate reg e)" using translated_took by blast
  from history_step [OF e(1)] obtain ys x zs where x: "xs = ys @ x # zs" "Took reg e \<in> set (obs_of ?c x (fold st ys s0))"
    using assms(1) by blast
  from obs_took [OF x(2)] obtain wr es where t: "x = CTake" "reg = rn_reg (cl_run (fold st ys s0))" "cl_wr (fold st ys s0) = Some wr"
    "w_events (wl_w (wr_life wr)) = e # es" by blast
  have "genuine H ?c (?h ys) e" using inv [of ys] t(3,4) by (simp add: client_inv_def wr_inv_def)
  then obtain p where p: "we_RelPath e = Rel (jail_root (tc_Jail tc)) p" "\<not> MatchIgnore (we_RelPath e) ign"
    and w: "we_Op e = OpWrite \<longrightarrow> (\<exists>f d. Fired p f \<in> set (?h ys) \<and> jailOpener f (tc_Jail tc) p = Inr d \<and> we_SHA256 e = EncodeToString (H d))"
    by (auto simp: genuine_def shouldIgnore_def watch_config_def wired_def)
  have fired: "\<exists>us vs. ys = us @ CFire p # vs \<and> g = rn_fs (cl_run (fold st us s0))" if g: "Fired p g \<in> set (?h ys)" for g
    using history_step [OF g] obs_fired assms(1) by blast
  have "we_Op e = OpWrite \<longrightarrow> (\<exists>us vs d. ys = us @ CFire p # vs \<and> jailOpener (rn_fs (cl_run (fold st us s0))) (tc_Jail tc) p = Inr d \<and>
       we_SHA256 e = EncodeToString (H d))" using w fired by blast
  then show ?thesis using ev(2) x(1) t p translate_member [OF e(2)] by blast
qed

section \<open>The way through an idle runner\<close>

text \<open>A runner whose loops run and whose channels are empty.\<close>

definition idle :: "'n rconfig \<Rightarrow> wrunner \<Rightarrow> 'n client \<Rightarrow> bool" where
  "idle c wr s \<longleftrightarrow> cl_wr s = Some wr \<and> cl_running s \<and> wr_running wr \<and> wr_out wr = [] \<and> wr_batch wr = [] \<and>
     wl_looping (wr_life wr) \<and> wl_cfg (wr_life wr) = watch_config c \<and> wl_opener (wr_life wr) = (\<lambda>f. jailOpener f (rc_Jail c)) \<and>
     wl_stater (wr_life wr) = (\<lambda>f. jailStater f (rc_Jail c)) \<and> w_events (wl_w (wr_life wr)) = []"

lemma fired_write:
  assumes "bits AND Write = Write \<or> bits AND Create = Create" "st p = Inr nd" "\<not> is_dir (n_kind nd)" "op p = Inr d"
    and "w_debouncer w p = Some bits" "w_events w = []" "w_fileHashes w (Rel (wc_Root cfg) p) \<noteq> Some (EncodeToString (H d))"
    and "EncodeToString (H d) \<noteq> []"
  shows "w_events (watch_fire H cfg op st p w) = [\<lparr>we_RelPath = Rel (wc_Root cfg) p, we_Op = OpWrite, we_SHA256 = EncodeToString (H d),
      we_Size = node_size (n_kind nd), we_ModTime = n_mtime nd\<rparr>]"
  using assms by (auto simp: watch_fire_def processEvent_def handleWrite_def calculateHash_def emit_def Let_def split: option.splits)

text \<open>One notification, its timer and one turn of each loop.\<close>

lemma notified_change:
  assumes "idle c wr s" "\<not> shouldIgnore (watch_config c) p" "bits AND Write = Write \<or> bits AND Create = Create"
    and "jailStater (rn_fs (cl_run s)) (rc_Jail c) p = Inr nd" "\<not> is_dir (n_kind nd)" "jailOpener (rn_fs (cl_run s)) (rc_Jail c) p = Inr d"
    and "w_debouncer (wl_w (wr_life wr)) p = None" "w_fileHashes (wl_w (wr_life wr)) (Rel (jail_root (rc_Jail c)) p) \<noteq> Some (EncodeToString (H d))"
    and "EncodeToString (H d) \<noteq> []"
    and "translate (rn_reg (cl_run s)) \<lparr>we_RelPath = Rel (jail_root (rc_Jail c)) p, we_Op = OpWrite, we_SHA256 = EncodeToString (H d),
      we_Size = node_size (n_kind nd), we_ModTime = n_mtime nd\<rparr> = [ev]"
  shows "cl_run (fold (cstep_run H c ctx) [CNotify p bits, CFire p, CTake, CPut, CHandle] s) = handleLocalChange c ev (cl_run s)"
proof -
  let ?w = "wl_w (wr_life wr)"
  let ?w1 = "watch_notify (watch_config c) p bits ?w"
  have w1: "w_debouncer ?w1 p = Some bits" "w_events ?w1 = []" "w_fileHashes ?w1 = w_fileHashes ?w"
    using assms(1,2,7) by (simp_all add: watch_notify_def idle_def)
  let ?w2 = "watch_fire H (watch_config c) (jailOpener (rn_fs (cl_run s)) (rc_Jail c)) (jailStater (rn_fs (cl_run s)) (rc_Jail c)) p ?w1"
  have "w_events ?w2 = [\<lparr>we_RelPath = Rel (jail_root (rc_Jail c)) p, we_Op = OpWrite, we_SHA256 = EncodeToString (H d),
      we_Size = node_size (n_kind nd), we_ModTime = n_mtime nd\<rparr>]"
    using fired_write [of bits "jailStater (rn_fs (cl_run s)) (rc_Jail c)" p nd "jailOpener (rn_fs (cl_run s)) (rc_Jail c)" d ?w1 "watch_config c" H]
      assms(3-6) w1(1,2) assms(8,9) w1(3) by (simp add: watch_config_def)
  then show ?thesis using assms(1,10)
    by (simp add: idle_def upd_life_def upd_wr_def wl_notify_def wl_fire_def translateLoop_take_def translateLoop_put_def eventLoop_def)
qed
section \<open>From a notification to the other client's file\<close>

lemma Rel_below: "Rel base (base @ cs) = rel_path cs"
  using strip_common_prefix [of base "base @ cs" cs] by (simp add: Rel_def)

lemma jail_rel_below: "jail_root j \<noteq> [] \<Longrightarrow> cs \<noteq> [] \<Longrightarrow> jail_rel j (jail_root j @ cs) = rel_path cs"
  using join_path_append [of "jail_root j" cs] TrimPrefix_append [of "abs_path (jail_root j) @ ''/''" "join_path cs"]
  by (simp add: jail_rel_def abs_path_def rel_path_def slash_def)

lemma opened_file:
  assumes "jail_Open f j rel = Inr q" "lookup f q = Inr nd" "n_kind nd = File d"
  shows "jail_Stat f j rel = Inr nd"
  using assms by (auto simp: jail_Open_def jail_Stat_def os_Open_def os_stat_def split: sum.splits)

text \<open>The report of a written file.\<close>

definition file_report :: "(byte list \<Rightarrow> byte list) \<Rightarrow> string \<Rightarrow> string \<Rightarrow> string \<Rightarrow> byte list \<Rightarrow> int \<Rightarrow> FileChangedEvent" where
  "file_report H pid side rel d mtime = \<lparr>ev_PairID = pid, ev_Side = side, ev_RelPath = rel, ev_SHA256 = EncodeToString (H d),
     ev_Size = int (length d), ev_ModTime = mtime, ev_Op = ''write'', ev_IsDir = False\<rparr>"

lemma notified_report:
  assumes "idle c wr s" "\<not> MatchIgnore (rel_path cs) (rc_IgnoreList c)" "bits AND Write = Write \<or> bits AND Create = Create"
    and "jail_root (rc_Jail c) \<noteq> []" "cs \<noteq> []"
    and "jail_Open (rn_fs (cl_run s)) (rc_Jail c) (rel_path cs) = Inr q" "lookup (rn_fs (cl_run s)) q = Inr nd" "n_kind nd = File d"
    and "w_debouncer (wl_w (wr_life wr)) (jail_root (rc_Jail c) @ cs) = None"
    and "w_fileHashes (wl_w (wr_life wr)) (rel_path cs) \<noteq> Some (EncodeToString (H d))" "EncodeToString (H d) \<noteq> []"
    and "reg_Resolve (rel_path cs) (rn_reg (cl_run s)) = [\<lparr>re_PairID = pid, re_Side = side, re_SubRel = rel\<rparr>]"
  shows "cl_run (fold (cstep_run H c ctx) [CNotify (jail_root (rc_Jail c) @ cs) bits, CFire (jail_root (rc_Jail c) @ cs), CTake, CPut, CHandle] s) =
    handleLocalChange c (file_report H pid side rel d (n_mtime nd)) (cl_run s)"
proof (rule notified_change [OF assms(1) _ assms(3)])
  show "\<not> shouldIgnore (watch_config c) (jail_root (rc_Jail c) @ cs)"
    using assms(2) by (simp add: shouldIgnore_def watch_config_def Rel_below)
  show "jailStater (rn_fs (cl_run s)) (rc_Jail c) (jail_root (rc_Jail c) @ cs) = Inr nd"
    using opened_file [OF assms(6-8)] by (simp add: jailStater_def jail_rel_below [OF assms(4,5)])
  show "jailOpener (rn_fs (cl_run s)) (rc_Jail c) (jail_root (rc_Jail c) @ cs) = Inr d"
    using assms(6-8) by (simp add: jailOpener_def jail_rel_below [OF assms(4,5)])
  show "translate (rn_reg (cl_run s)) \<lparr>we_RelPath = Rel (jail_root (rc_Jail c)) (jail_root (rc_Jail c) @ cs), we_Op = OpWrite,
      we_SHA256 = EncodeToString (H d), we_Size = node_size (n_kind nd), we_ModTime = n_mtime nd\<rparr> = [file_report H pid side rel d (n_mtime nd)]"
    using assms(8,12) by (simp add: translate_def Rel_below file_report_def)
qed (use assms in \<open>simp_all add: Rel_below\<close>)

text \<open>
  C1. A change on one machine arrives on the other: an idle client A is notified that a file below its root
  was written or created, which no pattern ignores, which is not empty and differs from what was last
  reported, and which belongs to one enabled \<open>a_to_b\<close> pair with A as its source. When the timer has
  fired and every loop has taken one turn, A has uploaded the contents and sent one message; the server
  records it and sends client B one message; B's handler accepts it, and when the command has run, the file
  of B's directory has exactly the contents of A's file, and the acknowledgement B sends is accepted.
  The blob is new to the server, the limits allow it, no statement and no system call fails, the change is
  not an echo, and B is connected and has the directory.
\<close>

theorem change_reaches_peer:
  assumes "routed tcA psk" "routed tcB psk" "\<And>x. length (H x) = 32" "os_ok b" "sql_ok w"
    and "find_pair pid (db w) = Some p" "p_Enabled p" "p_Direction p = ''a_to_b''" "reachable_client (p_ClientBID p) (net w)"
    and "idle (wired H psk lims tcA ignA) wr cA" "rn_net (cl_run cA) = ((w, b), [])" "jail_root (tc_Jail tcA) \<noteq> []" "csA \<noteq> []"
    and "bits AND Write = Write \<or> bits AND Create = Create" "\<not> MatchIgnore (rel_path csA) ignA"
    and "jail_Open (rn_fs (cl_run cA)) (tc_Jail tcA) (rel_path csA) = Inr q" "lookup (rn_fs (cl_run cA)) q = Inr nd" "n_kind nd = File d" "d \<noteq> []"
    and "w_debouncer (wl_w (wr_life wr)) (jail_root (tc_Jail tcA) @ csA) = None"
    and "w_fileHashes (wl_w (wr_life wr)) (rel_path csA) \<noteq> Some (EncodeToString (H d))"
    and "reg_Resolve (rel_path csA) (rn_reg (cl_run cA)) = [\<lparr>re_PairID = pid, re_Side = ''a'', re_SubRel = rel\<rparr>]"
    and "lookupSubscription pid (rn_reg (cl_run cA)) = Some subA" "Join (su_RootSubpath subA) rel = rel_path csA"
    and "\<not> fst (HitWithSHA (rn_clock (cl_run cA) (rn_ticks (cl_run cA))) rel (EncodeToString (H d)) (rn_supp (cl_run cA)))"
    and "is64 (int (length d))" "is64 (n_mtime nd)" "map_of (files b) (blob_path (EncodeToString (H d))) = None"
    and "computeClientUsage (tc_ClientID tcA) w = (Inr used, w1)" "int (length d) \<le> maxFileSizeBytes lims"
    and "wrap64 (used + int (length d)) \<le> perClientQuota lims"
    and "lookupSubscription pid (rn_reg sB) = Some subB" "Join (su_RootSubpath subB) rel = rel_path cs"
    and "ready (jail_root (tc_Jail tcB)) cs (rn_fs sB)"
  shows "\<exists>b1 w2 ev env sB1. rn_net (cl_run (fold (cstep_run H (wired H psk lims tcA ignA) ctx)
        [CNotify (jail_root (tc_Jail tcA) @ csA) bits, CFire (jail_root (tc_Jail tcA) @ csA), CTake, CPut, CHandle] cA)) = ((w1, b1), [ev]) \<and>
    srv_message (p_ClientAID p) ev w1 = (Inr (), w2) \<and>
    hub_sent (net w2) = hub_sent (net w) @ [(p_ClientBID p, env)] \<and>
    HandleEnvelope H (wired H psk lims tcB ignB) ctx env sB = (Inr (), sB1) \<and>
    (let sB2 = run_started (wired H psk lims tcB ignB) (length (rn_started sB)) (sB1\<lparr>rn_net := ((w2, b1), [])\<rparr>) in
      (\<exists>nd. lookup (rn_fs sB2) (jail_root (tc_Jail tcB) @ cs) = Inr nd \<and> n_kind nd = File d) \<and>
      (\<exists>ack. snd (rn_net sB2) = [ack] \<and> (\<forall>v. srv_message (p_ClientBID p) ack v = (Inr (), v))))"
proof -
  let ?ev = "file_report H pid ''a'' rel d (n_mtime nd)"
  have j: "rc_Jail (wired H psk lims tcA ignA) = tc_Jail tcA" "rc_IgnoreList (wired H psk lims tcA ignA) = ignA" by (simp_all add: wired_def)
  have e: "EncodeToString (H d) \<noteq> []" using length_EncodeToString [of "H d"] assms(3) [of d] by auto
  have r: "read_all (rn_fs (cl_run cA)) q = Inr d" using assms(17,18) by (simp add: read_all_def)
  have n: "cl_run (fold (cstep_run H (wired H psk lims tcA ignA) ctx)
        [CNotify (jail_root (tc_Jail tcA) @ csA) bits, CFire (jail_root (tc_Jail tcA) @ csA), CTake, CPut, CHandle] cA) =
      handleLocalChange (wired H psk lims tcA ignA) ?ev (cl_run cA)"
    using notified_report [OF assms(10), of csA bits q nd d H pid "''a''" rel ctx] assms(12-18,20-22) e unfolding j by blast
  have p: "find_pair (ev_PairID ?ev) (db w) = Some p" "lookupSubscription (ev_PairID ?ev) (rn_reg (cl_run cA)) = Some subA"
    "lookupSubscription (ev_PairID ?ev) (rn_reg sB) = Some subB" "ev_Side ?ev = ''a''" "ev_Op ?ev = ''write''"
    "ev_SHA256 ?ev = EncodeToString (H d)" "is64 (ev_Size ?ev)" "is64 (ev_ModTime ?ev)" "ev_RelPath ?ev = rel"
    using assms(6,23,26,27,32) by (simp_all add: file_report_def)
  have o: "jail_Open (rn_fs (cl_run cA)) (tc_Jail tcA) (Join (su_RootSubpath subA) (ev_RelPath ?ev)) = Inr q"
    "Join (su_RootSubpath subB) (ev_RelPath ?ev) = rel_path cs" using assms(16,24,33) p(9) by simp_all
  have h: "\<not> fst (HitWithSHA (rn_clock (cl_run cA) (rn_ticks (cl_run cA))) (ev_RelPath ?ev) (ev_SHA256 ?ev) (rn_supp (cl_run cA)))"
    using assms(25) p(6,9) by simp
  show ?thesis unfolding n
    using write_reaches_peer [where H = H and ctx = ctx and ignA = ignA and ignB = ignB, OF assms(1-5) p(1) assms(7-9) p(2) assms(11) p(4-8) h o(1) r
        assms(19,28-31) p(3) o(2) assms(34)] by blast
qed
definition demo_watching :: "netstate client \<Rightarrow> netstate client" where
  "demo_watching s = snd (runner_Start (Inr ()) (\<lambda>_. Inr ()) (wired toy_hash ''k'' demo_limits demo_tclient []) s)"

definition demo_stopped :: "cfs \<Rightarrow> hub world \<times> bstore \<Rightarrow> netstate client" where
  "demo_stopped f srv = \<lparr>cl_run = demo_peer f srv, cl_once = False, cl_wr = None, cl_running = False\<rparr>"

text \<open>Client A holds the pair as its source.\<close>

definition demo_source :: "cfs \<Rightarrow> hub world \<times> bstore \<Rightarrow> netstate client" where
  "demo_source f srv = (let s = demo_stopped f srv in
     demo_watching (s\<lparr>cl_run := (cl_run s)\<lparr>rn_reg := reg_Apply \<lparr>sp_PairID = ''p1'', sp_Side = ''a'', sp_RootSubpath = [],
       sp_Direction = ''a_to_b''\<rparr> NewRegistry\<rparr>\<rparr>))"

lemma demo_source_simps:
  "rn_net (cl_run (demo_source f srv)) = (srv, [])" "rn_fs (cl_run (demo_source f srv)) = f"
  "rn_reg (cl_run (demo_source f srv)) = [(''p1'', \<lparr>su_PairID = ''p1'', su_Side = ''a'', su_RootSubpath = [], su_Direction = ''a_to_b''\<rparr>)]"
  by (auto simp: demo_source_def demo_watching_def runner_Start_def demo_stopped_def demo_peer_def Let_def reg_Apply_def NewRegistry_def
      split: sum.splits prod.splits)

lemma demo_source_idle:
  "\<exists>wr. idle (wired toy_hash ''k'' demo_limits demo_tclient []) wr (demo_source demo_written srv) \<and>
     w_debouncer (wl_w (wr_life wr)) = Map.empty \<and> w_fileHashes (wl_w (wr_life wr)) = Map.empty"
proof -
  let ?c = "wired toy_hash ''k'' demo_limits demo_tclient []"
  let ?s = "(demo_stopped demo_written srv)\<lparr>cl_run := (cl_run (demo_stopped demo_written srv))\<lparr>rn_reg := reg_Apply \<lparr>sp_PairID = ''p1'', sp_Side = ''a'', sp_RootSubpath = [],
       sp_Direction = ''a_to_b''\<rparr> NewRegistry\<rparr>\<rparr>"
  have j: "jail_root (rc_Jail ?c) = [''home'', ''u'']" "rc_IgnoreList ?c = []"
    by (simp_all add: wired_def demo_tclient_def demo_jail_def)
  obtain wr where n: "NewWatcherRunner (Inr ()) ?c = Inr wr" by (simp add: NewWatcherRunner_def wl_New_def)
  have l: "wl_cfg (wr_life wr) = watch_config ?c" "wl_w (wr_life wr) = watcher_New" "wr_out wr = []" "wr_batch wr = []"
    "wl_opener (wr_life wr) = (\<lambda>f. jailOpener f (rc_Jail ?c))" "wl_stater (wr_life wr) = (\<lambda>f. jailStater f (rc_Jail ?c))"
    using n by (auto simp: NewWatcherRunner_def wl_New_def watch_config_def)
  have "fst (addDirRecursive \<lparr>wc_Root = [''home'', ''u''], wc_IgnoreList = []\<rparr> (\<lambda>_. Inr ()) demo_written watcher_New) = None" by code_simp
  then obtain w1 where a: "addDirRecursive (watch_config ?c) (\<lambda>_. Inr ()) demo_written watcher_New = (None, w1)"
    unfolding watch_config_def j by (metis prod.collapse)
  then have w1: "w_events w1 = []" "w_debouncer w1 = Map.empty" "w_fileHashes w1 = Map.empty"
    using addDirRecursive_frame [OF a] by (auto simp: watcher_New_def addDirRecursive_def split: prod.splits)
  have f: "rn_fs (cl_run ?s) = demo_written" "\<not> cl_once ?s" by (simp_all add: demo_stopped_def demo_peer_def)
  let ?wr = "wr\<lparr>wr_life := (wr_life wr)\<lparr>wl_w := w1, wl_looping := True\<rparr>, wr_running := True\<rparr>"
  have "wr_Start (\<lambda>_. Inr ()) demo_written wr = (Inr (), ?wr)" using a l by (simp add: wr_Start_def wl_Start_def)
  then have s: "cl_wr (demo_source demo_written srv) = Some ?wr" "cl_running (demo_source demo_written srv)"
    using n f by (simp_all add: demo_source_def demo_watching_def runner_Start_def Let_def)
  then show ?thesis using w1 l by (intro exI [of _ ?wr]) (simp add: idle_def)
qed

theorem change_reaches_peer_witness:
  "\<exists>b1 w2 env sB1 nd. hub_sent (net w2) = [(''cb'', env)] \<and>
     lookup (rn_fs (run_started (wired toy_hash ''k'' demo_limits demo_tclient []) 0 (sB1\<lparr>rn_net := ((w2, b1), [])\<rparr>))) [''home'', ''u'', ''a''] = Inr nd \<and>
     n_kind nd = File [1, 2, 3]"
proof -
  let ?w = "demo_world ''a_to_b'' []"
  let ?s = "demo_source demo_written (?w, empty_store)"
  obtain wr where wr: "idle (wired toy_hash ''k'' demo_limits demo_tclient []) wr ?s"
    "w_debouncer (wl_w (wr_life wr)) = Map.empty" "w_fileHashes (wl_w (wr_life wr)) = Map.empty" using demo_source_idle by blast
  obtain x w1 where u: "computeClientUsage (tc_ClientID demo_tclient) ?w = (x, w1)" by (meson surj_pair)
  have "fst (computeClientUsage (tc_ClientID demo_tclient) ?w) = Inr 0" by code_simp
  then have u0: "computeClientUsage (tc_ClientID demo_tclient) ?w = (Inr 0, w1)" using u by simp
  have b: "os_ok empty_store" "map_of (files empty_store) y = None" for y by (simp_all add: os_ok_def empty_store_def)
  have p: "find_pair ''p1'' (db ?w) = Some (demo_pair ''a_to_b'')" by simp
  have r: "reachable_client (p_ClientBID (demo_pair ''a_to_b'')) (net ?w)" by simp
  have j: "jail_root (tc_Jail demo_tclient) \<noteq> []" by (simp add: demo_tclient_def demo_jail_def)
  have bits: "Write AND Write = Write \<or> Write AND Create = Create" by simp
  have ig: "\<not> MatchIgnore (rel_path [''a'']) []" by (simp add: MatchIgnore_def)
  have o: "jail_Open (rn_fs (cl_run ?s)) (tc_Jail demo_tclient) (rel_path [''a'']) = Inr [''home'', ''u'', ''a'']"
    "lookup (rn_fs (cl_run ?s)) [''home'', ''u'', ''a''] = Inr \<lparr>n_kind = File [1, 2, 3], n_mtime = 9\<rparr>"
    unfolding demo_source_simps by code_simp+
  have res: "reg_Resolve (rel_path [''a'']) (rn_reg (cl_run ?s)) = [\<lparr>re_PairID = ''p1'', re_Side = ''a'', re_SubRel = ''a''\<rparr>]"
    "lookupSubscription ''p1'' (rn_reg (cl_run ?s)) = Some \<lparr>su_PairID = ''p1'', su_Side = ''a'', su_RootSubpath = [], su_Direction = ''a_to_b''\<rparr>"
    "Join [] ''a'' = rel_path [''a'']" unfolding demo_source_simps by code_simp+
  have sup: "rn_supp (cl_run ?s) = StartGC NewSuppressor \<or> rn_supp (cl_run ?s) = NewSuppressor"
    by (auto simp: demo_source_def demo_watching_def runner_Start_def demo_stopped_def demo_peer_def Let_def split: sum.splits prod.splits)
  then have h: "\<not> fst (HitWithSHA (rn_clock (cl_run ?s) (rn_ticks (cl_run ?s))) ''a'' (EncodeToString (toy_hash [1, 2, 3])) (rn_supp (cl_run ?s)))"
    by (auto simp: HitWithSHA_def NewSuppressor_def StartGC_def)
  have i: "is64 (int (length [1, 2, 3 :: byte]))" "is64 9" by (simp_all add: is64_def)
  have l: "int (length [1, 2, 3 :: byte]) \<le> maxFileSizeBytes demo_limits" "wrap64 (0 + int (length [1, 2, 3 :: byte])) \<le> perClientQuota demo_limits"
    by (simp_all add: demo_limits_def wrap64_def)
  have jb: "Join (su_RootSubpath (demo_sub '''')) ''a'' = rel_path [''a'']" by code_simp
  have rb: "ready (jail_root (tc_Jail demo_tclient)) [''a''] (rn_fs (demo_peer demo_fs (?w, empty_store)))"
    by (simp add: demo_peer_simps demo_ready_a)
  have rt: "jail_root (tc_Jail demo_tclient) @ [''a''] = [''home'', ''u'', ''a'']" by (simp add: demo_tclient_def demo_jail_def)
  have nd: "n_kind \<lparr>n_kind = File [1, 2, 3], n_mtime = 9\<rparr> = File [1, 2, 3]" "is64 (n_mtime \<lparr>n_kind = File [1, 2, 3], n_mtime = 9\<rparr>)" using i by simp_all
  have q: "w_debouncer (wl_w (wr_life wr)) (jail_root (tc_Jail demo_tclient) @ [''a'']) = None"
    "w_fileHashes (wl_w (wr_life wr)) (rel_path [''a'']) \<noteq> Some (EncodeToString (toy_hash [1, 2, 3]))" using wr(2,3) by simp_all
  have sub: "Join (su_RootSubpath \<lparr>su_PairID = ''p1'', su_Side = ''a'', su_RootSubpath = [], su_Direction = ''a_to_b''\<rparr>) ''a'' = rel_path [''a'']"
    using res(3) by simp
  show ?thesis
    using change_reaches_peer [where H = toy_hash and d = "[1, 2, 3]" and ctx = "\<lambda>_. None" and ignB = "[]",
        OF demo_routed demo_routed toy_hash_length b(1) demo_world_simps(1) p _ _ r wr(1) demo_source_simps(1) j list.distinct(2) bits ig o nd(1) list.distinct(2) q
          res(1,2) sub h i(1) nd(2) b(2) u0 l demo_peer_simps(1) jb rb]
    by (auto simp: demo_peer_simps rt Let_def)
qed
section \<open>Runs of a runner\<close>

definition demo_steps :: "netstate cstep list" where
  "demo_steps = [CStart (Inr ()) (\<lambda>_. Inr ()), CEnvelope \<lparr>Type = TypeSubscribePair, CorrelationID = [], Payload = enc_SubscribePair
       \<lparr>sp_PairID = ''p1'', sp_Side = ''a'', sp_RootSubpath = [], sp_Direction = ''a_to_b''\<rparr>\<rparr>,
     CNotify [''home'', ''u'', ''x''] Remove, CFire [''home'', ''u'', ''x''], CTake, CPut, CHandle]"

definition demo_run :: "netstate client" where
  "demo_run = fold (cstep_run toy_hash (wired toy_hash ''k'' demo_limits demo_tclient []) (\<lambda>_. None)) demo_steps
     (new_client demo_written ((demo_world ''a_to_b'' [], empty_store), []) int)"

definition demo_history :: "netstate obs list" where
  "demo_history = history toy_hash (wired toy_hash ''k'' demo_limits demo_tclient []) (\<lambda>_. None) demo_steps
     (new_client demo_written ((demo_world ''a_to_b'' [], empty_store), []) int)"

theorem changes_in_order_witness:
  "\<exists>wr. cl_wr demo_run = Some wr \<and> translated demo_history = handled demo_history @ wr_out wr @ wr_batch wr \<and>
     map ev_Op (translated demo_history) = [''delete''] \<and>
     cl_run demo_run = fold (obs_effect toy_hash (wired toy_hash ''k'' demo_limits demo_tclient []) (\<lambda>_. None)) demo_history
       (cl_run (new_client demo_written ((demo_world ''a_to_b'' [], empty_store), []) int))"
proof -
  have "\<not> Option.is_none (cl_wr demo_run)" by code_simp
  then obtain wr where wr: "cl_wr demo_run = Some wr" by (cases "cl_wr demo_run") simp_all
  have m: "map ev_Op (translated demo_history) = [''delete'']" by code_simp
  note c = changes_in_order [OF demo_run_def demo_history_def wr]
  show ?thesis by (intro exI [of _ wr] conjI) (rule wr, rule conjunct1 [OF c], rule m, rule conjunct1 [OF conjunct2 [OF c]])
qed

theorem reports_genuine_witness:
  "\<exists>env ev ys sub. snd (rn_net (cl_run demo_run)) = [env] \<and> env = event_env ev \<and> (\<exists>zs. demo_steps = ys @ CTake # zs) \<and>
     sub \<in> set (reg_All (rn_reg (cl_run (fold (cstep_run toy_hash (wired toy_hash ''k'' demo_limits demo_tclient []) (\<lambda>_. None)) ys
       (new_client demo_written ((demo_world ''a_to_b'' [], empty_store), []) int)))))"
proof -
  have t: "map Type (snd (rn_net (cl_run demo_run))) = [TypeFileChangedEvent]" by code_simp
  then obtain env where env: "snd (rn_net (cl_run demo_run)) = [env]" "Type env = TypeFileChangedEvent" by auto
  have n: "\<forall>g. CNet g \<in> set demo_steps \<longrightarrow> (\<forall>n. snd (g n) = snd n)" by (simp add: demo_steps_def)
  have m: "env \<in> set (snd (rn_net (cl_run demo_run)))" using env by simp
  from reports_genuine [OF refl refl n m [unfolded demo_run_def] env(2)] env(1) show ?thesis by blast
qed

section \<open>Every change that was noticed is handled\<close>

lemma handleLocalChange_reg: "rn_reg (handleLocalChange c ev s) = rn_reg s"
  by (auto simp: handleLocalChange_def rn_now_def Let_def rn_Send_def split: prod.splits option.splits if_splits)

definition pending_changes :: "wrunner \<Rightarrow> Registry \<Rightarrow> FileChangedEvent list" where
  "pending_changes wr reg = wr_out wr @ wr_batch wr @ concat (map (translate reg) (w_events (wl_w (wr_life wr))))"

definition taken :: "wrunner \<Rightarrow> wevent list \<Rightarrow> wrunner" where
  "taken wr es = wr\<lparr>wr_life := (wr_life wr)\<lparr>wl_w := (wl_w (wr_life wr))\<lparr>w_events := es\<rparr>\<rparr>\<rparr>"

lemma fold_reg: "rn_reg (fold (handleLocalChange c) evs s) = rn_reg s"
  by (induction evs arbitrary: s) (simp_all add: handleLocalChange_reg)

lemma drain_out:
  "cl_wr s = Some wr \<Longrightarrow> cl_running s \<Longrightarrow> \<exists>ys. set ys \<subseteq> {CTake, CPut, CHandle} \<and>
     fold (cstep_run H c ctx) ys s = s\<lparr>cl_wr := Some (wr\<lparr>wr_out := []\<rparr>), cl_run := fold (handleLocalChange c) (wr_out wr) (cl_run s)\<rparr>"
proof (induction "wr_out wr" arbitrary: s wr)
  case Nil
  then show ?case by (intro exI [of _ "[]"]) simp
next
  case (Cons ev evs)
  let ?s = "s\<lparr>cl_wr := Some (wr\<lparr>wr_out := evs\<rparr>), cl_run := handleLocalChange c ev (cl_run s)\<rparr>"
  have s1: "cstep_run H c ctx CHandle s = ?s" using Cons.hyps(2) [symmetric] Cons.prems by (simp add: eventLoop_def)
  obtain ys where "set ys \<subseteq> {CTake, CPut, CHandle}" "fold (cstep_run H c ctx) ys ?s =
      ?s\<lparr>cl_wr := Some (wr\<lparr>wr_out := []\<rparr>), cl_run := fold (handleLocalChange c) evs (cl_run ?s)\<rparr>"
    using Cons.hyps(1) [of "wr\<lparr>wr_out := evs\<rparr>" ?s] Cons.prems by auto
  then show ?case using s1 Cons.hyps(2) [symmetric] by (intro exI [of _ "CHandle # ys"]) simp
qed

lemma drain_batch:
  "cl_wr s = Some wr \<Longrightarrow> cl_running s \<Longrightarrow> wr_running wr \<Longrightarrow> wr_out wr = [] \<Longrightarrow> \<exists>ys. set ys \<subseteq> {CTake, CPut, CHandle} \<and>
     fold (cstep_run H c ctx) ys s = s\<lparr>cl_wr := Some (wr\<lparr>wr_batch := []\<rparr>), cl_run := fold (handleLocalChange c) (wr_batch wr) (cl_run s)\<rparr>"
proof (induction "wr_batch wr" arbitrary: s wr)
  case Nil
  then show ?case by (intro exI [of _ "[]"]) simp
next
  case (Cons ev evs)
  let ?s = "s\<lparr>cl_wr := Some (wr\<lparr>wr_batch := evs\<rparr>), cl_run := handleLocalChange c ev (cl_run s)\<rparr>"
  have s1: "cstep_run H c ctx CHandle (cstep_run H c ctx CPut s) = ?s" using Cons.hyps(2) [symmetric] Cons.prems
    by (simp add: eventLoop_def upd_wr_def translateLoop_put_def)
  obtain ys where "set ys \<subseteq> {CTake, CPut, CHandle}" "fold (cstep_run H c ctx) ys ?s =
      ?s\<lparr>cl_wr := Some (wr\<lparr>wr_batch := []\<rparr>), cl_run := fold (handleLocalChange c) evs (cl_run ?s)\<rparr>"
    using Cons.hyps(1) [of "wr\<lparr>wr_batch := evs\<rparr>" ?s] Cons.prems by auto
  then show ?case using s1 Cons.hyps(2) [symmetric] by (intro exI [of _ "CPut # CHandle # ys"]) simp
qed

lemma drain_events:
  "cl_wr s = Some wr \<Longrightarrow> cl_running s \<Longrightarrow> wr_running wr \<Longrightarrow> wr_out wr = [] \<Longrightarrow> wr_batch wr = [] \<Longrightarrow>
   \<exists>ys. set ys \<subseteq> {CTake, CPut, CHandle} \<and> fold (cstep_run H c ctx) ys s = s\<lparr>cl_wr := Some (taken wr []),
     cl_run := fold (handleLocalChange c) (concat (map (translate (rn_reg (cl_run s))) (w_events (wl_w (wr_life wr))))) (cl_run s)\<rparr>"
proof (induction "w_events (wl_w (wr_life wr))" arbitrary: s wr)
  case Nil
  have "taken wr [] = wr" using Nil(1) by (simp add: taken_def)
  then show ?case using Nil by (intro exI [of _ "[]"]) simp
next
  case (Cons e es)
  let ?evs = "translate (rn_reg (cl_run s)) e"
  let ?wr = "(taken wr es)\<lparr>wr_batch := ?evs\<rparr>" and ?r = "fold (handleLocalChange c) ?evs (cl_run s)"
  have s1: "cstep_run H c ctx CTake s = s\<lparr>cl_wr := Some ?wr\<rparr>" using Cons.hyps(2) [symmetric] Cons.prems
    by (simp add: upd_wr_def translateLoop_take_def taken_def)
  obtain ys where ys: "set ys \<subseteq> {CTake, CPut, CHandle}" "fold (cstep_run H c ctx) ys (s\<lparr>cl_wr := Some ?wr\<rparr>) =
      s\<lparr>cl_wr := Some (?wr\<lparr>wr_batch := []\<rparr>), cl_run := ?r\<rparr>"
    using drain_batch [of "s\<lparr>cl_wr := Some ?wr\<rparr>" ?wr H c ctx] Cons.prems by (auto simp: taken_def)
  obtain zs where zs: "set zs \<subseteq> {CTake, CPut, CHandle}" "fold (cstep_run H c ctx) zs (s\<lparr>cl_wr := Some (?wr\<lparr>wr_batch := []\<rparr>), cl_run := ?r\<rparr>) =
      s\<lparr>cl_wr := Some (taken wr []), cl_run := fold (handleLocalChange c) (concat (map (translate (rn_reg (cl_run s))) es)) ?r\<rparr>"
    using Cons.hyps(1) [of "?wr\<lparr>wr_batch := []\<rparr>" "s\<lparr>cl_wr := Some (?wr\<lparr>wr_batch := []\<rparr>), cl_run := ?r\<rparr>"] Cons.prems
    by (auto simp: taken_def fold_reg)
  show ?case using s1 ys zs Cons.hyps(2) [symmetric]
    by (intro exI [of _ "CTake # ys @ zs"]) simp
qed

text \<open>
  C5. Every change that was noticed gets handled: from every reachable state of a client whose loops run, some
  turns of the loops alone, none of them blocked, handle exactly the changes in the channels, in their
  order, and leave all channels empty.
\<close>

theorem noticed_changes_handled:
  assumes "s = fold (cstep_run H c ctx) xs (new_client f n clk)" "cl_wr s = Some wr" "cl_running s" "wr_running wr"
  shows "\<exists>ys wr'. set ys \<subseteq> {CTake, CPut, CHandle} \<and>
    cl_run (fold (cstep_run H c ctx) ys s) = fold (handleLocalChange c) (pending_changes wr (rn_reg (cl_run s))) (cl_run s) \<and>
    cl_wr (fold (cstep_run H c ctx) ys s) = Some wr' \<and> wr_out wr' = [] \<and> wr_batch wr' = [] \<and> w_events (wl_w (wr_life wr')) = []"
proof -
  let ?st = "cstep_run H c ctx" and ?h = "fold (handleLocalChange c)"
  let ?s1 = "s\<lparr>cl_wr := Some (wr\<lparr>wr_out := []\<rparr>), cl_run := ?h (wr_out wr) (cl_run s)\<rparr>"
  obtain as where as: "set as \<subseteq> {CTake, CPut, CHandle}" "fold ?st as s = ?s1" using drain_out [OF assms(2,3)] by blast
  let ?wr2 = "wr\<lparr>wr_out := [], wr_batch := []\<rparr>" and ?r2 = "?h (wr_batch wr) (?h (wr_out wr) (cl_run s))"
  let ?s2 = "s\<lparr>cl_wr := Some ?wr2, cl_run := ?r2\<rparr>"
  obtain bs where bs: "set bs \<subseteq> {CTake, CPut, CHandle}" "fold ?st bs ?s1 = ?s2"
    using drain_batch [of ?s1 "wr\<lparr>wr_out := []\<rparr>" H c ctx] assms(3,4) by auto
  obtain zs where zs: "set zs \<subseteq> {CTake, CPut, CHandle}" "fold ?st zs ?s2 = s\<lparr>cl_wr := Some (taken ?wr2 []),
      cl_run := ?h (concat (map (translate (rn_reg (cl_run s))) (w_events (wl_w (wr_life wr))))) ?r2\<rparr>"
    using drain_events [of ?s2 ?wr2 H c ctx] assms(3,4) by (auto simp: fold_reg)
  show ?thesis using as bs zs
    by (intro exI [of _ "as @ bs @ zs"] exI [of _ "taken ?wr2 []"]) (simp add: pending_changes_def taken_def)
qed

theorem noticed_changes_handled_witness:
  "\<exists>ys wr'. set ys \<subseteq> {CTake, CPut, CHandle} \<and>
    cl_wr (fold (cstep_run toy_hash (wired toy_hash ''k'' demo_limits demo_tclient []) (\<lambda>_. None)) ys demo_run) = Some wr' \<and> wr_out wr' = []"
proof -
  have "\<not> Option.is_none (cl_wr demo_run)" by code_simp
  then obtain wr where wr: "cl_wr demo_run = Some wr" by (cases "cl_wr demo_run") simp_all
  have "cl_running demo_run" "map_option wr_running (cl_wr demo_run) = Some True" by code_simp+
  then have r: "cl_running demo_run" "wr_running wr" using wr by simp_all
  from noticed_changes_handled [OF demo_run_def wr r] show ?thesis by blast
qed
section \<open>Start and Stop\<close>

text \<open>
  A failed start cannot be repeated: \<open>Start\<close> reports an error once; every later call returns no error and
  does nothing, and the runner never watches anything.
\<close>

theorem failed_start_is_final:
  assumes "\<not> cl_once s" "\<not> cl_running s" "runner_Start newW add c s = (Inl e, s1)"
  shows "runner_Start newW' add' c s1 = (Inr (), s1) \<and> \<not> cl_running s1"
  using assms by (auto simp: runner_Start_def Let_def split: sum.splits prod.splits)

theorem failed_start_is_final_witness:
  "\<exists>s1. runner_Start (Inr ()) (\<lambda>_. Inr ()) demo_rconfig s1 = (Inr (), s1) \<and> \<not> cl_running s1"
proof -
  let ?s = "new_client demo_fs [] int :: Envelope list client"
  have "isl (fst (runner_Start (Inl ENOTDIR) (\<lambda>_. Inr ()) demo_rconfig ?s))" by code_simp
  then obtain e s1 where "runner_Start (Inl ENOTDIR) (\<lambda>_. Inr ()) demo_rconfig ?s = (Inl e, s1)"
    by (cases "runner_Start (Inl ENOTDIR) (\<lambda>_. Inr ()) demo_rconfig ?s") (auto simp: isl_def)
  from failed_start_is_final [OF _ _ this] show ?thesis by (auto simp: new_client_def)
qed

text \<open>
  \<open>Stop\<close> leaves the timers running: a change that is waiting for its timer when the runner is stopped is
  still hashed, uploaded and reported afterwards, as long as the context of the program lives.
\<close>

lemma stopped_runner_reports:
  assumes "idle c wr s" "bits AND Write = Write \<or> bits AND Create = Create"
    and "jailStater (rn_fs (cl_run s)) (rc_Jail c) p = Inr nd" "\<not> is_dir (n_kind nd)" "jailOpener (rn_fs (cl_run s)) (rc_Jail c) p = Inr d"
    and "w_debouncer (wl_w (wr_life wr)) p = Some bits"
    and "w_fileHashes (wl_w (wr_life wr)) (Rel (jail_root (rc_Jail c)) p) \<noteq> Some (EncodeToString (H d))" "EncodeToString (H d) \<noteq> []"
    and "translate (rn_reg (cl_run s)) \<lparr>we_RelPath = Rel (jail_root (rc_Jail c)) p, we_Op = OpWrite, we_SHA256 = EncodeToString (H d),
      we_Size = node_size (n_kind nd), we_ModTime = n_mtime nd\<rparr> = [ev]"
  shows "cl_run (fold (cstep_run H c ctx) [CStop r, CFire p, CTake, CPut, CHandle] s) =
    handleLocalChange c ev ((cl_run s)\<lparr>rn_supp := StopGC (rn_supp (cl_run s))\<rparr>)"
proof -
  let ?w2 = "watch_fire H (watch_config c) (jailOpener (rn_fs (cl_run s)) (rc_Jail c)) (jailStater (rn_fs (cl_run s)) (rc_Jail c)) p (wl_w (wr_life wr))"
  have "w_events ?w2 = [\<lparr>we_RelPath = Rel (jail_root (rc_Jail c)) p, we_Op = OpWrite, we_SHA256 = EncodeToString (H d),
      we_Size = node_size (n_kind nd), we_ModTime = n_mtime nd\<rparr>]"
    using fired_write [of bits "jailStater (rn_fs (cl_run s)) (rc_Jail c)" p nd "jailOpener (rn_fs (cl_run s)) (rc_Jail c)" d
        "wl_w (wr_life wr)" "watch_config c" H] assms(1-8) by (simp add: watch_config_def idle_def)
  then show ?thesis using assms(1,9)
    by (simp add: idle_def runner_Stop_def wr_Stop_def wl_Stop_def upd_life_def upd_wr_def wl_fire_def translateLoop_take_def
        translateLoop_put_def eventLoop_def Let_def)
qed

text \<open>
  A client whose directory is the root of the file system reports no write: the adapters trim the root and
  a slash, two slashes then, from a path that begins with one, and the jail refuses the absolute rest.
\<close>

lemma root_directory_blind: "p \<noteq> [] \<Longrightarrow> list_all proper p \<Longrightarrow> jailStater f \<lparr>jail_root = []\<rparr> p = Inl ErrPathEscape"
proof -
  assume p: "p \<noteq> []" "list_all proper p"
  then obtain c cs where c: "p = c # cs" "c \<noteq> []" "slash \<notin> set c" by (cases p) (auto simp: proper_def)
  then obtain x xs where x: "c = x # xs" "x \<noteq> slash" by (cases c) auto
  have "TrimPrefix (abs_path p) ''//'' = abs_path p"
    using c x by (cases cs) (simp_all add: abs_path_def TrimPrefix_def HasPrefix_def slash_def)
  then have "jail_rel \<lparr>jail_root = []\<rparr> p = abs_path p" by (simp add: jail_rel_def abs_path_def)
  then show "jailStater f \<lparr>jail_root = []\<rparr> p = Inl ErrPathEscape"
    by (simp add: jailStater_def jail_Stat_def resolveChecked_def)
qed

end
