(* ===== verification/Wire.thy ===== *)
theory Wire
  imports Runner Hub
begin

text \<open>
  The bytes on a connection (\<open>Marshal\<close> of \<open>internal/proto/codec.go\<close>, \<open>readLoop\<close>, \<open>pingLoop\<close> and the
  read limit of \<open>internal/server/hub/conn.go\<close>): an envelope is one text message, a message above the
  limit ends the connection, and so does a ping that is not answered. Parsing a text is a parameter; the
  WebSocket library refuses to read a message of more bytes than the limit.
\<close>

section \<open>Messages as text\<close>

definition enc_Envelope :: "Envelope \<Rightarrow> json" where
  "enc_Envelope env = JObj (put ''type'' (JStr (Type env)) @ put_str_omit ''correlation_id'' (CorrelationID env) @ put ''payload'' (Payload env))"

definition proto_Marshal :: "Envelope \<Rightarrow> string" where
  "proto_Marshal env = json_text (enc_Envelope env)"

section \<open>The loops of a connection\<close>

definition maxMessageBytes :: nat where
  "maxMessageBytes = 64 * 1024"

definition ErrMessageTooBig :: err where
  "ErrMessageTooBig = Opaque ''failed to read: read limited at 65537 bytes''"

definition ws_Read :: "string result \<Rightarrow> string result" where
  "ws_Read frame = (case frame of Inl e \<Rightarrow> Inl e | Inr payload \<Rightarrow>
     if length payload > maxMessageBytes then Inl ErrMessageTooBig else Inr payload)"

datatype turn = Leave | Continue

text \<open>One turn of \<open>readLoop\<close>: \<open>handle\<close> is the handler of the hub, which may change the hub as well.\<close>

definition readLoop_turn ::
  "(string \<Rightarrow> Envelope result) \<Rightarrow> (Envelope \<Rightarrow> hub \<Rightarrow> unit result \<times> hub) \<Rightarrow> string result \<Rightarrow> hub \<Rightarrow> turn \<times> hub" where
  "readLoop_turn unmarshal handle frame h = (case ws_Read frame of
       Inl _ \<Rightarrow> (Leave, h)
     | Inr payload \<Rightarrow> (case unmarshal payload of
         Inl _ \<Rightarrow> (Leave, h)
       | Inr env \<Rightarrow> (case readLoop_route env h of
           (ToHandler e, h1) \<Rightarrow> (case handle e h1 of (Inl _, h2) \<Rightarrow> (Leave, h2) | (Inr _, h2) \<Rightarrow> (Continue, h2))
         | (_, h1) \<Rightarrow> (Continue, h1))))"

text \<open>\<open>Run\<close>: when the loop leaves, the connection is closed and unregistered.\<close>

definition conn_turn ::
  "(string \<Rightarrow> Envelope result) \<Rightarrow> (Envelope \<Rightarrow> hub \<Rightarrow> unit result \<times> hub) \<Rightarrow> nat \<Rightarrow> string result \<Rightarrow> hub \<Rightarrow> hub" where
  "conn_turn unmarshal handle i frame h = (case readLoop_turn unmarshal handle frame h of
       (Leave, h1) \<Rightarrow> Run_leave i h1 | (Continue, h1) \<Rightarrow> h1)"

text \<open>One tick of \<open>pingLoop\<close>.\<close>

definition pingLoop_tick :: "unit result \<Rightarrow> nat \<Rightarrow> hub \<Rightarrow> hub" where
  "pingLoop_tick ping i h = (case ping of Inl _ \<Rightarrow> conn_Close i h | Inr _ \<Rightarrow> h)"

text \<open>A ping, answered or not, keeps what holds of a reachable hub.\<close>

lemma ping_reachable: "hub_reachable h \<Longrightarrow> hub_reachable (pingLoop_tick ping i h)"
  by (auto simp: pingLoop_tick_def split: sum.splits intro: hub_reachable.step hub_step.close)

end
