(* ===== verification/Listing.thy ===== *)
theory Listing
  imports FullSync WatchRun Wire
begin

text \<open>
  A directory listing through both programs: the request of an administrator's browser or script to
  \<open>GET /v1/clients/{id}/listdir\<close> (\<open>internal/server/http/api.go\<close>), the hub's request and response, and
  the client's answer (\<open>internal/client/runner/listdir.go\<close>).
\<close>

section \<open>The client's turn\<close>

text \<open>
  What happens while the handler waits: the client receives the message that was written last and handles
  it, and what it answers arrives as a text at the read loop of its connection. When no response is in the
  channel then, the call ends with \<open>k\<close>. \<open>um\<close> parses a text.
\<close>

definition client_turn ::
  "(string \<Rightarrow> Envelope result) \<Rightarrow> wake \<Rightarrow> (byte list \<Rightarrow> byte list) \<Rightarrow> netstate rconfig \<Rightarrow> (string \<Rightarrow> err option) \<Rightarrow> netstate runner \<Rightarrow>
    nat \<Rightarrow> hub \<Rightarrow> wake \<times> hub" where
  "client_turn um k H c ctx s ch h =
     (case last (wire h) of (i, req) \<Rightarrow>
       (let resp = last (snd (rn_net (snd (HandleEnvelope H c ctx req s))));
            h1 = conn_turn um (\<lambda>e h. (Inr (), h)) i (Inr (proto_Marshal resp)) h
        in if chans h1 ch = [] then (k, h1) else (Response (hd (chans h1 ch)), h1)))"

definition listing_answer :: "string \<Rightarrow> ListDirResponse \<Rightarrow> Envelope" where
  "listing_answer corr res = \<lparr>Type = TypeListDirResponse, CorrelationID = corr, Payload = enc_ListDirResponse res\<rparr>"

section \<open>What a listing contains\<close>

lemma ReadDir_exact:
  assumes "real_dir f p" "list_all proper p" "p \<noteq> []"
  shows "\<exists>es. os_ReadDir f p = Inr es \<and> set es = {(n, nd). (p @ [n], nd) \<in> set (cs_nodes f)} \<and> length es \<le> length (cs_nodes f)"
proof -
  obtain nd where nd: "lookup f p = Inr nd" "is_dir (n_kind nd)" using assms(1,3) by (auto simp: real_dir_def dir_at_def)
  have "os_Open f p = Inr p" using namei_real [OF real_dir_real [OF assms(1)] assms(2)] nd by (simp add: os_Open_def)
  moreover have "(n, nd) \<in> (\<lambda>(r, n). (last r, n)) ` set (children f p) \<longleftrightarrow> (p @ [n], nd) \<in> set (cs_nodes f)" for n nd
    by (force simp: children_def child_of_def image_iff)
  then have "(\<lambda>(r, n). (last r, n)) ` set (children f p) = {(n, nd). (p @ [n], nd) \<in> set (cs_nodes f)}"
    by (simp only: set_eq_iff split_paired_All mem_Collect_eq prod.case) blast
  moreover have "length (children f p) \<le> length (cs_nodes f)" by (simp add: children_def)
  ultimately show ?thesis using nd by (simp add: os_ReadDir_def)
qed

definition entry_of :: "string \<Rightarrow> node \<Rightarrow> DirEntry" where
  "entry_of n nd = \<lparr>de_Name = n, de_IsDir = is_dir (n_kind nd), de_Size = node_size (n_kind nd), de_ModTime = n_mtime nd\<rparr>"

text \<open>A directory whose entries can be looked up.\<close>

definition listable :: "cfs \<Rightarrow> apath \<Rightarrow> bool" where
  "listable f p \<longleftrightarrow> real_dir f p \<and> list_all proper p \<and> p \<noteq> [] \<and> distinct (map fst (cs_nodes f)) \<and>
     (\<forall>n nd. (p @ [n], nd) \<in> set (cs_nodes f) \<longrightarrow> proper n \<and> p @ [n] \<notin> set (cs_deny f))"

lemma listable_lookup:
  assumes "listable f p"
  shows "(p @ [n], nd) \<in> set (cs_nodes f) \<Longrightarrow> os_Lstat f (p @ [n]) = Inr nd \<and> lookup f (p @ [n]) = Inr nd"
proof -
  assume m: "(p @ [n], nd) \<in> set (cs_nodes f)"
  then have "map_of (cs_nodes f) (p @ [n]) = Some nd" using assms by (simp add: listable_def)
  then have "lookup f (p @ [n]) = Inr nd" using assms m by (auto simp: listable_def lookup_def)
  then show ?thesis using Lstat_in_dir [of f p n] assms m by (auto simp: listable_def)
qed

lemma map_filter_some: "(\<And>x. x \<in> set es \<Longrightarrow> g x = Some (h x)) \<Longrightarrow> List.map_filter g es = map h es"
  by (induction es) simp_all

lemma HandleListDir_exact:
  assumes "jail_Resolve f (rc_Jail c) path = Inr p" "listable f p"
  shows "ld_Error (HandleListDir c f \<lparr>ldr_RelPath = path\<rparr>) = [] \<and> sorted (map de_Name (ld_Entries (HandleListDir c f \<lparr>ldr_RelPath = path\<rparr>))) \<and>
    set (ld_Entries (HandleListDir c f \<lparr>ldr_RelPath = path\<rparr>)) = {entry_of n nd | n nd. lookup f (p @ [n]) = Inr nd}"
proof -
  from ReadDir_exact [of f p] assms(2) obtain es where es: "os_ReadDir f p = Inr es" "set es = {(n, nd). (p @ [n], nd) \<in> set (cs_nodes f)}"
    by (auto simp: listable_def)
  let ?g = "\<lambda>(name, nd). (case dir_info f (rc_Jail c) path name of Inl _ \<Rightarrow> None
             | Inr info \<Rightarrow> Some \<lparr>de_Name = name, de_IsDir = is_dir (n_kind nd), de_Size = node_size (n_kind info), de_ModTime = n_mtime info\<rparr>)"
  have h: "HandleListDir c f \<lparr>ldr_RelPath = path\<rparr> = \<lparr>ld_Entries = sort_key de_Name (List.map_filter ?g es), ld_Error = []\<rparr>"
    using assms(1) es(1) by (simp add: HandleListDir_def jail_ReadDir_def)
  have g: "?g (n, nd) = Some (entry_of n nd)" if "(n, nd) \<in> set es" for n nd
    using listable_lookup [OF assms(2), of n nd] that es(2) assms(1) by (simp add: dir_info_def entry_of_def)
  have "List.map_filter ?g es = map (\<lambda>(n, nd). entry_of n nd) es"
    by (rule map_filter_some) (use g in \<open>simp only: split_paired_all prod.case\<close>)
  moreover have "(n, nd) \<in> set es \<longleftrightarrow> lookup f (p @ [n]) = Inr nd" for n nd
    using listable_lookup [OF assms(2), of n nd] lookup_node [of f "p @ [n]" nd] es(2) by auto
  then have "set (map (\<lambda>(n, nd). entry_of n nd) es) = {entry_of n nd | n nd. lookup f (p @ [n]) = Inr nd}"
    by (auto simp: image_iff)
  ultimately show ?thesis unfolding h by simp
qed

section \<open>From the request to the answer\<close>

lemma client_handles_listing:
  "snd (rn_net (snd (HandleEnvelope H (wired H psk lims tc ign) ctx (listdir_request corr path) s))) =
     snd (rn_net s) @ [listing_answer corr (HandleListDir (wired H psk lims tc ign) (rn_fs s) \<lparr>ldr_RelPath = path\<rparr>)]"
proof -
  obtain srv out where n: "rn_net s = (srv, out)" by fastforce
  have "HandleEnvelope H (wired H psk lims tc ign) ctx (listdir_request corr path) s =
      rn_Send (wired H psk lims tc ign) (listing_answer corr (HandleListDir (wired H psk lims tc ign) (rn_fs s) \<lparr>ldr_RelPath = path\<rparr>)) s"
    by (simp add: HandleEnvelope_def listdir_request_def ListDirRequest_roundtrip type_neqs listing_answer_def)
  then show ?thesis using n by (simp add: rn_Send_def wired_def)
qed

text \<open>The hub between the request and the answer.\<close>

definition asked :: "nat \<Rightarrow> string \<Rightarrow> string \<Rightarrow> hub \<Rightarrow> hub" where
  "asked i corr path h = h\<lparr>pending := (pending h)(corr \<mapsto> next_chan h), chans := (chans h)(next_chan h := []), next_chan := Suc (next_chan h),
     writes := Suc (writes h), wire := wire h @ [(i, listdir_request corr path)]\<rparr>"

lemma sendListDirRequest_turn:
  assumes "conns (net w) cid = Some i" "ws_write (net w) (writes (net w)) i = None"
    and "ans = listing_answer corr (HandleListDir (wired H psk lims tc ign) (rn_fs s) \<lparr>ldr_RelPath = path\<rparr>)"
    and "h1 = conn_turn um (\<lambda>e h. (Inr (), h)) i (Inr (proto_Marshal ans)) (asked i corr path (net w))"
  shows "sendListDirRequest (client_turn um k H (wired H psk lims tc ign) ctx s) corr cid path w =
    (case SendAndWait_end corr (next_chan (net w)) (if chans h1 (next_chan (net w)) = [] then k else Response (hd (chans h1 (next_chan (net w))))) h1
     of (r, n1) \<Rightarrow> (r, w\<lparr>net := n1\<rparr>))"
proof -
  have b: "SendAndWait_begin cid (listdir_request corr path) (net w) = (Inr (next_chan (net w)), asked i corr path (net w))"
    using assms(1,2) by (simp add: SendAndWait_begin_def pending_Register_def hub_Send_def WriteEnvelope_def asked_def listdir_request_def)
  have corr: "CorrelationID (listdir_request corr path) = corr" by (simp add: listdir_request_def)
  have "last (wire (asked i corr path (net w))) = (i, listdir_request corr path)" by (simp add: asked_def)
  then show ?thesis using assms(3,4) client_handles_listing [of H psk lims tc ign ctx corr path s]
    by (simp add: sendListDirRequest_def hub_SendAndWait_def b client_turn_def Let_def corr)
qed

lemma client_turn_answers:
  assumes "conns (net w) cid = Some i" "ws_write (net w) (writes (net w)) i = None" "corr \<noteq> []"
    and "ans = listing_answer corr (HandleListDir (wired H psk lims tc ign) (rn_fs s) \<lparr>ldr_RelPath = path\<rparr>)"
    and "um (proto_Marshal ans) = Inr ans" "length (proto_Marshal ans) \<le> maxMessageBytes"
  shows "\<exists>n1. sendListDirRequest (client_turn um k H (wired H psk lims tc ign) ctx s) corr cid path w = (Inr ans, w\<lparr>net := n1\<rparr>) \<and>
    pending n1 = (pending (net w))(corr := None)"
proof -
  have c: "CorrelationID ans = corr" "Type ans \<noteq> TypePong" by (simp_all add: assms(4) listing_answer_def msg_type_defs)
  have "conn_turn um (\<lambda>e h. (Inr (), h)) i (Inr (proto_Marshal ans)) (asked i corr path (net w)) =
      (asked i corr path (net w))\<lparr>pending := (pending (net w))(corr := None), chans := (chans (net w))(next_chan (net w) := [ans])\<rparr>"
    using assms(3,5,6) c by (simp add: conn_turn_def readLoop_turn_def ws_Read_def readLoop_route_def pending_Resolve_def asked_def)
  from sendListDirRequest_turn [OF assms(1,2,4) this [symmetric], of k ctx] show ?thesis
    by (simp add: SendAndWait_end_def pending_Cancel_def) (rule exI, rule conjI, rule refl, simp)
qed

text \<open>
  C38. A listing shows the directory as it is: when a directory of a connected client is asked for and the
  answer fits into a message, the response is \<open>200\<close> and its JSON decodes to the entries of this directory
  and nothing else, each with its type, size and time, sorted by name; the database is not touched and the
  hub keeps no trace of the request.
\<close>

theorem listing_exact:
  assumes "rq_Method r = ''GET''" "parseClientID r = Some cid" "path = (if Get_value ''path'' (rq_Query r) = [] then ''.'' else Get_value ''path'' (rq_Query r))"
    and "conns (net w) cid = Some i" "ws_write (net w) (writes (net w)) i = None" "corr \<noteq> []"
    and "jail_Resolve (rn_fs s) (tc_Jail tc) path = Inr p" "listable (rn_fs s) p"
    and "\<forall>n nd. lookup (rn_fs s) (p @ [n]) = Inr nd \<longrightarrow> is64 (node_size (n_kind nd)) \<and> is64 (n_mtime nd)"
    and "ans = listing_answer corr (HandleListDir (wired H psk lims tc ign) (rn_fs s) \<lparr>ldr_RelPath = path\<rparr>)"
    and "um (proto_Marshal ans) = Inr ans" "length (proto_Marshal ans) \<le> maxMessageBytes"
    and "listdir_ServeHTTP (client_turn um k H (wired H psk lims tc ign) ctx s) corr r w = (resp, w')"
  shows "\<exists>j es. resp = json_resp 200 j \<and> dec_ListDirResponse j = Inr \<lparr>ld_Entries = es, ld_Error = []\<rparr> \<and> sorted (map de_Name es) \<and>
    set es = {entry_of n nd | n nd. lookup (rn_fs s) (p @ [n]) = Inr nd} \<and> db w' = db w \<and>
    pending (net w') = (pending (net w))(corr := None)"
proof -
  let ?c = "wired H psk lims tc ign"
  let ?res = "HandleListDir ?c (rn_fs s) \<lparr>ldr_RelPath = path\<rparr>"
  have ex: "ld_Error ?res = []" "sorted (map de_Name (ld_Entries ?res))" "set (ld_Entries ?res) = {entry_of n nd | n nd. lookup (rn_fs s) (p @ [n]) = Inr nd}"
    using HandleListDir_exact [of "rn_fs s" ?c path p] assms(7,8) by (auto simp: wired_def)
  have dec: "dec_ListDirResponse (enc_ListDirResponse ?res) = Inr ?res"
    by (rule ListDirResponse_roundtrip) (use ex(3) assms(9) in \<open>auto simp: entry_of_def\<close>)
  from client_turn_answers [where um = um, OF assms(4-6,10-12), of k ctx] obtain n1 where
    n1: "sendListDirRequest (client_turn um k H ?c ctx s) corr cid path w = (Inr ans, w\<lparr>net := n1\<rparr>)"
      "pending n1 = (pending (net w))(corr := None)" by blast
  have "IsOnline cid (net w)" "Payload ans = enc_ListDirResponse ?res" using assms(4,10) by (simp_all add: IsOnline_def listing_answer_def)
  then have "resp = json_resp 200 (enc_ListDirResponse ?res)" "w' = w\<lparr>net := n1\<rparr>"
    using assms(1-3,13) n1(1) dec ex(1) by (simp_all add: listdir_ServeHTTP_def Let_def)
  then show ?thesis using dec ex n1(2)
    by (intro exI [of _ "enc_ListDirResponse ?res"] exI [of _ "ld_Entries ?res"]) (cases ?res; simp)
qed

text \<open>
  C39. A listing cannot leave the client's directory: a path the client's jail refuses is answered with
  \<open>400\<close> and an entry in the audit log that names the client, and no entry of any directory is sent.
\<close>

theorem listing_escape_refused:
  assumes "rq_Method r = ''GET''" "parseClientID r = Some cid" "path = (if Get_value ''path'' (rq_Query r) = [] then ''.'' else Get_value ''path'' (rq_Query r))"
    and "conns (net w) cid = Some i" "ws_write (net w) (writes (net w)) i = None" "corr \<noteq> []"
    and "jail_Resolve (rn_fs s) (tc_Jail tc) path = Inl ErrPathEscape" "sql_ok w"
    and "ans = listing_answer corr \<lparr>ld_Entries = [], ld_Error = ''path escape: '' @ path\<rparr>"
    and "um (proto_Marshal ans) = Inr ans" "length (proto_Marshal ans) \<le> maxMessageBytes"
    and "listdir_ServeHTTP (client_turn um k H (wired H psk lims tc ign) ctx s) corr r w = (resp, w')"
  shows "rs_Status resp = 400 \<and> rs_Body resp = Json (JObj [(''error'', JStr (''path escape: '' @ path))]) \<and>
    (\<exists>a. audit_log (db w') = audit_log (db w) @ [a] \<and> au_Kind a = ''path_escape_blocked'' \<and> au_ClientID a = Some cid)"
proof -
  let ?c = "wired H psk lims tc ign"
  let ?res = "\<lparr>ld_Entries = [], ld_Error = ''path escape: '' @ path\<rparr>"
  have res: "HandleListDir ?c (rn_fs s) \<lparr>ldr_RelPath = path\<rparr> = ?res"
    using assms(7) by (simp add: HandleListDir_def jail_ReadDir_def wired_def errors_Is.simps ErrPathEscape_def)
  have dec: "dec_ListDirResponse (enc_ListDirResponse ?res) = Inr ?res" by (rule ListDirResponse_roundtrip) simp
  from client_turn_answers [where um = um, OF assms(4-6) assms(9) [folded res] assms(10,11), of k ctx] obtain n1 where
    n1: "sendListDirRequest (client_turn um k H ?c ctx s) corr cid path w = (Inr ans, w\<lparr>net := n1\<rparr>)" by blast
  have "IsOnline cid (net w)" "Payload ans = enc_ListDirResponse ?res" using assms(4,9) by (simp_all add: IsOnline_def listing_answer_def)
  then have "(resp, w') = handleClientError cid (''path escape: '' @ path) (w\<lparr>net := n1\<rparr>)"
    using assms(1-3,12) n1(1) dec by (simp add: listdir_ServeHTTP_def Let_def)
  moreover have "HasPrefix (''path escape: '' @ path) ''path escape:''" by (simp add: HasPrefix_def)
  moreover have "sql_ok (w\<lparr>net := n1, ticks := k\<rparr>)" for k using assms(8) by (simp add: sql_ok_def)
  ultimately show ?thesis
    by (auto simp: handleClientError_def json_resp_def audit_now_def AppendAuditLog_def Now_def exec_def sql_ok_def)
qed

text \<open>
  A listing that does not fit: when the answer is longer than a message may be, the server drops the
  connection of the client, and the request ends with \<open>504\<close> or \<open>502\<close>, as the timer or the context of
  the handler, both of 5 seconds, ends first.
\<close>

theorem listing_too_large:
  assumes "rq_Method r = ''GET''" "parseClientID r = Some cid" "path = (if Get_value ''path'' (rq_Query r) = [] then ''.'' else Get_value ''path'' (rq_Query r))"
    and "conns (net w) cid = Some i" "ws_write (net w) (writes (net w)) i = None" "heap (net w) i = Some cn" "cn_clientID cn = cid"
    and "ans = listing_answer corr (HandleListDir (wired H psk lims tc ign) (rn_fs s) \<lparr>ldr_RelPath = path\<rparr>)"
    and "maxMessageBytes < length (proto_Marshal ans)" "k = Timer \<or> (k = CtxDone e \<and> \<not> errors_Is e ErrTimeout)"
    and "listdir_ServeHTTP (client_turn um k H (wired H psk lims tc ign) ctx s) corr r w = (resp, w')"
  shows "rs_Status resp = (if k = Timer then 504 else 502) \<and> \<not> IsOnline cid (net w') \<and> db w' = db w"
proof -
  let ?h = "asked i corr path (net w)"
  have h1: "conn_turn um (\<lambda>e h. (Inr (), h)) i (Inr (proto_Marshal ans)) ?h = Run_leave i ?h"
    using assms(9) by (simp add: conn_turn_def readLoop_turn_def ws_Read_def)
  have c: "chans (Run_leave i ?h) (next_chan (net w)) = []" "conns (Run_leave i ?h) cid = None"
    using assms(4,6,7) by (auto simp: Run_leave_def Unregister_def conn_Close_def asked_def Let_def)
  have "IsOnline cid (net w)" using assms(4) by (simp add: IsOnline_def)
  then have r: "listdir_ServeHTTP (client_turn um k H (wired H psk lims tc ign) ctx s) corr r w =
    (case SendAndWait_end corr (next_chan (net w)) k (Run_leave i ?h) of (r, n1) \<Rightarrow>
      (case r of Inl e \<Rightarrow> if errors_Is e ErrTimeout then (http_Error ''client did not respond'' 504, w\<lparr>net := n1\<rparr>) else (http_Error (err_Error e) 502, w\<lparr>net := n1\<rparr>)
       | Inr env \<Rightarrow> (case dec_ListDirResponse (Payload env) of
                 Inl e \<Rightarrow> (http_Error (''invalid client response: '' @ err_Error e) 502, w\<lparr>net := n1\<rparr>)
               | Inr resp \<Rightarrow> if ld_Error resp \<noteq> [] then handleClientError cid (ld_Error resp) (w\<lparr>net := n1\<rparr>)
                             else (json_resp 200 (enc_ListDirResponse resp), w\<lparr>net := n1\<rparr>))))"
    using assms(1-3) sendListDirRequest_turn [OF assms(4,5,8) h1 [symmetric], of k ctx] c(1)
    by (simp add: listdir_ServeHTTP_def Let_def split: prod.splits)
  have "conns (pending_Cancel corr (Run_leave i ?h)) cid = None" using c(2) by (simp add: pending_Cancel_def)
  then show ?thesis using assms(10,11) unfolding r
    by (auto simp: SendAndWait_end_def http_Error_def IsOnline_def errors_Is.simps ErrTimeout_def)
qed

definition demo_listing :: "string \<Rightarrow> httpreq" where
  "demo_listing path = (demo_form ''GET'' ''/v1/clients/ca/listdir'' [])\<lparr>rq_Query := [(''path'', path)]\<rparr>"

lemma demo_listing_simps:
  "rq_Method (demo_listing path) = ''GET''" "parseClientID (demo_listing path) = Some ''ca''" "Get_value ''path'' (rq_Query (demo_listing path)) = path"
proof -
  have "parseClientID (demo_form ''GET'' ''/v1/clients/ca/listdir'' []) = Some ''ca''" by code_simp
  then show "parseClientID (demo_listing path) = Some ''ca''" by (simp add: demo_listing_def parseClientID_def)
qed (simp_all add: demo_listing_def demo_form_def Get_value_def)

definition demo_answer :: "string \<Rightarrow> Envelope" where
  "demo_answer path = listing_answer ''r1'' (HandleListDir (wired toy_hash ''k'' demo_limits demo_tclient []) demo_tree \<lparr>ldr_RelPath = path\<rparr>)"

definition demo_turn :: "string \<Rightarrow> nat \<Rightarrow> hub \<Rightarrow> wake \<times> hub" where
  "demo_turn path = client_turn (\<lambda>_. Inr (demo_answer path)) Timer toy_hash (wired toy_hash ''k'' demo_limits demo_tclient []) (\<lambda>_. None)
     (demo_peer demo_tree (demo_world ''a_to_b'' [], empty_store))"

theorem listing_exact_witness:
  "\<exists>j es. fst (listdir_ServeHTTP (demo_turn ''.'') ''r1'' (demo_listing []) (demo_world ''a_to_b'' [])) = json_resp 200 j \<and> dec_ListDirResponse j = Inr \<lparr>ld_Entries = es, ld_Error = []\<rparr> \<and>
     entry_of ''a'' \<lparr>n_kind = File [1, 2], n_mtime = 5\<rparr> \<in> set es"
proof -
  let ?w = "demo_world ''a_to_b'' []"
  let ?s = "demo_peer demo_tree (?w, empty_store)"
  have l: "lookup demo_tree [''home''] = Inr \<lparr>n_kind = Dir 0, n_mtime = 0\<rparr>" "lookup demo_tree [''home'', ''u''] = Inr \<lparr>n_kind = Dir 0, n_mtime = 0\<rparr>"
    "lookup demo_tree ([''home'', ''u''] @ [''a'']) = Inr \<lparr>n_kind = File [1, 2], n_mtime = 5\<rparr>" by code_simp+
  then have "dir_at demo_tree [''home'']" "dir_at demo_tree [''home'', ''u'']" by (simp_all add: dir_at_def)
  then have rd: "real_dir demo_tree [''home'', ''u'']" by (auto simp: real_dir_def prefix_Cons)
  have pr: "list_all proper [''home'', ''u'', ''a'', ''d'', ''.git'']" by code_simp
  have li: "listable (rn_fs ?s) [''home'', ''u'']"
    using rd pr by (auto simp: listable_def demo_peer_simps demo_tree_def)
  have res: "jail_Resolve (rn_fs ?s) (tc_Jail demo_tclient) ''.'' = Inr [''home'', ''u'']"
    unfolding demo_peer_simps by code_simp
  have b: "\<forall>n nd. lookup (rn_fs ?s) ([''home'', ''u''] @ [n]) = Inr nd \<longrightarrow> is64 (node_size (n_kind nd)) \<and> is64 (n_mtime nd)"
    by (auto simp: demo_peer_simps is64_def demo_tree_def dest!: lookup_node)
  have c: "conns (net ?w) ''ca'' = Some 0" "ws_write (net ?w) (writes (net ?w)) 0 = None" by simp_all
  have p: "''.'' = (if Get_value ''path'' (rq_Query (demo_listing [])) = [] then ''.'' else Get_value ''path'' (rq_Query (demo_listing [])))"
    by (simp add: demo_listing_simps)
  have a: "demo_answer ''.'' = listing_answer ''r1'' (HandleListDir (wired toy_hash ''k'' demo_limits demo_tclient []) (rn_fs ?s) \<lparr>ldr_RelPath = ''.''\<rparr>)"
    by (simp add: demo_answer_def demo_peer_simps)
  have m: "length (proto_Marshal (demo_answer ''.'')) \<le> maxMessageBytes" by code_simp
  from listing_exact [where H = toy_hash and psk = "''k''" and lims = demo_limits and ign = "[]" and ctx = "\<lambda>_. None" and corr = "''r1''" and
        um = "\<lambda>_. Inr (demo_answer ''.'')" and k = Timer,
      OF demo_listing_simps(1,2) p c list.distinct(2) res li b a refl m prod.collapse [symmetric]]
  obtain j es where je: "fst (listdir_ServeHTTP (demo_turn ''.'') ''r1'' (demo_listing []) ?w) = json_resp 200 j"
    "dec_ListDirResponse j = Inr \<lparr>ld_Entries = es, ld_Error = []\<rparr>" "set es = {entry_of n nd | n nd. lookup (rn_fs ?s) ([''home'', ''u''] @ [n]) = Inr nd}" unfolding demo_turn_def by blast
  moreover have "entry_of ''a'' \<lparr>n_kind = File [1, 2], n_mtime = 5\<rparr> \<in> set es" using je(3) l(3) unfolding demo_peer_simps by blast
  ultimately show ?thesis by blast
qed

theorem listing_escape_refused_witness:
  "rs_Status (fst (listdir_ServeHTTP (demo_turn ''../x'') ''r1'' (demo_listing ''../x'') (demo_world ''a_to_b'' []))) = 400"
proof -
  let ?w = "demo_world ''a_to_b'' []"
  let ?s = "demo_peer demo_tree (?w, empty_store)"
  have res: "jail_Resolve (rn_fs ?s) (tc_Jail demo_tclient) ''../x'' = Inl ErrPathEscape"
    unfolding demo_peer_simps by code_simp
  have c: "conns (net ?w) ''ca'' = Some 0" "ws_write (net ?w) (writes (net ?w)) 0 = None" by simp_all
  have p: "''../x'' = (if Get_value ''path'' (rq_Query (demo_listing ''../x'')) = [] then ''.'' else Get_value ''path'' (rq_Query (demo_listing ''../x'')))"
    by (simp add: demo_listing_simps)
  have "HandleListDir (wired toy_hash ''k'' demo_limits demo_tclient []) demo_tree \<lparr>ldr_RelPath = ''../x''\<rparr> =
      \<lparr>ld_Entries = [], ld_Error = ''path escape: '' @ ''../x''\<rparr>" by code_simp
  then have a: "demo_answer ''../x'' = listing_answer ''r1'' \<lparr>ld_Entries = [], ld_Error = ''path escape: '' @ ''../x''\<rparr>"
    by (simp add: demo_answer_def)
  have m: "length (proto_Marshal (demo_answer ''../x'')) \<le> maxMessageBytes" by code_simp
  from listing_escape_refused [where H = toy_hash and psk = "''k''" and lims = demo_limits and ign = "[]" and ctx = "\<lambda>_. None" and corr = "''r1''"
        and um = "\<lambda>_. Inr (demo_answer ''../x'')" and k = Timer,
      OF demo_listing_simps(1,2) p c list.distinct(2) res demo_world_simps(1) a refl m prod.collapse [symmetric]]
  show ?thesis unfolding demo_turn_def by blast
qed

end
