(* ===== verification/LargeDir.thy ===== *)
theory LargeDir
  imports Listing
begin

text \<open>
  How large a directory may be: the scan of \<open>internal/client/runner/snapshot.go\<close> allows a hundred thousand
  files, the connection of \<open>internal/server/hub/conn.go\<close> reads messages of at most 64 KB. The length of the
  text of a snapshot is bounded from below by its number of files.
\<close>

section \<open>The size of a snapshot\<close>








section \<open>From the server's request to the client's answer\<close>



section \<open>A flat directory\<close>













end
