(* ===== verification/Migrations.thy ===== *)
theory Migrations
  imports Prelude
begin

text \<open>
  The schema migrations (\<open>internal/server/store/migrations.go\<close>): the numbered scripts that are embedded
  in the program are executed in the order of their names, each in a transaction that also records its
  version in \<open>schema_version\<close>. Executing a script is a parameter (\<open>run\<close>, from the text and the schema to
  an error or the new schema), as is the list of the embedded files. Every statement may fail:
  \<open>mg_err k\<close> is the error of the \<open>k\<close>-th, if any. A transaction that does not commit leaves no trace.
\<close>

section \<open>State\<close>

record mentry =
  me_Name :: string
  me_IsDir :: bool
  me_Data :: "string result"

record 's mstore =
  mg_table :: bool
  mg_versions :: "int list"
  mg_schema :: 's
  mg_stmts :: nat
  mg_err :: "nat \<Rightarrow> string option"

definition mg_call :: "'s mstore \<Rightarrow> unit result \<times> 's mstore" where
  "mg_call w = ((case mg_err w (mg_stmts w) of None \<Rightarrow> Inr () | Some m \<Rightarrow> Inl (Opaque m)),
     w\<lparr>mg_stmts := Suc (mg_stmts w)\<rparr>)"

section \<open>Operations\<close>

definition extractVersion :: "string \<Rightarrow> int result" where
  "extractVersion filename = ParseInt (hd (SplitN2 (CHR ''_'') filename))"

text \<open>
  The statements of the transaction are begin, the script, the insertion (the version is a primary key)
  and commit.
\<close>

definition applyMigrationFile ::
  "(string \<Rightarrow> 's \<Rightarrow> err + 's) \<Rightarrow> mentry \<Rightarrow> int \<Rightarrow> 's mstore \<Rightarrow> unit result \<times> 's mstore" where
  "applyMigrationFile run e version w = (let name = me_Name e in
     case me_Data e of
       Inl x \<Rightarrow> (Inl (Wrap (''read migration '' @ name) x), w)
     | Inr data \<Rightarrow> (case mg_call w of
       (Inl x, w1) \<Rightarrow> (Inl (Wrap (''begin tx for migration '' @ name) x), w1)
     | (Inr _, w1) \<Rightarrow> (case mg_call w1 of
       (Inl x, w2) \<Rightarrow> (Inl (Wrap (''exec migration '' @ name) x), w2)
     | (Inr _, w2) \<Rightarrow> (case run data (mg_schema w2) of
       Inl x \<Rightarrow> (Inl (Wrap (''exec migration '' @ name) x), w2)
     | Inr schema \<Rightarrow> (case mg_call w2 of
       (Inl x, w3) \<Rightarrow> (Inl (Wrap (''record schema_version for '' @ Sprint_int version) x), w3)
     | (Inr _, w3) \<Rightarrow>
         if version \<in> set (mg_versions w3)
         then (Inl (Wrap (''record schema_version for '' @ Sprint_int version) (Opaque ''UNIQUE constraint failed'')), w3)
         else (case mg_call w3 of
           (Inl x, w4) \<Rightarrow> (Inl (Wrap (''commit migration '' @ name) x), w4)
         | (Inr _, w4) \<Rightarrow> (Inr (), w4\<lparr>mg_versions := mg_versions w4 @ [version], mg_schema := schema\<rparr>)))))))"

fun migration_loop :: "(string \<Rightarrow> 's \<Rightarrow> err + 's) \<Rightarrow> mentry list \<Rightarrow> 's mstore \<Rightarrow> unit result \<times> 's mstore" where
  "migration_loop run [] w = (Inr (), w)"
| "migration_loop run (e # es) w =
     (if me_IsDir e \<or> \<not> HasSuffix (me_Name e) ''.sql'' then migration_loop run es w
      else (case extractVersion (me_Name e) of
        Inl x \<Rightarrow> (Inl (Wrap (''extract version from '' @ me_Name e) x), w)
      | Inr version \<Rightarrow> (case mg_call w of
          (Inl x, w1) \<Rightarrow> (Inl (Wrap (''check schema_version for '' @ Sprint_int version) x), w1)
        | (Inr _, w1) \<Rightarrow>
            if version \<in> set (mg_versions w1) then migration_loop run es w1
            else (case applyMigrationFile run e version w1 of
                (Inl x, w2) \<Rightarrow> (Inl x, w2)
              | (Inr _, w2) \<Rightarrow> migration_loop run es w2))))"

definition applyMigrations ::
  "(string \<Rightarrow> 's \<Rightarrow> err + 's) \<Rightarrow> mentry list result \<Rightarrow> 's mstore \<Rightarrow> unit result \<times> 's mstore" where
  "applyMigrations run dir w = (case mg_call w of
       (Inl x, w1) \<Rightarrow> (Inl (Wrap ''create schema_version'' x), w1)
     | (Inr _, w1) \<Rightarrow> (case dir of
         Inl x \<Rightarrow> (Inl (Wrap ''read migrations dir'' x), w1\<lparr>mg_table := True\<rparr>)
       | Inr entries \<Rightarrow> migration_loop run (sort_key me_Name entries) (w1\<lparr>mg_table := True\<rparr>)))"

section \<open>Every script runs once\<close>

text \<open>Executing scripts one after the other.\<close>

fun run_scripts :: "(string \<Rightarrow> 's \<Rightarrow> err + 's) \<Rightarrow> mentry list \<Rightarrow> 's \<Rightarrow> err + 's" where
  "run_scripts run [] s = Inr s"
| "run_scripts run (e # es) s = (case me_Data e of Inl x \<Rightarrow> Inl x
     | Inr data \<Rightarrow> (case run data s of Inl x \<Rightarrow> Inl x | Inr s1 \<Rightarrow> run_scripts run es s1))"

text \<open>The schema is that of the recorded versions, whose scripts are the files \<open>ms\<close>, each once.\<close>

definition migrated :: "(string \<Rightarrow> 's \<Rightarrow> err + 's) \<Rightarrow> mentry set \<Rightarrow> 's \<Rightarrow> mentry list \<Rightarrow> 's mstore \<Rightarrow> bool" where
  "migrated run files s0 ms w \<longleftrightarrow> set ms \<subseteq> files \<and> distinct (mg_versions w) \<and>
     map (\<lambda>e. extractVersion (me_Name e)) ms = map Inr (mg_versions w) \<and> run_scripts run ms s0 = Inr (mg_schema w)"

lemma run_scripts_snoc:
  "run_scripts run ms s0 = Inr s \<Longrightarrow> me_Data e = Inr data \<Longrightarrow> run data s = Inr s1 \<Longrightarrow> run_scripts run (ms @ [e]) s0 = Inr s1"
  by (induction ms arbitrary: s0) (auto split: sum.splits)

lemma mg_call_simps [simp]:
  "mg_versions (snd (mg_call w)) = mg_versions w" "mg_schema (snd (mg_call w)) = mg_schema w" "mg_err (snd (mg_call w)) = mg_err w"
  by (simp_all add: mg_call_def)

lemma mg_callD:
  "mg_call w = (r, w') \<Longrightarrow> mg_versions w' = mg_versions w \<and> mg_schema w' = mg_schema w \<and> mg_err w' = mg_err w"
  by (auto simp: mg_call_def)

lemma applyMigrationFile_cases:
  assumes "applyMigrationFile run e v w = (r, w')"
  shows "(isl r \<and> mg_versions w' = mg_versions w \<and> mg_schema w' = mg_schema w) \<or>
    (r = Inr () \<and> v \<notin> set (mg_versions w) \<and> mg_versions w' = mg_versions w @ [v] \<and>
     (\<exists>data. me_Data e = Inr data \<and> run data (mg_schema w) = Inr (mg_schema w')))"
  using assms
  by (auto simp: applyMigrationFile_def Let_def split: sum.splits prod.splits if_splits dest!: mg_callD)

lemma migrated_cong: "mg_versions w' = mg_versions w \<Longrightarrow> mg_schema w' = mg_schema w \<Longrightarrow> migrated run fs s0 ms w' = migrated run fs s0 ms w"
  by (simp add: migrated_def)

lemma migration_loop_migrated:
  "migrated run files s0 ms w \<Longrightarrow> set es \<subseteq> files \<Longrightarrow> migration_loop run es w = (r, w') \<Longrightarrow> \<exists>ms'. migrated run files s0 (ms @ ms') w'"
proof (induction es arbitrary: w ms)
  case Nil
  then show ?case by (intro exI [of _ "[]"]) simp
next
  case (Cons e es)
  have es: "set es \<subseteq> files" using Cons.prems(2) by simp
  show ?case
  proof (cases "me_IsDir e \<or> \<not> HasSuffix (me_Name e) ''.sql''")
    case True
    then show ?thesis using Cons.IH [OF Cons.prems(1) es] Cons.prems(3) by simp
  next
    case False
    show ?thesis
    proof (cases "extractVersion (me_Name e)")
      case (Inl x)
      then show ?thesis using False Cons.prems by (intro exI [of _ "[]"]) auto
    next
      case (Inr v)
      obtain q w1 where c: "mg_call w = (q, w1)" by fastforce
      have m1: "migrated run files s0 ms w1" using Cons.prems(1) mg_callD [OF c] migrated_cong [of w1 w] by simp
      show ?thesis
      proof (cases q)
        case Inl': (Inl x)
        then show ?thesis using False Inr c Cons.prems(3) m1 by (intro exI [of _ "[]"]) auto
      next
        case Inr': (Inr u)
        show ?thesis
        proof (cases "v \<in> set (mg_versions w1)")
          case True
          then show ?thesis using Cons.IH [OF m1 es] False Inr Inr' c Cons.prems(3) by simp
        next
          case new: False
          obtain q2 w2 where a: "applyMigrationFile run e v w1 = (q2, w2)" by fastforce
          from applyMigrationFile_cases [OF a] show ?thesis
          proof (elim disjE conjE)
            assume l: "isl q2" "mg_versions w2 = mg_versions w1" "mg_schema w2 = mg_schema w1"
            then have "migrated run files s0 ms w2" using m1 migrated_cong [of w2 w1] by simp
            moreover have "w' = w2" using l(1) False Inr Inr' c new a Cons.prems(3) by (auto simp: isl_def)
            ultimately show ?thesis by (intro exI [of _ "[]"]) simp
          next
            assume l: "q2 = Inr ()" "mg_versions w2 = mg_versions w1 @ [v]"
              "\<exists>data. me_Data e = Inr data \<and> run data (mg_schema w1) = Inr (mg_schema w2)"
            then have "migrated run files s0 (ms @ [e]) w2"
              using m1 new Inr Cons.prems(2) run_scripts_snoc [of run ms s0 "mg_schema w1" e] by (auto simp: migrated_def)
            moreover have "migration_loop run es w2 = (r, w')" using l(1) False Inr Inr' c new a Cons.prems(3) by simp
            ultimately obtain ms' where "migrated run files s0 ((ms @ [e]) @ ms') w'" using Cons.IH [OF _ es] by blast
            then show ?thesis by (intro exI [of _ "e # ms'"]) simp
          qed
        qed
      qed
    qed
  qed
qed

lemma applyMigrations_migrated:
  assumes "migrated run (set entries) s0 ms w" "applyMigrations run (Inr entries) w = (r, w')"
  shows "\<exists>ms'. migrated run (set entries) s0 (ms @ ms') w'"
proof -
  obtain q w1 where c: "mg_call w = (q, w1)" by fastforce
  have m1: "migrated run (set entries) s0 ms (w1\<lparr>mg_table := True\<rparr>)"
    using assms(1) mg_callD [OF c] migrated_cong [of "w1\<lparr>mg_table := True\<rparr>" w] by simp
  show ?thesis
  proof (cases q)
    case (Inl x)
    then show ?thesis using assms c mg_callD [OF c] migrated_cong [of w1 w]
      by (intro exI [of _ "[]"]) (auto simp: applyMigrations_def)
  next
    case (Inr u)
    then show ?thesis using migration_loop_migrated [OF m1, of "sort_key me_Name entries"] assms(2) c
      by (simp add: applyMigrations_def)
  qed
qed

text \<open>Starting the server again and again, each time with other failing statements.\<close>

fun restarts :: "(string \<Rightarrow> 's \<Rightarrow> err + 's) \<Rightarrow> mentry list \<Rightarrow> (nat \<Rightarrow> string option) list \<Rightarrow> 's mstore \<Rightarrow> 's mstore" where
  "restarts run entries [] w = w"
| "restarts run entries (f # fs) w = restarts run entries fs (snd (applyMigrations run (Inr entries) (w\<lparr>mg_err := f\<rparr>)))"

definition fresh_store :: "'s \<Rightarrow> 's mstore" where
  "fresh_store s0 = \<lparr>mg_table = False, mg_versions = [], mg_schema = s0, mg_stmts = 0, mg_err = (\<lambda>_. None)\<rparr>"

text \<open>
  C18. Every migration runs once: however often the server is started and whichever statements fail in
  between, no version is recorded twice, and the schema is what the scripts of the recorded versions make
  of the empty one, executed one after the other in the order of their record, each exactly once.
\<close>

theorem migrations_run_once:
  "\<exists>ms. set ms \<subseteq> set entries \<and> distinct (mg_versions (restarts run entries fails (fresh_store s0))) \<and>
     map (\<lambda>e. extractVersion (me_Name e)) ms = map Inr (mg_versions (restarts run entries fails (fresh_store s0))) \<and>
     run_scripts run ms s0 = Inr (mg_schema (restarts run entries fails (fresh_store s0)))"
proof -
  have "\<exists>ms'. migrated run (set entries) s0 ms' (restarts run entries fails w)" if "migrated run (set entries) s0 ms w" for ms w
    using that
  proof (induction fails arbitrary: ms w)
    case (Cons f fails)
    have "migrated run (set entries) s0 ms (w\<lparr>mg_err := f\<rparr>)" using Cons.prems by (simp add: migrated_def)
    from applyMigrations_migrated [OF this prod.collapse [symmetric]] show ?case using Cons.IH by auto
  qed auto
  from this [of "[]" "fresh_store s0"] show ?thesis by (simp add: migrated_def fresh_store_def)
qed

end
