(* ===== verification/Startup.thy ===== *)
theory Startup
  imports System Migrations
begin

text \<open>
  Starting and stopping the server (\<open>Run\<close>, \<open>applyDefaults\<close>, \<open>readPSK\<close> and \<open>runServer\<close> of
  \<open>internal/server/app/app.go\<close>, \<open>Open\<close> of \<open>internal/server/store/sqlite.go\<close>): the key file is read, the
  migrations run, the clock is compared with the stored stamps, and the parts are wired together. A
  process may fail to start and be killed at any time; what stays is the database and the blobs.
  Opening the driver, creating a directory and reading a file are answers of the environment. White space
  is that of ASCII, as key files hold it.
\<close>

section \<open>Opening the store\<close>

text \<open>\<open>strings.TrimSpace\<close>\<close>

definition is_space :: "char \<Rightarrow> bool" where
  "is_space c \<longleftrightarrow> c \<in> {CHR 0x09, CHR 0x0A, CHR 0x0B, CHR 0x0C, CHR 0x0D, CHR '' ''}"

definition TrimSpace :: "string \<Rightarrow> string" where
  "TrimSpace s = rev (dropWhile is_space (rev (dropWhile is_space s)))"

text \<open>
  The tables of \<open>schema_version\<close> beside those of the database: whether the table exists, and its rows.
  The migrations and the check share the statements of the connection.
\<close>

type_synonym schema = "bool \<times> int list"

definition mstore_of :: "schema \<Rightarrow> 'z st_scheme \<Rightarrow> database mstore" where
  "mstore_of v w = \<lparr>mg_table = fst v, mg_versions = snd v, mg_schema = db w, mg_stmts = stmts w, mg_err = sqlerr w\<rparr>"

definition Open ::
  "err option \<Rightarrow> (string \<Rightarrow> database \<Rightarrow> err + database) \<Rightarrow> mentry list result \<Rightarrow> schema \<Rightarrow> 'z st_scheme \<Rightarrow>
    unit result \<times> schema \<times> 'z st_scheme" where
  "Open sqlOpen run dir v w = (case sqlOpen of
       Some e \<Rightarrow> (Inl (Wrap ''open sqlite'' e), v, w)
     | None \<Rightarrow> (case applyMigrations run dir (mstore_of v w) of (r, m) \<Rightarrow>
         (let v1 = (mg_table m, mg_versions m); w1 = w\<lparr>db := mg_schema m, stmts := mg_stmts m\<rparr> in
          case r of
            Inl e \<Rightarrow> (Inl (Wrap ''apply migrations'' e), v1, w1)
          | Inr _ \<Rightarrow> (case checkMonotonic w1 of
              (Inl e, w2) \<Rightarrow> (Inl e, v1, w2)
            | (Inr _, w2) \<Rightarrow> (Inr (), v1, w2)))))"

section \<open>Starting\<close>

record config =
  cf_Bind :: string
  cf_DataDir :: string
  cf_AdminUser :: string
  cf_AdminPassword :: string
  cf_PSKFile :: string
  cf_ShutdownGrace :: int

definition applyDefaults :: "config \<Rightarrow> config" where
  "applyDefaults c = c\<lparr>cf_Bind := (if cf_Bind c = [] then ''127.0.0.1:8765'' else cf_Bind c),
     cf_ShutdownGrace := (if cf_ShutdownGrace c = 0 then 30 * 1000000000 else cf_ShutdownGrace c)\<rparr>"

definition readPSK :: "string result \<Rightarrow> string result" where
  "readPSK file = (case file of Inl e \<Rightarrow> Inl e | Inr text \<Rightarrow> Inr (TrimSpace text))"

text \<open>
  What the environment answers: creating the data directory, the contents of a file, sqlOpen the
  database, a script run on the database, the embedded scripts, the hash, the pages and the connections.
\<close>

record bootenv =
  be_MkdirAll :: "string \<Rightarrow> err option"
  be_ReadFile :: "string \<Rightarrow> string result"
  be_sqlOpen :: "err option"
  be_script :: "string \<Rightarrow> database \<Rightarrow> err + database"
  be_migrations :: "mentry list result"
  be_hash :: "byte list \<Rightarrow> byte list"
  be_pages :: "hub webcfg"
  be_ws_write :: "nat \<Rightarrow> nat \<Rightarrow> string option"

text \<open>What a process leaves: the database, with the version table, and the blobs.\<close>

record disk =
  dk_world :: "hub world"
  dk_schema :: schema
  dk_blobs :: bstore

text \<open>\<open>NewServer\<close> of the pages gets the engine as publisher, and no hub.\<close>

definition server_config :: "bootenv \<Rightarrow> config \<Rightarrow> string \<Rightarrow> int \<Rightarrow> srvconfig" where
  "server_config env cfg psk maxFileSize = \<lparr>sc_PSK = psk, sc_AdminUser = cf_AdminUser cfg, sc_AdminPassword = cf_AdminPassword cfg,
     sc_Limits = \<lparr>maxFileSizeBytes = maxFileSize, perClientQuota = perClientQuotaBytes\<rparr>,
     sc_Web = (be_pages env)\<lparr>wc_Publisher := Some (engine_publisher hub_Send), wc_Hub := None\<rparr>, sc_Hash = be_hash env\<rparr>"

text \<open>\<open>blobstore.New\<close> creates its directory, the one call it makes.\<close>

definition srv_setup :: "bootenv \<Rightarrow> config \<Rightarrow> disk \<Rightarrow> (srvconfig \<times> server) result \<times> disk" where
  "srv_setup env cfg0 d = (let cfg = applyDefaults cfg0 in
     case be_MkdirAll env (cf_DataDir cfg) of Some e \<Rightarrow> (Inl (Wrap ''create data dir'' e), d)
   | None \<Rightarrow> (case readPSK (be_ReadFile env (cf_PSKFile cfg)) of Inl e \<Rightarrow> (Inl (Wrap ''read psk'' e), d)
   | Inr psk \<Rightarrow> (case Open (be_sqlOpen env) (be_script env) (be_migrations env) (dk_schema d) (dk_world d) of (r, v, w) \<Rightarrow>
     (let d1 = d\<lparr>dk_world := w, dk_schema := v\<rparr> in
      case r of Inl e \<Rightarrow> (Inl (Wrap ''open store'' e), d1)
    | Inr _ \<Rightarrow> (case LoadAllSettings w of
        (Inl e, w1) \<Rightarrow> (Inl (Wrap ''load settings'' e), d1\<lparr>dk_world := w1\<rparr>)
      | (Inr m, w1) \<Rightarrow> (case parseInt64Setting m ''max_file_size_bytes'' (1024 * 1024 * 1024) of
          Inl e \<Rightarrow> (Inl e, d1\<lparr>dk_world := w1\<rparr>)
        | Inr maxFileSize \<Rightarrow> (case os_call (dk_blobs d) of
            (Inl e, b) \<Rightarrow> (Inl (Wrap ''init blobstore'' (Wrap ''blobstore: mkdirall'' e)), d1\<lparr>dk_world := w1, dk_blobs := b\<rparr>)
          | (Inr _, b) \<Rightarrow>
              (Inr (server_config env cfg psk maxFileSize,
                 \<lparr>sv_world = w1\<lparr>net := hub_New True (be_ws_write env)\<rparr>, sv_blobs = b, sv_bc = NewBroadcaster\<rparr>),
               d1\<lparr>dk_world := w1, dk_blobs := b\<rparr>))))))))"

section \<open>Stopping\<close>

text \<open>
  \<open>served\<close> is how the listener ended if it did before the context was canceled, \<open>shutdown\<close> what
  \<open>srv.Shutdown\<close> returns, and \<open>last\<close> how the listener ended after it.
\<close>

definition runServer :: "unit result option \<Rightarrow> unit result \<Rightarrow> unit result \<Rightarrow> hub \<Rightarrow> unit result \<times> hub" where
  "runServer served shutdown lastErr h = (case served of
       Some r \<Rightarrow> (r, h)
     | None \<Rightarrow> (case shutdown of
         Inl e \<Rightarrow> (Inl (Wrap ''server shutdown'' e), hub_Close h)
       | Inr _ \<Rightarrow> (lastErr, hub_Close h)))"

text \<open>A server that was told to stop has no open registered connection.\<close>

lemma runServer_closes:
  "runServer None shutdown lastErr h = (r, h') \<Longrightarrow> conns h' c = Some i \<Longrightarrow> heap h' i = Some cn \<Longrightarrow> cn_clientID cn = c \<Longrightarrow> cn_closed cn"
  by (auto simp: runServer_def hub_Close_def split: sum.splits option.splits if_splits)

section \<open>What a start establishes\<close>

definition scripts_keep :: "('s \<Rightarrow> bool) \<Rightarrow> (string \<Rightarrow> 's \<Rightarrow> err + 's) \<Rightarrow> bool" where
  "scripts_keep P run \<longleftrightarrow> (\<forall>text d d'. P d \<longrightarrow> run text d = Inr d' \<longrightarrow> P d')"

lemma migration_loop_keeps:
  assumes "scripts_keep P run"
  shows "P (mg_schema w) \<Longrightarrow> migration_loop run es w = (r, w') \<Longrightarrow>
    P (mg_schema w') \<and> (distinct (mg_versions w) \<longrightarrow> distinct (mg_versions w')) \<and> mg_err w' = mg_err w"
proof (induction es arbitrary: w)
  case (Cons e es)
  have err: "applyMigrationFile run e v w1 = (q, w2) \<Longrightarrow> mg_err w2 = mg_err w1" for v w1 q w2
    by (auto simp: applyMigrationFile_def Let_def split: sum.splits prod.splits if_splits dest!: mg_callD)
  have one: "P (mg_schema w2) \<and> (distinct (mg_versions w1) \<longrightarrow> distinct (mg_versions w2))"
    if "applyMigrationFile run e v w1 = (q, w2)" "P (mg_schema w1)" for v w1 q w2
    using applyMigrationFile_cases [OF that(1)] that(2) assms unfolding scripts_keep_def by (elim disjE) auto
  show ?case
    using Cons.prems Cons.IH err one
    by (auto split: if_splits sum.splits prod.splits dest!: mg_callD) metis+
qed simp

lemma applyMigrations_keeps:
  assumes "scripts_keep P run" "P (mg_schema w)" "applyMigrations run dir w = (r, w')"
  shows "P (mg_schema w') \<and> (distinct (mg_versions w) \<longrightarrow> distinct (mg_versions w')) \<and> mg_err w' = mg_err w"
proof -
  have "P (mg_schema w') \<and> (distinct (mg_versions w) \<longrightarrow> distinct (mg_versions w')) \<and> mg_err w' = mg_err w"
    if "migration_loop run es (w1\<lparr>mg_table := True\<rparr>) = (r, w')" "mg_call w = (Inr u, w1)" for es w1 u
    using migration_loop_keeps [OF assms(1), of "w1\<lparr>mg_table := True\<rparr>" es r w'] assms(2) that mg_callD by fastforce
  then show ?thesis using assms(2,3)
    by (auto simp: applyMigrations_def split: sum.splits prod.splits dest!: mg_callD)
qed

lemma checkMonotonic_keeps:
  "checkMonotonic w = (r, w') \<Longrightarrow> db w' = db w \<and> clock w' = clock w \<and> sqlerr w' = sqlerr w"
  by (auto simp: checkMonotonic_def query_def exec_def Now_def split: option.splits sum.splits prod.splits if_splits)

lemma checkMonotonic_past:
  assumes "checkMonotonic w = (Inr (), w')" "strict_mono (clock w)" shows "past_stamps w'"
proof -
  have c: "clock w (ticks w) < clock w (Suc (ticks w))" using assms(2) by (simp add: strict_mono_Suc_iff)
  from assms(1) consider "file_state (db w') = []"
    | "db w' = db w" "ticks w' = Suc (ticks w)" "Max (set (map fs_ServerModTime (file_state (db w)))) \<le> clock w (ticks w)" "clock w' = clock w"
    by (auto simp del: Max_less_iff Max_le_iff Max_ge_iff Max_gr_iff
        simp: checkMonotonic_def query_def exec_def Now_def max_smt_def not_less split: option.splits sum.splits prod.splits if_splits)
  then show ?thesis
  proof cases
    case 2
    have "fs_ServerModTime f \<le> clock w (ticks w)" if "f \<in> set (file_state (db w))" for f
      using that order_trans [OF Max_ge 2(3)] by simp
    then show ?thesis using 2 c by (fastforce simp: past_stamps_def)
  qed (simp add: past_stamps_def)
qed

lemma Open_keeps:
  assumes "scripts_keep P run" "P (db w)" "Open sqlOpen run dir v w = (r, v', w')"
  shows "P (db w') \<and> (distinct (snd v) \<longrightarrow> distinct (snd v')) \<and> clock w' = clock w \<and> sqlerr w' = sqlerr w \<and>
    (r = Inr () \<longrightarrow> strict_mono (clock w) \<longrightarrow> past_stamps w')"
proof (cases sqlOpen)
  case None
  obtain q m where m: "applyMigrations run dir (mstore_of v w) = (q, m)" by fastforce
  have k: "P (mg_schema m)" "distinct (snd v) \<longrightarrow> distinct (mg_versions m)" "mg_err m = sqlerr w"
    using applyMigrations_keeps [OF assms(1) _ m] assms(2) by (simp_all add: mstore_of_def)
  let ?w1 = "w\<lparr>db := mg_schema m, stmts := mg_stmts m\<rparr>"
  obtain c w2 where c: "checkMonotonic ?w1 = (c, w2)" by fastforce
  show ?thesis
    using assms(3) None m k c checkMonotonic_keeps [OF c] checkMonotonic_past [of ?w1 w2]
    by (auto simp: Open_def Let_def split: sum.splits)
qed (use assms in \<open>auto simp: Open_def\<close>)

lemma LoadAllSettings_keeps:
  "LoadAllSettings w = (r, w') \<Longrightarrow> db w' = db w \<and> clock w' = clock w \<and> ticks w' = ticks w \<and> sqlerr w' = sqlerr w"
proof -
  have "\<exists>r0. query f w = (r0, w\<lparr>stmts := Suc (stmts w)\<rparr>)" for f :: "database \<Rightarrow> 'a"
    by (auto simp: query_def exec_def split: option.splits)
  then show "LoadAllSettings w = (r, w') \<Longrightarrow> db w' = db w \<and> clock w' = clock w \<and> ticks w' = ticks w \<and> sqlerr w' = sqlerr w"
    using snd_wrap_err by (force simp: LoadAllSettings_def query_def exec_def split: option.splits)
qed

lemma srv_setup_ok:
  assumes "srv_setup env cfg d = (Inr (sc, s), d')" "scripts_keep P (be_script env)" "P (db (dk_world d))"
  shows "P (db (sv_world s)) \<and> (distinct (snd (dk_schema d)) \<longrightarrow> distinct (snd (dk_schema d'))) \<and> clock (sv_world s) = clock (dk_world d) \<and>
    sqlerr (sv_world s) = sqlerr (dk_world d) \<and> files (sv_blobs s) = files (dk_blobs d) \<and>
    net (sv_world s) = hub_New True (be_ws_write env) \<and> sv_bc s = NewBroadcaster \<and>
    sc_Hash sc = be_hash env \<and> server_pages (sc_Web sc) \<and>
    (strict_mono (clock (dk_world d)) \<longrightarrow> past_stamps (sv_world s)) \<and>
    (\<exists>text. be_ReadFile env (cf_PSKFile cfg) = Inr text \<and> sc_PSK sc = TrimSpace text)"
proof -
  obtain key where t: "be_ReadFile env (cf_PSKFile cfg) = Inr key"
    using assms(1) by (auto simp: srv_setup_def Let_def readPSK_def applyDefaults_def split: option.splits sum.splits)
  obtain r v w where op: "Open (be_sqlOpen env) (be_script env) (be_migrations env) (dk_schema d) (dk_world d) = (r, v, w)"
    by (metis prod_cases3)
  obtain lst w1 where l: "LoadAllSettings w = (lst, w1)" by fastforce
  have r: "r = Inr ()"
    using assms(1) t op by (auto simp: srv_setup_def Let_def readPSK_def applyDefaults_def split: option.splits sum.splits)
  have s: "sv_world s = w1\<lparr>net := hub_New True (be_ws_write env)\<rparr>" "sv_bc s = NewBroadcaster" "dk_schema d' = v"
    "files (sv_blobs s) = files (dk_blobs d)" "\<exists>m. sc = server_config env (applyDefaults cfg) (TrimSpace key) m"
    using assms(1) t op l r
    by (auto simp: srv_setup_def Let_def readPSK_def applyDefaults_def os_call_def split: option.splits sum.splits prod.splits)
  have "past_stamps w \<Longrightarrow> past_stamps (sv_world s)"
    using LoadAllSettings_keeps [OF l] by (simp add: past_stamps_def s(1))
  then show ?thesis
    using Open_keeps [OF assms(2,3) op] LoadAllSettings_keeps [OF l] s t r by (auto simp: server_config_def server_pages_def)
qed

lemma srv_setup_fails:
  assumes "srv_setup env cfg d = (Inl e, d')" "scripts_keep P (be_script env)" "P (db (dk_world d))"
  shows "P (db (dk_world d')) \<and> (distinct (snd (dk_schema d)) \<longrightarrow> distinct (snd (dk_schema d'))) \<and> files (dk_blobs d') = files (dk_blobs d)"
proof -
  obtain r v w where op: "Open (be_sqlOpen env) (be_script env) (be_migrations env) (dk_schema d) (dk_world d) = (r, v, w)"
    by (metis prod_cases3)
  obtain lst w1 where l: "LoadAllSettings w = (lst, w1)" by fastforce
  have "d' = d \<or> (dk_schema d' = v \<and> db (dk_world d') = db w \<and> files (dk_blobs d') = files (dk_blobs d))"
    using assms(1) op l LoadAllSettings_keeps [OF l]
    by (auto simp: srv_setup_def Let_def os_call_def split: option.splits sum.splits prod.splits)
  then show ?thesis using Open_keeps [OF assms(2,3) op] assms(3) by auto
qed

section \<open>Lifetimes of the server\<close>

text \<open>
  The disk after any number of processes: it is fresh, or time passes (the clock, and the calls that will
  fail, are other ones), or a start fails, or a started server runs and is killed between two steps.
\<close>

inductive lifetimes :: "(string \<Rightarrow> database \<Rightarrow> err + database) \<Rightarrow> (byte list \<Rightarrow> byte list) \<Rightarrow> disk \<Rightarrow> bool" for run H where
  fresh: "db (dk_world d) = empty_db \<Longrightarrow> snd (dk_schema d) = [] \<Longrightarrow> files (dk_blobs d) = [] \<Longrightarrow> lifetimes run H d"
| idle: "lifetimes run H d \<Longrightarrow> db (dk_world d') = db (dk_world d) \<Longrightarrow> dk_schema d' = dk_schema d \<Longrightarrow>
     files (dk_blobs d') = files (dk_blobs d) \<Longrightarrow> lifetimes run H d'"
| failed: "lifetimes run H d \<Longrightarrow> be_script env = run \<Longrightarrow> be_hash env = H \<Longrightarrow> srv_setup env cfg d = (Inl e, d') \<Longrightarrow> lifetimes run H d'"
| killed: "lifetimes run H d \<Longrightarrow> be_script env = run \<Longrightarrow> be_hash env = H \<Longrightarrow> srv_setup env cfg d = (Inr (sc, s0), d') \<Longrightarrow>
     (server_step sc)\<^sup>*\<^sup>* s0 s \<Longrightarrow> lifetimes run H \<lparr>dk_world = sv_world s, dk_schema = dk_schema d', dk_blobs = sv_blobs s\<rparr>"

definition disk_ok :: "(byte list \<Rightarrow> byte list) \<Rightarrow> disk \<Rightarrow> bool" where
  "disk_ok H d \<longleftrightarrow> wf_db (db (dk_world d)) \<and> distinct (snd (dk_schema d)) \<and> blob_ok H (dk_blobs d)"

lemma blob_ok_files: "files b' = files b \<Longrightarrow> blob_ok H b' = blob_ok H b"
  by (simp add: blob_ok_def blobs_def)

lemma started_reachable:
  assumes "disk_ok H d" "scripts_keep wf_db (be_script env)" "be_hash env = H" "srv_setup env cfg d = (Inr (sc, s0), d')"
    "(server_step sc)\<^sup>*\<^sup>* s0 s"
  shows "server_reachable sc s \<and> server_pages (sc_Web sc) \<and> sc_Hash sc = H \<and> distinct (snd (dk_schema d'))"
proof -
  have f: "wf_db (db (sv_world s0)) \<and> distinct (snd (dk_schema d')) \<and> files (sv_blobs s0) = files (dk_blobs d) \<and>
     net (sv_world s0) = hub_New True (be_ws_write env) \<and> sv_bc s0 = NewBroadcaster \<and> sc_Hash sc = H \<and> server_pages (sc_Web sc)"
    using srv_setup_ok [OF assms(4,2)] assms(1,3) by (auto simp: disk_ok_def)
  have "ws_write (hub_New True ws) = ws" for ws by (simp add: hub_New_def)
  then have "server_start sc s0"
    using f assms(1) blob_ok_files [of "sv_blobs s0" "dk_blobs d" H] by (simp add: server_start_def disk_ok_def)
  then have "server_reachable sc s0" by (rule server_reachable.start)
  with assms(5) have "server_reachable sc s" by (induction rule: rtranclp_induct) (auto intro: server_reachable.step)
  then show ?thesis using f by simp
qed

lemma lifetimes_disk_ok:
  assumes "scripts_keep wf_db run" "lifetimes run H d" shows "disk_ok H d"
  using assms(2)
proof induction
  case (fresh d)
  then show ?case
    by (simp add: disk_ok_def wf_db_def keys_ok_def refs_ok_def empty_db_def blob_ok_def blobs_def)
next
  case (idle d d')
  then show ?case using blob_ok_files [of "dk_blobs d'" "dk_blobs d" H] by (simp add: disk_ok_def)
next
  case (failed d env cfg e d')
  then show ?case
    using srv_setup_fails [OF failed(4), of wf_db] assms(1) blob_ok_files [of "dk_blobs d'" "dk_blobs d" H] by (simp add: disk_ok_def)
next
  case (killed d env cfg sc s0 d' s)
  have r: "server_reachable sc s" "server_pages (sc_Web sc)" "sc_Hash sc = H" "distinct (snd (dk_schema d'))"
    using started_reachable [OF killed.IH _ killed(3-5)] assms(1) killed(2) by simp_all
  from server_reachable_ok [OF r(1,2)] r(3,4) show ?case by (simp add: server_ok_def disk_ok_def)
qed

section \<open>Properties\<close>

definition demo_env :: bootenv where
  "demo_env = \<lparr>be_MkdirAll = (\<lambda>_. None), be_ReadFile = (\<lambda>_. Inr ''k \<newline>''), be_sqlOpen = None, be_script = (\<lambda>_. Inr),
     be_migrations = Inr [\<lparr>me_Name = ''0001_init.sql'', me_IsDir = False, me_Data = Inr ''create''\<rparr>],
     be_hash = toy_hash, be_pages = demo_webcfg, be_ws_write = demo_ws\<rparr>"

definition demo_config :: config where
  "demo_config = \<lparr>cf_Bind = [], cf_DataDir = ''data'', cf_AdminUser = ''admin'', cf_AdminPassword = ''pw'', cf_PSKFile = ''token'',
     cf_ShutdownGrace = 0\<rparr>"

definition demo_disk :: "database \<Rightarrow> disk" where
  "demo_disk d = \<lparr>dk_world = (demo_world ''a_to_b'' [])\<lparr>db := d\<rparr>, dk_schema = (False, []), dk_blobs = empty_store\<rparr>"

text \<open>
  C8. The invariants survive the process: whatever number of servers ran on a disk before, each killed
  between two steps or not even started, with whatever failing statements and migrations, a server that
  starts on it keeps its tables well-formed, its hub reachable, its blobs named after their contents and
  its page queues bounded, and no migration is recorded twice.
\<close>

theorem restarts_keep_invariants:
  assumes "scripts_keep wf_db (be_script env)" "lifetimes (be_script env) (be_hash env) d"
    and "srv_setup env cfg d = (Inr (sc, s0), d')" "(server_step sc)\<^sup>*\<^sup>* s0 s"
  shows "wf_db (db (sv_world s)) \<and> hub_reachable (net (sv_world s)) \<and> distinct (snd (dk_schema d')) \<and>
    (\<forall>sha data b. Get sha (sv_blobs s) = (Inr data, b) \<longrightarrow> EncodeToString (be_hash env data) = ToLower sha) \<and>
    (\<forall>ch. length (queue_of ch (sv_bc s)) \<le> bc_capacity)"
proof -
  have r: "server_reachable sc s" "server_pages (sc_Web sc)" "sc_Hash sc = be_hash env" "distinct (snd (dk_schema d'))"
    using started_reachable [OF lifetimes_disk_ok [OF assms(1,2)] assms(1) refl assms(3,4)] by simp_all
  note ok = server_reachable_ok [OF r(1,2), unfolded server_ok_def]
  have "EncodeToString (be_hash env data) = ToLower sha" if "Get sha (sv_blobs s) = (Inr data, b)" for sha data b
    using Get_Inr [OF that] ok r(3) by (auto simp: blob_ok_def blob_path_def)
  then show ?thesis using ok r(4) queue_bounded by blast
qed

theorem restarts_keep_invariants_witness:
  "\<exists>sc s d'. srv_setup demo_env demo_config (demo_disk empty_db) = (Inr (sc, s), d') \<and> wf_db (db (sv_world s)) \<and> snd (dk_schema d') = [1]"
proof -
  let ?x = "srv_setup demo_env demo_config (demo_disk empty_db)"
  have "\<not> isl (fst ?x)" "snd (dk_schema (snd ?x)) = [1]" by code_simp+
  then obtain sc s d' where x: "?x = (Inr (sc, s), d')" "snd (dk_schema d') = [1]"
    by (metis (no_types, lifting) isl_def old.prod.exhaust prod.sel sum.exhaust_sel sum.disc(1) surj_pair sum.collapse(2))
  have "lifetimes (be_script demo_env) (be_hash demo_env) (demo_disk empty_db)"
    by (rule lifetimes.fresh) (simp_all add: demo_disk_def empty_store_def)
  moreover have "scripts_keep wf_db (be_script demo_env)" by (simp add: scripts_keep_def demo_env_def)
  ultimately show ?thesis using restarts_keep_invariants [OF _ _ x(1) rtranclp.rtrancl_refl] x by blast
qed

text \<open>
  C12. A start refuses a clock that went back, so last-writer-wins is right from the first event on: after a
  server has started on any disk, on a clock that runs forward, the row of a file is the last event on it,
  whatever rows an earlier process left.
\<close>

theorem start_tracks_events:
  assumes "srv_setup env cfg d = (Inr (sc, w0), d')" "sql_ok (dk_world d)" "strict_mono (clock (dk_world d))"
    and "find_pair pid (db (sv_world w0)) = Some p" "\<forall>ev \<in> set evs. ev_PairID ev = pid"
  shows "case List.find (\<lambda>ev. ev_Side ev = s \<and> ev_RelPath ev = rel) (rev evs) of
      None \<Rightarrow> find_file_state (pid, s, rel) (db (handle_all hub_Send src evs (sv_world w0))) = find_file_state (pid, s, rel) (db (sv_world w0))
    | Some ev \<Rightarrow> \<exists>t. find_file_state (pid, s, rel) (db (handle_all hub_Send src evs (sv_world w0))) = Some (event_state ev t)"
proof -
  have "scripts_keep (\<lambda>_. True) (be_script env)" by (simp add: scripts_keep_def)
  from srv_setup_ok [OF assms(1) this] assms(2,3)
  have "sql_ok (sv_world w0)" "past_stamps (sv_world w0)" "strict_mono (clock (sv_world w0))"
    by (simp_all add: sql_ok_def)
  then show ?thesis using assms(4,5) by (intro handle_all_tracks)
qed

definition demo_boot :: "(srvconfig \<times> server) result \<times> disk" where
  "demo_boot = srv_setup demo_env demo_config (demo_disk (db (demo_world ''a_to_b'' [demo_state ''a'' ''write'' (Some ''h0'') 900])))"

theorem start_tracks_events_witness:
  "\<exists>sc w0 t. fst demo_boot = Inr (sc, w0) \<and> find_file_state (''p1'', ''a'', ''x.txt'')
     (db (handle_all hub_Send ''ca'' [demo_event ''a'' ''delete'' []] (sv_world w0))) = Some (event_state (demo_event ''a'' ''delete'' []) t)"
proof -
  have "\<not> isl (fst demo_boot)"
    "case fst demo_boot of Inr (sc, w0) \<Rightarrow> find_pair ''p1'' (db (sv_world w0)) = Some (demo_pair ''a_to_b'')" by code_simp+
  then obtain sc w0 d' where x: "demo_boot = (Inr (sc, w0), d')" "find_pair ''p1'' (db (sv_world w0)) = Some (demo_pair ''a_to_b'')"
    by (cases "fst demo_boot") (auto split: prod.splits, metis prod.collapse)
  have "strict_mono (clock (demo_world ''a_to_b'' []))" by (rule strict_monoI) simp
  then have m: "strict_mono (clock (dk_world (demo_disk (db (demo_world ''a_to_b'' [demo_state ''a'' ''write'' (Some ''h0'') 900])))))"
    by (simp add: demo_disk_def)
  have "\<exists>t. find_file_state (''p1'', ''a'', ''x.txt'')
     (db (handle_all hub_Send ''ca'' [demo_event ''a'' ''delete'' []] (sv_world w0))) = Some (event_state (demo_event ''a'' ''delete'' []) t)"
    using start_tracks_events [OF x(1) [unfolded demo_boot_def] _ m x(2), of "[demo_event ''a'' ''delete'' []]" "''a''" "''x.txt''" "''ca''"]
    by (simp del: handle_all.simps) (simp add: demo_disk_def sql_ok_def demo_world_def)
  then show ?thesis using x(1) by (metis fst_conv)
qed

text \<open>
  A key file of white space only is the empty key, which is what a request without a key carries: such a
  server lets everyone in.
\<close>

lemma blank_key_opens_server:
  assumes "srv_setup env cfg d = (Inr (sc, s), d')" "be_ReadFile env (cf_PSKFile cfg) = Inr key" "\<forall>c \<in> set key. is_space c"
    and "Get_value ''Authorization'' (rq_Header r) = []"
  shows "AuthBearer (sc_PSK sc) h r = h r"
proof -
  have "scripts_keep (\<lambda>_. True) (be_script env)" by (simp add: scripts_keep_def)
  from srv_setup_ok [OF assms(1) this] have "sc_PSK sc = TrimSpace key" using assms(2) by auto
  moreover have "dropWhile is_space key = []" using assms(3) by simp
  ultimately have "sc_PSK sc = []" by (simp add: TrimSpace_def)
  then show ?thesis using assms(4) by (auto simp: AuthBearer_def extractBearer_def HasPrefix_def)
qed

end
