(* ===== verification/ClientStart.thy ===== *)
theory ClientStart
  imports FullSync Startup
begin

text \<open>
  Starting the client (\<open>Run\<close> of \<open>internal/client/app/app.go\<close> up to the connection, and \<open>LoadOrCreate\<close> of
  \<open>internal/client/id/id.go\<close>): the directory is opened, the key is read, and the identifier of the client is
  read from its file or drawn and written to it. Paths are absolute. \<open>uuid.Parse\<close> (an error, if the text
  is no identifier), \<open>uuid.New\<close>, the working directory and the host name are answers of the environment.
\<close>

section \<open>The identifier\<close>

definition os_ReadFile :: "cfs \<Rightarrow> apath \<Rightarrow> byte list result" where
  "os_ReadFile f p = (case os_Open f p of Inl e \<Rightarrow> Inl e | Inr q \<Rightarrow> read_all f q)"

definition os_WriteFile :: "apath \<Rightarrow> byte list \<Rightarrow> cfs \<Rightarrow> unit result \<times> cfs" where
  "os_WriteFile p bs f = (case os_OpenCreate p f of
       (Inl e, f1) \<Rightarrow> (Inl e, f1)
     | (Inr q, f1) \<Rightarrow> (case os_Write q bs f1 of (r, f2) \<Rightarrow> (case sys_call f2 of (c, f3) \<Rightarrow>
         ((case r of Inl e \<Rightarrow> Inl e | Inr _ \<Rightarrow> c), f3))))"

definition LoadOrCreate :: "(string \<Rightarrow> err option) \<Rightarrow> string \<Rightarrow> apath \<Rightarrow> cfs \<Rightarrow> string result \<times> cfs" where
  "LoadOrCreate uuid_Parse newID idFile f = (case os_ReadFile f idFile of
       Inr data \<Rightarrow> (let i = TrimSpace (bytes_text data) in
         case uuid_Parse i of
           Some e \<Rightarrow> (Inl (Wrap (''id: invalid uuid in '' @ abs_path idFile) e), f)
         | None \<Rightarrow> (Inr i, f))
     | Inl e \<Rightarrow>
         if \<not> errors_Is e ErrNotExist then (Inl (Wrap ''id: read file'' e), f)
         else (case os_MkdirAll (butlast idFile) f of
           (Inl e, f1) \<Rightarrow> (Inl (Wrap ''id: mkdirall'' e), f1)
         | (Inr _, f1) \<Rightarrow> (case os_WriteFile idFile (text_bytes newID) f1 of
             (Inl e, f2) \<Rightarrow> (Inl (Wrap ''id: write file'' e), f2)
           | (Inr _, f2) \<Rightarrow> (Inr newID, f2))))"

section \<open>Starting\<close>

record clientcfg =
  cl_ServerURL :: string
  cl_Root :: string
  cl_IDFile :: apath
  cl_PSKFile :: string

record clientenv =
  ce_Getwd :: "apath result"
  ce_ReadFile :: "string \<Rightarrow> string result"
  ce_Hostname :: "string result"
  ce_url_Parse :: "string \<Rightarrow> string result"
  ce_uuid_Parse :: "string \<Rightarrow> err option"
  ce_newID :: string

definition ClientVersion :: string where
  "ClientVersion = ''0.2.3''"

text \<open>
  The root of the configuration may be relative to the working directory, which also replaces it when it
  is missing. The result is what the transfers and the connection are created with.
\<close>

definition client_setup :: "clientenv \<Rightarrow> clientcfg \<Rightarrow> cfs \<Rightarrow> (tclient \<times> cconfig) result \<times> cfs" where
  "client_setup env cfg f =
     (case (if cl_Root cfg = [] then (case ce_Getwd env of Inl e \<Rightarrow> Inl (Wrap ''app: getwd'' e) | Inr wd \<Rightarrow> Inr (abs_path wd))
            else Inr (cl_Root cfg)) of Inl e \<Rightarrow> (Inl e, f)
    | Inr dir \<Rightarrow> (case ce_ReadFile env (cl_PSKFile cfg) of Inl e \<Rightarrow> (Inl (Wrap ''app: read psk'' e), f)
    | Inr key \<Rightarrow> (let psk = TrimSpace key in
      case (case ce_Getwd env of
          Inl e \<Rightarrow> if IsAbs dir then jail_New f [] dir else Inl (Wrap ''clientfs: abs failed'' e)
        | Inr wd \<Rightarrow> jail_New f wd dir) of Inl e \<Rightarrow> (Inl (Wrap ''app: create jail'' e), f)
    | Inr jail \<Rightarrow> (case LoadOrCreate (ce_uuid_Parse env) (ce_newID env) (cl_IDFile cfg) f of
        (Inl e, f1) \<Rightarrow> (Inl (Wrap ''app: load client id'' e), f1)
      | (Inr clientID, f1) \<Rightarrow> (case ce_Hostname env of Inl e \<Rightarrow> (Inl (Wrap ''app: hostname'' e), f1)
      | Inr hostname \<Rightarrow> (case transfer_New (ce_url_Parse env) (cl_ServerURL cfg) psk clientID jail of
          Inl e \<Rightarrow> (Inl (Wrap ''app: create transfer client'' e), f1)
        | Inr tc \<Rightarrow> (Inr (tc, \<lparr>cf_ClientID = clientID, cf_Hostname = hostname, cf_RootPath = abs_path (jail_root jail),
                       cf_Version = ClientVersion\<rparr>), f1)))))))"

section \<open>The identifier stays\<close>

lemma text_bytes_inverse: "bytes_text (text_bytes s) = s"
  by (induction s) (simp_all add: bytes_text_def text_bytes_def unat_of_nat of_char_mod_256)

lemma TrimSpace_id: "\<forall>c \<in> set s. \<not> is_space c \<Longrightarrow> TrimSpace s = s"
proof -
  have "dropWhile is_space t = t" if "\<forall>c \<in> set t. \<not> is_space c" for t using that by (cases t) auto
  from this [of s] this [of "rev s"] show "\<forall>c \<in> set s. \<not> is_space c \<Longrightarrow> TrimSpace s = s" by (simp add: TrimSpace_def)
qed

text \<open>A path that leads to a file that may be missing leads to it once it is there.\<close>

lemma walk_new_file:
  assumes "\<And>x. x \<noteq> q \<Longrightarrow> lookup g x = lookup f x" "lookup g q = Inr nd0" "n_kind nd0 = File d"
    and "lookup f q = Inl ErrNotExist \<or> (\<exists>nd d. lookup f q = Inr nd \<and> n_kind nd = File d)"
    and "walk f True True n dest todo = Inr q"
  shows "walk g True False n dest todo = Inr q"
proof -
  have "walk h flw create n dest todo = Inr q \<Longrightarrow> h = f \<Longrightarrow> flw \<Longrightarrow> create \<Longrightarrow> walk g True False n dest todo = Inr q" for h flw create
  proof (induction h flw create n dest todo rule: walk.induct)
    case (2 h flw create n dest c todo)
    have w: "walk f True True n dest (c # todo) = Inr q" using 2 by simp
    let ?p = "dest @ [c]"
    show ?case
    proof (cases "c = [] \<or> c = ''.'' \<or> c = ''..''")
      case True
      then show ?thesis using 2 by (auto split: if_splits)
    next
      case c: False
      show ?thesis
      proof (cases "lookup f ?p")
        case (Inl e)
        then have "todo = []" "q = ?p" using w c by (auto split: if_splits)
        then show ?thesis using assms(2,3) c by simp
      next
        case (Inr nd)
        show ?thesis
        proof (cases "n_kind nd")
          case (File x)
          then have "todo = []" "q = ?p" using w c Inr by (auto split: if_splits)
          then show ?thesis using assms(2,3) c by simp
        next
          case Special
          then show ?thesis using w c Inr assms(4) by (auto split: if_splits)
        next
          case (Dir k)
          then have ne: "?p \<noteq> q" using assms(4) Inr by auto
          have "walk f True True n ?p todo = Inr q" using w c Inr Dir by simp
          then have "walk g True False n ?p todo = Inr q" using 2(3,4) c Inr Dir 2(6-8) by simp
          then show ?thesis using c Inr Dir assms(1) [OF ne] by simp
        next
          case (Link l)
          then have ne: "?p \<noteq> q" using assms(4) Inr by auto
          let ?d = "if IsAbs l then [] else dest"
          have "n \<noteq> 0" "walk f True True (n - 1) ?d (split_path l @ todo) = Inr q" using w c Inr Link by (simp_all split: if_splits)
          then have "walk g True False (n - 1) ?d (split_path l @ todo) = Inr q" using 2(3,4) c Inr Link 2(6-8) by simp
          then show ?thesis using \<open>n \<noteq> 0\<close> c Inr Link assms(1) [OF ne] by simp
        qed
      qed
    qed
  qed simp
  then show ?thesis using assms(5) by blast
qed

lemma walk_create_real:
  "real_dir f dest \<Longrightarrow> walk f True True n dest todo = Inr q \<Longrightarrow> ClientFS.real f q \<or> lookup f q = Inl ErrNotExist"
proof (induction f True True n dest todo rule: walk.induct)
  case (2 f n dest c todo)
  show ?case
  proof (cases "c = [] \<or> c = ''.'' \<or> c = ''..''")
    case True
    then show ?thesis using 2 by (auto simp: real_dir_butlast split: if_splits)
  next
    case c: False
    show ?thesis
    proof (cases "lookup f (dest @ [c])")
      case (Inl e)
      then show ?thesis using 2 c by (auto split: if_splits)
    next
      case (Inr nd)
      show ?thesis using 2 c Inr
        by (cases "n_kind nd") (auto simp: real_snoc real_dir_snoc dir_at_def split: if_splits)
    qed
  qed
qed (simp add: real_dir_real)

text \<open>Regular directories: every node is a directory, a file or a link.\<close>

definition no_special :: "cfs \<Rightarrow> bool" where
  "no_special f \<longleftrightarrow> (\<forall>p nd. lookup f p = Inr nd \<longrightarrow> n_kind nd \<noteq> Special)"

lemma no_special_call: "no_special f \<Longrightarrow> sys_call f = (r, f') \<Longrightarrow> no_special f'"
  by (drule sys_call_lookup) (simp add: no_special_def)

lemma no_special_put: "no_special f \<Longrightarrow> k \<noteq> Special \<Longrightarrow> no_special (put_node q k f)"
  by (simp add: no_special_def lookup_put_node)

lemma no_special_Mkdir: "no_special f \<Longrightarrow> os_Mkdir p f = (r, f') \<Longrightarrow> no_special f'"
  by (auto simp: os_Mkdir_def split: sum.splits prod.splits if_splits intro!: no_special_put dest: no_special_call)

lemma no_special_MkdirAll: "no_special f \<Longrightarrow> os_MkdirAll p f = (r, f') \<Longrightarrow> no_special f'"
proof (induction p f arbitrary: r f' rule: os_MkdirAll.induct)
  case (1 p f)
  obtain r1 f1 where p: "(if butlast p \<noteq> [] then os_MkdirAll (butlast p) f else (Inr (), f)) = (r1, f1)" by fastforce
  obtain r2 f2 where m: "os_Mkdir p f1 = (r2, f2)" by fastforce
  have "no_special f1" if "isl (os_StatF f p)"
    using p that 1 by (cases "os_StatF f p") (auto split: if_splits)
  then show ?case using 1(2,3) p m no_special_Mkdir [OF _ m]
    by (subst (asm) os_MkdirAll.simps) (auto split: sum.splits if_splits)
qed

lemma WriteFile_read:
  assumes "no_special f" "os_WriteFile p bs f = (Inr (), f')"
  shows "os_ReadFile f' p = Inr bs"
proof -
  obtain q f1 where c: "os_OpenCreate p f = (Inr q, f1)" using assms(2) by (auto simp: os_WriteFile_def split: prod.splits sum.splits)
  then have n: "namei True True f p = Inr q" by (auto simp: os_OpenCreate_def split: sum.splits prod.splits if_splits)
  then have "ClientFS.real f q \<or> lookup f q = Inl ErrNotExist" using walk_create_real [of f "[]"] by (simp add: namei_def)
  then have nl: "lookup f q = Inr nd \<Longrightarrow> \<not> is_link (n_kind nd)" for nd
    by (auto simp: ClientFS.real_def lookup_def split: if_splits)
  then have before: "lookup f q = Inl ErrNotExist \<or> (\<exists>nd d. lookup f q = Inr nd \<and> n_kind nd = File d)"
    using c n assms(1) by (cases "lookup f q") (auto simp: os_OpenCreate_def no_special_def split: if_splits kind.splits prod.splits)
  obtain f0 where f0: "sys_call f = (Inr (), f0)" "f1 = put_node q (File []) f0"
    using c n before by (auto simp: os_OpenCreate_def split: sum.splits prod.splits if_splits)
  have q: "q \<noteq> []" "q \<notin> set (cs_deny f)" using before by (auto simp: lookup_def EACCES_def ErrNotExist_def split: if_splits)
  have l0: "lookup f0 = lookup f" and d0: "cs_deny f0 = cs_deny f"
    using f0(1) sys_call_lookup [OF f0(1)] by (auto simp: sys_call_def split: option.splits)
  obtain f2 where w: "os_Write q bs f1 = (Inr (), f2)" "sys_call f2 = (Inr (), f')"
    using assms(2) c by (auto simp: os_WriteFile_def split: prod.splits sum.splits)
  obtain g where g: "sys_call f1 = (Inr (), g)" using w(1) by (auto simp: os_Write_def split: prod.splits sum.splits)
  have lg: "lookup g = lookup f1" and dg: "cs_deny g = cs_deny f1"
    using g sys_call_lookup [OF g] by (auto simp: sys_call_def split: option.splits)
  have l1: "lookup f1 x = (if x = q then Inr \<lparr>n_kind = File [], n_mtime = cs_time f0 (cs_calls f0)\<rparr> else lookup f x)" for x
    using q by (simp add: f0(2) lookup_put_node l0 d0)
  have f2: "f2 = put_node q (File bs) g" using w(1) g l1 [of q] by (simp add: os_Write_def lg)
  have "cs_deny f1 = cs_deny f" by (simp add: f0(2) put_node_def d0)
  then have l2: "lookup f' x = (if x = q then Inr \<lparr>n_kind = File bs, n_mtime = cs_time g (cs_calls g)\<rparr> else lookup f x)" for x
    using q sys_call_lookup [OF w(2)] l1 [of x] by (simp add: f2 lookup_put_node lg dg)
  have "namei True False f' p = Inr q"
    using walk_new_file [of q f' f, OF _ _ _ before] n l2 by (simp add: namei_def)
  moreover have "read_all f' q = Inr bs" by (simp add: read_all_def l2)
  ultimately show ?thesis by (auto simp: os_ReadFile_def os_Open_def read_all_def split: sum.splits)
qed

section \<open>Properties\<close>

definition demo_clientenv :: clientenv where
  "demo_clientenv = \<lparr>ce_Getwd = Inr [''home''], ce_ReadFile = (\<lambda>_. Inr '' k''), ce_Hostname = Inr ''host'',
     ce_url_Parse = Inr, ce_uuid_Parse = (\<lambda>s. if length s = 4 then None else Some (Opaque ''invalid UUID length'')),
     ce_newID = ''u-01''\<rparr>"

definition demo_home :: "(nat \<Rightarrow> string option) \<Rightarrow> cfs" where
  "demo_home fails = \<lparr>cs_nodes = [([''home''], \<lparr>n_kind = Dir 0, n_mtime = 1\<rparr>)], cs_deny = [], cs_fail = fails, cs_time = int, cs_calls = 0\<rparr>"

definition demo_clientcfg :: clientcfg where
  "demo_clientcfg = \<lparr>cl_ServerURL = ''ws://s'', cl_Root = [], cl_IDFile = [''home'', ''cfg'', ''id''], cl_PSKFile = ''token''\<rparr>"

text \<open>
  A client keeps its identity: the identifier a start returns, read or newly drawn, is the one every
  later start returns as long as its file is left alone, whatever would be drawn then, and later starts
  change nothing.
\<close>

theorem client_identity_persists:
  assumes "LoadOrCreate parse newID p f = (Inr i, f1)" "no_special f" "parse newID = None" "\<forall>c \<in> set newID. \<not> is_space c"
    and "os_ReadFile f2 p = os_ReadFile f1 p"
  shows "LoadOrCreate parse other p f2 = (Inr i, f2)"
proof (cases "os_ReadFile f p")
  case (Inr data)
  then show ?thesis using assms(1,5) by (auto simp: LoadOrCreate_def Let_def split: option.splits)
next
  case (Inl e)
  then obtain g where g: "os_MkdirAll (butlast p) f = (Inr (), g)" "os_WriteFile p (text_bytes newID) g = (Inr (), f1)" "i = newID"
    using assms(1) by (auto simp: LoadOrCreate_def split: if_splits prod.splits sum.splits)
  have "os_ReadFile f1 p = Inr (text_bytes newID)"
    using WriteFile_read [OF no_special_MkdirAll [OF assms(2) g(1)] g(2)] .
  then show ?thesis
    using assms(3,5) g(3) TrimSpace_id [OF assms(4)] by (simp add: LoadOrCreate_def text_bytes_inverse)
qed

theorem client_identity_persists_witness:
  "fst (LoadOrCreate (ce_uuid_Parse demo_clientenv) ''u-02'' [''home'', ''cfg'', ''id'']
     (snd (LoadOrCreate (ce_uuid_Parse demo_clientenv) ''u-01'' [''home'', ''cfg'', ''id''] (demo_home (\<lambda>_. None))))) = Inr ''u-01''"
proof -
  let ?x = "LoadOrCreate (ce_uuid_Parse demo_clientenv) ''u-01'' [''home'', ''cfg'', ''id''] (demo_home (\<lambda>_. None))"
  have "fst ?x = Inr ''u-01''" by code_simp
  then have "?x = (Inr ''u-01'', snd ?x)" by (metis prod.collapse)
  moreover have "no_special (demo_home (\<lambda>_. None))"
    by (auto simp: no_special_def demo_home_def lookup_def split: if_splits)
  moreover have "ce_uuid_Parse demo_clientenv ''u-01'' = None" "\<forall>c \<in> set ''u-01''. \<not> is_space c"
    by (simp_all add: demo_clientenv_def is_space_def)
  ultimately show ?thesis using client_identity_persists [where ?f2.0 = "snd ?x"] by (metis fst_conv)
qed

text \<open>
  The write is not atomic: when it fails the file is left empty, and every later start refuses it.
\<close>

lemma failed_write_locks_client_out:
  "let (r, f) = LoadOrCreate (ce_uuid_Parse demo_clientenv) ''u-01'' [''home'', ''cfg'', ''id'']
       (demo_home (\<lambda>k. if k = 2 then Some ''no space left on device'' else None))
   in isl r \<and> isl (fst (LoadOrCreate (ce_uuid_Parse demo_clientenv) ''u-02'' [''home'', ''cfg'', ''id''] (f\<lparr>cs_fail := \<lambda>_. None\<rparr>)))"
  by code_simp

lemma client_setup_ok:
  assumes "client_setup env cfg f = (Inr (tc, cc), f1)"
  shows "\<exists>key. ce_ReadFile env (cl_PSKFile cfg) = Inr key \<and> tc_PSK tc = TrimSpace key \<and> tc_ClientID tc = cf_ClientID cc \<and>
    LoadOrCreate (ce_uuid_Parse env) (ce_newID env) (cl_IDFile cfg) f = (Inr (cf_ClientID cc), f1)"
  using assms by (auto simp: client_setup_def Let_def transfer_New_def split: if_splits sum.splits prod.splits)

text \<open>
  C28. The keys decide: a client and a server that have started understand each other exactly if their key
  files agree up to white space around the key; then a request of the client reaches the handler of its
  route with the client's identifier, and otherwise it is refused, which the audit log records.
\<close>

theorem keys_must_agree:
  assumes "srv_setup senv scfg d = (Inr (sc, sv), d')" "be_ReadFile senv (cf_PSKFile scfg) = Inr skey"
    and "client_setup cenv ccfg f = (Inr (tc, cc), f1)" "ce_ReadFile cenv (cl_PSKFile ccfg) = Inr ckey"
  shows "AuthBearerWithClientID (sc_PSK sc) h (setAuthHeaders tc r) s =
    (if TrimSpace skey = TrimSpace ckey then h ((setAuthHeaders tc r)\<lparr>rq_ctxClientID := cf_ClientID cc\<rparr>) s
     else (http_Error ''unauthorized'' 401, (audit_now ''psk_auth_failed'' None None (fst s), snd s)))"
proof -
  have "scripts_keep (\<lambda>_. True) (be_script senv)" by (simp add: scripts_keep_def)
  from srv_setup_ok [OF assms(1) this] have "sc_PSK sc = TrimSpace skey" using assms(2) by auto
  moreover have "tc_PSK tc = TrimSpace ckey" "tc_ClientID tc = cf_ClientID cc"
    using client_setup_ok [OF assms(3)] assms(4) by auto
  ultimately show ?thesis
    by (simp add: AuthBearerWithClientID_def setAuthHeaders_def Get_value_def extractBearer_def HasPrefix_def TrimPrefix_def)
qed

theorem keys_must_agree_witness:
  "\<exists>sc sv tc cc. fst (srv_setup demo_env demo_config (demo_disk empty_db)) = Inr (sc, sv) \<and>
     fst (client_setup demo_clientenv demo_clientcfg (demo_home (\<lambda>_. None))) = Inr (tc, cc) \<and> cf_ClientID cc = ''u-01'' \<and>
     AuthBearerWithClientID (sc_PSK sc) (\<lambda>r s. (http_NotFound, s)) (setAuthHeaders tc (demo_form ''GET'' ''/'' [])) (sv_world sv, ()) =
       (http_NotFound, (sv_world sv, ()))"
proof -
  let ?x = "srv_setup demo_env demo_config (demo_disk empty_db)" and ?y = "client_setup demo_clientenv demo_clientcfg (demo_home (\<lambda>_. None))"
  have "\<not> isl (fst ?x)" "case fst ?y of Inl _ \<Rightarrow> False | Inr (tc, cc) \<Rightarrow> cf_ClientID cc = ''u-01''" by code_simp+
  then obtain sc sv d' tc cc f1 where x: "?x = (Inr (sc, sv), d')" "?y = (Inr (tc, cc), f1)" "cf_ClientID cc = ''u-01''"
    by (cases ?x; cases ?y) (auto split: sum.splits simp: isl_def; metis sum.exhaust_sel surj_pair)
  have "TrimSpace ''k \<newline>'' = TrimSpace '' k''" by code_simp
  then show ?thesis
    using keys_must_agree [OF x(1) _ x(2), of "''k \<newline>''" "'' k''" "\<lambda>r s. (http_NotFound, s)"
        "demo_form ''GET'' ''/'' []" "(sv_world sv, ())"] x
    by (intro exI [of _ sc] exI [of _ sv] exI [of _ tc] exI [of _ cc]) (simp add: demo_env_def demo_clientenv_def)
qed

end
