(* ===== verification/Cmd.thy ===== *)
theory Cmd
  imports ClientStart
begin

text \<open>
  The command line (\<open>cmd/axion\<close>) and the attributes of log records (\<open>pkg/logctx\<close>): the dispatch of
  \<open>main\<close>, the flags of both commands as the package \<open>flag\<close> of Go reads them, their defaults, the exit
  codes, and what is printed. The programs themselves (\<open>app.Run\<close>), the configuration directory of
  the user and the list of flags that \<open>PrintDefaults\<close> prints are arguments.
\<close>

section \<open>Flags\<close>

text \<open>
  \<open>FlagSet.Parse\<close> for string flags, with the values in an association list from the names to the current
  value. A flag that is not known is an error, except for \<open>help\<close> and \<open>h\<close>. What follows the first argument
  that is no flag, or \<open>--\<close>, is left.
\<close>

datatype flag_error = ErrHelp | BadSyntax string | NotDefined string | NeedsArgument string

definition flag_name :: "string \<Rightarrow> string" where
  "flag_name s = (if hd (tl s) = CHR ''-'' then tl (tl s) else tl s)"

text \<open>The name may not be empty, so that the search for an equals sign begins at its second character.\<close>

definition split_equals :: "string \<Rightarrow> string \<times> string option" where
  "split_equals name = (let k = hd name # takeWhile (\<lambda>c. c \<noteq> CHR ''='') (tl name); r = dropWhile (\<lambda>c. c \<noteq> CHR ''='') (tl name)
     in (k, if r = [] then None else Some (tl r)))"

fun flag_Parse :: "(string \<times> string) list \<Rightarrow> string list \<Rightarrow> flag_error + (string \<times> string) list \<times> string list" where
  "flag_Parse formal [] = Inr (formal, [])"
| "flag_Parse formal (s # args) =
     (if length s < 2 \<or> hd s \<noteq> CHR ''-'' then Inr (formal, s # args)
      else if s = ''--'' then Inr (formal, args)
      else (let name = flag_name s in
        if name = [] \<or> hd name = CHR ''-'' \<or> hd name = CHR ''='' then Inl (BadSyntax s)
        else (case split_equals name of (k, v) \<Rightarrow>
          if map_of formal k = None then (if k = ''help'' \<or> k = ''h'' then Inl ErrHelp else Inl (NotDefined k))
          else (case v of
            Some x \<Rightarrow> flag_Parse (AList.update k x formal) args
          | None \<Rightarrow> (case args of [] \<Rightarrow> Inl (NeedsArgument k) | x # rest \<Rightarrow> flag_Parse (AList.update k x formal) rest)))))"

text \<open>\<open>failf\<close> and the handling of errors in a flag set with \<open>ExitOnError\<close>.\<close>

fun flag_error_text :: "flag_error \<Rightarrow> string" where
  "flag_error_text ErrHelp = ''flag: help requested''"
| "flag_error_text (BadSyntax s) = ''bad flag syntax: '' @ s"
| "flag_error_text (NotDefined k) = ''flag provided but not defined: -'' @ k"
| "flag_error_text (NeedsArgument k) = ''flag needs an argument: -'' @ k"

section \<open>The commands\<close>

text \<open>How the process ends: its exit code, what it has printed, and the record it has logged, if any.\<close>

record ending =
  en_code :: int
  en_stdout :: string
  en_stderr :: string
  en_logged :: "(string \<times> err) option"

definition exits :: "int \<Rightarrow> string \<Rightarrow> ending" where
  "exits code stderr = \<lparr>en_code = code, en_stdout = [], en_stderr = stderr, en_logged = None\<rparr>"

record client_config =
  cg_ServerURL :: string
  cg_Root :: string
  cg_IDFile :: string
  cg_PSKFile :: string

record cmdenv =
  ev_UserConfigDir :: "string result"
  ev_Server :: "config \<Rightarrow> unit result"
  ev_Client :: "client_config \<Rightarrow> unit result"
  ev_PrintDefaults :: "(string \<times> string) list \<Rightarrow> string"

definition filepath_Join :: "string list \<Rightarrow> string" where
  "filepath_Join es = (case filter (\<lambda>x. x \<noteq> []) es of [] \<Rightarrow> [] | xs \<Rightarrow> Clean (join_path xs))"

definition filepath_Dir :: "string \<Rightarrow> string" where
  "filepath_Dir s = Clean (rev (dropWhile (\<lambda>c. c \<noteq> slash) (rev s)))"

definition defaultDataDir :: "string result \<Rightarrow> string" where
  "defaultDataDir d = (case d of Inr h \<Rightarrow> filepath_Join [filepath_Dir h, ''share'', ''axion''] | Inl _ \<Rightarrow> ''./axion-data'')"

definition defaultPSKFile :: "string result \<Rightarrow> string" where
  "defaultPSKFile d = (case d of Inr h \<Rightarrow> filepath_Join [h, ''axion'', ''server.token''] | Inl _ \<Rightarrow> ''./axion-server.token'')"

definition defaultClientIDFile :: "string result \<Rightarrow> string" where
  "defaultClientIDFile d = (case d of Inr h \<Rightarrow> filepath_Join [h, ''axion'', ''client.id''] | Inl _ \<Rightarrow> ''./axion.client.id'')"

definition defaultClientPSKFile :: "string result \<Rightarrow> string" where
  "defaultClientPSKFile d = (case d of Inr h \<Rightarrow> filepath_Join [h, ''axion'', ''server.token''] | Inl _ \<Rightarrow> ''./axion.server.token'')"

definition nl :: string where
  "nl = [CHR 10]"

definition flag_usage :: "cmdenv \<Rightarrow> string \<Rightarrow> (string \<times> string) list \<Rightarrow> string" where
  "flag_usage env cmd formal = ''Usage: axion '' @ cmd @ '' [flags]'' @ nl @ nl @ ''Flags:'' @ nl @ ev_PrintDefaults env formal"

text \<open>What a failed \<open>Parse\<close> does: it prints and exits, with 0 for help.\<close>

definition parse_failed :: "cmdenv \<Rightarrow> string \<Rightarrow> (string \<times> string) list \<Rightarrow> flag_error \<Rightarrow> ending" where
  "parse_failed env cmd formal e = (if e = ErrHelp then exits 0 (flag_usage env cmd formal)
     else exits 2 (flag_error_text e @ nl @ flag_usage env cmd formal))"

definition server_flags :: "cmdenv \<Rightarrow> (string \<times> string) list" where
  "server_flags env = [(''bind'', ''127.0.0.1:8765''), (''data-dir'', defaultDataDir (ev_UserConfigDir env)), (''admin-user'', []),
     (''admin-password'', []), (''psk-file'', defaultPSKFile (ev_UserConfigDir env))]"

definition client_flags :: "cmdenv \<Rightarrow> (string \<times> string) list" where
  "client_flags env = [(''server'', ''ws://127.0.0.1:8765''), (''root'', []), (''id-file'', defaultClientIDFile (ev_UserConfigDir env)),
     (''psk-file'', defaultClientPSKFile (ev_UserConfigDir env))]"

definition flag_value :: "(string \<times> string) list \<Rightarrow> string \<Rightarrow> string" where
  "flag_value fs k = (case map_of fs k of None \<Rightarrow> [] | Some v \<Rightarrow> v)"

definition runServerCmd :: "cmdenv \<Rightarrow> string list \<Rightarrow> ending" where
  "runServerCmd env args = (case flag_Parse (server_flags env) args of
       Inl e \<Rightarrow> parse_failed env ''server'' (server_flags env) e
     | Inr (fs, _) \<Rightarrow>
         (let cfg = \<lparr>cf_Bind = flag_value fs ''bind'', cf_DataDir = flag_value fs ''data-dir'', cf_AdminUser = flag_value fs ''admin-user'',
                cf_AdminPassword = flag_value fs ''admin-password'', cf_PSKFile = flag_value fs ''psk-file'', cf_ShutdownGrace = 30 * 1000000000\<rparr>
          in case ev_Server env cfg of
            Inl e \<Rightarrow> (exits 1 [])\<lparr>en_logged := Some (''axion server failed'', e)\<rparr>
          | Inr _ \<Rightarrow> exits 0 []))"

definition runClientCmd :: "cmdenv \<Rightarrow> string list \<Rightarrow> ending" where
  "runClientCmd env args = (case flag_Parse (client_flags env) args of
       Inl e \<Rightarrow> parse_failed env ''client'' (client_flags env) e
     | Inr (fs, _) \<Rightarrow>
         (let cfg = \<lparr>cg_ServerURL = flag_value fs ''server'', cg_Root = flag_value fs ''root'', cg_IDFile = flag_value fs ''id-file'',
                cg_PSKFile = flag_value fs ''psk-file''\<rparr>
          in case ev_Client env cfg of
            Inl e \<Rightarrow> (exits 1 [])\<lparr>en_logged := Some (''axion client failed'', e)\<rparr>
          | Inr _ \<Rightarrow> exits 0 []))"

definition usage :: string where
  "usage = concat (map (\<lambda>l. l @ nl)
     [''axion - file synchronization tool'', [], ''Usage:'', ''  axion <command> [flags]'', [], ''Commands:'',
      ''  server   Run the axion server'', ''  client   Run the axion client'', [],
      ''Use ''@ [CHR 0x22] @ ''axion <command> --help'' @ [CHR 0x22] @ '' for command-specific flags.''])"

definition main :: "cmdenv \<Rightarrow> string list \<Rightarrow> ending" where
  "main env osArgs =
     (if length osArgs < 2 then exits 2 usage
      else (let args = drop 2 osArgs; cmd = osArgs ! 1 in
        if cmd = ''server'' then runServerCmd env args
        else if cmd = ''client'' then runClientCmd env args
        else if cmd = ''-h'' \<or> cmd = ''--help'' \<or> cmd = ''help'' then (exits 0 [])\<lparr>en_stdout := usage\<rparr>
        else exits 2 (''axion: unknown command '' @ Sprintf_q cmd @ nl @ nl @ usage)))"

section \<open>Attributes of log records\<close>

text \<open>A context holds the attributes under a private key; a logger is the list of its attributes.\<close>

type_synonym attr = "string \<times> string"
type_synonym logctx = "attr list option"

definition attrsFrom :: "logctx option \<Rightarrow> attr list" where
  "attrsFrom ctx = (case ctx of None \<Rightarrow> [] | Some v \<Rightarrow> (case v of None \<Rightarrow> [] | Some attrs \<Rightarrow> attrs))"

definition logctx_With :: "logctx option \<Rightarrow> attr list \<Rightarrow> logctx option" where
  "logctx_With ctx attrs = Some (Some (attrsFrom ctx @ attrs))"

definition logctx_From :: "attr list \<Rightarrow> logctx option \<Rightarrow> attr list" where
  "logctx_From dflt ctx = (let attrs = attrsFrom ctx in if attrs = [] then dflt else dflt @ attrs)"

definition attr_ClientID :: "string \<Rightarrow> attr" where "attr_ClientID i = (''client_id'', i)"
definition attr_PairID :: "string \<Rightarrow> attr" where "attr_PairID i = (''pair_id'', i)"
definition attr_RelPath :: "string \<Rightarrow> attr" where "attr_RelPath p = (''rel_path'', p)"

definition attr_SHA :: "string \<Rightarrow> attr" where
  "attr_SHA sha = (''sha'', if length sha > 8 then take 8 sha else sha)"

text \<open>Attributes accumulate in the order of the calls, whatever the context was.\<close>

lemma logctx_accumulates: "logctx_From dflt (logctx_With (logctx_With ctx as) bs) = dflt @ attrsFrom ctx @ as @ bs"
  by (simp add: logctx_From_def logctx_With_def attrsFrom_def Let_def)

section \<open>Reading back the flags\<close>

text \<open>Arguments that set flags: \<open>-name=value\<close>, or the name and the value as two arguments.\<close>

fun render :: "(bool \<times> string \<times> string) list \<Rightarrow> string list" where
  "render [] = []"
| "render ((True, k, v) # kvs) = (''-'' @ k @ ''='' @ v) # render kvs"
| "render ((False, k, v) # kvs) = (''--'' @ k) # v # render kvs"

definition flag_ok :: "string \<Rightarrow> bool" where
  "flag_ok k \<longleftrightarrow> k \<noteq> [] \<and> hd k \<noteq> CHR ''-'' \<and> CHR ''='' \<notin> set k"

lemma split_equals_none: "flag_ok k \<Longrightarrow> split_equals k = (k, None)"
  by (cases k) (auto simp: flag_ok_def split_equals_def Let_def dropWhile_eq_Nil_conv)

lemma split_equals_some: "flag_ok k \<Longrightarrow> split_equals (k @ CHR ''='' # v) = (k, Some v)"
  by (cases k) (auto simp: flag_ok_def split_equals_def Let_def dropWhile_append takeWhile_append)

lemma flag_Parse_one:
  assumes "flag_ok k" "map_of formal k \<noteq> None"
  shows "flag_Parse formal ((''-'' @ k @ ''='' @ v) # args) = flag_Parse (AList.update k v formal) args"
    and "flag_Parse formal ((''--'' @ k) # v # args) = flag_Parse (AList.update k v formal) args"
proof -
  obtain c cs where k: "k = c # cs" "c \<noteq> CHR ''-''" "c \<noteq> CHR ''=''" using assms(1) by (cases k) (auto simp: flag_ok_def)
  have e: "split_equals (c # cs @ CHR ''='' # v) = (k, Some v)" "split_equals (c # cs) = (k, None)"
    using split_equals_some [OF assms(1), of v] split_equals_none [OF assms(1)] k by simp_all
  show "flag_Parse formal ((''-'' @ k @ ''='' @ v) # args) = flag_Parse (AList.update k v formal) args"
    using k e(1) assms(2) by (auto simp: flag_name_def)
  show "flag_Parse formal ((''--'' @ k) # v # args) = flag_Parse (AList.update k v formal) args"
    using k e(2) assms(2) by (auto simp: flag_name_def)
qed

lemma flag_Parse_render:
  "list_all (\<lambda>(b, k, v). flag_ok k \<and> map_of formal k \<noteq> None) kvs \<Longrightarrow>
   flag_Parse formal (render kvs @ rest) = flag_Parse (fold (\<lambda>(b, k, v). AList.update k v) kvs formal) rest"
proof (induction kvs arbitrary: formal)
  case (Cons x kvs)
  obtain b k v where x: "x = (b, k, v)" by (cases x) auto
  have "list_all (\<lambda>(b, k, v). flag_ok k \<and> map_of (AList.update k' v' formal) k \<noteq> None) kvs" for k' v'
    using Cons.prems by (auto simp: list_all_iff update_conv')
  with Cons.IH [of "AList.update k v formal"] Cons.prems flag_Parse_one [of k formal v] x
  show ?case by (cases b) (auto simp del: flag_Parse.simps)
qed simp
definition ran_server :: "cmdenv \<Rightarrow> config \<Rightarrow> ending" where
  "ran_server env cfg = (case ev_Server env cfg of Inl e \<Rightarrow> (exits 1 [])\<lparr>en_logged := Some (''axion server failed'', e)\<rparr> | Inr _ \<Rightarrow> exits 0 [])"

definition ran_client :: "cmdenv \<Rightarrow> client_config \<Rightarrow> ending" where
  "ran_client env cfg = (case ev_Client env cfg of Inl e \<Rightarrow> (exits 1 [])\<lparr>en_logged := Some (''axion client failed'', e)\<rparr> | Inr _ \<Rightarrow> exits 0 [])"

text \<open>The value of a flag: what the last argument for it says, or the default.\<close>

definition last_value :: "(bool \<times> string \<times> string) list \<Rightarrow> string \<Rightarrow> string \<Rightarrow> string" where
  "last_value kvs k d = (case List.find (\<lambda>(b, k1, v). k1 = k) (rev kvs) of None \<Rightarrow> d | Some (b, k1, v) \<Rightarrow> v)"

lemma last_value_snoc: "last_value (kvs @ [(b, k1, v)]) k d = (if k1 = k then v else last_value kvs k d)"
  by (simp add: last_value_def)

lemma flag_value_fold:
  "map_of fs k \<noteq> None \<Longrightarrow> flag_value (fold (\<lambda>(b, k, v). AList.update k v) kvs fs) k = last_value kvs k (flag_value fs k)"
proof (induction kvs rule: rev_induct)
  case (snoc x kvs)
  obtain b k1 v where x: "x = (b, k1, v)" by (cases x) auto
  show ?case using snoc by (simp add: x last_value_snoc flag_value_def update_conv')
qed (simp add: last_value_def)

lemma flag_Parse_values:
  assumes "list_all (\<lambda>(b, k, v). flag_ok k \<and> map_of formal k \<noteq> None) kvs"
  obtains fs where "flag_Parse formal (render kvs) = Inr (fs, [])"
    and "\<And>k. map_of formal k \<noteq> None \<Longrightarrow> flag_value fs k = last_value kvs k (flag_value formal k)"
  using flag_Parse_render [OF assms, of "[]"] flag_value_fold [of formal _ kvs] by simp

text \<open>
  C29. The command line configures the server completely: for any sequence of arguments that set its five
  flags, in any order and number, each written as \<open>-name=value\<close> or as \<open>--name\<close> followed by the value, with any
  values (empty, with spaces, dashes or equals signs), the server runs with the last value given for each
  flag, the documented default for each flag that is not given, and a grace period of 30 seconds; its error
  decides the exit code.
\<close>

theorem flags_roundtrip:
  assumes "list_all (\<lambda>(b, k, v). k \<in> {''bind'', ''data-dir'', ''admin-user'', ''admin-password'', ''psk-file''}) kvs"
  shows "main env ([''axion'', ''server''] @ render kvs) = ran_server env
    \<lparr>cf_Bind = last_value kvs ''bind'' ''127.0.0.1:8765'', cf_DataDir = last_value kvs ''data-dir'' (defaultDataDir (ev_UserConfigDir env)),
     cf_AdminUser = last_value kvs ''admin-user'' [], cf_AdminPassword = last_value kvs ''admin-password'' [],
     cf_PSKFile = last_value kvs ''psk-file'' (defaultPSKFile (ev_UserConfigDir env)), cf_ShutdownGrace = 30 * 1000000000\<rparr>"
proof -
  have "list_all (\<lambda>(b, k, v). flag_ok k \<and> map_of (server_flags env) k \<noteq> None) kvs"
    using assms by (induction kvs) (auto simp: flag_ok_def server_flags_def)
  from flag_Parse_values [OF this] obtain fs where p: "flag_Parse (server_flags env) (render kvs) = Inr (fs, [])"
    and v: "\<And>k. map_of (server_flags env) k \<noteq> None \<Longrightarrow> flag_value fs k = last_value kvs k (flag_value (server_flags env) k)" by blast
  have "flag_value fs ''bind'' = last_value kvs ''bind'' ''127.0.0.1:8765''"
    "flag_value fs ''data-dir'' = last_value kvs ''data-dir'' (defaultDataDir (ev_UserConfigDir env))"
    "flag_value fs ''admin-user'' = last_value kvs ''admin-user'' []" "flag_value fs ''admin-password'' = last_value kvs ''admin-password'' []"
    "flag_value fs ''psk-file'' = last_value kvs ''psk-file'' (defaultPSKFile (ev_UserConfigDir env))"
    by (subst v; simp add: server_flags_def flag_value_def)+
  moreover have "main env ([''axion'', ''server''] @ render kvs) = runServerCmd env (render kvs)" by (simp add: main_def)
  ultimately show ?thesis by (simp add: runServerCmd_def p ran_server_def)
qed

text \<open>The same for the client and its four flags.\<close>

theorem client_flags_roundtrip:
  assumes "list_all (\<lambda>(b, k, v). k \<in> {''server'', ''root'', ''id-file'', ''psk-file''}) kvs"
  shows "main env ([''axion'', ''client''] @ render kvs) = ran_client env
    \<lparr>cg_ServerURL = last_value kvs ''server'' ''ws://127.0.0.1:8765'', cg_Root = last_value kvs ''root'' [],
     cg_IDFile = last_value kvs ''id-file'' (defaultClientIDFile (ev_UserConfigDir env)),
     cg_PSKFile = last_value kvs ''psk-file'' (defaultClientPSKFile (ev_UserConfigDir env))\<rparr>"
proof -
  have "list_all (\<lambda>(b, k, v). flag_ok k \<and> map_of (client_flags env) k \<noteq> None) kvs"
    using assms by (induction kvs) (auto simp: flag_ok_def client_flags_def)
  from flag_Parse_values [OF this] obtain fs where p: "flag_Parse (client_flags env) (render kvs) = Inr (fs, [])"
    and v: "\<And>k. map_of (client_flags env) k \<noteq> None \<Longrightarrow> flag_value fs k = last_value kvs k (flag_value (client_flags env) k)" by blast
  have "flag_value fs ''server'' = last_value kvs ''server'' ''ws://127.0.0.1:8765''" "flag_value fs ''root'' = last_value kvs ''root'' []"
    "flag_value fs ''id-file'' = last_value kvs ''id-file'' (defaultClientIDFile (ev_UserConfigDir env))"
    "flag_value fs ''psk-file'' = last_value kvs ''psk-file'' (defaultClientPSKFile (ev_UserConfigDir env))"
    by (subst v; simp add: client_flags_def flag_value_def)+
  moreover have "main env ([''axion'', ''client''] @ render kvs) = runClientCmd env (render kvs)" by (simp add: main_def)
  ultimately show ?thesis by (simp add: runClientCmd_def p ran_client_def)
qed

text \<open>
  A server that was not told otherwise listens on the loopback interface only and asks for no password,
  whichever other flags are given, in any order and number.
\<close>

theorem default_server_is_local:
  assumes "list_all (\<lambda>(b, k, v). k \<in> {''data-dir'', ''psk-file''}) kvs"
  shows "\<exists>cfg. main env ([''axion'', ''server''] @ render kvs) = ran_server env cfg \<and>
    cf_Bind (applyDefaults cfg) = ''127.0.0.1:8765'' \<and> cf_AdminUser cfg = [] \<and> cf_AdminPassword cfg = []"
proof -
  have "list_all (\<lambda>(b, k, v). flag_ok k \<and> map_of (server_flags env) k \<noteq> None) kvs"
    using assms by (induction kvs) (auto simp: flag_ok_def server_flags_def)
  from flag_Parse_render [OF this, of "[]"]
  have p: "flag_Parse (server_flags env) (render kvs) = Inr (fold (\<lambda>(b, k, v). AList.update k v) kvs (server_flags env), [])" by simp
  have keep: "k \<notin> {''data-dir'', ''psk-file''} \<Longrightarrow> map_of (fold (\<lambda>(b, k, v). AList.update k v) kvs fs) k = map_of fs k" for k fs
    using assms by (induction kvs arbitrary: fs) (auto simp: update_conv')
  let ?fs = "fold (\<lambda>(b, k, v). AList.update k v) kvs (server_flags env)"
  have v: "flag_value ?fs ''bind'' = ''127.0.0.1:8765''" "flag_value ?fs ''admin-user'' = []" "flag_value ?fs ''admin-password'' = []"
    by (simp_all add: flag_value_def keep, simp_all add: server_flags_def)
  have "main env ([''axion'', ''server''] @ render kvs) = runServerCmd env (render kvs)" by (simp add: main_def)
  then show ?thesis using v
    by (intro exI [of _ "\<lparr>cf_Bind = flag_value ?fs ''bind'', cf_DataDir = flag_value ?fs ''data-dir'', cf_AdminUser = flag_value ?fs ''admin-user'',
        cf_AdminPassword = flag_value ?fs ''admin-password'', cf_PSKFile = flag_value ?fs ''psk-file'', cf_ShutdownGrace = 30 * 1000000000\<rparr>"])
      (simp add: runServerCmd_def p ran_server_def applyDefaults_def)
qed

definition demo_cmdenv :: cmdenv where
  "demo_cmdenv = \<lparr>ev_UserConfigDir = Inr ''/home/u/.config'', ev_Server = (\<lambda>_. Inr ()), ev_Client = (\<lambda>_. Inr ()),
     ev_PrintDefaults = (\<lambda>_. [])\<rparr>"

theorem flags_roundtrip_witness:
  "main demo_cmdenv [''axion'', ''server'', ''--psk-file'', ''/k'', ''-bind=:1'', ''-admin-user=a=b'', ''--bind'', ''-:2''] =
   ran_server demo_cmdenv \<lparr>cf_Bind = ''-:2'', cf_DataDir = ''/home/u/share/axion'', cf_AdminUser = ''a=b'', cf_AdminPassword = [],
     cf_PSKFile = ''/k'', cf_ShutdownGrace = 30 * 1000000000\<rparr>"
proof -
  let ?kvs = "[(False, ''psk-file'', ''/k''), (True, ''bind'', '':1''), (True, ''admin-user'', ''a=b''), (False, ''bind'', ''-:2'')]"
  have d: "defaultDataDir (ev_UserConfigDir demo_cmdenv) = ''/home/u/share/axion''" by code_simp
  have "list_all (\<lambda>(b, k, v). k \<in> {''bind'', ''data-dir'', ''admin-user'', ''admin-password'', ''psk-file''}) ?kvs" by simp
  from flags_roundtrip [OF this, of demo_cmdenv] show ?thesis by (simp add: last_value_def d)
qed

theorem default_server_is_local_witness:
  "en_code (main demo_cmdenv [''axion'', ''server'', ''--data-dir'', ''/d'']) = 0"
proof -
  have "list_all (\<lambda>(b, k, v). k \<in> {''data-dir'', ''psk-file''}) [(False, ''data-dir'', ''/d'')]" by simp
  from default_server_is_local [OF this, of demo_cmdenv] show ?thesis
    by (auto simp: ran_server_def demo_cmdenv_def exits_def)
qed

text \<open>
  The exit codes: 1 exactly if a program ran and failed, with its error logged; 2 for a wrong command or
  flag, with the usage of the program or the command on standard error; else 0.
\<close>

theorem main_exit_codes:
  "en_code (main env args) \<in> {0, 1, 2} \<and> (en_code (main env args) = 1 \<longleftrightarrow> en_logged (main env args) \<noteq> None) \<and>
   (en_code (main env args) = 2 \<longrightarrow> suffix usage (en_stderr (main env args)) \<or>
      (\<exists>cmd fs. suffix (flag_usage env cmd fs) (en_stderr (main env args))))"
proof -
  have pf: "en_code (parse_failed env cmd fs e) \<in> {0, 2}" "en_code (parse_failed env cmd fs e) \<noteq> 1" "en_logged (parse_failed env cmd fs e) = None"
    "suffix (flag_usage env cmd fs) (en_stderr (parse_failed env cmd fs e))" for cmd fs e
    by (auto simp: parse_failed_def exits_def suffix_def)
  have c: "en_code (runClientCmd env xs) \<in> {0, 1, 2} \<and> (en_code (runClientCmd env xs) = 1 \<longleftrightarrow> en_logged (runClientCmd env xs) \<noteq> None) \<and>
      (en_code (runClientCmd env xs) = 2 \<longrightarrow> suffix (flag_usage env ''client'' (client_flags env)) (en_stderr (runClientCmd env xs)))" for xs
    using pf [of "''client''" "client_flags env"] by (auto simp: runClientCmd_def exits_def Let_def split: sum.splits)
  have s: "en_code (runServerCmd env xs) \<in> {0, 1, 2} \<and> (en_code (runServerCmd env xs) = 1 \<longleftrightarrow> en_logged (runServerCmd env xs) \<noteq> None) \<and>
      (en_code (runServerCmd env xs) = 2 \<longrightarrow> suffix (flag_usage env ''server'' (server_flags env)) (en_stderr (runServerCmd env xs)))" for xs
    using pf [of "''server''" "server_flags env"] by (auto simp: runServerCmd_def exits_def Let_def split: sum.splits)
  have "suffix usage usage" "suffix usage (a @ nl @ nl @ usage)" for a by (auto simp: suffix_def intro: exI [of _ "a @ nl @ nl"])
  then have x: "suffix usage (a @ nl @ nl @ usage)" "suffix usage usage" for a by simp_all
  have "main env args = runServerCmd env (drop 2 args) \<or> main env args = runClientCmd env (drop 2 args) \<or>
      main env args = (exits 0 [])\<lparr>en_stdout := usage\<rparr> \<or> main env args = exits 2 usage \<or>
      main env args = exits 2 ((''axion: unknown command '' @ Sprintf_q (args ! 1)) @ nl @ nl @ usage)"
    unfolding main_def Let_def by simp
  then show ?thesis
  proof (elim disjE)
    assume "main env args = runServerCmd env (drop 2 args)"
    then show ?thesis using s [of "drop 2 args"] by simp blast
  next
    assume "main env args = runClientCmd env (drop 2 args)"
    then show ?thesis using c [of "drop 2 args"] by simp blast
  qed (use x in \<open>simp_all add: exits_def del: append_assoc append_Cons\<close>)
qed

text \<open>
  The default key files of both programs are the same file exactly if the user has a configuration
  directory; without one a client and a server started in the same directory without flags look for
  different files.
\<close>

theorem default_key_files_agree: "defaultPSKFile d = defaultClientPSKFile d \<longleftrightarrow> \<not> isl d"
  by (cases d) (simp_all add: defaultPSKFile_def defaultClientPSKFile_def)

end
