(* ===== verification/Rows.thy ===== *)
theory Rows
  imports Store
begin

text \<open>
  The rows of the SQL driver (\<open>internal/server/store/sqlite.go\<close>): the values a statement binds, the
  \<open>scanX\<close> functions that read a row back into a struct, and the loops over the rows of a query. A cell
  is what the driver stores in a column of SQLite: NULL, an integer or a text. The end of an iteration may
  be an error of the driver (\<open>rows.Err\<close>). \<open>Store\<close> keeps the tables as lists of structs; the theorems
  here show that this loses nothing.
\<close>

section \<open>Scanning one row\<close>

datatype cell = CNull | CInt int | CText string

text \<open>\<open>convertAssign\<close> of \<open>database/sql\<close> for the destinations the code uses.\<close>

definition converting :: "string \<Rightarrow> string \<Rightarrow> err" where
  "converting what to = Opaque (''converting '' @ what @ '' to '' @ to @ '' is unsupported'')"

fun to_string :: "cell \<Rightarrow> string result" where
  "to_string CNull = Inl (converting ''NULL'' ''string'')"
| "to_string (CInt n) = Inr (Sprint_int n)"
| "to_string (CText s) = Inr s"

fun to_num :: "string \<Rightarrow> cell \<Rightarrow> int result" where
  "to_num ty CNull = Inl (converting ''NULL'' ty)"
| "to_num ty (CInt n) = Inr n"
| "to_num ty (CText s) = (case ParseInt s of
     Inl e \<Rightarrow> Inl (Opaque (''converting driver.Value type string ('' @ Sprintf_q s @ '') to a '' @ ty @ '': '' @ err_Error e)) | Inr n \<Rightarrow> Inr n)"

abbreviation to_int64 :: "cell \<Rightarrow> int result" where "to_int64 \<equiv> to_num ''int64''"
abbreviation to_int :: "cell \<Rightarrow> int result" where "to_int \<equiv> to_num ''int''"

definition to_ptr :: "(cell \<Rightarrow> 'a result) \<Rightarrow> cell \<Rightarrow> 'a option result" where
  "to_ptr f c = (if c = CNull then Inr None else (case f c of Inl e \<Rightarrow> Inl e | Inr x \<Rightarrow> Inr (Some x)))"

text \<open>\<open>Scan\<close> goes through the columns in order; the error names the first one that fails.\<close>

definition column :: "nat \<Rightarrow> string \<Rightarrow> (cell \<Rightarrow> 'a result) \<Rightarrow> cell list \<Rightarrow> ('a \<Rightarrow> 'b result) \<Rightarrow> 'b result" where
  "column i name f row k = (case f (row ! i) of
       Inl e \<Rightarrow> Inl (Wrap (''sql: Scan error on column index '' @ Sprint_int (int i) @ '', name '' @ Sprintf_q name) e)
     | Inr x \<Rightarrow> k x)"

definition expect :: "nat \<Rightarrow> cell list \<Rightarrow> 'b result \<Rightarrow> 'b result" where
  "expect n row k = (if length row = n then k
     else Inl (Opaque (''sql: expected '' @ Sprint_int (int (length row)) @ '' destination arguments in Scan, not '' @ Sprint_int (int n))))"

definition wrap_scan :: "string \<Rightarrow> 'a result \<Rightarrow> 'a result" where
  "wrap_scan m r = (case r of Inl e \<Rightarrow> Inl (Wrap m e) | Inr x \<Rightarrow> Inr x)"

definition scanClient_row :: "cell list \<Rightarrow> Client result" where
  "scanClient_row row = wrap_scan ''scan client'' (expect 11 row
     (column 0 ''id'' to_string row (\<lambda>i. column 1 ''display_name'' to_string row (\<lambda>dn. column 2 ''hostname'' to_string row (\<lambda>hn.
      column 3 ''root_path'' to_string row (\<lambda>rp. column 4 ''version'' to_string row (\<lambda>v. column 5 ''proto_version'' to_string row (\<lambda>pv.
      column 6 ''status'' to_string row (\<lambda>st. column 7 ''last_seen'' to_int64 row (\<lambda>ls. column 8 ''created_at'' to_int64 row (\<lambda>ca.
      column 9 ''updated_at'' to_int64 row (\<lambda>ua. column 10 ''etag'' to_int64 row (\<lambda>et.
        Inr \<lparr>c_ID = i, c_DisplayName = dn, c_Hostname = hn, c_RootPath = rp, c_Version = v, c_ProtoVersion = pv, c_Status = st,
          c_LastSeen = ls, c_CreatedAt = ca, c_UpdatedAt = ua, c_Etag = et\<rparr>)))))))))))))"

definition scanPair_row :: "cell list \<Rightarrow> SyncPair result" where
  "scanPair_row row = wrap_scan ''scan pair'' (expect 11 row
     (column 0 ''id'' to_string row (\<lambda>i. column 1 ''name'' to_string row (\<lambda>n. column 2 ''client_a_id'' to_string row (\<lambda>a.
      column 3 ''path_a'' to_string row (\<lambda>pa. column 4 ''client_b_id'' to_string row (\<lambda>b. column 5 ''path_b'' to_string row (\<lambda>pb.
      column 6 ''direction'' to_string row (\<lambda>d. column 7 ''enabled'' to_int row (\<lambda>enabled. column 8 ''created_at'' to_int64 row (\<lambda>ca.
      column 9 ''updated_at'' to_int64 row (\<lambda>ua. column 10 ''etag'' to_int64 row (\<lambda>et.
        Inr \<lparr>p_ID = i, p_Name = n, p_ClientAID = a, p_PathA = pa, p_ClientBID = b, p_PathB = pb, p_Direction = d,
          p_Enabled = (enabled \<noteq> 0), p_CreatedAt = ca, p_UpdatedAt = ua, p_Etag = et\<rparr>)))))))))))))"

definition scanFileState_row :: "cell list \<Rightarrow> FileState result" where
  "scanFileState_row row = wrap_scan ''scan file state'' (expect 9 row
     (column 0 ''pair_id'' to_string row (\<lambda>p. column 1 ''side'' to_string row (\<lambda>s. column 2 ''rel_path'' to_string row (\<lambda>r.
      column 3 ''sha256'' (to_ptr to_string) row (\<lambda>h. column 4 ''size'' (to_ptr to_int64) row (\<lambda>sz.
      column 5 ''mod_time'' (to_ptr to_int64) row (\<lambda>m. column 6 ''server_mod_time'' to_int64 row (\<lambda>sm. column 7 ''op'' to_string row (\<lambda>op.
      column 8 ''is_dir'' to_int row (\<lambda>isDir.
        Inr \<lparr>fs_PairID = p, fs_Side = s, fs_RelPath = r, fs_SHA256 = h, fs_Size = sz, fs_ModTime = m, fs_ServerModTime = sm,
          fs_Op = op, fs_IsDir = (isDir \<noteq> 0)\<rparr>)))))))))))"

definition scanSyncRun_row :: "cell list \<Rightarrow> SyncRun result" where
  "scanSyncRun_row row = wrap_scan ''scan sync run'' (expect 11 row
     (column 0 ''id'' to_int64 row (\<lambda>i. column 1 ''pair_id'' to_string row (\<lambda>p. column 2 ''src_client_id'' to_string row (\<lambda>s.
      column 3 ''dst_client_id'' to_string row (\<lambda>d. column 4 ''rel_path'' to_string row (\<lambda>r. column 5 ''sha256'' (to_ptr to_string) row (\<lambda>h.
      column 6 ''bytes'' to_int64 row (\<lambda>b. column 7 ''status'' to_string row (\<lambda>st. column 8 ''error'' (to_ptr to_string) row (\<lambda>er.
      column 9 ''started_at'' to_int64 row (\<lambda>sa. column 10 ''finished_at'' to_int64 row (\<lambda>fa.
        Inr \<lparr>sr_ID = i, sr_PairID = p, sr_SrcClientID = s, sr_DstClientID = d, sr_RelPath = r, sr_SHA256 = h, sr_Bytes = b,
          sr_Status = st, sr_Error = er, sr_StartedAt = sa, sr_FinishedAt = fa\<rparr>)))))))))))))"

definition scanAuditEntry_row :: "cell list \<Rightarrow> AuditEntry result" where
  "scanAuditEntry_row row = wrap_scan ''scan audit entry'' (expect 6 row
     (column 0 ''ts'' to_int64 row (\<lambda>t. column 1 ''kind'' to_string row (\<lambda>k. column 2 ''client_id'' (to_ptr to_string) row (\<lambda>c.
      column 3 ''pair_id'' (to_ptr to_string) row (\<lambda>p. column 4 ''rel_path'' (to_ptr to_string) row (\<lambda>r.
      column 5 ''detail'' (to_ptr to_string) row (\<lambda>d.
        Inr \<lparr>au_TS = t, au_Kind = k, au_ClientID = c, au_PairID = p, au_RelPath = r, au_Detail = d\<rparr>))))))))"

section \<open>The loops\<close>

fun scan_rows :: "(cell list \<Rightarrow> 'a result) \<Rightarrow> string \<Rightarrow> cell list list \<Rightarrow> err option \<Rightarrow> 'a list result" where
  "scan_rows scan m [] rerr = (case rerr of Some e \<Rightarrow> Inl (Wrap m e) | None \<Rightarrow> Inr [])"
| "scan_rows scan m (row # rows) rerr = (case scan row of
     Inl e \<Rightarrow> Inl e
   | Inr x \<Rightarrow> (case scan_rows scan m rows rerr of Inl e \<Rightarrow> Inl e | Inr xs \<Rightarrow> Inr (x # xs)))"

definition scanClients :: "cell list list \<Rightarrow> err option \<Rightarrow> Client list result" where
  "scanClients = scan_rows scanClient_row ''iterate clients''"

definition scanPairs :: "cell list list \<Rightarrow> err option \<Rightarrow> SyncPair list result" where
  "scanPairs = scan_rows scanPair_row ''iterate pairs''"

definition scanFileStates :: "cell list list \<Rightarrow> err option \<Rightarrow> FileState list result" where
  "scanFileStates = scan_rows scanFileState_row ''iterate file states''"

definition scanSyncRuns :: "cell list list \<Rightarrow> err option \<Rightarrow> SyncRun list result" where
  "scanSyncRuns = scan_rows scanSyncRun_row ''iterate sync runs''"

definition scanAuditEntries :: "cell list list \<Rightarrow> err option \<Rightarrow> AuditEntry list result" where
  "scanAuditEntries = scan_rows scanAuditEntry_row ''iterate audit entries''"

section \<open>The values that are bound\<close>

definition of_ptr :: "('a \<Rightarrow> cell) \<Rightarrow> 'a option \<Rightarrow> cell" where
  "of_ptr f x = (case x of None \<Rightarrow> CNull | Some y \<Rightarrow> f y)"

definition of_bool01 :: "bool \<Rightarrow> cell" where
  "of_bool01 b = CInt (if b then 1 else 0)"

definition client_args :: "Client \<Rightarrow> cell list" where
  "client_args c = [CText (c_ID c), CText (c_DisplayName c), CText (c_Hostname c), CText (c_RootPath c), CText (c_Version c),
     CText (c_ProtoVersion c), CText (c_Status c), CInt (c_LastSeen c), CInt (c_CreatedAt c), CInt (c_UpdatedAt c), CInt (c_Etag c)]"

definition pair_args :: "SyncPair \<Rightarrow> cell list" where
  "pair_args p = [CText (p_ID p), CText (p_Name p), CText (p_ClientAID p), CText (p_PathA p), CText (p_ClientBID p), CText (p_PathB p),
     CText (p_Direction p), of_bool01 (p_Enabled p), CInt (p_CreatedAt p), CInt (p_UpdatedAt p), CInt (p_Etag p)]"

definition file_state_args :: "FileState \<Rightarrow> cell list" where
  "file_state_args f = [CText (fs_PairID f), CText (fs_Side f), CText (fs_RelPath f), of_ptr CText (fs_SHA256 f), of_ptr CInt (fs_Size f),
     of_ptr CInt (fs_ModTime f), CInt (fs_ServerModTime f), CText (fs_Op f), of_bool01 (fs_IsDir f)]"

definition run_args :: "SyncRun \<Rightarrow> cell list" where
  "run_args r = [CText (sr_PairID r), CText (sr_SrcClientID r), CText (sr_DstClientID r), CText (sr_RelPath r), of_ptr CText (sr_SHA256 r),
     CInt (sr_Bytes r), CText (sr_Status r), of_ptr CText (sr_Error r), CInt (sr_StartedAt r), CInt (sr_FinishedAt r)]"

definition audit_args :: "AuditEntry \<Rightarrow> cell list" where
  "audit_args e = [CInt (au_TS e), CText (au_Kind e), of_ptr CText (au_ClientID e), of_ptr CText (au_PairID e), of_ptr CText (au_RelPath e),
     of_ptr CText (au_Detail e)]"

section \<open>What is written is read back\<close>

lemma to_ptr_of_ptr [simp]: "to_ptr to_string (of_ptr CText x) = Inr x" "to_ptr to_int64 (of_ptr CInt y) = Inr y"
  by (simp_all add: to_ptr_def of_ptr_def split: option.splits)

lemmas scan_defs = wrap_scan_def expect_def column_def

lemma scans_read_back:
  "scanClient_row (client_args c) = Inr c" "scanPair_row (pair_args p) = Inr p" "scanFileState_row (file_state_args f) = Inr f"
  "scanSyncRun_row (CInt (sr_ID r) # run_args r) = Inr r" "scanAuditEntry_row (audit_args e) = Inr e"
  by (simp_all add: scanClient_row_def scanPair_row_def scanFileState_row_def scanSyncRun_row_def scanAuditEntry_row_def scan_defs
      client_args_def pair_args_def file_state_args_def run_args_def audit_args_def of_bool01_def)

lemma scan_rows_map: "(\<And>x. scan (enc x) = Inr x) \<Longrightarrow> scan_rows scan m (map enc xs) None = Inr xs"
  by (induction xs) simp_all

lemma scan_rows_error: "\<not> isl (scan_rows scan m rows rerr) \<longleftrightarrow> rerr = None \<and> list_all (\<lambda>r. \<not> isl (scan r)) rows"
  by (induction rows) (auto split: option.splits sum.splits)

lemma scan_rows_length: "scan_rows scan m rows rerr = Inr xs \<Longrightarrow> map (Inr :: _ \<Rightarrow> _ result) xs = map scan rows"
  by (induction rows arbitrary: xs) (auto split: option.splits sum.splits)

text \<open>A query for a list: the statement, then the loop over its rows.\<close>

definition list_query ::
  "string \<Rightarrow> (database \<Rightarrow> 'a list) \<Rightarrow> ('a \<Rightarrow> cell list) \<Rightarrow> (cell list list \<Rightarrow> err option \<Rightarrow> 'a list result) \<Rightarrow> err option \<Rightarrow>
    'z st_scheme \<Rightarrow> 'a list result \<times> 'z st_scheme" where
  "list_query m select enc scans rerr w = (case query (\<lambda>d. map enc (select d)) w of
       (Inl e, w1) \<Rightarrow> (Inl (Wrap m e), w1)
     | (Inr rows, w1) \<Rightarrow> (scans rows rerr, w1))"

lemma list_query_refines:
  assumes "\<And>x. scan (enc x) = Inr x" "scans = scan_rows scan m1"
  shows "wrap_err m (query select w) = list_query m select enc scans None w"
  using scan_rows_map [of scan enc m1 "select (db w)", OF assms(1)]
  by (auto simp: list_query_def query_def exec_def assms(2) split: option.splits)

text \<open>
  C15. The lists of the store are the loops over the driver's rows: when every row was written by the
  statements of the store and the iteration ends without an error, each list query returns what the code
  reads row by row, with its NULLs, its booleans and its times.
\<close>

theorem store_lists_refine:
  "ListClients w = list_query ''list clients'' (\<lambda>d. sort_key c_CreatedAt (clients d)) client_args scanClients None w \<and>
   ListPairs w = list_query ''list pairs'' (\<lambda>d. sort_key p_CreatedAt (sync_pairs d)) pair_args scanPairs None w \<and>
   ListPairsForClient cid w = list_query ''list pairs for client'' (pairs_for_client cid) pair_args scanPairs None w \<and>
   ListFileStates pid side w = list_query ''list file states'' (file_states_of pid side) file_state_args scanFileStates None w \<and>
   ListRecentSyncRuns pid n w = list_query ''list recent sync runs'' (recent_runs pid n) (\<lambda>r. CInt (sr_ID r) # run_args r) scanSyncRuns None w \<and>
   ListRecentAuditLog n w =
     list_query ''list recent audit log'' (\<lambda>d. limit_rows n (sort_key (\<lambda>e. - au_TS e) (audit_log d))) audit_args scanAuditEntries None w"
  unfolding ListClients_def ListPairs_def ListPairsForClient_def ListFileStates_def ListRecentSyncRuns_def ListRecentAuditLog_def
    scanClients_def scanPairs_def scanFileStates_def scanSyncRuns_def scanAuditEntries_def
  by (intro conjI list_query_refines [OF scans_read_back(1) refl] list_query_refines [OF scans_read_back(2) refl]
      list_query_refines [OF scans_read_back(3) refl] list_query_refines [OF scans_read_back(4) refl] list_query_refines [OF scans_read_back(5) refl])

text \<open>
  A list is complete or an error: a loop that returns a list has read every row of the query, in order, and
  the iteration ended without an error.
\<close>

theorem lists_all_or_nothing:
  "scan_rows scan m rows rerr = Inr xs \<longleftrightarrow> rerr = None \<and> map (Inr :: _ \<Rightarrow> _ result) xs = map scan rows"
proof
  assume s: "scan_rows scan m rows rerr = Inr xs"
  then show "rerr = None \<and> map (Inr :: _ \<Rightarrow> _ result) xs = map scan rows"
    using scan_rows_error [of scan m rows rerr] scan_rows_length [OF s] by simp
next
  assume "rerr = None \<and> map (Inr :: _ \<Rightarrow> _ result) xs = map scan rows"
  then show "scan_rows scan m rows rerr = Inr xs"
    by (induction rows arbitrary: xs) (auto dest!: sym [of "Inr _" "scan _"])
qed

end
