(* ===== verification/CaseCheck.thy ===== *)
theory CaseCheck
  imports EndToEnd
begin

text \<open>
  Whether a file system tells upper from lower case (\<open>CheckCaseInsensitive\<close> of
  \<open>internal/clientfs/jail.go\<close>). The check creates two temporary files in the root of the jail. How the
  file system writes a name down is a parameter: the identity where case matters, and \<open>ToLower\<close>, for
  instance, where it does not; as the names of the model are those on disk, each call first applies it.
\<close>

section \<open>The check\<close>

definition on_disk :: "(string \<Rightarrow> string) \<Rightarrow> apath \<Rightarrow> apath" where
  "on_disk canon p = butlast p @ [canon (last p)]"

text \<open>\<open>O_CREATE\<close> with \<open>O_EXCL\<close>: a name that is taken, even by a link, is an error.\<close>

definition os_CreateExcl :: "apath \<Rightarrow> cfs \<Rightarrow> unit result \<times> cfs" where
  "os_CreateExcl p f = (case namei False True f p of
       Inl e \<Rightarrow> (Inl e, f)
     | Inr q \<Rightarrow> (case lookup f q of
         Inr _ \<Rightarrow> (Inl EEXIST, f)
       | Inl e \<Rightarrow> if e \<noteq> ErrNotExist then (Inl e, f)
           else (case sys_call f of (Inl e, f1) \<Rightarrow> (Inl e, f1) | (Inr _, f1) \<Rightarrow> (Inr (), put_node q (File []) f1))))"

definition lowerName :: "int \<Rightarrow> string" where
  "lowerName pid = ''.axion-case-'' @ Sprint_int pid @ ''.tmp''"

definition upperName :: "int \<Rightarrow> string" where
  "upperName pid = ''.AXION-CASE-'' @ Sprint_int pid @ ''.TMP''"

definition CheckCaseInsensitive :: "(string \<Rightarrow> string) \<Rightarrow> int \<Rightarrow> Jail \<Rightarrow> cfs \<Rightarrow> bool result \<times> cfs" where
  "CheckCaseInsensitive canon pid j f =
     (let lowerPath = on_disk canon (jail_root j @ [lowerName pid]); upperPath = on_disk canon (jail_root j @ [upperName pid]) in
      case os_CreateExcl lowerPath f of
        (Inl e, f1) \<Rightarrow> (Inl (Wrap ''clientfs: case check create lower'' e), f1)
      | (Inr _, f1) \<Rightarrow>
          (case (case os_CreateExcl upperPath f1 of
             (Inl e, f2) \<Rightarrow> (if e = EEXIST then Inr True else Inl (Wrap ''clientfs: case check create upper'' e), f2)
           | (Inr _, f2) \<Rightarrow>
              (case os_StatF f2 lowerPath of
                 Inl e \<Rightarrow> Inl (Wrap ''clientfs: case check stat lower'' e)
               | Inr _ \<Rightarrow> (case os_StatF f2 upperPath of
                   Inl e \<Rightarrow> Inl (Wrap ''clientfs: case check stat upper'' e)
                 | Inr _ \<Rightarrow> Inr (namei True False f2 lowerPath = namei True False f2 upperPath)),
               snd (os_RemoveF upperPath f2))) of
             (r, f3) \<Rightarrow> (r, snd (os_RemoveF lowerPath f3))))"

section \<open>The calls on a directory that works\<close>

definition working :: "apath \<Rightarrow> cfs \<Rightarrow> bool" where
  "working d f \<longleftrightarrow> real_dir f d \<and> list_all proper d \<and> (\<forall>k. cs_fail f k = None)"

definition missing :: "apath \<Rightarrow> cfs \<Rightarrow> bool" where
  "missing p f \<longleftrightarrow> lookup f p = Inl ErrNotExist"

text \<open>The file system after an empty file has been created.\<close>

definition created :: "apath \<Rightarrow> cfs \<Rightarrow> cfs" where
  "created p f = put_node p (File []) (f\<lparr>cs_calls := Suc (cs_calls f)\<rparr>)"

lemma missing_node: "missing p f \<longleftrightarrow> p \<noteq> [] \<and> p \<notin> set (cs_deny f) \<and> map_of (cs_nodes f) p = None"
  by (auto simp: missing_def lookup_def ErrNotExist_def EACCES_def split: option.splits)

lemma lookup_created:
  "missing (d @ [c]) f \<Longrightarrow> lookup (created (d @ [c]) f) q =
    (if q = d @ [c] then Inr \<lparr>n_kind = File [], n_mtime = cs_time f (Suc (cs_calls f))\<rparr> else lookup f q)"
  by (simp add: created_def lookup_put_node missing_node)

lemma created_simps [simp]:
  "cs_fail (created p f) = cs_fail f" "cs_deny (created p f) = cs_deny f"
  "cs_nodes (created p f) = AList.update p \<lparr>n_kind = File [], n_mtime = cs_time f (Suc (cs_calls f))\<rparr> (cs_nodes f)"
  by (simp_all add: created_def put_node_def)

lemma working_created: "working d f \<Longrightarrow> missing (d @ [c]) f \<Longrightarrow> working d (created (d @ [c]) f)"
  unfolding working_def by (auto intro!: real_dir_cong [of d "created (d @ [c]) f" f] simp: lookup_created prefix_def)

lemma CreateExcl_missing:
  "working d f \<Longrightarrow> proper c \<Longrightarrow> missing (d @ [c]) f \<Longrightarrow> os_CreateExcl (d @ [c]) f = (Inr (), created (d @ [c]) f)"
  by (simp add: os_CreateExcl_def working_def missing_def namei_create sys_call_ok created_def)

lemma file_real:
  assumes "working d f" "proper c" "lookup f (d @ [c]) = Inr nd" "\<not> is_link (n_kind nd)"
  shows "namei flw create f (d @ [c]) = Inr (d @ [c])"
  using assms by (intro namei_real) (auto simp: working_def real_snoc)

lemma CreateExcl_taken:
  assumes "working d f" "proper c" "lookup f (d @ [c]) = Inr nd" "\<not> is_link (n_kind nd)"
  shows "os_CreateExcl (d @ [c]) f = (Inl EEXIST, f)"
  using assms(3) file_real [OF assms] by (simp add: os_CreateExcl_def)

lemma delete_update_new: "map_of xs k = None \<Longrightarrow> AList.delete k (AList.update k v xs) = xs"
  by (induction xs) (auto simp: AList.delete_eq split: if_splits)

lemma Remove_file:
  assumes "working d f" "proper c" "lookup f (d @ [c]) = Inr nd" "n_kind nd = File bs"
  shows "os_RemoveF (d @ [c]) f = (Inr (), drop_node (d @ [c]) (f\<lparr>cs_calls := Suc (cs_calls f)\<rparr>))"
  using assms file_real [OF assms(1-3)] by (simp add: os_RemoveF_def sys_call_ok working_def)

lemma Remove_created:
  assumes "working d f" "proper c" "missing (d @ [c]) f"
  shows "cs_nodes (snd (os_RemoveF (d @ [c]) (created (d @ [c]) f))) = cs_nodes f"
proof -
  have "os_RemoveF (d @ [c]) (created (d @ [c]) f) =
      (Inr (), drop_node (d @ [c]) ((created (d @ [c]) f)\<lparr>cs_calls := Suc (cs_calls (created (d @ [c]) f))\<rparr>))"
    using Remove_file [OF working_created [OF assms(1,3)] assms(2)] by (simp add: lookup_created [OF assms(3)])
  then show ?thesis using assms(3) by (simp add: drop_node_def delete_update_new missing_node)
qed

lemma names_differ: "lowerName pid \<noteq> upperName pid"
  by (simp add: lowerName_def upperName_def)

lemma names_fold: "ToLower (lowerName pid) = ToLower (upperName pid)"
proof -
  have "ToLower ''.axion-case-'' = ToLower ''.AXION-CASE-''" "ToLower ''.tmp'' = ToLower ''.TMP''" by code_simp+
  then show ?thesis by (simp add: lowerName_def upperName_def ToLower_def)
qed

section \<open>What the check finds out\<close>

text \<open>
  On a working directory in which no temporary file is left over, the check answers whether the two names
  are one on disk, whatever the file system does with names, and leaves the files as they were.
\<close>

theorem case_check_exact:
  assumes "working (jail_root j) f" "proper (canon (lowerName pid))" "proper (canon (upperName pid))"
    and "missing (jail_root j @ [canon (lowerName pid)]) f" "missing (jail_root j @ [canon (upperName pid)]) f"
  shows "fst (CheckCaseInsensitive canon pid j f) = Inr (canon (lowerName pid) = canon (upperName pid)) \<and>
    cs_nodes (snd (CheckCaseInsensitive canon pid j f)) = cs_nodes f"
proof -
  let ?d = "jail_root j" and ?l = "canon (lowerName pid)" and ?u = "canon (upperName pid)"
  let ?f1 = "created (?d @ [?l]) f"
  have w1: "working ?d ?f1" by (rule working_created [OF assms(1,4)])
  have l1: "lookup ?f1 (?d @ [?l]) = Inr \<lparr>n_kind = File [], n_mtime = cs_time f (Suc (cs_calls f))\<rparr>"
    by (simp add: lookup_created [OF assms(4)])
  have c1: "os_CreateExcl (?d @ [?l]) f = (Inr (), ?f1)" by (rule CreateExcl_missing [OF assms(1,2,4)])
  have rm: "cs_nodes (snd (os_RemoveF (?d @ [?l]) ?f1)) = cs_nodes f" by (rule Remove_created [OF assms(1,2,4)])
  show ?thesis
  proof (cases "?l = ?u")
    case True
    have "os_CreateExcl (?d @ [?u]) ?f1 = (Inl EEXIST, ?f1)"
      using CreateExcl_taken [OF w1 assms(2) l1] True by simp
    then show ?thesis using c1 rm True by (simp add: CheckCaseInsensitive_def on_disk_def Let_def)
  next
    case False
    let ?f2 = "created (?d @ [?u]) ?f1"
    have m: "missing (?d @ [?u]) ?f1" using assms(5) False by (simp add: missing_def lookup_created [OF assms(4)])
    have c2: "os_CreateExcl (?d @ [?u]) ?f1 = (Inr (), ?f2)" by (rule CreateExcl_missing [OF w1 assms(3) m])
    have w2: "working ?d ?f2" by (rule working_created [OF w1 m])
    have l2: "lookup ?f2 (?d @ [?l]) = Inr \<lparr>n_kind = File [], n_mtime = cs_time f (Suc (cs_calls f))\<rparr>"
      "\<exists>t. lookup ?f2 (?d @ [?u]) = Inr \<lparr>n_kind = File [], n_mtime = t\<rparr>" using False l1 by (simp_all add: lookup_created [OF m])
    then obtain t where t: "lookup ?f2 (?d @ [?u]) = Inr \<lparr>n_kind = File [], n_mtime = t\<rparr>" by blast
    have n: "namei flw create ?f2 (?d @ [?l]) = Inr (?d @ [?l])" "namei flw create ?f2 (?d @ [?u]) = Inr (?d @ [?u])" for flw create
      using file_real [OF w2 assms(2) l2(1)] file_real [OF w2 assms(3) t] by simp_all
    let ?f3 = "snd (os_RemoveF (?d @ [?u]) ?f2)"
    have r: "?f3 = drop_node (?d @ [?u]) (?f2\<lparr>cs_calls := Suc (cs_calls ?f2)\<rparr>)"
      using Remove_file [OF w2 assms(3) t] by simp
    have n3: "cs_nodes ?f3 = cs_nodes ?f1" by (rule Remove_created [OF w1 assms(3) m])
    have k3: "lookup ?f3 = lookup ?f1" using n3 by (intro ext) (simp add: r lookup_def drop_node_def)
    have w3: "working ?d ?f3" using w1 real_dir_cong [of ?d ?f3 ?f1] k3 by (simp add: working_def r drop_node_def)
    have "os_RemoveF (?d @ [?l]) ?f3 = (Inr (), drop_node (?d @ [?l]) (?f3\<lparr>cs_calls := Suc (cs_calls ?f3)\<rparr>))"
      using Remove_file [OF w3 assms(2)] by (simp add: k3 l1)
    then have "cs_nodes (snd (os_RemoveF (?d @ [?l]) ?f3)) = cs_nodes f"
      using n3 assms(4) by (simp add: drop_node_def delete_update_new missing_node)
    then show ?thesis using c1 c2 n l2(1) t False by (simp add: CheckCaseInsensitive_def on_disk_def Let_def os_stat_def)
  qed
qed

definition demo_case_fs :: cfs where
  "demo_case_fs = \<lparr>cs_nodes = [([''home''], \<lparr>n_kind = Dir 0, n_mtime = 0\<rparr>)], cs_deny = [], cs_fail = (\<lambda>_. None), cs_time = int, cs_calls = 0\<rparr>"

theorem case_check_exact_witness:
  "fst (CheckCaseInsensitive id 7 \<lparr>jail_root = [''home'']\<rparr> demo_case_fs) = Inr False \<and>
   fst (CheckCaseInsensitive ToLower 7 \<lparr>jail_root = [''home'']\<rparr> demo_case_fs) = Inr True"
proof -
  let ?j = "\<lparr>jail_root = [''home'']\<rparr>"
  have "real_dir demo_case_fs ([] @ [''home''])"
    unfolding real_dir_snoc by (simp add: dir_at_def demo_case_fs_def lookup_def)
  moreover have "proper ''home''" by code_simp
  ultimately have w: "working (jail_root ?j) demo_case_fs" by (simp add: working_def demo_case_fs_def)
  have m: "missing (jail_root ?j @ [c]) demo_case_fs" for c by (simp add: missing_node demo_case_fs_def)
  have "proper (id (lowerName 7))" "proper (id (upperName 7))" "proper (ToLower (lowerName 7))" "proper (ToLower (upperName 7))" by code_simp+
  with case_check_exact [OF w _ _ m m, of id 7] case_check_exact [OF w _ _ m m, of ToLower 7]
  show ?thesis using names_differ [of 7] names_fold [of 7] by simp
qed

text \<open>
  A file that an earlier check could not remove is enough for a wrong answer: where case matters, the upper
  name being taken is read as the lower one being it.
\<close>

theorem leftover_misreported:
  assumes "working (jail_root j) f" "missing (jail_root j @ [lowerName pid]) f"
    and "lookup f (jail_root j @ [upperName pid]) = Inr nd" "\<not> is_link (n_kind nd)" "proper (lowerName pid)" "proper (upperName pid)"
  shows "fst (CheckCaseInsensitive id pid j f) = Inr True"
proof -
  let ?f1 = "created (jail_root j @ [lowerName pid]) f"
  have "lookup ?f1 (jail_root j @ [upperName pid]) = Inr nd"
    using assms(3) names_differ [of pid] by (simp add: lookup_created [OF assms(2)])
  then show ?thesis
    using CreateExcl_missing [OF assms(1,5,2)] CreateExcl_taken [OF working_created [OF assms(1,2)] assms(6) _ assms(4)]
    by (simp add: CheckCaseInsensitive_def on_disk_def Let_def split: prod.splits)
qed

end
