(* ===== verification/Spec2Isabelle.thy ===== *)
theory Spec2Isabelle
  imports ClientServer Scheduler Pipeline LargeDir Cmd Rows CaseCheck
begin

text \<open>
  Axion keeps directories of several machines in step through one server. This development models its
  Go program (\<open>src/internal\<close>, \<open>src/cmd\<close> and \<open>src/pkg\<close>) and proves what makes it correct.

  \<^bold>\<open>The program.\<close> A client watches its directory (watcher), uploads the contents of a changed file as a
  blob named by its SHA-256 (transfer, HTTP) and reports the change over a WebSocket. The server
  (hub) routes the report to the sync engine, which keeps one row per pair, side and path in its tables
  (store), decides by modification times (lww) and sends commands to the other client (fetch, rename,
  delete). That client downloads the blob into its directory, which it cannot leave (jail), marks the
  path so that its own watcher does not report the write back (suppressor), and acknowledges. When a
  client connects it is sent its subscriptions and its files are listed and compared with the table
  (diff). A collector removes blobs no row refers to. Pages for the administrator edit clients, pairs
  and settings and push changes to open browsers.

  \<^bold>\<open>Theories and sources\<close> (paths below \<open>src/internal\<close>; definitions carry the names of the code, with a
  prefix where a name clashes):
  \<^item> Prelude, Proto: errors, 64-bit wrap-around, Go's string functions; \<open>proto/\<close> (messages and their JSON).
  \<^item> LwwRegister, Store, Rows, Migrations: \<open>server/store/\<close>, the tables with conflict clauses, keys, cascades
    and failing statements, the loops over the rows of the driver, and the migration loop.
  \<^item> Sender, Hub, Wire: \<open>server/hub/\<close>, the connections and waiting requests as a step relation, the text of
    a message and the loops of a connection; the locale of Sender is what the engine needs of a hub.
  \<^item> Lww, Engine, SyncHub, Diff, Subscriber, Scheduler: \<open>server/syncengine/\<close>; SyncHub runs the engine on
    the hub. Nothing constructs the scheduler, so no other theory uses it.
  \<^item> Blobstore, BlobGC: \<open>server/blobstore/\<close> over a file system whose calls may fail.
  \<^item> Http, WsHandler, Mux: \<open>server/http/\<close> and the \<open>ServeMux\<close> of net/http.
  \<^item> Web, Admin, Broadcast: \<open>server/web/\<close>, the pages and their live updates.
  \<^item> ServerApp, Server, System, Startup: \<open>server/app/app.go\<close>; the router, the callbacks of the hub, the
    whole server as a transition system, and its start, stop and restarts on one disk.
  \<^item> Paths, ClientFS, Jail, CaseCheck: \<open>clientfs/\<close> over a file system with symbolic links.
  \<^item> Suppress, Subscription, Runner: \<open>client/runner/\<close>; Watcher, WatchRun: \<open>watcher/\<close>; Pipeline: the goroutines
    of a runner from the notification to the network; BlobTransfer: \<open>client/transfer/\<close>;
    ClientConn: \<open>client/conn/\<close>; ClientApp: \<open>client/app/app.go\<close>; ClientStart: its start and \<open>client/id/\<close>.
  \<^item> EndToEnd, ClientServer, FullSync, Listing, LargeDir: both programs together.
  \<^item> Cmd: \<open>cmd/axion\<close>, flags and exit codes, and \<open>pkg/logctx\<close>.

  \<^bold>\<open>What the groups of lemmas show.\<close>
  \<^item> Composition (Pipeline, FullSync, Listing, LargeDir, EndToEnd): a file-system notification of a written file
    brings its contents to the peer, which acknowledges them; a registering client reads the stored settings;
    an upload followed by a download returns the contents; a listing through the server is exact and stays
    inside the root; a snapshot that exceeds the message limit disconnects its client.
  \<^item> Goroutines (Pipeline): in any interleaving no change is lost, invented or reordered between the watcher
    and the network, and the runner is where the handled changes and the other steps have brought it; every
    report goes back to a watcher event, a subscription held at that time and a hash that was read; what was
    noticed can be handled.
  \<^item> The server (System, Startup): every state that is reached in any process on a disk has well-formed
    tables, a reachable hub, blobs with their hash and bounded queues; every message it sends is one its
    client accepts; requests without the key, or the form's token and the administrator's
    credentials where they are configured, change nothing but the audit log.
  \<^item> Decisions (SyncHub, Lww): mirror pairs of both directions relay in order and only from their source,
    conflicts keep both files, in a bidirectional pair a deletion loses to an edit, one event only touches its own pair and path, the table follows the last event
    from the start on.
  \<^item> Tables (Store, Rows, LwwRegister, Migrations): keys and references hold; the row of a file is the first
    of its updates with the greatest stamp; the lists are what the code reads row by row; restarts run every
    script once; an edit that reads a pair after another edit from the same version has written is refused.
  \<^item> Hub: at most one open connection per client, answering a request never blocks.
  \<^item> Scheduler: limits and exclusion of jobs, and that all of them end with nothing held.
  \<^item> Blobs (Blobstore, BlobGC, Http): hashes are right, ranges compose, referenced blobs stay, quotas hold for
    uploads in one request.
  \<^item> Client (Jail, Runner, Suppress, Subscription, Watcher, ClientConn): changes stay inside the root,
    acknowledgements are truthful, fetched files are not echoed, listings are exact, the reconnection loop
    returns when it is cancelled, the identifier of a client stays, its key must be that of the server, a
    start watches exactly the directories that are not ignored; flags in any order reach the programs (Cmd).
  \<^item> Behaviour that is proved as it is, although it is hardly meant: an unreadable directory deletes every
    file, a failed start of a runner is final, a stopped one still reports, deleting a pair notifies nobody, a late disconnection makes a connected client deletable, an old
    runner echoes after a reconnection, a large age setting overflows, a blank key file opens the server, a
    failed write of the identifier locks the client out, of two edits of a pair that overlap one is lost, a file
    uploaded in ranges is not bounded by the limits.

  \<^bold>\<open>State and effects.\<close> Structs are records, errors are values of \<open>err\<close> with wrapping, every fallible call
  returns a sum. A store, file system or blob store carries a function from its call counter to an optional
  error, so every theorem about it covers every pattern of failing calls unless it assumes none. The state
  of the server is a \<open>world\<close> with the tables, the log of sent messages or the hub, and the clock of each
  statement. Other goroutines that use the hub while a request waits are a function argument that may do any
  steps of the hub. Integers of type \<open>int64\<close> are wrapped with \<open>wrap64\<close> wherever the code computes with them.

  \<^bold>\<open>Atomic steps.\<close> A request is one step of the server's transition system, and so are a tick of the collector
  (collecting the references and removing), and creating a connection with its registration. Where the
  code lets others in between and it matters, the halves are definitions of their own: \<open>handlePairUpdate\<close> is a
  read and a write, a request that waits for a client has its begin and end, and the goroutines of a client
  runner take one channel operation at a time. A write to a file that fails writes nothing.

  \<^bold>\<open>Bounds and fuel.\<close> Path resolution follows at most 255 links in \<open>EvalSymlinks\<close> and 40 in the kernel, the
  bounds of Go and Linux, after which it fails. The directory scan recurses to the depth limit
  \<open>maxScanDepth\<close> = 32 of the code, and removes one level per call, so the fuel is the limit itself. The
  watcher's walk has one level more than the longest path of the file system, which \<open>Start_watches\<close> shows to
  be enough. A message has at most 64 KB, and 624 hashed files exceed it, as each takes 105 bytes. The
  watcher's channel holds 100 events and a page's queue 16 messages, as in the code. The reconnection loop
  is a \<open>partial_function\<close>, and \<open>Run_returns\<close> proves that it returns once the context is cancelled.

  \<^bold>\<open>Parameters.\<close> SHA-256, the random source, \<open>url.Parse\<close>, uuid, semaphores, execution of an SQL script, the HTTP round
  trip (instantiated by the server's own handler in EndToEnd), parsing a JSON text, the answers of fsnotify and
  the WebSocket library are arguments.
  Strings are valid UTF-8 and the nil slice is the empty list; both encode as the code's clients read them.

  \<^bold>\<open>Not modelled.\<close> The records that are logged and \<open>AccessLog\<close>, which only logs; fsnotify itself and the
  order in which goroutines are scheduled, except where a step relation or an argument covers it; the
  byte-level JSON parser and html/template (libraries); the delivery of signals and the goroutine of the
  listener; folding of names, which are case-sensitive everywhere but in CaseCheck. A process is killed
  between two of its steps, not within one.
\<close>

end
